(* ===== verification/Go_Prelude.thy ===== *)
theory Go_Prelude
  imports Main "HOL-Library.AList" "HOL-Library.Word"
begin

text \<open>
  The prelude of the development: the part of Go's standard library that the servers use
  (\<^verbatim>\<open>strings\<close>, \<^verbatim>\<open>strconv\<close>, maps, time), the fact collections of the component theories,
  and the generic locales shared by several components.

  A Go \<^verbatim>\<open>string\<close> is a sequence of bytes, here a \<^typ>\<open>string\<close>. Case mapping and white space are
  those of ASCII: the code applies them to node ids, roles, header keys and hex strings.
  A Go map is an association list with distinct keys (\<open>wf_map\<close>), so that ranging over
  it and counting its entries stay executable; no result below depends on the order of the
  entries. A \<^verbatim>\<open>time.Time\<close> is the number of nanoseconds since Go's zero time, a
  \<^verbatim>\<open>time.Duration\<close> a number of nanoseconds.
\<close>

named_theorems go_defs \<open>definitions of the string and number functions\<close>
named_theorems step_defs \<open>definitions of the operations of the components\<close>
named_theorems inv_intro \<open>preservation of the component invariants\<close>


section \<open>Bytes, case and white space\<close>

definition is_space :: "char \<Rightarrow> bool" where [go_defs]:
  "is_space c \<longleftrightarrow> c \<in> {CHR 0x09, CHR 0x0A, CHR 0x0B, CHR 0x0C, CHR 0x0D, CHR '' ''}"

definition lower_char :: "char \<Rightarrow> char" where [go_defs]:
  "lower_char c = (let n = of_char c :: nat in if 65 \<le> n \<and> n \<le> 90 then char_of (n + 32) else c)"

definition upper_char :: "char \<Rightarrow> char" where [go_defs]:
  "upper_char c = (let n = of_char c :: nat in if 97 \<le> n \<and> n \<le> 122 then char_of (n - 32) else c)"

definition to_lower :: "string \<Rightarrow> string" where [go_defs]:
  "to_lower s = map lower_char s"

definition to_upper :: "string \<Rightarrow> string" where [go_defs]:
  "to_upper s = map upper_char s"

definition equal_fold :: "string \<Rightarrow> string \<Rightarrow> bool" where [go_defs]:
  "equal_fold a b \<longleftrightarrow> to_lower a = to_lower b"

definition trim_left :: "(char \<Rightarrow> bool) \<Rightarrow> string \<Rightarrow> string" where [go_defs]:
  "trim_left P s = dropWhile P s"

definition trim_right :: "(char \<Rightarrow> bool) \<Rightarrow> string \<Rightarrow> string" where [go_defs]:
  "trim_right P s = rev (dropWhile P (rev s))"

definition trim_space :: "string \<Rightarrow> string" where [go_defs]:
  "trim_space s = trim_right is_space (trim_left is_space s)"

lemma lower_char_idem [simp]: "lower_char (lower_char c) = lower_char c"
  by (auto simp: lower_char_def Let_def)

lemma upper_char_idem [simp]: "upper_char (upper_char c) = upper_char c"
  by (auto simp: upper_char_def Let_def)

lemma to_lower_idem [simp]: "to_lower (to_lower s) = to_lower s"
  by (simp add: to_lower_def)

lemma to_upper_idem [simp]: "to_upper (to_upper s) = to_upper s"
  by (simp add: to_upper_def)

lemma to_lower_Nil [simp]: "to_lower [] = []" and to_lower_eq_Nil [simp]: "to_lower s = [] \<longleftrightarrow> s = []"
  by (auto simp: to_lower_def)

lemma to_lower_append [simp]: "to_lower (a @ b) = to_lower a @ to_lower b"
  by (simp add: to_lower_def)

lemma length_to_lower [simp]: "length (to_lower s) = length s"
  by (simp add: to_lower_def)

lemma lower_char_eq_colon [simp]: "lower_char c = CHR '':'' \<longleftrightarrow> c = CHR '':''"
proof
  assume *: "lower_char c = CHR '':''"
  show "c = CHR '':''"
  proof (cases "65 \<le> (of_char c :: nat) \<and> (of_char c :: nat) \<le> 90")
    case True
    with * have "char_of (of_char c + 32 :: nat) = CHR '':''" by (simp add: lower_char_def Let_def)
    then have "of_char (char_of (of_char c + 32 :: nat)) = (of_char CHR '':'' :: nat)" by simp
    with True show ?thesis by simp
  next
    case False
    with * show ?thesis by (auto simp: lower_char_def Let_def)
  qed
qed (simp add: lower_char_def)

lemma upper_char_eq_colon [simp]: "upper_char c = CHR '':'' \<longleftrightarrow> c = CHR '':''"
proof
  assume *: "upper_char c = CHR '':''"
  show "c = CHR '':''"
  proof (cases "97 \<le> (of_char c :: nat) \<and> (of_char c :: nat) \<le> 122")
    case True
    with * have "char_of (of_char c - 32 :: nat) = CHR '':''" by (simp add: upper_char_def Let_def)
    then have "of_char (char_of (of_char c - 32 :: nat)) = (of_char CHR '':'' :: nat)" by simp
    moreover from True have "(of_char c - 32 :: nat) < 256" by linarith
    ultimately have "(of_char c :: nat) - 32 = 58" by simp
    with True show ?thesis by linarith
  next
    case False
    with * show ?thesis by (auto simp: upper_char_def Let_def)
  qed
qed (simp add: upper_char_def)

lemma equal_fold_refl [simp]: "equal_fold s s"
  by (simp add: equal_fold_def)

lemma trim_right_Nil [simp]: "trim_right P [] = []"
  by (simp add: trim_right_def)

lemma trim_left_id: "(s = [] \<or> \<not> P (hd s)) \<Longrightarrow> trim_left P s = s"
  by (cases s) (auto simp: trim_left_def)

lemma trim_right_id: "(s = [] \<or> \<not> P (last s)) \<Longrightarrow> trim_right P s = s"
  by (cases s rule: rev_cases) (auto simp: trim_right_def)

lemma trim_space_id: "\<forall>c\<in>set s. \<not> is_space c \<Longrightarrow> trim_space s = s"
  by (cases "s = []") (simp_all add: trim_space_def trim_left_id trim_right_id)


section \<open>Searching and splitting\<close>

definition has_prefix :: "string \<Rightarrow> string \<Rightarrow> bool" where [go_defs]:
  "has_prefix s p \<longleftrightarrow> take (length p) s = p"

definition has_suffix :: "string \<Rightarrow> string \<Rightarrow> bool" where [go_defs]:
  "has_suffix s p \<longleftrightarrow> has_prefix (rev s) (rev p)"

definition trim_prefix :: "string \<Rightarrow> string \<Rightarrow> string" where [go_defs]:
  "trim_prefix s p = (if has_prefix s p then drop (length p) s else s)"

definition trim_suffix :: "string \<Rightarrow> string \<Rightarrow> string" where [go_defs]:
  "trim_suffix s p = (if has_suffix s p then take (length s - length p) s else s)"

fun contains :: "string \<Rightarrow> string \<Rightarrow> bool" where
  "contains [] p = (p = [])"
| "contains (c # s) p = (has_prefix (c # s) p \<or> contains s p)"

text \<open>\<^verbatim>\<open>strings.IndexByte\<close>, with \<^const>\<open>None\<close> for -1.\<close>

fun index_byte :: "string \<Rightarrow> char \<Rightarrow> nat option" where
  "index_byte [] c = None"
| "index_byte (x # xs) c = (if x = c then Some 0 else map_option Suc (index_byte xs c))"

text \<open>\<^verbatim>\<open>strings.Cut\<close> at a one-byte separator.\<close>

definition cut :: "string \<Rightarrow> char \<Rightarrow> string \<times> string \<times> bool" where [go_defs]:
  "cut s c = (case index_byte s c of None \<Rightarrow> (s, [], False) | Some i \<Rightarrow> (take i s, drop (Suc i) s, True))"

text \<open>\<^verbatim>\<open>strings.Split\<close> at the bytes that satisfy \<open>P\<close> (a one-byte separator): never empty.\<close>

fun split_at :: "(char \<Rightarrow> bool) \<Rightarrow> string \<Rightarrow> string list" where
  "split_at P [] = [[]]"
| "split_at P (x # xs) =
     (if P x then [] # split_at P xs
      else (case split_at P xs of [] \<Rightarrow> [[x]] | w # ws \<Rightarrow> (x # w) # ws))"

definition split :: "string \<Rightarrow> char \<Rightarrow> string list" where [go_defs]:
  "split s c = split_at (\<lambda>x. x = c) s"

definition fields :: "string \<Rightarrow> string list" where [go_defs]:
  "fields s = filter (\<lambda>w. w \<noteq> []) (split_at is_space s)"

fun join :: "string \<Rightarrow> string list \<Rightarrow> string" where
  "join sep [] = []"
| "join sep [x] = x"
| "join sep (x # y # ys) = x @ sep @ join sep (y # ys)"

lemma has_prefix_append [simp]: "has_prefix (p @ s) p"
  by (simp add: has_prefix_def)

lemma has_prefix_iff: "has_prefix s p \<longleftrightarrow> (\<exists>t. s = p @ t)"
  by (auto simp: has_prefix_def) (metis append_take_drop_id)

lemma trim_prefix_append [simp]: "trim_prefix (p @ s) p = s"
  by (simp add: trim_prefix_def)

lemma index_byte_None [simp]: "index_byte s c = None \<longleftrightarrow> c \<notin> set s"
  by (induction s) auto

lemma index_byte_append: "c \<notin> set a \<Longrightarrow> index_byte (a @ c # b) c = Some (length a)"
  by (induction a) auto

lemma append_sep_eq:
  "c \<notin> set a \<Longrightarrow> c \<notin> set a' \<Longrightarrow> a @ c # b = a' @ c # b' \<longleftrightarrow> a = a' \<and> b = b'"
proof (induction a arbitrary: a')
  case Nil
  then show ?case by (cases a') auto
next
  case (Cons x a)
  then show ?case by (cases a') auto
qed

lemma index_byte_SomeD:
  "index_byte s c = Some i \<Longrightarrow> s = take i s @ c # drop (Suc i) s \<and> c \<notin> set (take i s) \<and> i < length s"
proof (induction s arbitrary: i)
  case Nil
  then show ?case by simp
next
  case (Cons x xs)
  then show ?case by (cases "x = c") (auto split: option.splits)
qed

lemma split_at_not_Nil [simp]: "split_at P s \<noteq> []"
  by (induction s) (auto split: list.splits)

lemma split_at_none: "\<forall>c\<in>set s. \<not> P c \<Longrightarrow> split_at P s = [s]"
  by (induction s) auto

lemma split_at_sep: "\<forall>c\<in>set a. \<not> P c \<Longrightarrow> P x \<Longrightarrow> split_at P (a @ x # b) = a # split_at P b"
  by (induction a) auto

lemma split_not_Nil [simp]: "split s c \<noteq> []"
  by (simp add: split_def)

lemma split_none: "c \<notin> set s \<Longrightarrow> split s c = [s]"
  by (auto simp: split_def intro: split_at_none)

lemma split_append: "c \<notin> set a \<Longrightarrow> split (a @ c # b) c = a # split b c"
  unfolding split_def by (rule split_at_sep) auto

lemma split_join:
  "ws \<noteq> [] \<Longrightarrow> \<forall>w\<in>set ws. c \<notin> set w \<Longrightarrow> split (join [c] ws) c = ws"
proof (induction "[c]" ws rule: join.induct)
  case 1
  then show ?case by simp
next
  case (2 x)
  then show ?case by (simp add: split_none)
next
  case (3 x y ys)
  then show ?case by (simp add: split_append)
qed

lemma join_split: "join [c] (split s c) = s"
proof -
  have "join [c] (split_at (\<lambda>x. x = c) s) = s"
  proof (induction s)
    case (Cons x xs)
    show ?case
    proof (cases "split_at (\<lambda>x. x = c) xs")
      case (Cons w ws)
      with Cons.IH show ?thesis by (cases ws) auto
    qed (simp)
  qed simp
  then show ?thesis by (simp add: split_def)
qed

lemma split_at_pieces: "w \<in> set (split_at P s) \<Longrightarrow> x \<in> set w \<Longrightarrow> \<not> P x"
proof (induction s arbitrary: w)
  case (Cons c s)
  then show ?case by (cases "split_at P s") (fastforce split: if_splits)+
qed simp

lemma split_pieces: "w \<in> set (split s c) \<Longrightarrow> c \<notin> set w"
  using split_at_pieces unfolding split_def by blast


section \<open>Numbers\<close>

definition digit_char :: "nat \<Rightarrow> char" where [go_defs]:
  "digit_char d = char_of (48 + d)"

definition digit_of :: "char \<Rightarrow> nat option" where [go_defs]:
  "digit_of c = (let n = of_char c :: nat in if 48 \<le> n \<and> n \<le> 57 then Some (n - 48) else None)"

fun format_nat :: "nat \<Rightarrow> string" where
  "format_nat n = (if n < 10 then [digit_char n] else format_nat (n div 10) @ [digit_char (n mod 10)])"

declare format_nat.simps [simp del]

text \<open>\<^verbatim>\<open>strconv.FormatInt\<close> in base 10.\<close>

definition format_int :: "int \<Rightarrow> string" where [go_defs]:
  "format_int i = (if i < 0 then CHR ''-'' # format_nat (nat (- i)) else format_nat (nat i))"

fun parse_digits :: "nat \<Rightarrow> string \<Rightarrow> nat option" where
  "parse_digits acc [] = Some acc"
| "parse_digits acc (c # cs) =
     (case digit_of c of None \<Rightarrow> None | Some d \<Rightarrow> parse_digits (10 * acc + d) cs)"

definition int64_ok :: "int \<Rightarrow> bool" where [go_defs]:
  "int64_ok i \<longleftrightarrow> - (2 ^ 63) \<le> i \<and> i < 2 ^ 63"

text \<open>The 64-bit signed result of an arithmetic operation: Go's integers wrap around.\<close>

definition wrap64 :: "int \<Rightarrow> int" where [go_defs]:
  "wrap64 i = (i + 2 ^ 63) mod 2 ^ 64 - 2 ^ 63"

lemma wrap64_id [simp]: "int64_ok i \<Longrightarrow> wrap64 i = i"
  by (simp add: wrap64_def int64_ok_def)

lemma int64_ok_wrap64 [simp]: "int64_ok (wrap64 i)"
  using pos_mod_bound [of "2 ^ 64" "i + 2 ^ 63"] pos_mod_sign [of "2 ^ 64" "i + 2 ^ 63"]
  by (simp add: wrap64_def int64_ok_def)

lemma wrap64_up: "2 ^ 63 \<le> i \<Longrightarrow> i < 2 ^ 64 + 2 ^ 63 \<Longrightarrow> wrap64 i = i - 2 ^ 64"
  using mod_pos_pos_trivial [of "i - 2 ^ 63" "2 ^ 64"] mod_add_self2 [of "i - 2 ^ 63" "2 ^ 64"]
  by (simp add: wrap64_def add.commute)

lemma wrap64_down: "i < - (2 ^ 63) \<Longrightarrow> - (2 ^ 64) - 2 ^ 63 \<le> i \<Longrightarrow> wrap64 i = i + 2 ^ 64"
  using mod_pos_pos_trivial [of "i + 2 ^ 64 + 2 ^ 63" "2 ^ 64"] mod_add_self2 [of "i + 2 ^ 63" "2 ^ 64"]
  by (simp add: wrap64_def add.commute)

text \<open>
  \<^verbatim>\<open>strconv.ParseInt(s, 10, 64)\<close>, which \<^verbatim>\<open>strconv.Atoi\<close> is on a 64-bit target: an optional
  sign, at least one digit, and a value in range; \<^const>\<open>None\<close> is the error.
\<close>

definition parse_int :: "string \<Rightarrow> int option" where [go_defs]:
  "parse_int s =
     (let (neg, ds) = (case s of [] \<Rightarrow> (False, [])
                        | c # cs \<Rightarrow> if c = CHR ''-'' then (True, cs)
                                    else if c = CHR ''+'' then (False, cs) else (False, s))
      in if ds = [] then None
         else case parse_digits 0 ds of None \<Rightarrow> None
              | Some n \<Rightarrow> let i = (if neg then - int n else int n) in
                          if int64_ok i then Some i else None)"

lemma digit_of_char [simp]: "d < 10 \<Longrightarrow> digit_of (digit_char d) = Some d"
  by (simp add: digit_of_def digit_char_def Let_def)

lemma parse_digits_append:
  "parse_digits acc (a @ b) = (case parse_digits acc a of None \<Rightarrow> None | Some n \<Rightarrow> parse_digits n b)"
  by (induction a arbitrary: acc) (auto split: option.splits)

lemma parse_format_nat [simp]: "parse_digits 0 (format_nat n) = Some n"
proof (induction n rule: format_nat.induct)
  case (1 n)
  then show ?case
    by (cases "n < 10") (simp_all add: format_nat.simps [of n] parse_digits_append)
qed

lemma format_nat_not_Nil [simp]: "format_nat n \<noteq> []"
  by (simp add: format_nat.simps [of n])

lemma set_format_nat: "c \<in> set (format_nat n) \<Longrightarrow> \<exists>d<10. c = digit_char d"
proof (induction n rule: format_nat.induct)
  case (1 n)
  then show ?case
    by (cases "n < 10") (auto simp: format_nat.simps [of n] intro: exI [of _ "n mod 10"])
qed

lemma digit_char_neq [simp]:
  "d < 10 \<Longrightarrow> digit_char d \<noteq> CHR ''-''" "d < 10 \<Longrightarrow> digit_char d \<noteq> CHR ''+''"
  "d < 10 \<Longrightarrow> digit_char d \<noteq> CHR '':''" "d < 10 \<Longrightarrow> digit_char d \<noteq> CHR ''.''"
proof -
  have *: "d < 10 \<Longrightarrow> (of_char c :: nat) < 48 \<or> 57 < (of_char c :: nat) \<Longrightarrow> digit_char d \<noteq> c" for c
  proof
    assume "d < 10" "(of_char c :: nat) < 48 \<or> 57 < (of_char c :: nat)" "digit_char d = c"
    then have "of_char (char_of (48 + d :: nat)) = (of_char c :: nat)" by (simp add: digit_char_def)
    with \<open>d < 10\<close> \<open>(of_char c :: nat) < 48 \<or> _\<close> show False by simp
  qed
  show "d < 10 \<Longrightarrow> digit_char d \<noteq> CHR ''-''" "d < 10 \<Longrightarrow> digit_char d \<noteq> CHR ''+''"
    "d < 10 \<Longrightarrow> digit_char d \<noteq> CHR '':''" "d < 10 \<Longrightarrow> digit_char d \<noteq> CHR ''.''"
    by (rule *; simp)+
qed

lemma colon_notin_format_int [simp]: "CHR '':'' \<notin> set (format_int i)"
proof -
  have "CHR '':'' \<notin> set (format_nat n)" for n
    using set_format_nat [of "CHR '':''" n] digit_char_neq(3) by metis
  then show ?thesis by (auto simp: format_int_def)
qed

lemma parse_format_int [simp]: "int64_ok i \<Longrightarrow> parse_int (format_int i) = Some i"
proof -
  assume ok: "int64_ok i"
  obtain c cs where e: "format_nat (nat i) = c # cs" by (meson format_nat_not_Nil list.exhaust)
  then obtain d where "d < 10" "c = digit_char d" using set_format_nat [of c "nat i"] by auto
  then have c: "c \<noteq> CHR ''-''" "c \<noteq> CHR ''+''" by simp_all
  show ?thesis
  proof (cases "i < 0")
    case True
    with ok show ?thesis by (simp add: format_int_def parse_int_def Let_def)
  next
    case False
    have "parse_digits 0 (c # cs) = Some (nat i)" using e parse_format_nat by metis
    with False ok c show ?thesis by (simp add: format_int_def parse_int_def e Let_def del: parse_digits.simps)
  qed
qed


section \<open>Maps\<close>

type_synonym ('k, 'v) gomap = "('k \<times> 'v) list"

abbreviation mget :: "('k, 'v) gomap \<Rightarrow> 'k \<Rightarrow> 'v option" where "mget \<equiv> map_of"
abbreviation mput :: "'k \<Rightarrow> 'v \<Rightarrow> ('k, 'v) gomap \<Rightarrow> ('k, 'v) gomap" where "mput \<equiv> AList.update"
abbreviation mdel :: "'k \<Rightarrow> ('k, 'v) gomap \<Rightarrow> ('k, 'v) gomap" where "mdel \<equiv> AList.delete"
abbreviation mkeys :: "('k, 'v) gomap \<Rightarrow> 'k list" where "mkeys m \<equiv> map fst m"

definition wf_map :: "('k, 'v) gomap \<Rightarrow> bool" where
  "wf_map m \<longleftrightarrow> distinct (map fst m)"

text \<open>Deleting during a range loop the entries that satisfy a predicate.\<close>

definition mdrop :: "('k \<Rightarrow> 'v \<Rightarrow> bool) \<Rightarrow> ('k, 'v) gomap \<Rightarrow> ('k, 'v) gomap" where
  "mdrop P m = filter (\<lambda>(k, v). \<not> P k v) m"

lemma wf_map_Nil [simp]: "wf_map []"
  by (simp add: wf_map_def)

lemma wf_map_put [simp]: "wf_map m \<Longrightarrow> wf_map (mput k v m)"
  by (simp add: wf_map_def distinct_update)

lemma wf_map_del [simp]: "wf_map m \<Longrightarrow> wf_map (mdel k m)"
  by (simp add: wf_map_def distinct_delete)

lemma wf_map_drop [simp]: "wf_map m \<Longrightarrow> wf_map (mdrop P m)"
  unfolding wf_map_def mdrop_def by (rule distinct_map_filter)

lemma mget_put: "mget (mput k v m) k' = (if k' = k then Some v else mget m k')"
  by (simp add: update_conv')

lemma mget_del: "mget (mdel k m) k' = (if k' = k then None else mget m k')"
  by (simp add: delete_conv')

lemma mget_drop:
  "wf_map m \<Longrightarrow> mget (mdrop P m) k =
     (case mget m k of None \<Rightarrow> None | Some v \<Rightarrow> if P k v then None else Some v)"
proof (induction m)
  case (Cons a m)
  obtain k' v where a: "a = (k', v)" by (cases a)
  from Cons.prems a have "wf_map m" and nin: "k' \<notin> fst ` set m" by (auto simp: wf_map_def)
  moreover have "mget (mdrop P m) k' = None"
    using nin by (force simp: mdrop_def map_of_eq_None_iff)
  ultimately show ?case using Cons.IH a by (auto simp: mdrop_def split: option.splits)
qed (simp add: mdrop_def)

lemma wf_map_mem: "wf_map m \<Longrightarrow> (k, v) \<in> set m \<longleftrightarrow> mget m k = Some v"
  by (simp add: wf_map_def)

text \<open>A sum over the entries, as the incremental counters of the rendezvous server see it.\<close>

definition msum :: "('v \<Rightarrow> int) \<Rightarrow> ('k, 'v) gomap \<Rightarrow> int" where
  "msum w m = sum_list (map (w \<circ> snd) m)"

lemma msum_Nil [simp]: "msum w [] = 0"
  by (simp add: msum_def)

lemma msum_put:
  "wf_map m \<Longrightarrow> msum w (mput k v m) = msum w m - (case mget m k of None \<Rightarrow> 0 | Some u \<Rightarrow> w u) + w v"
proof (induction m)
  case (Cons a m)
  obtain k' v' where a: "a = (k', v')" by (cases a)
  from Cons.prems a have "wf_map m" by (simp add: wf_map_def)
  then have IH: "msum w (mput k v m) = msum w m - (case mget m k of None \<Rightarrow> 0 | Some u \<Rightarrow> w u) + w v"
    by (rule Cons.IH)
  show ?case using IH a by (simp add: msum_def)
qed (simp add: msum_def)

lemma msum_drop:
  "msum w (mdrop P m) = msum w m - sum_list (map (\<lambda>(k, v). if P k v then w v else 0) m)"
  by (induction m) (auto simp: msum_def mdrop_def)

lemma msum_nonneg: "(\<And>v. 0 \<le> w v) \<Longrightarrow> 0 \<le> msum w m"
  unfolding msum_def by (rule sum_list_nonneg) auto


section \<open>Selecting rows\<close>

lemma find_append_list:
  "find P (xs @ ys) = (case find P xs of Some x \<Rightarrow> Some x | None \<Rightarrow> find P ys)"
  by (induction xs) auto

lemma find_map_list: "find P (map f xs) = map_option f (find (P \<circ> f) xs)"
  by (induction xs) auto

lemma find_SomeD: "find P xs = Some x \<Longrightarrow> x \<in> set xs \<and> P x"
  by (auto simp: find_Some_iff)

lemma find_unique:
  assumes "\<And>x y. x \<in> set xs \<Longrightarrow> y \<in> set xs \<Longrightarrow> P x \<Longrightarrow> P y \<Longrightarrow> x = y"
  shows "find P xs = Some a \<longleftrightarrow> a \<in> set xs \<and> P a"
proof
  assume "find P xs = Some a"
  then show "a \<in> set xs \<and> P a" by (auto simp: find_Some_iff)
next
  assume a: "a \<in> set xs \<and> P a"
  then obtain b where b: "find P xs = Some b" by (cases "find P xs") (auto simp: find_None_iff)
  then have "b \<in> set xs" "P b" by (auto simp: find_Some_iff)
  with a b assms show "find P xs = Some a" by blast
qed

lemma distinct_map_eq: "distinct (map f xs) \<Longrightarrow> x \<in> set xs \<Longrightarrow> y \<in> set xs \<Longrightarrow> f x = f y \<Longrightarrow> x = y"
  by (auto simp: distinct_map inj_on_def)


section \<open>Time\<close>

type_synonym time = int
type_synonym duration = int

definition second_ns :: duration where [go_defs]: "second_ns = 1000000000"

text \<open>Milliseconds since the Unix epoch; the epoch is 62135596800 s after Go's zero time.\<close>

definition unix_milli :: "time \<Rightarrow> int" where [go_defs]:
  "unix_milli t = (t - 62135596800 * second_ns) div 1000000"

text \<open>\<^verbatim>\<open>Time.Sub\<close> saturates at the ends of the range of a duration.\<close>

definition time_sub :: "time \<Rightarrow> time \<Rightarrow> duration" where [go_defs]:
  "time_sub t u = max (- (2 ^ 63)) (min (2 ^ 63 - 1) (t - u))"

text \<open>\<^verbatim>\<open>Time.Truncate\<close> to whole seconds.\<close>

definition truncate_second :: "time \<Rightarrow> time" where [go_defs]:
  "truncate_second t = t - t mod second_ns"

lemma truncate_second_mono: "t \<le> u \<Longrightarrow> truncate_second t \<le> truncate_second u"
  unfolding truncate_second_def minus_mod_eq_mult_div
  by (intro mult_left_mono zdiv_mono1) (simp_all add: second_ns_def)

lemma time_sub_gr: "0 \<le> d \<Longrightarrow> d < 2 ^ 63 - 1 \<Longrightarrow> d < time_sub t u \<longleftrightarrow> d < t - u"
  by (auto simp: time_sub_def)

definition is_zero_time :: "time \<Rightarrow> bool" where [go_defs]:
  "is_zero_time t \<longleftrightarrow> t = 0"


section \<open>Components as step functions with an invariant\<close>

text \<open>
  A component is a state and a function that applies one operation to it. When every operation that passes
  a guard keeps the invariant, so does every sequence of them.
\<close>

locale guarded_steps =
  fixes inv :: "'s \<Rightarrow> bool"
    and exec :: "'e \<Rightarrow> 's \<Rightarrow> 's"
    and ok :: "'e \<Rightarrow> bool"
  assumes exec_inv: "inv s \<Longrightarrow> ok e \<Longrightarrow> inv (exec e s)"
begin

lemma run_inv: "inv s \<Longrightarrow> list_all ok es \<Longrightarrow> inv (fold exec es s)"
  by (induction es arbitrary: s) (auto intro: exec_inv)

end

text \<open>
  Without a guard, and with a state to start from: a component that establishes its invariant at the start
  and keeps it in one step keeps it in every run; each component interprets this locale on its own step function.
\<close>

locale stepped =
  fixes start :: 's
    and step :: "'s \<Rightarrow> 'e \<Rightarrow> 's"
    and inv :: "'s \<Rightarrow> bool"
  assumes inv_start: "inv start"
    and inv_step: "inv s \<Longrightarrow> inv (step s e)"
begin

sublocale unguarded: guarded_steps inv "\<lambda>e s. step s e" "\<lambda>_. True"
  by unfold_locales (rule inv_step)

lemma inv_run_from: "inv s \<Longrightarrow> inv (foldl step s es)"
  using unguarded.run_inv [of s es] by (simp add: foldl_conv_fold list_all_iff)

lemma inv_run: "inv (foldl step start es)"
  by (rule inv_run_from [OF inv_start])

lemma inv_prefix: "inv (foldl step start (take n es))"
  by (rule inv_run)

end

end
