(* ===== verification/Grants.thy ===== *)
theory Grants
  imports Go_Prelude
begin

text \<open>
  The two signed grants of the network: the admission credential that a protected rendezvous
  server asks for (\<^verbatim>\<open>CredentialMessage\<close>, \<^verbatim>\<open>pkg/tunnel/rendezvous.go\<close>) and the inference-access
  grant of a serving node (\<^verbatim>\<open>AccessMessage\<close> and the copy-paste access token,
  \<^verbatim>\<open>pkg/tunnel/access.go\<close>). Both messages have one shape under different prefixes; the locale
  \<open>grant_message\<close> proves the facts about that shape once. The token wraps a JSON object in
  unpadded URL-safe base64; the JSON codec of the two-field payload is a parameter.
\<close>

section \<open>Grant messages\<close>

definition CredentialMessage :: "string \<Rightarrow> int \<Rightarrow> int \<Rightarrow> string" where
  "CredentialMessage nodeAddr issuedMs expireMs =
     ''ISANN-CREDENTIAL:'' @ to_lower nodeAddr @ '':'' @ format_int issuedMs @ '':'' @ format_int expireMs"

definition ParseCredentialMessage :: "string \<Rightarrow> (string \<times> int \<times> int) option" where
  "ParseCredentialMessage msg =
     (if \<not> has_prefix msg ''ISANN-CREDENTIAL:'' then None
      else case split (trim_prefix msg ''ISANN-CREDENTIAL:'') CHR '':'' of
             [a, b, c] \<Rightarrow>
               (case (parse_int b, parse_int c) of
                  (Some i, Some e) \<Rightarrow> Some (to_lower (trim_space a), i, e)
                | _ \<Rightarrow> None)
           | _ \<Rightarrow> None)"

definition accessPrefix :: string where
  "accessPrefix = ''ISANN-ACCESS:''"

definition AccessMessage :: "string \<Rightarrow> int \<Rightarrow> int \<Rightarrow> string" where
  "AccessMessage buyerAddr issuedMs expireMs =
     accessPrefix @ to_lower buyerAddr @ '':'' @ format_int issuedMs @ '':'' @ format_int expireMs"

definition IsAccessMessage :: "string \<Rightarrow> bool" where
  "IsAccessMessage msg \<longleftrightarrow> has_prefix msg accessPrefix"

definition ParseAccessMessage :: "string \<Rightarrow> (string \<times> int \<times> int) option" where
  "ParseAccessMessage msg =
     (if \<not> has_prefix msg accessPrefix then None
      else case split (trim_prefix msg accessPrefix) CHR '':'' of
             [a, b, c] \<Rightarrow>
               (case (parse_int b, parse_int c) of
                  (Some i, Some e) \<Rightarrow> Some (to_lower (trim_space a), i, e)
                | _ \<Rightarrow> None)
           | _ \<Rightarrow> None)"

text \<open>
  What the parsers need of an address: no colon and no white space at its ends once lowered.
  Every hex address and the empty (bearer) address qualify.
\<close>

definition plain_addr :: "string \<Rightarrow> bool" where
  "plain_addr a \<longleftrightarrow> CHR '':'' \<notin> set a \<and> trim_space (to_lower a) = to_lower a"

lemma colon_to_lower [simp]: "CHR '':'' \<in> set (to_lower a) \<longleftrightarrow> CHR '':'' \<in> set a"
  by (simp add: to_lower_def image_iff eq_commute [of "CHR '':''"])

lemma parse_int_ok: "parse_int s = Some i \<Longrightarrow> int64_ok i"
  by (auto simp: parse_int_def Let_def split: prod.splits option.splits if_splits)

lemma trim_space_set: "set (trim_space s) \<subseteq> set s"
  by (auto simp: trim_space_def trim_left_def trim_right_def dest!: set_dropWhileD)

lemma is_space_lower [simp]: "is_space (lower_char c) = is_space c"
proof -
  have "is_space c \<Longrightarrow> lower_char c = c"
    by (auto simp: is_space_def lower_char_def)
  moreover have "is_space (lower_char c) \<Longrightarrow> is_space c"
  proof (cases "65 \<le> (of_char c :: nat) \<and> (of_char c :: nat) \<le> 90")
    case True
    then have "lower_char c = char_of (of_char c + 32 :: nat)" by (simp add: lower_char_def Let_def)
    then have "(of_char (lower_char c) :: nat) = of_char c + 32" using True by simp
    moreover have "is_space (lower_char c) \<Longrightarrow> (of_char (lower_char c) :: nat) \<le> 32"
      by (auto simp: is_space_def)
    ultimately show "is_space (lower_char c) \<Longrightarrow> is_space c" using True by simp
  qed (simp_all add: lower_char_def Let_def)
  ultimately show ?thesis by auto
qed

lemma to_lower_trim_space: "to_lower (trim_space s) = trim_space (to_lower s)"
  by (simp add: to_lower_def trim_space_def trim_left_def trim_right_def dropWhile_map rev_map comp_def)

lemma dropWhile_snoc_last: "\<not> P (last ys) \<Longrightarrow> ys \<noteq> [] \<Longrightarrow> xs = dropWhile P ys \<Longrightarrow> xs \<noteq> [] \<and> last xs = last ys"
  by (induction ys arbitrary: xs) (auto split: if_splits)

lemma trim_space_idem: "trim_space (trim_space s) = trim_space s"
proof -
  let ?t = "dropWhile is_space s"
  let ?u = "rev (dropWhile is_space (rev ?t))"
  have "dropWhile is_space ?u = ?u"
  proof (cases "?u = []")
    case False
    have "?t \<noteq> []" using False by (metis dropWhile.simps(1) rev.simps(1))
    then have h: "\<not> is_space (last (rev ?t))" by (simp add: hd_dropWhile last_rev)
    from dropWhile_snoc_last [of is_space "rev ?t", OF h] \<open>?t \<noteq> []\<close>
    have "last (dropWhile is_space (rev ?t)) = last (rev ?t)" by simp
    with h False have "\<not> is_space (hd ?u)" by (simp add: hd_rev)
    with False show ?thesis by (cases ?u) auto
  next
    case True
    then show ?thesis by (simp only: dropWhile.simps)
  qed
  then show ?thesis
    by (simp add: trim_space_def trim_left_def trim_right_def)
qed

locale grant_message =
  fixes build :: "string \<Rightarrow> int \<Rightarrow> int \<Rightarrow> string"
    and parse :: "string \<Rightarrow> (string \<times> int \<times> int) option"
    and pre :: string
  assumes build: "build a i e = pre @ to_lower a @ '':'' @ format_int i @ '':'' @ format_int e"
    and parse: "parse m =
      (if \<not> has_prefix m pre then None
       else case split (trim_prefix m pre) CHR '':'' of
              [a, b, c] \<Rightarrow>
                (case (parse_int b, parse_int c) of
                   (Some i, Some e) \<Rightarrow> Some (to_lower (trim_space a), i, e)
                 | _ \<Rightarrow> None)
            | _ \<Rightarrow> None)"
begin

lemma split_build:
  "CHR '':'' \<notin> set a \<Longrightarrow> split (trim_prefix (build a i e) pre) CHR '':'' = [to_lower a, format_int i, format_int e]"
  by (simp add: build split_append split_none)

lemma parse_build:
  "plain_addr a \<Longrightarrow> int64_ok i \<Longrightarrow> int64_ok e \<Longrightarrow> parse (build a i e) = Some (to_lower a, i, e)"
  using split_build [of a i e] by (simp add: parse plain_addr_def to_lower_trim_space) (simp add: build)

lemma parse_prefix: "parse m \<noteq> None \<Longrightarrow> has_prefix m pre"
  by (auto simp: parse split: if_splits)

lemma parse_normal:
  assumes "parse m = Some (a, i, e)"
  shows "plain_addr a \<and> to_lower a = a \<and> int64_ok i \<and> int64_ok e"
proof -
  from assms obtain x y z where s: "split (trim_prefix m pre) CHR '':'' = [x, y, z]"
    and i: "parse_int y = Some i" and e: "parse_int z = Some e" and a: "a = to_lower (trim_space x)"
    by (auto simp: parse split: if_splits list.splits option.splits)
  have "CHR '':'' \<notin> set x"
    using split_pieces [of x "trim_prefix m pre" "CHR '':''"] s by simp
  then have "CHR '':'' \<notin> set a" using trim_space_set [of x] by (auto simp: a)
  moreover have "trim_space a = a" by (simp add: a to_lower_trim_space trim_space_idem)
  ultimately show ?thesis
    using parse_int_ok [OF i] parse_int_ok [OF e] by (simp add: plain_addr_def a)
qed

lemma parse_rebuild: "parse m = Some (a, i, e) \<Longrightarrow> parse (build a i e) = Some (a, i, e)"
  using parse_normal [of m a i e] parse_build [of a i e] by simp

lemma build_inj:
  assumes "plain_addr a" "plain_addr a'" "int64_ok i" "int64_ok i'" "int64_ok e" "int64_ok e'"
    and "build a i e = build a' i' e'"
  shows "to_lower a = to_lower a' \<and> i = i' \<and> e = e'"
  using assms parse_build [of a i e] parse_build [of a' i' e'] by simp

end

interpretation credential: grant_message CredentialMessage ParseCredentialMessage "''ISANN-CREDENTIAL:''"
  by unfold_locales (simp_all add: CredentialMessage_def ParseCredentialMessage_def)

interpretation grant: grant_message AccessMessage ParseAccessMessage accessPrefix
  by unfold_locales (simp_all add: AccessMessage_def ParseAccessMessage_def)

lemma prefixes_differ: "has_prefix m ''ISANN-CREDENTIAL:'' \<Longrightarrow> \<not> has_prefix m accessPrefix"
  by (auto simp: has_prefix_iff accessPrefix_def)


section \<open>Access tokens\<close>

definition b64_alphabet :: string where
  "b64_alphabet = ''ABCDEFGHIJKLMNOPQRSTUVWXYZabcdefghijklmnopqrstuvwxyz0123456789-_''"

definition b64_char :: "nat \<Rightarrow> char" where
  "b64_char v = b64_alphabet ! (v mod 64)"

definition b64_val :: "char \<Rightarrow> nat option" where
  "b64_val c = index_byte b64_alphabet c"

text \<open>\<^verbatim>\<open>base64.RawURLEncoding\<close>: three bytes become four characters, without padding.\<close>

fun b64_encode :: "string \<Rightarrow> string" where
  "b64_encode [] = []"
| "b64_encode [a] =
     (let n = of_char a * 65536 :: nat in [b64_char (n div 262144), b64_char (n div 4096)])"
| "b64_encode [a, b] =
     (let n = of_char a * 65536 + of_char b * 256 :: nat
      in [b64_char (n div 262144), b64_char (n div 4096), b64_char (n div 64)])"
| "b64_encode (a # b # c # r) =
     (let n = of_char a * 65536 + of_char b * 256 + of_char c :: nat
      in [b64_char (n div 262144), b64_char (n div 4096), b64_char (n div 64), b64_char n]) @ b64_encode r"

fun b64_quanta :: "nat list \<Rightarrow> string option" where
  "b64_quanta [] = Some []"
| "b64_quanta [p] = None"
| "b64_quanta [p, q] = (let n = p * 262144 + q * 4096 in Some [char_of (n div 65536)])"
| "b64_quanta [p, q, r] =
     (let n = p * 262144 + q * 4096 + r * 64 in Some [char_of (n div 65536), char_of (n div 256)])"
| "b64_quanta (p # q # r # s # rest) =
     (let n = p * 262144 + q * 4096 + r * 64 + s in
      map_option (\<lambda>t. [char_of (n div 65536), char_of (n div 256), char_of n] @ t) (b64_quanta rest))"

text \<open>The decoder skips carriage returns and newlines and refuses every other foreign byte.\<close>

definition b64_decode :: "string \<Rightarrow> string option" where
  "b64_decode s =
     (case those (map b64_val (filter (\<lambda>c. c \<noteq> CHR 0x0A \<and> c \<noteq> CHR 0x0D) s)) of
        None \<Rightarrow> None | Some vs \<Rightarrow> b64_quanta vs)"

definition AccessTokenPrefix :: string where
  "AccessTokenPrefix = ''ianacc_''"

datatype token_error = NotAToken | BadBase64 | BadPayload | MissingPart

definition EncodeAccessToken :: "(string \<Rightarrow> string \<Rightarrow> string) \<Rightarrow> string \<Rightarrow> string \<Rightarrow> string" where
  "EncodeAccessToken marshal message sig = AccessTokenPrefix @ b64_encode (marshal message sig)"

definition DecodeAccessToken ::
  "(string \<Rightarrow> (string \<times> string) option) \<Rightarrow> string \<Rightarrow> token_error + (string \<times> string)" where
  "DecodeAccessToken unmarshal token =
     (let s = trim_space token in
      if \<not> has_prefix s AccessTokenPrefix then Inl NotAToken
      else case b64_decode (trim_prefix s AccessTokenPrefix) of
             None \<Rightarrow> Inl BadBase64
           | Some raw \<Rightarrow> (case unmarshal raw of
                            None \<Rightarrow> Inl BadPayload
                          | Some (m, g) \<Rightarrow> if m = [] \<or> g = [] then Inl MissingPart else Inr (m, g)))"

lemma b64_alphabet_props:
  "list_all (\<lambda>v. b64_val (b64_char v) = Some v \<and> b64_char v \<noteq> CHR 0x0A \<and> b64_char v \<noteq> CHR 0x0D \<and>
      \<not> is_space (b64_char v)) [0..<64]"
  by code_simp

lemma b64_char_mod: "b64_char v = b64_char (v mod 64)"
  by (simp add: b64_char_def)

lemma b64_char_all:
  "b64_val (b64_char v) = Some (v mod 64)" "b64_char v \<noteq> CHR 0x0A" "b64_char v \<noteq> CHR 0x0D"
  "\<not> is_space (b64_char v)"
  using b64_alphabet_props b64_char_mod [of v] by (auto simp: list_all_iff)

lemma quantum3: "n < 16777216 \<Longrightarrow>
   (n div 262144) mod 64 * 262144 + (n div 4096) mod 64 * 4096 + (n div 64) mod 64 * 64 + n mod 64 = n" for n :: nat
proof -
  assume n: "n < 16777216"
  have d: "n div 4096 = n div 64 div 64" "n div 262144 = n div 64 div 64 div 64"
    by (simp_all flip: div_mult2_eq)
  have "n div 64 div 64 div 64 < 64" using n by (simp flip: div_mult2_eq add: less_mult_imp_div_less)
  then have "n div 262144 mod 64 = n div 64 div 64 div 64" by (simp add: d)
  then show ?thesis unfolding d
    using mult_div_mod_eq [of 64 n] mult_div_mod_eq [of 64 "n div 64"] mult_div_mod_eq [of 64 "n div 64 div 64"]
    by linarith
qed

lemma set_b64_encode: "c \<in> set (b64_encode s) \<Longrightarrow> \<exists>v. c = b64_char v"
  by (induction s rule: b64_encode.induct) (auto simp: Let_def)

fun b64_vals :: "string \<Rightarrow> nat list" where
  "b64_vals [] = []"
| "b64_vals [a] = (let n = of_char a * 65536 :: nat in [n div 262144 mod 64, n div 4096 mod 64])"
| "b64_vals [a, b] =
     (let n = of_char a * 65536 + of_char b * 256 :: nat
      in [n div 262144 mod 64, n div 4096 mod 64, n div 64 mod 64])"
| "b64_vals (a # b # c # r) =
     (let n = of_char a * 65536 + of_char b * 256 + of_char c :: nat
      in [n div 262144 mod 64, n div 4096 mod 64, n div 64 mod 64, n mod 64]) @ b64_vals r"

lemma those_b64_encode: "those (map b64_val (b64_encode s)) = Some (b64_vals s)"
  by (induction s rule: b64_encode.induct) (simp_all add: Let_def b64_char_all)

lemma char_of_plus: "(char_of (of_char c + 256 * n :: nat) :: char) = c"
  by (metis char_of_mod_256 char_of_char mod_mult_self2 mult.commute)

lemma b64_quanta_vals: "b64_quanta (b64_vals s) = Some s"
proof (induction s rule: b64_encode.induct)
  case (2 a)
  let ?n = "of_char a * 65536 :: nat"
  have "?n < 16777216" using nat_of_char_less_256 [of a] by linarith
  moreover have "?n div 64 = (of_char a * 16) * 64" "?n = (of_char a * 1024) * 64" by simp_all
  then have "?n div 64 mod 64 = 0" "?n mod 64 = 0" by (metis mod_mult_self2_is_0)+
  ultimately have e: "?n div 262144 mod 64 * 262144 + ?n div 4096 mod 64 * 4096 = ?n"
    using quantum3 [of ?n] by linarith
  show ?case by (simp only: b64_vals.simps b64_quanta.simps Let_def e) simp
next
  case (3 a b)
  let ?n = "of_char a * 65536 + of_char b * 256 :: nat"
  have e: "?n div 262144 mod 64 * 262144 + ?n div 4096 mod 64 * 4096 + ?n div 64 mod 64 * 64 = ?n"
  proof -
    have "?n < 16777216" using nat_of_char_less_256 [of a] nat_of_char_less_256 [of b] by linarith
    moreover have "?n = (of_char a * 1024 + of_char b * 4) * 64" by simp
    then have "?n mod 64 = 0" by (metis mod_mult_self2_is_0)
    ultimately show ?thesis using quantum3 [of ?n] by linarith
  qed
  have d: "?n div 65536 = of_char a" "?n div 256 = of_char b + 256 * of_char a"
    using nat_of_char_less_256 [of b] by simp_all
  show ?case by (simp only: b64_vals.simps b64_quanta.simps Let_def e d char_of_plus) simp
next
  case (4 a b c r)
  let ?n = "of_char a * 65536 + of_char b * 256 + of_char c :: nat"
  have "?n < 16777216" using nat_of_char_less_256 [of a] nat_of_char_less_256 [of b] nat_of_char_less_256 [of c] by linarith
  from quantum3 [OF this]
  have e: "?n div 262144 mod 64 * 262144 + ?n div 4096 mod 64 * 4096 + ?n div 64 mod 64 * 64 + ?n mod 64 = ?n" .
  have n: "?n = of_char c + 256 * (of_char b + 256 * of_char a)" by simp
  have d2: "?n div 256 = of_char b + 256 * of_char a"
    unfolding n using nat_of_char_less_256 [of c] by (subst div_mult_self2) auto
  have "?n div 65536 = ?n div 256 div 256" by (simp flip: div_mult2_eq)
  also have "\<dots> = of_char a"
    unfolding d2 using nat_of_char_less_256 [of b] by (subst div_mult_self2) auto
  finally have d: "?n div 65536 = of_char a" "?n div 256 = of_char b + 256 * of_char a" using d2 by simp_all
  have "char_of ?n = c" by (simp only: n char_of_plus)
  then show ?case
    by (simp only: b64_vals.simps b64_quanta.simps Let_def append.simps e d char_of_plus 4) simp
qed simp

lemma b64_decode_encode [simp]: "b64_decode (b64_encode s) = Some s"
proof -
  have "filter (\<lambda>c. c \<noteq> CHR 0x0A \<and> c \<noteq> CHR 0x0D) (b64_encode s) = b64_encode s"
    using set_b64_encode b64_char_all(2,3) by (intro filter_True) fastforce
  then show ?thesis by (simp add: b64_decode_def those_b64_encode b64_quanta_vals)
qed

lemma trim_space_token: "trim_space (AccessTokenPrefix @ b64_encode s) = AccessTokenPrefix @ b64_encode s"
proof (rule trim_space_id, rule ballI)
  fix c assume "c \<in> set (AccessTokenPrefix @ b64_encode s)"
  then consider "c \<in> set AccessTokenPrefix" | v where "c = b64_char v" using set_b64_encode by auto
  then show "\<not> is_space c"
  proof cases
    case 1
    then show ?thesis by (auto simp: AccessTokenPrefix_def is_space_def)
  qed (simp add: b64_char_all)
qed


section \<open>Properties\<close>

text \<open>A grant means what its issuer signed: parsing the canonical message of an address and two
  times gives the lower-cased address and the same times, for both kinds of grant; two
  different grants never have the same message; whatever a parser accepts is in normal form; and
  no string is accepted by both doors, so an admission credential can never be replayed as an access grant.\<close>

theorem grants_roundtrip_and_separate:
  assumes "plain_addr a" "plain_addr a'" "int64_ok i" "int64_ok i'" "int64_ok e" "int64_ok e'"
  shows "ParseCredentialMessage (CredentialMessage a i e) = Some (to_lower a, i, e) \<and>
         ParseAccessMessage (AccessMessage a i e) = Some (to_lower a, i, e) \<and>
         (AccessMessage a i e = AccessMessage a' i' e' \<longleftrightarrow> (to_lower a, i, e) = (to_lower a', i', e')) \<and>
         (CredentialMessage a i e = CredentialMessage a' i' e' \<longleftrightarrow> (to_lower a, i, e) = (to_lower a', i', e')) \<and>
         (ParseCredentialMessage m = None \<or> ParseAccessMessage m = None \<and> \<not> IsAccessMessage m)"
proof -
  have "(AccessMessage a i e = AccessMessage a' i' e') \<longleftrightarrow> (to_lower a, i, e) = (to_lower a', i', e')"
    using grant.build_inj [OF assms] by (auto simp: AccessMessage_def)
  moreover have "(CredentialMessage a i e = CredentialMessage a' i' e') \<longleftrightarrow> (to_lower a, i, e) = (to_lower a', i', e')"
    using credential.build_inj [OF assms] by (auto simp: CredentialMessage_def)
  moreover have "ParseCredentialMessage m = None \<or> ParseAccessMessage m = None \<and> \<not> IsAccessMessage m"
    using credential.parse_prefix [of m] grant.parse_prefix [of m] prefixes_differ [of m]
    unfolding IsAccessMessage_def by blast
  ultimately show ?thesis
    using credential.parse_build [OF assms(1,3,5)] grant.parse_build [OF assms(1,3,5)] by blast
qed

theorem grants_roundtrip_and_separate_witness:
  "ParseAccessMessage (AccessMessage ''0xAb'' 7 9) = Some (''0xab'', 7, 9)"
proof -
  have "plain_addr ''0xAb''" "to_lower ''0xAb'' = ''0xab''" by code_simp+
  then show ?thesis
    using grants_roundtrip_and_separate [of "''0xAb''" "''0xAb''" 7 7 9 9 "[]"] by (simp add: int64_ok_def)
qed

text \<open>An access token decodes to exactly the message and signature it was made from, even when it
  was pasted with white space around it, whenever the JSON codec of the payload round-trips and neither part is
  empty.\<close>

theorem access_token_roundtrip:
  assumes "unmarshal (marshal m g) = Some (m, g)" "m \<noteq> []" "g \<noteq> []"
    and "\<forall>c\<in>set pad. is_space c"
  shows "DecodeAccessToken unmarshal (pad @ EncodeAccessToken marshal m g) = Inr (m, g)"
proof -
  have "trim_space (pad @ t) = trim_space t" for t
    using assms(4) by (simp add: trim_space_def trim_left_def dropWhile_append2)
  with assms(1-3) show ?thesis
    by (simp add: DecodeAccessToken_def EncodeAccessToken_def trim_space_token Let_def)
qed

theorem access_token_roundtrip_witness:
  "DecodeAccessToken (\<lambda>s. case split s CHR ''|'' of [m, g] \<Rightarrow> Some (m, g) | _ \<Rightarrow> None)
     ('' '' @ EncodeAccessToken (\<lambda>m g. m @ ''|'' @ g) ''ISANN-ACCESS::1:2'' ''0xff'') =
   Inr (''ISANN-ACCESS::1:2'', ''0xff'')"
  by (rule access_token_roundtrip) (simp_all add: is_space_def split_def)

end
