(* ===== verification/Wire_Codec.thy ===== *)
theory Wire_Codec
  imports Go_Prelude
begin

text \<open>
  The control-plane wire format: big-endian integers (\<^verbatim>\<open>encoding/binary\<close>), the
  length-prefixed frames of \<^verbatim>\<open>pkg/signal/proto.go\<close> and their copy in
  \<^verbatim>\<open>pkg/tunnel/isannd_client.go\<close>, and the byte strings that \<^verbatim>\<open>pkg/tunnel/session.go\<close> hashes
  for a register and for a ping signature. A byte slice is a \<^typ>\<open>string\<close>, one \<^typ>\<open>char\<close> per
  byte. The JSON codec of the message type is a parameter of the frame functions
  (\<open>marshal\<close>, \<open>unmarshal\<close>), and so is SHA-256 in the digests.
\<close>

section \<open>Big-endian integers\<close>

fun be_bytes :: "nat \<Rightarrow> nat \<Rightarrow> string" where
  "be_bytes 0 n = []"
| "be_bytes (Suc k) n = be_bytes k (n div 256) @ [char_of n]"

definition be_value :: "string \<Rightarrow> nat" where
  "be_value s = foldl (\<lambda>acc c. 256 * acc + of_char c) 0 s"

text \<open>\<^verbatim>\<open>binary.BigEndian.PutUint32\<close> of \<^verbatim>\<open>uint32(n)\<close>: the conversion keeps the low 32 bits.\<close>

definition put_uint32 :: "nat \<Rightarrow> string" where
  "put_uint32 n = be_bytes 4 (n mod 2 ^ 32)"

definition put_uint64 :: "int \<Rightarrow> string" where
  "put_uint64 i = be_bytes 8 (nat (i mod 2 ^ 64))"

lemma length_be_bytes [simp]: "length (be_bytes k n) = k"
  by (induction k arbitrary: n) auto

lemma be_value_snoc: "be_value (s @ [c]) = 256 * be_value s + of_char c"
  by (simp add: be_value_def)

lemma be_value_bytes: "be_value (be_bytes k n) = n mod 256 ^ k"
proof (induction k arbitrary: n)
  case (Suc k)
  have "n mod (256 * 256 ^ k) = 256 * (n div 256 mod 256 ^ k) + n mod 256"
    by (rule mod_mult2_eq)
  with Suc show ?case by (simp add: be_value_snoc)
qed (simp add: be_value_def)

lemma be_bytes_inj: "be_bytes k a = be_bytes k b \<Longrightarrow> a mod 256 ^ k = b mod 256 ^ k"
  by (metis be_value_bytes)

lemma length_put_uint32 [simp]: "length (put_uint32 n) = 4"
  by (simp add: put_uint32_def)

lemma length_put_uint64 [simp]: "length (put_uint64 n) = 8"
  by (simp add: put_uint64_def)

lemma get_put_uint32: "n < 2 ^ 32 \<Longrightarrow> be_value (put_uint32 n) = n"
  by (simp add: put_uint32_def be_value_bytes)

lemma put_uint64_inj:
  assumes "put_uint64 a = put_uint64 b" "int64_ok a" "int64_ok b"
  shows "a = b"
proof -
  from assms(1) have "nat (a mod 2 ^ 64) mod 256 ^ 8 = nat (b mod 2 ^ 64) mod 256 ^ 8"
    unfolding put_uint64_def by (rule be_bytes_inj)
  moreover have "nat (x mod 2 ^ 64) < 256 ^ 8" for x :: int by (simp add: nat_less_iff)
  ultimately have "a mod 2 ^ 64 = b mod 2 ^ 64" by simp
  then have "(2 :: int) ^ 64 dvd a - b" by (simp add: mod_eq_dvd_iff)
  moreover have "\<bar>a - b\<bar> < 2 ^ 64" using assms(2,3) by (auto simp: int64_ok_def abs_less_iff)
  ultimately show ?thesis
    using zdvd_not_zless [of "\<bar>a - b\<bar>" "2 ^ 64"] by (cases "a = b") auto
qed


section \<open>Self-delimiting encodings\<close>

text \<open>
  An encoding that can be cut off the front of a byte string without knowing its length.
  Sequences of such encodings can be parsed back, so a concatenation determines its parts.
\<close>

locale delimited =
  fixes enc :: "'a \<Rightarrow> string"
    and dec :: "string \<Rightarrow> ('a \<times> string) option"
    and ok :: "'a \<Rightarrow> bool"
  assumes dec_enc: "ok x \<Longrightarrow> dec (enc x @ rest) = Some (x, rest)"
begin

lemma enc_append_inj:
  assumes "ok x" "ok y" "enc x @ r = enc y @ s"
  shows "x = y \<and> r = s"
proof -
  have "Some (x, r) = Some (y, s)"
    by (simp only: dec_enc [OF assms(1), of r, symmetric] dec_enc [OF assms(2), of s, symmetric] assms(3))
  then show ?thesis by simp
qed

lemma concat_enc_inj:
  "\<forall>x\<in>set xs. ok x \<Longrightarrow> \<forall>y\<in>set ys. ok y \<Longrightarrow> length xs = length ys \<Longrightarrow>
   concat (map enc xs) @ r = concat (map enc ys) @ s \<Longrightarrow> xs = ys \<and> r = s"
proof (induction xs arbitrary: ys)
  case (Cons x xs)
  then obtain y ys' where ys: "ys = y # ys'" by (cases ys) auto
  have "enc x @ (concat (map enc xs) @ r) = enc y @ (concat (map enc ys') @ s)"
    using Cons.prems(4) ys by simp
  with Cons.prems(1,2) ys have e: "x = y \<and> concat (map enc xs) @ r = concat (map enc ys') @ s"
    by (intro enc_append_inj) simp_all
  with Cons.prems(1,2,3) ys have "xs = ys' \<and> r = s" by (intro Cons.IH) simp_all
  with e ys show ?case by simp
qed simp

end

text \<open>The fields of \<^verbatim>\<open>RegisterDigest\<close>: a label, a 32-bit length and the bytes.\<close>

definition append_field :: "string \<Rightarrow> string \<Rightarrow> string" where
  "append_field label v = label @ put_uint32 (length v) @ v"

definition cut_field :: "string \<Rightarrow> string \<Rightarrow> (string \<times> string) option" where
  "cut_field label s =
     (let body = drop (length label) s; n = be_value (take 4 body)
      in Some (take n (drop 4 body), drop n (drop 4 body)))"

definition len32 :: "string \<Rightarrow> bool" where
  "len32 v \<longleftrightarrow> length v < 2 ^ 32"

interpretation field: delimited "append_field label" "cut_field label" len32 for label
  by unfold_locales (simp add: append_field_def cut_field_def len32_def get_put_uint32)


section \<open>Signed byte strings of the control plane\<close>

definition register_preimage ::
  "string \<Rightarrow> string \<Rightarrow> string \<Rightarrow> string \<Rightarrow> string \<Rightarrow> string \<Rightarrow> int \<Rightarrow> string" where
  "register_preimage nodeID certHash version binHash ownerAddress hardwareHash timestampMs =
     append_field ''id'' nodeID @ append_field ''cert'' certHash @ append_field ''ver'' version @
     append_field ''bin'' binHash @ append_field ''own'' ownerAddress @
     append_field ''hw'' hardwareHash @ ''ts'' @ put_uint64 timestampMs"

definition RegisterDigest ::
  "(string \<Rightarrow> string) \<Rightarrow> string \<Rightarrow> string \<Rightarrow> string \<Rightarrow> string \<Rightarrow> string \<Rightarrow> string \<Rightarrow> int \<Rightarrow> string" where
  "RegisterDigest sha256 nodeID certHash version binHash ownerAddress hardwareHash timestampMs =
     sha256 (register_preimage nodeID certHash version binHash ownerAddress hardwareHash timestampMs)"

definition ping_preimage :: "string \<Rightarrow> int \<Rightarrow> string" where
  "ping_preimage role timestampMs = append_field ''role'' role @ ''ts'' @ put_uint64 timestampMs"

definition PingDigest :: "(string \<Rightarrow> string) \<Rightarrow> string \<Rightarrow> int \<Rightarrow> string" where
  "PingDigest sha256 role timestampMs = sha256 (ping_preimage role timestampMs)"

lemma register_preimage_inj:
  assumes "register_preimage i c v b ow h t = register_preimage i' c' v' b' ow' h' t'"
    and "list_all len32 [i, c, v, b, ow, h]" and "list_all len32 [i', c', v', b', ow', h']"
    and "int64_ok t" and "int64_ok t'"
  shows "(i, c, v, b, ow, h, t) = (i', c', v', b', ow', h', t')"
proof -
  note e = assms(1) [unfolded register_preimage_def]
  from assms(2) have ok: "len32 i" "len32 c" "len32 v" "len32 b" "len32 ow" "len32 h" by simp_all
  from assms(3) have ok': "len32 i'" "len32 c'" "len32 v'" "len32 b'" "len32 ow'" "len32 h'" by simp_all
  from field.enc_append_inj [OF ok(1) ok'(1) e] have 1: "i = i'" and e1: "append_field ''cert'' c @
      append_field ''ver'' v @ append_field ''bin'' b @ append_field ''own'' ow @
      append_field ''hw'' h @ ''ts'' @ put_uint64 t = append_field ''cert'' c' @
      append_field ''ver'' v' @ append_field ''bin'' b' @ append_field ''own'' ow' @
      append_field ''hw'' h' @ ''ts'' @ put_uint64 t'" by blast+
  from field.enc_append_inj [OF ok(2) ok'(2) e1] have 2: "c = c'" and e2: "append_field ''ver'' v @
      append_field ''bin'' b @ append_field ''own'' ow @ append_field ''hw'' h @ ''ts'' @ put_uint64 t =
      append_field ''ver'' v' @ append_field ''bin'' b' @ append_field ''own'' ow' @
      append_field ''hw'' h' @ ''ts'' @ put_uint64 t'" by blast+
  from field.enc_append_inj [OF ok(3) ok'(3) e2] have 3: "v = v'" and e3: "append_field ''bin'' b @
      append_field ''own'' ow @ append_field ''hw'' h @ ''ts'' @ put_uint64 t =
      append_field ''bin'' b' @ append_field ''own'' ow' @ append_field ''hw'' h' @ ''ts'' @ put_uint64 t'"
    by blast+
  from field.enc_append_inj [OF ok(4) ok'(4) e3] have 4: "b = b'" and e4: "append_field ''own'' ow @
      append_field ''hw'' h @ ''ts'' @ put_uint64 t =
      append_field ''own'' ow' @ append_field ''hw'' h' @ ''ts'' @ put_uint64 t'" by blast+
  from field.enc_append_inj [OF ok(5) ok'(5) e4] have 5: "ow = ow'" and e5: "append_field ''hw'' h @
      ''ts'' @ put_uint64 t = append_field ''hw'' h' @ ''ts'' @ put_uint64 t'" by blast+
  from field.enc_append_inj [OF ok(6) ok'(6) e5] have 6: "h = h'" and "put_uint64 t = put_uint64 t'"
    by auto
  then have "t = t'" using assms(4,5) by (blast intro: put_uint64_inj)
  with 1 2 3 4 5 6 show ?thesis by simp
qed

lemma ping_preimage_inj:
  assumes "ping_preimage r t = ping_preimage r' t'" "len32 r" "len32 r'" "int64_ok t" "int64_ok t'"
  shows "r = r' \<and> t = t'"
  using field.enc_append_inj [OF assms(2,3) assms(1) [unfolded ping_preimage_def]] assms(4,5)
  by (auto intro: put_uint64_inj)

lemma ping_register_preimage_neq:
  "ping_preimage r t \<noteq> register_preimage i c v b ow h t'"
  by (simp add: ping_preimage_def register_preimage_def append_field_def)


section \<open>Frames\<close>

datatype frame_error =
    EOF | ErrUnexpectedEOF | ErrZeroLength | ErrFrameTooLarge | ErrReadBody | ErrUnmarshal
  | ErrMarshal | ErrWrite

definition maxFrameSize :: nat where
  "maxFrameSize = 2 ^ 20"

text \<open>
  An \<^verbatim>\<open>io.Writer\<close>: the bytes written so far and the number of further \<^verbatim>\<open>Write\<close> calls that
  succeed (\<^const>\<open>None\<close>: all of them). An \<^verbatim>\<open>io.Reader\<close> is the bytes that are still to come
  before the end of the stream.
\<close>

record writer =
  w_out :: string
  w_left :: "nat option"

definition do_write :: "writer \<Rightarrow> string \<Rightarrow> bool \<times> writer" where
  "do_write w data =
     (case w_left w of
        None \<Rightarrow> (True, w\<lparr>w_out := w_out w @ data\<rparr>)
      | Some 0 \<Rightarrow> (False, w)
      | Some (Suc n) \<Rightarrow> (True, w\<lparr>w_out := w_out w @ data, w_left := Some n\<rparr>))"

definition WriteFrame :: "('m \<Rightarrow> string option) \<Rightarrow> writer \<Rightarrow> 'm \<Rightarrow> frame_error option \<times> writer" where
  "WriteFrame marshal w msg =
     (case marshal msg of
        None \<Rightarrow> (Some ErrMarshal, w)
      | Some data \<Rightarrow>
          if length data > maxFrameSize then (Some ErrFrameTooLarge, w)
          else (case do_write w (put_uint32 (length data)) of
                  (False, w1) \<Rightarrow> (Some ErrWrite, w1)
                | (True, w1) \<Rightarrow> (case do_write w1 data of
                                    (False, w2) \<Rightarrow> (Some ErrWrite, w2)
                                  | (True, w2) \<Rightarrow> (None, w2))))"

text \<open>\<^verbatim>\<open>io.ReadFull\<close> of \<open>n\<close> bytes: an empty stream is \<^const>\<open>EOF\<close>, a short one \<^const>\<open>ErrUnexpectedEOF\<close>.\<close>

definition read_full :: "nat \<Rightarrow> string \<Rightarrow> (frame_error + string) \<times> string" where
  "read_full n r =
     (if n \<le> length r then (Inr (take n r), drop n r)
      else if r = [] then (Inl EOF, [])
      else (Inl ErrUnexpectedEOF, []))"

definition ReadFrame :: "(string \<Rightarrow> 'm option) \<Rightarrow> string \<Rightarrow> (frame_error + 'm) \<times> string" where
  "ReadFrame unmarshal r =
     (case read_full 4 r of
        (Inl e, r1) \<Rightarrow> (Inl e, r1)
      | (Inr hdr, r1) \<Rightarrow>
          let n = be_value hdr in
          if n = 0 then (Inl ErrZeroLength, r1)
          else if n > maxFrameSize then (Inl ErrFrameTooLarge, r1)
          else (case read_full n r1 of
                  (Inl e, r2) \<Rightarrow> (Inl ErrReadBody, r2)
                | (Inr buf, r2) \<Rightarrow> (case unmarshal buf of
                                       None \<Rightarrow> (Inl ErrUnmarshal, r2)
                                     | Some msg \<Rightarrow> (Inr msg, r2))))"

text \<open>The copies in \<^verbatim>\<open>pkg/tunnel\<close>, which cannot import \<^verbatim>\<open>pkg/signal\<close>.\<close>

definition frameMaxSize :: nat where
  "frameMaxSize = 2 ^ 20"

definition writeFrameTo :: "('m \<Rightarrow> string option) \<Rightarrow> writer \<Rightarrow> 'm \<Rightarrow> frame_error option \<times> writer" where
  "writeFrameTo marshal w msg =
     (case marshal msg of
        None \<Rightarrow> (Some ErrMarshal, w)
      | Some data \<Rightarrow>
          if length data > frameMaxSize then (Some ErrFrameTooLarge, w)
          else let (ok1, w1) = do_write w (put_uint32 (length data)) in
               if \<not> ok1 then (Some ErrWrite, w1)
               else let (ok2, w2) = do_write w1 data in
                    if \<not> ok2 then (Some ErrWrite, w2) else (None, w2))"

definition readFrameFrom :: "(string \<Rightarrow> 'm option) \<Rightarrow> string \<Rightarrow> (frame_error + 'm) \<times> string" where
  "readFrameFrom unmarshal r =
     (let (res, r1) = read_full 4 r in
      case res of
        Inl e \<Rightarrow> (Inl e, r1)
      | Inr hdr \<Rightarrow>
          if be_value hdr = 0 then (Inl ErrZeroLength, r1)
          else if frameMaxSize < be_value hdr then (Inl ErrFrameTooLarge, r1)
          else let (body, r2) = read_full (be_value hdr) r1 in
               case body of
                 Inl e \<Rightarrow> (Inl ErrReadBody, r2)
               | Inr buf \<Rightarrow> (case unmarshal buf of
                               None \<Rightarrow> (Inl ErrUnmarshal, r2)
                             | Some msg \<Rightarrow> (Inr msg, r2)))"

text \<open>Reading a stream until the first error, as the receive loops of both sides do.\<close>

fun read_stream :: "(string \<Rightarrow> 'm option) \<Rightarrow> nat \<Rightarrow> string \<Rightarrow> 'm list \<times> frame_error option" where
  "read_stream unmarshal 0 r = ([], None)"
| "read_stream unmarshal (Suc fuel) r =
     (case ReadFrame unmarshal r of
        (Inl e, _) \<Rightarrow> ([], Some e)
      | (Inr m, r') \<Rightarrow> (let (ms, e) = read_stream unmarshal fuel r' in (m # ms, e)))"

definition frame_bytes :: "string \<Rightarrow> string" where
  "frame_bytes data = put_uint32 (length data) @ data"

definition frame_ok :: "string \<Rightarrow> bool" where
  "frame_ok data \<longleftrightarrow> data \<noteq> [] \<and> length data \<le> maxFrameSize"

definition cut_frame :: "string \<Rightarrow> (string \<times> string) option" where
  "cut_frame r = (case ReadFrame Some r of (Inr d, r') \<Rightarrow> Some (d, r') | _ \<Rightarrow> None)"

lemma ReadFrame_bytes:
  assumes "frame_ok data" "unmarshal data = Some m"
  shows "ReadFrame unmarshal (frame_bytes data @ rest) = (Inr m, rest)"
proof -
  from assms(1) have "0 < length data" "length data \<le> 2 ^ 20"
    by (auto simp: frame_ok_def maxFrameSize_def)
  moreover from this have "be_value (put_uint32 (length data)) = length data"
    by (intro get_put_uint32) simp
  ultimately show ?thesis
    using assms(2) by (simp add: ReadFrame_def read_full_def frame_bytes_def Let_def maxFrameSize_def)
qed

interpretation frame: delimited frame_bytes cut_frame frame_ok
  by unfold_locales (simp add: cut_frame_def ReadFrame_bytes)

lemma WriteFrame_ok:
  assumes "marshal m = Some data" "length data \<le> maxFrameSize" "w_left w = None"
  shows "WriteFrame marshal w m = (None, w\<lparr>w_out := w_out w @ frame_bytes data\<rparr>)"
  using assms by (simp add: WriteFrame_def do_write_def frame_bytes_def)

lemma read_full_rest: "length (snd (read_full n r)) \<le> length r"
  by (simp add: read_full_def)

lemma read_full_Inr: "read_full n r = (Inr d, r') \<longleftrightarrow> n \<le> length r \<and> d = take n r \<and> r' = drop n r"
  by (auto simp: read_full_def)

lemma ReadFrame_Inr_iff:
  "ReadFrame unmarshal r = (Inr m, r') \<longleftrightarrow>
     (\<exists>data. r = take 4 r @ data @ r' \<and> length (take 4 r) = 4 \<and> be_value (take 4 r) = length data \<and>
        frame_ok data \<and> unmarshal data = Some m)"
proof
  assume "ReadFrame unmarshal r = (Inr m, r')"
  then have a: "4 \<le> length r" "0 < be_value (take 4 r)" "be_value (take 4 r) \<le> maxFrameSize"
    "be_value (take 4 r) \<le> length (drop 4 r)" "r' = drop (be_value (take 4 r)) (drop 4 r)"
    "unmarshal (take (be_value (take 4 r)) (drop 4 r)) = Some m"
    by (auto simp: ReadFrame_def Let_def read_full_Inr split: prod.splits sum.splits if_splits option.splits)
  let ?data = "take (be_value (take 4 r)) (drop 4 r)"
  have "r = take 4 r @ ?data @ r'" using a(5) by (metis append_take_drop_id)
  with a show "\<exists>data. r = take 4 r @ data @ r' \<and> length (take 4 r) = 4 \<and>
      be_value (take 4 r) = length data \<and> frame_ok data \<and> unmarshal data = Some m"
    by (intro exI [of _ ?data]) (auto simp: frame_ok_def)
next
  assume "\<exists>data. r = take 4 r @ data @ r' \<and> length (take 4 r) = 4 \<and>
      be_value (take 4 r) = length data \<and> frame_ok data \<and> unmarshal data = Some m"
  then obtain data where d: "r = take 4 r @ data @ r'" "4 \<le> length r"
    "be_value (take 4 r) = length data" "frame_ok data" "unmarshal data = Some m" by auto
  from d(1,2) have "drop 4 r = data @ r'" by (metis append_take_drop_id same_append_eq)
  with d(2-) show "ReadFrame unmarshal r = (Inr m, r')"
    by (simp add: ReadFrame_def read_full_def Let_def frame_ok_def)
qed

lemma ReadFrame_consumes:
  "ReadFrame unmarshal r = (res, r') \<Longrightarrow> length r' \<le> length r \<and> (\<forall>m. res = Inr m \<longrightarrow> length r' < length r)"
  by (auto simp: ReadFrame_def Let_def read_full_def split: prod.splits sum.splits if_splits option.splits)

lemma read_stream_frames:
  assumes "\<forall>m\<in>set ms. \<exists>data. marshal m = Some data \<and> frame_ok data \<and> unmarshal data = Some m"
    and "length ms < fuel"
  shows "read_stream unmarshal fuel (concat (map (frame_bytes \<circ> the \<circ> marshal) ms)) = (ms, Some EOF)"
  using assms
proof (induction ms arbitrary: fuel)
  case Nil
  then obtain n where "fuel = Suc n" by (cases fuel) auto
  then show ?case by (simp add: ReadFrame_def read_full_def)
next
  case (Cons m ms)
  then obtain n where n: "fuel = Suc n" "length ms < n" by (cases fuel) auto
  from Cons.prems(1) obtain data where d: "marshal m = Some data" "frame_ok data" "unmarshal data = Some m"
    by auto
  from Cons.prems(1) have "\<forall>m\<in>set ms. \<exists>data. marshal m = Some data \<and> frame_ok data \<and> unmarshal data = Some m"
    by simp
  with Cons.IH [OF _ n(2)] show ?case using d n(1) by (simp add: ReadFrame_bytes)
qed


section \<open>Properties\<close>

text \<open>C34. What a node signs when it registers determines every signed field: the node id, the
  certificate hash, the version, the binary hash, the owner, the hardware hash and the timestamp.
  The fields are length-delimited, so no two different registrations share the hashed bytes,
  and a ping never has the bytes of a registration.\<close>

theorem register_digest_binds_fields:
  assumes "inj_on sha256 {register_preimage i c v b ow h t, register_preimage i' c' v' b' ow' h' t',
             ping_preimage r t}"
    and "list_all len32 [i, c, v, b, ow, h]" "list_all len32 [i', c', v', b', ow', h']"
    and "int64_ok t" "int64_ok t'"
  shows "(RegisterDigest sha256 i c v b ow h t = RegisterDigest sha256 i' c' v' b' ow' h' t' \<longleftrightarrow>
            (i, c, v, b, ow, h, t) = (i', c', v', b', ow', h', t')) \<and>
         PingDigest sha256 r t \<noteq> RegisterDigest sha256 i' c' v' b' ow' h' t'"
proof -
  have "RegisterDigest sha256 i c v b ow h t = RegisterDigest sha256 i' c' v' b' ow' h' t' \<longleftrightarrow>
      register_preimage i c v b ow h t = register_preimage i' c' v' b' ow' h' t'"
    unfolding RegisterDigest_def by (rule inj_on_eq_iff [OF assms(1)]) simp_all
  moreover have "PingDigest sha256 r t = RegisterDigest sha256 i' c' v' b' ow' h' t' \<longleftrightarrow>
      ping_preimage r t = register_preimage i' c' v' b' ow' h' t'"
    unfolding RegisterDigest_def PingDigest_def by (rule inj_on_eq_iff [OF assms(1)]) simp_all
  ultimately show ?thesis
    using register_preimage_inj [OF _ assms(2-5)] ping_register_preimage_neq by fastforce
qed

theorem register_digest_binds_fields_witness:
  "RegisterDigest (\<lambda>s. s) ''P:0xA'' ''c'' ''1'' ''b'' ''o'' [] 5 \<noteq>
   RegisterDigest (\<lambda>s. s) ''P:0xAc'' [] ''1'' ''b'' ''o'' [] 5"
  using register_digest_binds_fields
    [of "\<lambda>s. s" "''P:0xA''" "''c''" "''1''" "''b''" "''o''" "[]" 5 "''P:0xAc''" "[]" "''1''" "''b''" "''o''" "[]" 5 "''provider''"]
  by (simp add: len32_def int64_ok_def)

text \<open>C35. Frames round-trip over the control connection: whatever messages are written, one after the
  other, the reader gets the same messages in the same order and then the end of the stream,
  provided the codec decodes what it encodes and every body is within the frame limit.\<close>

theorem frame_stream_roundtrip:
  assumes "\<forall>m\<in>set ms. \<exists>data. marshal m = Some data \<and> frame_ok data \<and> unmarshal data = Some m"
  shows "\<exists>w. fold (\<lambda>m (e, w). case e of None \<Rightarrow> WriteFrame marshal w m | Some _ \<Rightarrow> (e, w)) ms
           (None, \<lparr>w_out = [], w_left = None\<rparr>) = (None, w) \<and>
         read_stream unmarshal (Suc (length ms)) (w_out w) = (ms, Some EOF)"
proof -
  have "fold (\<lambda>m (e, w). case e of None \<Rightarrow> WriteFrame marshal w m | Some _ \<Rightarrow> (e, w)) ms
      (None, \<lparr>w_out = out, w_left = None\<rparr>) =
      (None, \<lparr>w_out = out @ concat (map (frame_bytes \<circ> the \<circ> marshal) ms), w_left = None\<rparr>)" for out
    using assms
  proof (induction ms arbitrary: out)
    case (Cons m ms)
    then obtain data where "marshal m = Some data" "length data \<le> maxFrameSize"
      by (auto simp: frame_ok_def)
    with Cons show ?case by (simp add: WriteFrame_ok)
  qed simp
  from this [of "[]"] show ?thesis using read_stream_frames [OF assms, of "Suc (length ms)"] by simp
qed

theorem frame_stream_roundtrip_witness:
  "\<exists>w. fold (\<lambda>m (e, w). case e of None \<Rightarrow> WriteFrame Some w m | Some _ \<Rightarrow> (e, w)) [''ab'', ''c'']
           (None, \<lparr>w_out = [], w_left = None\<rparr>) = (None, w) \<and>
         read_stream Some (Suc (length [''ab'', ''c''])) (w_out w) = ([''ab'', ''c''], Some EOF)"
  by (rule frame_stream_roundtrip) (simp add: frame_ok_def maxFrameSize_def)

text \<open>The frame reader is safe on arbitrary input: it accepts exactly a four-byte length between 1
  and 1 MiB followed by that many bytes that decode, it consumes exactly those bytes, and it refuses a
  length above the limit having consumed the header only. The two copies of the frame
  code behave identically.\<close>

theorem frame_reader_exact:
  "(ReadFrame unmarshal r = (Inr m, r') \<longleftrightarrow>
      (\<exists>hdr data. r = hdr @ data @ r' \<and> length hdr = 4 \<and> be_value hdr = length data \<and>
         1 \<le> length data \<and> length data \<le> 2 ^ 20 \<and> unmarshal data = Some m)) \<and>
   (\<forall>hdr rest. length hdr = 4 \<and> be_value hdr > 2 ^ 20 \<longrightarrow>
      ReadFrame unmarshal (hdr @ rest) = (Inl ErrFrameTooLarge, rest)) \<and>
   readFrameFrom unmarshal r = ReadFrame unmarshal r \<and> writeFrameTo marshal w msg = WriteFrame marshal w msg"
proof -
  have 1: "ReadFrame unmarshal r = (Inr m, r') \<longleftrightarrow>
      (\<exists>hdr data. r = hdr @ data @ r' \<and> length hdr = 4 \<and> be_value hdr = length data \<and>
         1 \<le> length data \<and> length data \<le> 2 ^ 20 \<and> unmarshal data = Some m)"
    (is "_ \<longleftrightarrow> ?frame")
  proof
    assume "ReadFrame unmarshal r = (Inr m, r')"
    then obtain data where "r = take 4 r @ data @ r'" "length (take 4 r) = 4"
      "be_value (take 4 r) = length data" "frame_ok data" "unmarshal data = Some m"
      unfolding ReadFrame_Inr_iff by blast
    moreover from this(4) have "1 \<le> length data \<and> length data \<le> 2 ^ 20"
      by (cases data) (simp_all add: frame_ok_def maxFrameSize_def)
    ultimately show ?frame by blast
  next
    assume ?frame
    then obtain hdr data where h: "r = hdr @ data @ r'" "length hdr = 4" "be_value hdr = length data"
      "1 \<le> length data" "length data \<le> 2 ^ 20" "unmarshal data = Some m" by blast
    then have "take 4 r = hdr" and "frame_ok data"
      by (auto simp: frame_ok_def maxFrameSize_def)
    with h show "ReadFrame unmarshal r = (Inr m, r')" unfolding ReadFrame_Inr_iff by metis
  qed
  have 2: "ReadFrame unmarshal (hdr @ rest) = (Inl ErrFrameTooLarge, rest)"
    if "length hdr = 4" "be_value hdr > 2 ^ 20" for hdr rest
    using that by (auto simp: ReadFrame_def read_full_def maxFrameSize_def Let_def)
  have 3: "readFrameFrom unmarshal r = ReadFrame unmarshal r"
    by (simp add: readFrameFrom_def ReadFrame_def Let_def frameMaxSize_def maxFrameSize_def
        split: prod.split sum.split)
  have 4: "writeFrameTo marshal w msg = WriteFrame marshal w msg"
    by (simp add: writeFrameTo_def WriteFrame_def Let_def frameMaxSize_def maxFrameSize_def
        split: prod.split option.split bool.split)
  from 1 2 3 4 show ?thesis by blast
qed

theorem frame_reader_exact_witness:
  "ReadFrame Some [CHR 0x00, CHR 0x00, CHR 0x00, CHR 0x02, CHR ''h'', CHR ''i'', CHR ''!''] = (Inr ''hi'', ''!'') \<and>
   ReadFrame Some (([CHR 0xFF, CHR 0x00, CHR 0x00, CHR 0x00]) @ ''x'') = (Inl ErrFrameTooLarge :: frame_error + string, ''x'')"
  using frame_reader_exact [of Some "[CHR 0x00, CHR 0x00, CHR 0x00, CHR 0x02, CHR ''h'', CHR ''i'', CHR ''!'']" "''hi''" "''!''"]
  by (simp add: ReadFrame_def read_full_def be_value_def Let_def maxFrameSize_def)

end
