(* ===== verification/Eth_Auth.thy ===== *)
theory Eth_Auth
  imports Go_Prelude
begin

text \<open>
  \<^verbatim>\<open>pkg/auth\<close>: the canonical string of a signed request, Ethereum message signatures
  (\<^verbatim>\<open>ethereum.go\<close>) and the permission level of a broker route (\<^verbatim>\<open>routes.go\<close>). The functions of
  the go-ethereum library are the fields of the record \<open>eth\<close>, a parameter of every
  definition that uses them; \<open>eth_signs\<close> is what its documentation promises of
  \<^verbatim>\<open>crypto.Sign\<close> and \<^verbatim>\<open>crypto.SigToPub\<close>.
\<close>

section \<open>Hexadecimal strings\<close>

definition hex_digit :: "nat \<Rightarrow> char" where
  "hex_digit n = ''0123456789abcdef'' ! (n mod 16)"

definition hex_value :: "char \<Rightarrow> nat option" where
  "hex_value c =
     (let n = of_char c :: nat in
      if 48 \<le> n \<and> n \<le> 57 then Some (n - 48)
      else if 97 \<le> n \<and> n \<le> 102 then Some (n - 87)
      else if 65 \<le> n \<and> n \<le> 70 then Some (n - 55)
      else None)"

fun hex_encode :: "string \<Rightarrow> string" where
  "hex_encode [] = []"
| "hex_encode (c # cs) = hex_digit (of_char c div 16) # hex_digit (of_char c mod 16) # hex_encode cs"

fun hex_decode :: "string \<Rightarrow> string option" where
  "hex_decode [] = Some []"
| "hex_decode [c] = None"
| "hex_decode (a # b # r) =
     (case (hex_value a, hex_value b) of
        (Some x, Some y) \<Rightarrow> map_option (\<lambda>t. char_of (16 * x + y) # t) (hex_decode r)
      | _ \<Rightarrow> None)"

lemma hex_digits_ok: "list_all (\<lambda>n. hex_value (hex_digit n) = Some n \<and> hex_digit n \<noteq> CHR ''x'') [0..<16]"
  by code_simp

lemma hex_value_digit: "n < 16 \<Longrightarrow> hex_value (hex_digit n) = Some n"
  using hex_digits_ok by (simp add: list_all_iff)

lemma hex_digit_not_x: "n < 16 \<Longrightarrow> hex_digit n \<noteq> CHR ''x''"
  using hex_digits_ok by (simp add: list_all_iff)

lemma hex_decode_encode [simp]: "hex_decode (hex_encode s) = Some s"
proof (induction s)
  case (Cons c s)
  have "(of_char c :: nat) div 16 < 16" using nat_of_char_less_256 [of c] by linarith
  with Cons show ?case by (simp add: hex_value_digit)
qed simp

lemma length_hex_encode [simp]: "length (hex_encode s) = 2 * length s"
  by (induction s) auto

lemma hex_encode_no_0x: "\<not> has_prefix (hex_encode s) ''0x''"
proof (cases s)
  case (Cons c t)
  have "hex_digit (of_char c mod 16) \<noteq> CHR ''x''" by (rule hex_digit_not_x) simp
  then show ?thesis by (simp add: Cons has_prefix_def)
qed (simp add: has_prefix_def)

lemma hex_encode_inj: "hex_encode a = hex_encode b \<Longrightarrow> a = b"
  by (metis hex_decode_encode option.inject)


section \<open>Signed messages\<close>

record ('sk, 'pub) eth =
  keccak256 :: "string \<Rightarrow> string"
  crypto_sign :: "string \<Rightarrow> 'sk \<Rightarrow> string option"
  public_key :: "'sk \<Rightarrow> 'pub"
  sig_to_pub :: "string \<Rightarrow> string \<Rightarrow> 'pub option"
  pubkey_to_address :: "'pub \<Rightarrow> string"
  address_hex :: "string \<Rightarrow> string"
  is_hex_address :: "string \<Rightarrow> bool"
  hex_to_address :: "string \<Rightarrow> string"

text \<open>
  \<^verbatim>\<open>crypto.Sign\<close> returns 65 bytes r, s, v with v 0 or 1, and \<^verbatim>\<open>crypto.SigToPub\<close> recovers the
  signer's public key from them.
\<close>

definition eth_signs :: "('sk, 'pub) eth \<Rightarrow> bool" where
  "eth_signs E \<longleftrightarrow>
     (\<forall>h sk sig. crypto_sign E h sk = Some sig \<longrightarrow>
        length sig = 65 \<and> of_char (sig ! 64) \<le> (1 :: nat) \<and> sig_to_pub E h sig = Some (public_key E sk))"

datatype auth_error = InvalidHex | BadSigLength nat | RecoverFailed | SignFailed

definition BuildCanonical :: "string \<Rightarrow> string \<Rightarrow> string \<Rightarrow> string \<Rightarrow> string \<Rightarrow> string \<Rightarrow> string" where
  "BuildCanonical meth pathQuery bodyHashHex targetNodeID nonce timestamp =
     join [CHR 0x0A] [meth, pathQuery, bodyHashHex, targetNodeID, nonce, timestamp]"

definition eth_message_hash :: "('sk, 'pub) eth \<Rightarrow> string \<Rightarrow> string" where
  "eth_message_hash E message =
     keccak256 E ((CHR 0x19 # ''Ethereum Signed Message:'' @ [CHR 0x0A] @ format_nat (length message)) @ message)"

definition SignMessage :: "('sk, 'pub) eth \<Rightarrow> string \<Rightarrow> 'sk \<Rightarrow> auth_error + string" where
  "SignMessage E message pk =
     (case crypto_sign E (eth_message_hash E message) pk of
        None \<Rightarrow> Inl SignFailed
      | Some sig \<Rightarrow> Inr (hex_encode (sig[64 := char_of ((of_char (sig ! 64) + 27) mod 256 :: nat)])))"

definition lower_v :: "string \<Rightarrow> string" where
  "lower_v sig = (if (27 :: nat) \<le> of_char (sig ! 64) then sig[64 := char_of (of_char (sig ! 64) - 27 :: nat)] else sig)"

definition RecoverAddress :: "('sk, 'pub) eth \<Rightarrow> string \<Rightarrow> string \<Rightarrow> auth_error + string" where
  "RecoverAddress E message signatureHex =
     (case hex_decode (trim_prefix signatureHex ''0x'') of
        None \<Rightarrow> Inl InvalidHex
      | Some sigBytes \<Rightarrow>
          if length sigBytes \<noteq> 65 then Inl (BadSigLength (length sigBytes))
          else (case sig_to_pub E (eth_message_hash E message) (lower_v sigBytes) of
                  None \<Rightarrow> Inl RecoverFailed
                | Some pubKey \<Rightarrow> Inr (address_hex E (pubkey_to_address E pubKey))))"

definition VerifySignature :: "('sk, 'pub) eth \<Rightarrow> string \<Rightarrow> string \<Rightarrow> string \<Rightarrow> auth_error + bool" where
  "VerifySignature E message signatureHex expectedAddress =
     (case hex_decode (trim_prefix signatureHex ''0x'') of
        None \<Rightarrow> Inl InvalidHex
      | Some sigBytes \<Rightarrow>
          if length sigBytes \<noteq> 65 then Inl (BadSigLength (length sigBytes))
          else (case sig_to_pub E (eth_message_hash E message) (lower_v sigBytes) of
                  None \<Rightarrow> Inl RecoverFailed
                | Some pubKey \<Rightarrow> Inr (pubkey_to_address E pubKey = hex_to_address E expectedAddress)))"

lemma lower_v_add27:
  "length sig = 65 \<Longrightarrow> of_char (sig ! 64) \<le> (1 :: nat) \<Longrightarrow>
   lower_v (sig[64 := char_of (of_char (sig ! 64) + 27 :: nat)]) = sig"
  by (simp add: lower_v_def)

lemma trim_0x_hex [simp]:
  "trim_prefix (hex_encode s) ''0x'' = hex_encode s" "trim_prefix (''0x'' @ t) ''0x'' = t"
  using hex_encode_no_0x [of s] by (simp_all add: trim_prefix_def has_prefix_def)

lemma canonical_inj:
  assumes "\<forall>w\<in>set [m, p, b, t, n, s] \<union> set [m', p', b', t', n', s']. CHR 0x0A \<notin> set w"
    and "BuildCanonical m p b t n s = BuildCanonical m' p' b' t' n' s'"
  shows "[m, p, b, t, n, s] = [m', p', b', t', n', s']"
proof -
  have "split (BuildCanonical m p b t n s) (CHR 0x0A) = [m, p, b, t, n, s]"
    unfolding BuildCanonical_def by (rule split_join) (use assms(1) in simp_all)
  moreover have "split (BuildCanonical m' p' b' t' n' s') (CHR 0x0A) = [m', p', b', t', n', s']"
    unfolding BuildCanonical_def by (rule split_join) (use assms(1) in simp_all)
  ultimately show ?thesis unfolding assms(2) by (rule trans [OF sym])
qed


section \<open>Route permission levels\<close>

datatype level = LevelNone | LevelUser | LevelAdmin

text \<open>The levels in the order of what they ask of a caller.\<close>

primrec level_rank :: "level \<Rightarrow> nat" where
  "level_rank LevelNone = 0"
| "level_rank LevelUser = 1"
| "level_rank LevelAdmin = 2"

lemma level_rank_inj [simp]: "level_rank l = level_rank l' \<longleftrightarrow> l = l'"
  by (cases l; cases l') simp_all

instantiation level :: linorder
begin

definition less_eq_level :: "level \<Rightarrow> level \<Rightarrow> bool" where
  "less_eq_level l l' \<longleftrightarrow> level_rank l \<le> level_rank l'"

definition less_level :: "level \<Rightarrow> level \<Rightarrow> bool" where
  "less_level l l' \<longleftrightarrow> level_rank l < level_rank l'"

instance
  by standard (auto simp: less_eq_level_def less_level_def)

end

lemma level_bounds [simp]: "LevelNone \<le> l" "l \<le> LevelAdmin"
  by (cases l; simp add: less_eq_level_def)+

definition ClassifyRoute :: "string \<Rightarrow> string \<Rightarrow> level" where
  "ClassifyRoute meth0 path =
     (let meth = to_upper meth0 in
      if path \<in> {''/'', ''/health'', ''/info'', ''/node-id'', ''/v1/nodes'', ''/v1/auth/verify''} then LevelNone
      else if \<not> has_prefix path ''/v1/'' \<and> \<not> has_prefix path ''/node/'' \<and> \<not> has_prefix path ''/gate/'' \<and>
              \<not> has_prefix path ''/rendezvous/'' \<and> \<not> has_prefix path ''/auth'' then LevelNone
      else if has_prefix path ''/gate/'' then LevelNone
      else if has_prefix path ''/rendezvous/'' then LevelNone
      else if has_prefix path ''/v1/my-nodes/'' then LevelAdmin
      else if has_prefix path ''/v1/admin/'' then LevelAdmin
      else if has_prefix path ''/node/'' then
        (let rest = trim_prefix path ''/node/'' in
         case index_byte rest CHR ''/'' of
           None \<Rightarrow> LevelAdmin
         | Some idx \<Rightarrow>
             (let sub = drop (Suc idx) rest in
              if has_prefix sub ''svc/'' then LevelUser
              else if meth = ''GET'' \<and> (sub = ''provider/emblem'' \<or> sub = ''provider/about'' \<or>
                      sub = ''provider/file'' \<or> sub = ''provider/gallery'') then LevelNone
              else if has_prefix sub ''provider/'' \<or> has_prefix sub ''installer/'' then LevelAdmin
              else LevelAdmin))
      else LevelAdmin)"

lemma classify_node:
  assumes "CHR ''/'' \<notin> set nid"
  shows "ClassifyRoute meth (''/node/'' @ nid @ ''/'' @ sub) =
     (if has_prefix sub ''svc/'' then LevelUser
      else if to_upper meth = ''GET'' \<and> sub \<in> {''provider/emblem'', ''provider/about'', ''provider/file'', ''provider/gallery''}
      then LevelNone else LevelAdmin)"
proof -
  have "index_byte (nid @ ''/'' @ sub) CHR ''/'' = Some (length nid)"
    using index_byte_append [OF assms] by simp
  then show ?thesis by (auto simp: ClassifyRoute_def Let_def has_prefix_def trim_prefix_def)
qed


section \<open>Properties\<close>

text \<open>Signing and verifying are inverse: the address recovered from a signature made by
  \<^verbatim>\<open>SignMessage\<close> is the address of the signing key, with or without a 0x in front of the hex, and
  \<^verbatim>\<open>VerifySignature\<close> accepts it exactly for that address.\<close>

theorem sign_recover_roundtrip:
  assumes "eth_signs E" and "SignMessage E msg sk = Inr s"
  shows "RecoverAddress E msg s = Inr (address_hex E (pubkey_to_address E (public_key E sk))) \<and>
         RecoverAddress E msg (''0x'' @ s) = Inr (address_hex E (pubkey_to_address E (public_key E sk))) \<and>
         VerifySignature E msg s a = Inr (pubkey_to_address E (public_key E sk) = hex_to_address E a)"
proof -
  from assms(2) obtain sig where sig: "crypto_sign E (eth_message_hash E msg) sk = Some sig"
    and s: "s = hex_encode (sig[64 := char_of ((of_char (sig ! 64) + 27) mod 256 :: nat)])"
    by (auto simp: SignMessage_def split: option.splits)
  with assms(1) have "length sig = 65" "of_char (sig ! 64) \<le> (1 :: nat)"
    "sig_to_pub E (eth_message_hash E msg) sig = Some (public_key E sk)"
    by (auto simp: eth_signs_def)
  then show ?thesis
    unfolding s RecoverAddress_def VerifySignature_def trim_0x_hex by (simp add: lower_v_add27)
qed

definition toy_eth :: "(char, char) eth" where
  "toy_eth = \<lparr>keccak256 = (\<lambda>s. s),
     crypto_sign = (\<lambda>h sk. Some (sk # replicate 63 sk @ [CHR 0x01])),
     public_key = (\<lambda>sk. sk),
     sig_to_pub = (\<lambda>h sig. case sig of [] \<Rightarrow> None | c # _ \<Rightarrow> Some c),
     pubkey_to_address = (\<lambda>p. replicate 20 p),
     address_hex = (\<lambda>a. ''0x'' @ hex_encode a),
     is_hex_address = (\<lambda>s. has_prefix s ''0x'' \<and> length s = 42),
     hex_to_address = (\<lambda>s. case hex_decode (trim_prefix s ''0x'') of None \<Rightarrow> [] | Some a \<Rightarrow> a)\<rparr>"

theorem sign_recover_roundtrip_witness:
  "\<exists>s. SignMessage toy_eth ''hello'' CHR ''k'' = Inr s \<and>
       RecoverAddress toy_eth ''hello'' s = Inr (address_hex toy_eth (replicate 20 CHR ''k''))"
proof -
  have E: "eth_signs toy_eth" by (simp add: eth_signs_def toy_eth_def nth_append)
  obtain s where s: "SignMessage toy_eth ''hello'' CHR ''k'' = Inr s"
    by (simp add: SignMessage_def toy_eth_def)
  have "pubkey_to_address toy_eth (public_key toy_eth CHR ''k'') = replicate 20 CHR ''k''"
    by (simp add: toy_eth_def)
  with sign_recover_roundtrip [OF E s] s show ?thesis by simp
qed

text \<open>The canonical string that a request signature covers determines the method, the path with its
  query, the body hash, the target, the nonce and the timestamp, as long as none of them contains a
  newline; so a signature for one request is never a signature for another.\<close>

theorem canonical_binds_request:
  assumes "\<forall>w\<in>set [m, p, b, t, n, s] \<union> set [m', p', b', t', n', s']. CHR 0x0A \<notin> set w"
  shows "BuildCanonical m p b t n s = BuildCanonical m' p' b' t' n' s' \<longleftrightarrow>
         (m, p, b, t, n, s) = (m', p', b', t', n', s')"
  using canonical_inj [OF assms] by auto

theorem canonical_binds_request_witness:
  "BuildCanonical ''POST'' ''/v1/a'' ''h'' ''t'' ''n'' ''1'' \<noteq> BuildCanonical ''POST'' ''/v1/a'' ''h'' ''t'' ''n1'' []"
  using canonical_binds_request [of "''POST''" "''/v1/a''" "''h''" "''t''" "''n''" "''1''" "''POST''" "''/v1/a''" "''h''" "''t''" "''n1''" "[]"]
  by simp

text \<open>The broker's route policy. Under \<^verbatim>\<open>/v1/\<close> only the node list and the signature check are
  public and everything else needs an admin; under \<^verbatim>\<open>/node/\<close> service calls need a user, only a GET of
  one of four profile pages is public, and everything else needs an admin; \<^verbatim>\<open>/auth\<close> needs an admin.
  So a user-level route is always a service call on a node.\<close>

theorem route_policy:
  "(\<forall>rest. ClassifyRoute meth (''/v1/'' @ rest) =
      (if rest \<in> {''nodes'', ''auth/verify''} then LevelNone else LevelAdmin)) \<and>
   (\<forall>nid sub. CHR ''/'' \<notin> set nid \<longrightarrow> ClassifyRoute meth (''/node/'' @ nid @ ''/'' @ sub) =
      (if has_prefix sub ''svc/'' then LevelUser
       else if to_upper meth = ''GET'' \<and> sub \<in> {''provider/emblem'', ''provider/about'', ''provider/file'', ''provider/gallery''}
       then LevelNone else LevelAdmin)) \<and>
   (\<forall>rest. ClassifyRoute meth (''/auth'' @ rest) = LevelAdmin) \<and>
   (ClassifyRoute meth path = LevelUser \<longrightarrow>
      (\<exists>nid rest. path = ''/node/'' @ nid @ ''/svc/'' @ rest \<and> CHR ''/'' \<notin> set nid))"
proof (intro conjI allI impI)
  fix rest
  show "ClassifyRoute meth (''/v1/'' @ rest) =
      (if rest \<in> {''nodes'', ''auth/verify''} then LevelNone else LevelAdmin)"
    by (simp add: ClassifyRoute_def Let_def has_prefix_def)
  show "ClassifyRoute meth (''/auth'' @ rest) = LevelAdmin"
    by (simp add: ClassifyRoute_def Let_def has_prefix_def)
next
  fix nid sub assume "CHR ''/'' \<notin> set nid"
  then show "ClassifyRoute meth (''/node/'' @ nid @ ''/'' @ sub) =
      (if has_prefix sub ''svc/'' then LevelUser
       else if to_upper meth = ''GET'' \<and> sub \<in> {''provider/emblem'', ''provider/about'', ''provider/file'', ''provider/gallery''}
       then LevelNone else LevelAdmin)" by (rule classify_node)
next
  assume u: "ClassifyRoute meth path = LevelUser"
  then have "has_prefix path ''/node/''" by (auto simp: ClassifyRoute_def Let_def split: if_splits)
  then obtain rest where r: "path = ''/node/'' @ rest" by (auto simp: has_prefix_iff)
  have "trim_prefix path ''/node/'' = rest" unfolding r by (rule trim_prefix_append)
  with u obtain i where i: "index_byte rest CHR ''/'' = Some i" and s: "has_prefix (drop (Suc i) rest) ''svc/''"
    by (auto simp: ClassifyRoute_def Let_def split: if_splits option.splits)
  from s obtain t where "drop (Suc i) rest = ''svc/'' @ t" by (auto simp: has_prefix_iff)
  with index_byte_SomeD [OF i] have "rest = take i rest @ ''/svc/'' @ t" "CHR ''/'' \<notin> set (take i rest)"
    by auto
  with r show "\<exists>nid rest. path = ''/node/'' @ nid @ ''/svc/'' @ rest \<and> CHR ''/'' \<notin> set nid" by blast
qed

theorem route_policy_witness:
  "ClassifyRoute ''DELETE'' ''/node/P:0x1/provider/about'' = LevelAdmin \<and>
   ClassifyRoute ''POST'' ''/node/P:0x1/svc/llm'' = LevelUser"
proof -
  have u: "to_upper ''DELETE'' \<noteq> ''GET''" by code_simp
  have "ClassifyRoute ''DELETE'' (''/node/'' @ ''P:0x1'' @ ''/'' @ ''provider/about'') = LevelAdmin"
    using route_policy [of "''DELETE''" "[]", THEN conjunct2, THEN conjunct1, rule_format, of "''P:0x1''" "''provider/about''"] u
    by (simp add: has_prefix_def)
  moreover have "ClassifyRoute ''POST'' (''/node/'' @ ''P:0x1'' @ ''/'' @ ''svc/llm'') = LevelUser"
    using route_policy [of "''POST''" "[]", THEN conjunct2, THEN conjunct1, rule_format, of "''P:0x1''" "''svc/llm''"]
    by (simp add: has_prefix_def)
  ultimately show ?thesis by simp
qed

text \<open>No method asks for less than GET: whoever may use a route with some method may read it.\<close>

theorem reading_needs_least: "ClassifyRoute ''GET'' path \<le> ClassifyRoute meth path"
proof -
  have "to_upper ''GET'' = ''GET''" by code_simp
  then show ?thesis by (auto simp: ClassifyRoute_def Let_def split: option.split)
qed

end
