(* ===== verification/RV_Data.thy ===== *)
theory RV_Data
  imports Complex_Main Go_Prelude Wire_Codec Eth_Auth
begin

text \<open>
  The data of the rendezvous server: the hardware and service descriptions of
  \<^verbatim>\<open>pkg/setup/detect.go\<close>, the control-plane message of \<^verbatim>\<open>pkg/tunnel/rendezvous.go\<close> and
  \<^verbatim>\<open>pkg/tunnel/metrics.go\<close>, and the registry entries and state of \<^verbatim>\<open>pkg/rendezvous/server.go\<close>.
  A finite float is a rational number; a pointer or a slice that may be nil is an option. Message
  fields that the server neither reads nor writes (TPM challenge, session and resync fields) and the
  registry fields that nothing sets (\<^verbatim>\<open>Status\<close>, \<^verbatim>\<open>EKPublicKey\<close>, \<^verbatim>\<open>TPMNonce\<close>, \<^verbatim>\<open>EKFingerprint\<close>) are left out.
\<close>

section \<open>Values decoded from JSON\<close>

datatype json = JNull | JBool bool | JNum rat | JStr string | JArr "json list" | JObj "(string \<times> json) list"

text \<open>A type assertion to string: the value and whether it is one.\<close>

definition as_string :: "json option \<Rightarrow> string option" where
  "as_string j = (case j of Some (JStr s) \<Rightarrow> Some s | _ \<Rightarrow> None)"

definition as_number :: "json option \<Rightarrow> rat option" where
  "as_number j = (case j of Some (JNum r) \<Rightarrow> Some r | _ \<Rightarrow> None)"

text \<open>Conversion of a float to an integer drops the fraction.\<close>

definition trunc :: "rat \<Rightarrow> int" where
  "trunc r = (if r < 0 then - \<lfloor>- r\<rfloor> else \<lfloor>r\<rfloor>)"


section \<open>Hardware\<close>

record cpu_spec =
  cpu_name :: string
  cpu_cores :: int
  cpu_clock_mhz :: rat
  cpu_temp_c :: int

record gpu_spec =
  gpu_name :: string
  gpu_driver :: string
  vram_total_gb :: rat
  gpu_temp_c :: int
  gpu_util_pct :: int
  vram_free_gb :: rat

record ram_spec =
  ram_total_gb :: rat
  ram_free_gb :: rat

record hardware =
  hw_cpus :: "cpu_spec list option"
  hw_gpus :: "gpu_spec list option"
  hw_ram :: "ram_spec option"

abbreviation gpu_list :: "hardware \<Rightarrow> gpu_spec list" where
  "gpu_list hw \<equiv> (case hw_gpus hw of None \<Rightarrow> [] | Some gs \<Rightarrow> gs)"

abbreviation stable_cpu :: "cpu_spec \<Rightarrow> cpu_spec" where
  "stable_cpu c \<equiv> \<lparr>cpu_name = cpu_name c, cpu_cores = cpu_cores c, cpu_clock_mhz = cpu_clock_mhz c, cpu_temp_c = 0\<rparr>"

abbreviation stable_gpu :: "gpu_spec \<Rightarrow> gpu_spec" where
  "stable_gpu g \<equiv> \<lparr>gpu_name = gpu_name g, gpu_driver = gpu_driver g, vram_total_gb = vram_total_gb g,
                   gpu_temp_c = 0, gpu_util_pct = 0, vram_free_gb = 0\<rparr>"

definition StableHardware :: "hardware option \<Rightarrow> hardware option" where
  "StableHardware hw = map_option (\<lambda>h.
     \<lparr>hw_cpus = map_option (map stable_cpu) (hw_cpus h),
      hw_gpus = map_option (map stable_gpu) (hw_gpus h),
      hw_ram = map_option (\<lambda>r. \<lparr>ram_total_gb = ram_total_gb r, ram_free_gb = 0\<rparr>) (hw_ram h)\<rparr>) hw"

definition VolatileHardware :: "hardware option \<Rightarrow> hardware option" where
  "VolatileHardware hw = map_option (\<lambda>h.
     \<lparr>hw_cpus = map_option (map (\<lambda>c. \<lparr>cpu_name = [], cpu_cores = 0, cpu_clock_mhz = 0, cpu_temp_c = cpu_temp_c c\<rparr>)) (hw_cpus h),
      hw_gpus = map_option (map (\<lambda>g. \<lparr>gpu_name = [], gpu_driver = [], vram_total_gb = 0,
                   gpu_temp_c = gpu_temp_c g, gpu_util_pct = gpu_util_pct g, vram_free_gb = vram_free_gb g\<rparr>)) (hw_gpus h),
      hw_ram = map_option (\<lambda>r. \<lparr>ram_total_gb = 0, ram_free_gb = ram_free_gb r\<rparr>) (hw_ram h)\<rparr>) hw"

text \<open>The loops of \<^verbatim>\<open>MergeHardware\<close> run over the stable slice and update the entries that the volatile one also has.\<close>

fun merge_cpus :: "cpu_spec list \<Rightarrow> cpu_spec list \<Rightarrow> cpu_spec list" where
  "merge_cpus (s # ss) (v # vs) = s\<lparr>cpu_temp_c := cpu_temp_c v\<rparr> # merge_cpus ss vs"
| "merge_cpus ss vs = ss"

fun merge_gpus :: "gpu_spec list \<Rightarrow> gpu_spec list \<Rightarrow> gpu_spec list" where
  "merge_gpus (s # ss) (v # vs) =
     s\<lparr>gpu_temp_c := gpu_temp_c v, gpu_util_pct := gpu_util_pct v, vram_free_gb := vram_free_gb v\<rparr> # merge_gpus ss vs"
| "merge_gpus ss vs = ss"

definition MergeHardware :: "hardware option \<Rightarrow> hardware option \<Rightarrow> hardware option" where
  "MergeHardware st vol =
     (case (st, vol) of
        (Some s, Some v) \<Rightarrow> Some
          \<lparr>hw_cpus = map_option (\<lambda>cs. merge_cpus cs (case hw_cpus v of None \<Rightarrow> [] | Some x \<Rightarrow> x)) (hw_cpus s),
           hw_gpus = map_option (\<lambda>gs. merge_gpus gs (gpu_list v)) (hw_gpus s),
           hw_ram = (case (hw_ram s, hw_ram v) of
                       (Some r, Some u) \<Rightarrow> Some (r\<lparr>ram_free_gb := ram_free_gb u\<rparr>)
                     | _ \<Rightarrow> hw_ram s)\<rparr>
      | _ \<Rightarrow> st)"

text \<open>FNV-1a over the JSON of the hardware, 64-bit arithmetic with wrap-around, as 16 hex digits.\<close>

definition fnv_offset :: "64 word" where "fnv_offset = 14695981039346656037"
definition fnv_prime :: "64 word" where "fnv_prime = 1099511628211"

unbundle bit_operations_syntax

definition fnv1a :: "string \<Rightarrow> 64 word" where
  "fnv1a data = foldl (\<lambda>h b. (h XOR word_of_nat (of_char b)) * fnv_prime) fnv_offset data"

definition hex16 :: "64 word \<Rightarrow> string" where
  "hex16 w = hex_encode (be_bytes 8 (unat w))"

definition HashHardware :: "(hardware \<Rightarrow> string option) \<Rightarrow> hardware option \<Rightarrow> string" where
  "HashHardware marshal hw =
     (case hw of None \<Rightarrow> []
      | Some h \<Rightarrow> (case marshal h of None \<Rightarrow> [] | Some data \<Rightarrow> hex16 (fnv1a data)))"

lemma length_hex16 [simp]: "length (hex16 w) = 16"
  by (simp add: hex16_def)

lemma hex16_inj: "hex16 v = hex16 w \<Longrightarrow> v = w"
proof -
  assume "hex16 v = hex16 w"
  then have "be_bytes 8 (unat v) = be_bytes 8 (unat w)"
    unfolding hex16_def by (rule hex_encode_inj)
  then have "unat v mod 256 ^ 8 = unat w mod 256 ^ 8" by (rule be_bytes_inj)
  moreover have "unat x < 256 ^ 8" for x :: "64 word" using unsigned_less [of x] by simp
  ultimately have "unat v = unat w" by (metis mod_less)
  then show "v = w" by (rule unsigned_word_eqI)
qed

lemma merge_stable_volatile_cpus:
  "merge_cpus (map stable_cpu cs)
     (map (\<lambda>c. \<lparr>cpu_name = [], cpu_cores = 0, cpu_clock_mhz = 0, cpu_temp_c = cpu_temp_c c\<rparr>) cs) = cs"
  by (induction cs) simp_all

lemma merge_stable_volatile_gpus:
  "merge_gpus (map stable_gpu gs)
     (map (\<lambda>g. \<lparr>gpu_name = [], gpu_driver = [], vram_total_gb = 0,
                 gpu_temp_c = gpu_temp_c g, gpu_util_pct = gpu_util_pct g, vram_free_gb = vram_free_gb g\<rparr>) gs) = gs"
  by (induction gs) simp_all


section \<open>Services and messages\<close>

record service_info =
  svc_name :: string
  svc_type :: string
  svc_engine :: string
  svc_launcher :: string
  svc_version :: string
  svc_bin_hash :: string
  svc_model :: string
  svc_model_hash :: string
  svc_model_origin_url :: string
  svc_ready :: bool
  svc_loading :: bool
  svc_child_pid :: int
  svc_child_name :: string
  svc_queue_depth :: int
  svc_progress :: int
  svc_wait_sec :: "int option"
  svc_last_job_at :: int
  svc_total_jobs :: int
  svc_avg_job_sec :: "int option"
  svc_max_queue :: int
  svc_concurrency :: int
  svc_queue_disabled :: bool
  svc_inspect :: "(string, string) gomap option"
  svc_inspect_labels :: "(string, string) gomap option"
  svc_inspect_order :: "string list option"

definition zero_service :: service_info where
  "zero_service = \<lparr>svc_name = [], svc_type = [], svc_engine = [], svc_launcher = [], svc_version = [],
     svc_bin_hash = [], svc_model = [], svc_model_hash = [], svc_model_origin_url = [], svc_ready = False,
     svc_loading = False, svc_child_pid = 0, svc_child_name = [], svc_queue_depth = 0, svc_progress = 0,
     svc_wait_sec = None, svc_last_job_at = 0, svc_total_jobs = 0, svc_avg_job_sec = None, svc_max_queue = 0,
     svc_concurrency = 0, svc_queue_disabled = False, svc_inspect = None, svc_inspect_labels = None,
     svc_inspect_order = None\<rparr>"

record service_metrics =
  sm_service :: string
  sm_status :: string
  sm_queue_depth :: "32 word"
  sm_running_count :: "32 word"
  sm_total_jobs_done :: "64 word"
  sm_avg_job_sec :: rat
  sm_last_job_ms :: int
  sm_running_job_id :: string
  sm_timestamp_ms :: int

record rv_msg =
  m_v :: int
  m_type :: string
  m_role :: string
  m_id :: string
  m_addr :: string
  m_local_addr :: string
  m_candidates :: "string list"
  m_cert_hash :: string
  m_punch_count :: int
  m_punch_interval_ms :: int
  m_pre_dial_wait_ms :: int
  m_reply_burst_count :: int
  m_reply_burst_interval_ms :: int
  m_version :: string
  m_bin_hash :: string
  m_owner_address :: string
  m_emblem :: string
  m_auth_mode :: string
  m_hardware :: "hardware option"
  m_services :: "service_info list option"
  m_full_sync :: bool
  m_ek_cert :: string
  m_signature :: string
  m_timestamp_ms :: int
  m_cred_sig :: string
  m_cred_issued_ms :: int
  m_cred_expire_ms :: int
  m_ping_interval_sec :: int
  m_register_interval_sec :: int
  m_event :: string
  m_service_name :: string
  m_service_info :: "(string, json) gomap option"
  m_metrics :: "service_metrics option"
  m_metrics_batch :: "service_metrics list"

definition empty_msg :: rv_msg where
  "empty_msg = \<lparr>m_v = 0, m_type = [], m_role = [], m_id = [], m_addr = [], m_local_addr = [], m_candidates = [],
     m_cert_hash = [], m_punch_count = 0, m_punch_interval_ms = 0, m_pre_dial_wait_ms = 0,
     m_reply_burst_count = 0, m_reply_burst_interval_ms = 0, m_version = [], m_bin_hash = [],
     m_owner_address = [], m_emblem = [], m_auth_mode = [], m_hardware = None, m_services = None,
     m_full_sync = False, m_ek_cert = [], m_signature = [], m_timestamp_ms = 0, m_cred_sig = [],
     m_cred_issued_ms = 0, m_cred_expire_ms = 0, m_ping_interval_sec = 0, m_register_interval_sec = 0,
     m_event = [], m_service_name = [], m_service_info = None, m_metrics = None, m_metrics_batch = []\<rparr>"

text \<open>The frame types of \<^verbatim>\<open>pkg/signal/proto.go\<close>.\<close>

abbreviation "TypeHello \<equiv> ''hello''"
abbreviation "TypeRegister \<equiv> ''register''"
abbreviation "TypeAck \<equiv> ''ack''"
abbreviation "TypeConnect \<equiv> ''connect''"
abbreviation "TypeProxyInfo \<equiv> ''proxy_info''"
abbreviation "TypePunch \<equiv> ''punch''"
abbreviation "TypeError \<equiv> ''error''"
abbreviation "TypeStatusUpd \<equiv> ''status_update''"
abbreviation "TypeServiceEvent \<equiv> ''service_event''"
abbreviation "TypePing \<equiv> ''ping''"
abbreviation "TypeNeedRegister \<equiv> ''need_register''"


section \<open>Addresses and the registry\<close>

datatype addr_kind = TCPAddr | UDPAddr | OtherAddr

text \<open>A \<^verbatim>\<open>net.Addr\<close>: its dynamic type, the bytes of its IP and the text that \<^verbatim>\<open>String()\<close> prints.\<close>

record net_addr =
  na_kind :: addr_kind
  na_ip :: string
  na_text :: string

text \<open>\<^verbatim>\<open>net.IP.Equal\<close>: an IPv4 address and the same address in IPv6 form are equal.\<close>

definition v4_in_v6 :: string where
  "v4_in_v6 = replicate 10 (CHR 0x00) @ [CHR 0xFF, CHR 0xFF]"

definition ip_equal :: "string \<Rightarrow> string \<Rightarrow> bool" where
  "ip_equal a b \<longleftrightarrow>
     (if length a = length b then a = b
      else if length a = 4 \<and> length b = 16 then b = v4_in_v6 @ a
      else if length a = 16 \<and> length b = 4 then a = v4_in_v6 @ b
      else False)"

record proxy_info =
  p_id :: string
  p_role :: string
  p_addr :: string
  p_local_addr :: string
  p_cert_hash :: string
  p_version :: string
  p_bin_hash :: string
  p_owner_address :: string
  p_emblem :: string
  p_udp_addr :: "net_addr option"
  p_last_seen :: time
  p_registered_at :: time
  p_addr_manual :: bool
  p_control_ip :: string
  p_auth_mode :: string
  p_hardware :: "hardware option"
  p_services :: "service_info list"
  p_tpm_verified :: bool
  p_ek_cert_issuer :: string

definition zero_proxy :: proxy_info where
  "zero_proxy = \<lparr>p_id = [], p_role = [], p_addr = [], p_local_addr = [], p_cert_hash = [], p_version = [],
     p_bin_hash = [], p_owner_address = [], p_emblem = [], p_udp_addr = None, p_last_seen = 0,
     p_registered_at = 0, p_addr_manual = False, p_control_ip = [], p_auth_mode = [], p_hardware = None,
     p_services = [], p_tpm_verified = False, p_ek_cert_issuer = []\<rparr>"

record node_metric =
  nm_node_id :: string
  nm_service :: string
  nm_status :: int
  nm_queue_depth :: "32 word"
  nm_total_jobs_done :: "64 word"
  nm_avg_job_sec :: rat
  nm_last_job_ms :: int
  nm_running_job_id :: string
  nm_running_count :: "32 word"
  nm_seq :: "64 word"

text \<open>A control connection; \<open>cc_conn\<close> identifies the TCP connection itself.\<close>

record control_conn =
  cc_conn :: nat
  cc_node_id :: string
  cc_role :: string
  cc_connected_at :: time
  cc_remote :: net_addr


section \<open>Properties\<close>

text \<open>Splitting a hardware report into its stable and its volatile half loses nothing: merging the
  halves back gives the report, for every report.\<close>

theorem hardware_split_merge:
  "MergeHardware (StableHardware hw) (VolatileHardware hw) = hw"
proof (cases hw)
  case (Some h)
  show ?thesis
    by (cases "hw_cpus h"; cases "hw_gpus h"; cases "hw_ram h")
       (simp_all add: Some MergeHardware_def StableHardware_def VolatileHardware_def
          merge_stable_volatile_cpus merge_stable_volatile_gpus)
qed (simp add: MergeHardware_def StableHardware_def VolatileHardware_def)

end
