(* ===== verification/RV_Verify.thy ===== *)
theory RV_Verify
  imports RV_Data Grants
begin

text \<open>
  Who may register: the identity and admission checks of \<^verbatim>\<open>pkg/rendezvous/session.go\<close> and
  \<^verbatim>\<open>pkg/rendezvous/rv_auth.go\<close>. Code outside the repository is collected in the record \<open>rv_env\<close>:
  go-ethereum, the JSON encoder, SHA-256, the X.509 parser, Unicode's case folding of runes
  and the quoting of \<^verbatim>\<open>%q\<close>.
\<close>

record ('sk, 'pub) rv_env =
  ev_eth :: "('sk, 'pub) eth"
  ev_sha256 :: "string \<Rightarrow> string"
  ev_marshal_hw :: "hardware \<Rightarrow> string option"
  ev_parse_cert :: "string \<Rightarrow> string option"
  ev_rune_fold :: "nat \<Rightarrow> nat"
  ev_quote :: "string \<Rightarrow> string"


section \<open>Node ids\<close>

definition nodeKey :: "string \<Rightarrow> string" where
  "nodeKey nid =
     (case index_byte nid CHR '':'' of
        Some i \<Rightarrow> to_upper (take i nid) @ '':'' @ to_lower (drop (Suc i) nid)
      | None \<Rightarrow> to_lower nid)"

definition addrFromNodeID :: "('sk, 'pub) eth \<Rightarrow> string \<Rightarrow> string option" where
  "addrFromNodeID E nid =
     (let s = (case index_byte nid CHR '':'' of Some i \<Rightarrow> drop (Suc i) nid | None \<Rightarrow> nid)
      in if is_hex_address E s then Some (hex_to_address E s) else None)"

definition metricKey :: "string \<Rightarrow> string \<Rightarrow> string" where
  "metricKey nodeID service = nodeID"

lemma colon_notin_case [simp]:
  "CHR '':'' \<in> set (to_lower s) \<longleftrightarrow> CHR '':'' \<in> set s"
  "CHR '':'' \<in> set (to_upper s) \<longleftrightarrow> CHR '':'' \<in> set s"
  unfolding to_lower_def to_upper_def
  by (induction s) (simp_all add: eq_commute [of "CHR '':''"])

lemma nodeKey_no_colon: "CHR '':'' \<notin> set nid \<Longrightarrow> nodeKey nid = to_lower nid"
  by (simp add: nodeKey_def index_byte_None [THEN iffD2])

lemma nodeKey_colon: "CHR '':'' \<notin> set r \<Longrightarrow> nodeKey (r @ '':'' @ a) = to_upper r @ '':'' @ to_lower a"
  using index_byte_append [of "CHR '':''" r a] by (simp add: nodeKey_def)

lemma nodeKey_cases:
  obtains "CHR '':'' \<notin> set nid" "nodeKey nid = to_lower nid"
  | r a where "nid = r @ '':'' @ a" "CHR '':'' \<notin> set r" "nodeKey nid = to_upper r @ '':'' @ to_lower a"
proof (cases "index_byte nid CHR '':''")
  case None
  then show ?thesis using that(1) nodeKey_no_colon by simp
next
  case (Some i)
  from index_byte_SomeD [OF Some] have "nid = take i nid @ '':'' @ drop (Suc i) nid" "CHR '':'' \<notin> set (take i nid)"
    by simp_all
  then show ?thesis using that(2) nodeKey_colon by metis
qed

lemma nodeKey_idem [simp]: "nodeKey (nodeKey nid) = nodeKey nid"
  by (rule nodeKey_cases [of nid]) (simp_all add: nodeKey_no_colon nodeKey_colon del: append_Cons append.simps)


section \<open>Comparison of byte strings up to case\<close>

text \<open>
  \<^verbatim>\<open>bytes.EqualFold\<close> decodes both arguments as UTF-8 and compares the runes up to case. As in
  \<^verbatim>\<open>utf8.DecodeRune\<close>, a byte that starts no valid encoding is the replacement rune U+FFFD, of width 1.
\<close>

definition cont_byte :: "nat \<Rightarrow> nat \<Rightarrow> char list \<Rightarrow> nat \<Rightarrow> bool" where
  "cont_byte lo hi s i \<longleftrightarrow> i < length s \<and> lo \<le> (of_char (s ! i) :: nat) \<and> of_char (s ! i) \<le> hi"

definition low6 :: "char list \<Rightarrow> nat \<Rightarrow> nat" where
  "low6 s i = of_char (s ! i) mod 64"

definition decode_rune :: "char \<Rightarrow> char list \<Rightarrow> nat \<times> nat" where
  "decode_rune c s =
     (let b = of_char c :: nat in
      if b < 128 then (b, 0)
      else if 0xC2 \<le> b \<and> b \<le> 0xDF \<and> cont_byte 0x80 0xBF s 0 then (b mod 32 * 64 + low6 s 0, 1)
      else if 0xE0 \<le> b \<and> b \<le> 0xEF \<and>
              cont_byte (if b = 0xE0 then 0xA0 else 0x80) (if b = 0xED then 0x9F else 0xBF) s 0 \<and> cont_byte 0x80 0xBF s 1
      then (b mod 16 * 4096 + low6 s 0 * 64 + low6 s 1, 2)
      else if 0xF0 \<le> b \<and> b \<le> 0xF4 \<and>
              cont_byte (if b = 0xF0 then 0x90 else 0x80) (if b = 0xF4 then 0x8F else 0xBF) s 0 \<and>
              cont_byte 0x80 0xBF s 1 \<and> cont_byte 0x80 0xBF s 2
      then (b mod 8 * 262144 + low6 s 0 * 4096 + low6 s 1 * 64 + low6 s 2, 3)
      else (0xFFFD, 0))"

fun runes_fuel :: "nat \<Rightarrow> char list \<Rightarrow> nat list" where
  "runes_fuel n [] = []"
| "runes_fuel 0 s = []"
| "runes_fuel (Suc n) (c # s) = (let (r, w) = decode_rune c s in r # runes_fuel n (drop w s))"

text \<open>Every rune takes at least one byte, so the length is fuel enough.\<close>

definition runes :: "char list \<Rightarrow> nat list" where
  "runes s = runes_fuel (length s) s"

definition bytes_equal_fold :: "(nat \<Rightarrow> nat) \<Rightarrow> string \<Rightarrow> string \<Rightarrow> bool" where
  "bytes_equal_fold rune_fold s t \<longleftrightarrow> map rune_fold (runes s) = map rune_fold (runes t)"

lemma bytes_equal_fold_refl [simp]: "bytes_equal_fold f s s"
  by (simp add: bytes_equal_fold_def)

definition stray_byte :: "char \<Rightarrow> bool" where
  "stray_byte c \<longleftrightarrow> 0x80 \<le> (of_char c :: nat) \<and> of_char c < (0xC2 :: nat)"

lemma decode_stray: "stray_byte c \<Longrightarrow> decode_rune c s = (0xFFFD, 0)"
  by (simp add: stray_byte_def decode_rune_def Let_def)

lemma runes_stray: "list_all stray_byte s \<Longrightarrow> runes s = replicate (length s) 0xFFFD"
proof -
  have "list_all stray_byte s \<Longrightarrow> runes_fuel (length s) s = replicate (length s) 0xFFFD"
    by (induction s) (simp_all add: decode_stray)
  then show "list_all stray_byte s \<Longrightarrow> ?thesis" by (simp add: runes_def)
qed

lemma runes_ascii: "\<forall>c\<in>set s. (of_char c :: nat) < 128 \<Longrightarrow> runes s = map of_char s"
proof -
  have "\<forall>c\<in>set s. (of_char c :: nat) < 128 \<Longrightarrow> runes_fuel (length s) s = map of_char s"
    by (induction s) (simp_all add: decode_rune_def)
  then show "\<forall>c\<in>set s. (of_char c :: nat) < 128 \<Longrightarrow> ?thesis" by (simp add: runes_def)
qed


section \<open>Register and ping signatures\<close>

definition hashHardwareForVerify :: "(hardware \<Rightarrow> string option) \<Rightarrow> hardware option \<Rightarrow> string" where
  "hashHardwareForVerify marshal hw =
     (case hw of None \<Rightarrow> []
      | Some h \<Rightarrow>
          (case marshal h of None \<Rightarrow> []
           | Some data \<Rightarrow>
               (let offset = 14695981039346656037 :: 64 word; prime = 1099511628211 :: 64 word;
                    h = foldl (\<lambda>h b. (h XOR word_of_nat (of_char b)) * prime) offset data
                in hex_encode (be_bytes 8 (unat h)))))"

datatype verify_error =
    SigLength
  | TimestampMissing
  | SkewTooLarge int
  | InvalidNodeID string
  | Ecrecover
  | WrongSigner string string

text \<open>The clock check: the difference and its negation are 64-bit operations.\<close>

definition clock_skew :: "int \<Rightarrow> int \<Rightarrow> int" where
  "clock_skew now_ms ts =
     (let skew = wrap64 (now_ms - ts) in if skew < 0 then wrap64 (- skew) else skew)"

definition check_signer ::
  "('sk, 'pub) rv_env \<Rightarrow> string \<Rightarrow> string \<Rightarrow> string \<Rightarrow> verify_error option" where
  "check_signer V expectedAddr digest sig =
     (case sig_to_pub (ev_eth V) digest sig of
        None \<Rightarrow> Some Ecrecover
      | Some pub \<Rightarrow>
          (let recovered = pubkey_to_address (ev_eth V) pub in
           if \<not> bytes_equal_fold (ev_rune_fold V) recovered expectedAddr
           then Some (WrongSigner (address_hex (ev_eth V) recovered) (address_hex (ev_eth V) expectedAddr))
           else None))"

definition verifyRegisterSignature :: "('sk, 'pub) rv_env \<Rightarrow> time \<Rightarrow> rv_msg \<Rightarrow> string \<Rightarrow> verify_error option" where
  "verifyRegisterSignature V now msg hwHash =
     (if length (m_signature msg) \<noteq> 65 then Some SigLength
      else if m_timestamp_ms msg = 0 then Some TimestampMissing
      else if clock_skew (unix_milli now) (m_timestamp_ms msg) > 60000
      then Some (SkewTooLarge (clock_skew (unix_milli now) (m_timestamp_ms msg)))
      else (case addrFromNodeID (ev_eth V) (m_id msg) of
              None \<Rightarrow> Some (InvalidNodeID (m_id msg))
            | Some expectedAddr \<Rightarrow>
                check_signer V expectedAddr
                  (RegisterDigest (ev_sha256 V) (m_id msg) (m_cert_hash msg) (m_version msg) (m_bin_hash msg)
                     (m_owner_address msg) hwHash (m_timestamp_ms msg))
                  (m_signature msg)))"

definition verifyPingSignature :: "('sk, 'pub) rv_env \<Rightarrow> time \<Rightarrow> rv_msg \<Rightarrow> verify_error option" where
  "verifyPingSignature V now msg =
     (if length (m_signature msg) \<noteq> 65 then Some SigLength
      else if m_timestamp_ms msg = 0 then Some TimestampMissing
      else if clock_skew (unix_milli now) (m_timestamp_ms msg) > 60000
      then Some (SkewTooLarge (clock_skew (unix_milli now) (m_timestamp_ms msg)))
      else (case addrFromNodeID (ev_eth V) (m_id msg) of
              None \<Rightarrow> Some (InvalidNodeID (m_id msg))
            | Some expectedAddr \<Rightarrow>
                check_signer V expectedAddr (PingDigest (ev_sha256 V) (m_role msg) (m_timestamp_ms msg)) (m_signature msg)))"

lemma hashHardwareForVerify_eq: "hashHardwareForVerify marshal hw = HashHardware marshal hw"
  by (simp add: hashHardwareForVerify_def HashHardware_def hex16_def fnv1a_def fnv_offset_def fnv_prime_def
        Let_def split: option.splits)

text \<open>The clock check accepts what it means to, and one value more: the negation of \<open>- 2\<^sup>6\<^sup>3\<close> overflows.\<close>

lemma clock_skew_le:
  assumes "0 \<le> now_ms" "now_ms < 2 ^ 62" "int64_ok ts"
  shows "clock_skew now_ms ts \<le> 60000 \<longleftrightarrow> \<bar>now_ms - ts\<bar> \<le> 60000 \<or> ts = now_ms - 2 ^ 63"
proof -
  let ?d = "now_ms - ts"
  have r: "- (2 ^ 63) < ?d" "?d < 2 ^ 63 + 2 ^ 62" using assms by (auto simp: int64_ok_def)
  consider "\<bar>?d\<bar> < 2 ^ 63" | "?d = 2 ^ 63" | "2 ^ 63 < ?d" using r by linarith
  then show ?thesis
  proof cases
    case 1
    then have "int64_ok ?d" "int64_ok (- ?d)" by (auto simp: int64_ok_def)
    then show ?thesis using 1 by (auto simp: clock_skew_def Let_def)
  next
    case 2
    then show ?thesis by (auto simp: clock_skew_def wrap64_def Let_def)
  next
    case 3
    then have "wrap64 ?d = ?d - 2 ^ 64" using r by (intro wrap64_up) auto
    moreover have "wrap64 (- (?d - 2 ^ 64)) = 2 ^ 64 - ?d"
      using 3 r by (subst wrap64_id) (auto simp: int64_ok_def)
    ultimately show ?thesis using 3 r by (auto simp: clock_skew_def Let_def)
  qed
qed


section \<open>Admission policy\<close>

datatype bind = BindNode | BindNone | BindAny

record rv_issuer =
  is_address :: string
  is_bind :: string

record rv_auth_file =
  af_mode :: string
  af_issuers :: "rv_issuer list"

text \<open>What reading \<^verbatim>\<open>auth.json\<close> beside the configuration gives.\<close>

datatype auth_json = NoConfigPath | FileMissing | ReadFails | ParseFails | Parsed rv_auth_file

datatype auth_load_error = ReadErr | ParseErr | InvalidMode string | InvalidBind string string | NoIssuers

definition parse_bind :: "string \<Rightarrow> bind option" where
  "parse_bind b =
     (if b = [] \<or> b = ''node'' then Some BindNode
      else if b = ''none'' then Some BindNone
      else if b = ''any'' then Some BindAny
      else None)"

fun load_issuers :: "rv_issuer list \<Rightarrow> (string, bind) gomap \<Rightarrow> auth_load_error option \<times> (string, bind) gomap" where
  "load_issuers [] issuers = (None, issuers)"
| "load_issuers (is # rest) issuers =
     (let addr = to_lower (trim_space (is_address is)) in
      if addr = [] then load_issuers rest issuers
      else (case parse_bind (to_lower (trim_space (is_bind is))) of
              None \<Rightarrow> (Some (InvalidBind addr (is_bind is)), issuers)
            | Some b \<Rightarrow> load_issuers rest (mput addr b issuers)))"

definition LoadRVAuth :: "auth_json \<Rightarrow> string \<times> (string, bind) gomap \<times> auth_load_error option" where
  "LoadRVAuth src =
     (case src of
        NoConfigPath \<Rightarrow> (''public'', [], None)
      | FileMissing \<Rightarrow> (''public'', [], None)
      | ReadFails \<Rightarrow> (''public'', [], Some ReadErr)
      | ParseFails \<Rightarrow> (''public'', [], Some ParseErr)
      | Parsed f \<Rightarrow>
          (let m = to_lower (trim_space (af_mode f));
               mode = (if m = [] \<or> m = ''open'' then ''public'' else m)
           in if mode \<noteq> ''public'' \<and> mode \<noteq> ''protected'' then (mode, [], Some (InvalidMode (af_mode f)))
              else (case load_issuers (af_issuers f) [] of
                      (Some e, issuers) \<Rightarrow> (mode, issuers, Some e)
                    | (None, issuers) \<Rightarrow>
                        if mode = ''protected'' \<and> issuers = [] then (mode, issuers, Some NoIssuers)
                        else (mode, issuers, None))))"

definition allowsBound :: "bind \<Rightarrow> bool" where
  "allowsBound p \<longleftrightarrow> p = BindNode \<or> p = BindAny"

definition allowsBearer :: "bind \<Rightarrow> bool" where
  "allowsBearer p \<longleftrightarrow> p = BindNone \<or> p = BindAny"

definition modeProtected :: "string \<Rightarrow> bool" where
  "modeProtected mode \<longleftrightarrow> equal_fold mode ''protected''"

datatype admit_error =
    CredRequired
  | CredNoExpiry
  | CredNodeAddr string
  | CredExpired string
  | NoAuthorizedIssuer

text \<open>One round of the loop over the credential shapes: \<open>None\<close> is \<^verbatim>\<open>continue\<close>.\<close>

definition attempt_admit ::
  "('sk, 'pub) eth \<Rightarrow> (string, bind) gomap \<Rightarrow> time \<Rightarrow> rv_msg \<Rightarrow> string \<times> bool \<Rightarrow> (admit_error option) option" where
  "attempt_admit E issuers now msg a =
     (case RecoverAddress E (fst a) (m_cred_sig msg) of
        Inl _ \<Rightarrow> None
      | Inr issuer \<Rightarrow>
          (case mget issuers (to_lower issuer) of
             None \<Rightarrow> None
           | Some pol \<Rightarrow>
               if snd a \<and> \<not> allowsBound pol then None
               else if \<not> snd a \<and> \<not> allowsBearer pol then None
               else if unix_milli now > m_cred_expire_ms msg then Some (Some (CredExpired issuer))
               else Some None))"

definition admitRegister ::
  "('sk, 'pub) eth \<Rightarrow> (string, bind) gomap \<Rightarrow> time \<Rightarrow> rv_msg \<Rightarrow> admit_error option" where
  "admitRegister E issuers now msg =
     (if m_cred_sig msg = [] then Some CredRequired
      else if m_cred_expire_ms msg \<le> 0 then Some CredNoExpiry
      else (case addrFromNodeID E (m_id msg) of
              None \<Rightarrow> Some (CredNodeAddr (m_id msg))
            | Some addr \<Rightarrow>
                (case attempt_admit E issuers now msg
                        (CredentialMessage (address_hex E addr) (m_cred_issued_ms msg) (m_cred_expire_ms msg), True) of
                   Some r \<Rightarrow> r
                 | None \<Rightarrow>
                     (case attempt_admit E issuers now msg
                             (CredentialMessage [] (m_cred_issued_ms msg) (m_cred_expire_ms msg), False) of
                        Some r \<Rightarrow> r
                      | None \<Rightarrow> Some NoAuthorizedIssuer))))"

text \<open>The text of the reason, as the error frame carries it.\<close>

fun admit_error_text :: "(string \<Rightarrow> string) \<Rightarrow> admit_error \<Rightarrow> string" where
  "admit_error_text quote CredRequired = ''admission credential required''"
| "admit_error_text quote CredNoExpiry = ''admission credential has no expiry''"
| "admit_error_text quote (CredNodeAddr nid) = ''node addr: invalid node id '' @ quote nid"
| "admit_error_text quote (CredExpired issuer) = ''credential expired (issuer '' @ issuer @ '')''"
| "admit_error_text quote NoAuthorizedIssuer = ''no authorized issuer credential (unknown issuer or wrong bind)''"

text \<open>The message an admission credential of one of the two shapes signs, and who may present it.\<close>

definition cred_shape :: "('sk, 'pub) eth \<Rightarrow> rv_msg \<Rightarrow> string \<Rightarrow> bool \<Rightarrow> string" where
  "cred_shape E msg addr bound =
     CredentialMessage (if bound then address_hex E addr else []) (m_cred_issued_ms msg) (m_cred_expire_ms msg)"

definition shape_allowed :: "bool \<Rightarrow> bind \<Rightarrow> bool" where
  "shape_allowed bound p \<longleftrightarrow> (if bound then allowsBound p else allowsBearer p)"

lemma attempt_admit_some:
  "attempt_admit E issuers now msg (cm, bound) = Some None \<longleftrightarrow>
     (\<exists>issuer pol. RecoverAddress E cm (m_cred_sig msg) = Inr issuer \<and> mget issuers (to_lower issuer) = Some pol \<and>
        shape_allowed bound pol \<and> unix_milli now \<le> m_cred_expire_ms msg)"
  by (auto simp: attempt_admit_def shape_allowed_def split: sum.splits option.splits)

lemma attempt_admit_expired:
  "attempt_admit E issuers now msg a = Some (Some e) \<Longrightarrow> unix_milli now > m_cred_expire_ms msg"
  by (auto simp: attempt_admit_def split: sum.splits option.splits if_splits)

lemma admitRegister_iff:
  "admitRegister E issuers now msg = None \<longleftrightarrow>
     m_cred_sig msg \<noteq> [] \<and> 0 < m_cred_expire_ms msg \<and> unix_milli now \<le> m_cred_expire_ms msg \<and>
     (\<exists>addr bound issuer pol. addrFromNodeID E (m_id msg) = Some addr \<and>
        RecoverAddress E (cred_shape E msg addr bound) (m_cred_sig msg) = Inr issuer \<and>
        mget issuers (to_lower issuer) = Some pol \<and> shape_allowed bound pol)" (is "?L \<longleftrightarrow> ?R")
proof
  assume ?L
  then obtain addr where a: "m_cred_sig msg \<noteq> []" "0 < m_cred_expire_ms msg" "addrFromNodeID E (m_id msg) = Some addr"
    and "attempt_admit E issuers now msg (cred_shape E msg addr True, True) = Some None \<or>
         attempt_admit E issuers now msg (cred_shape E msg addr False, False) = Some None"
    by (auto simp: admitRegister_def cred_shape_def split: if_splits option.splits)
  then show ?R unfolding attempt_admit_some by blast
next
  assume r: ?R
  then obtain addr bound where a: "addrFromNodeID E (m_id msg) = Some addr"
    and s: "attempt_admit E issuers now msg (cred_shape E msg addr bound, bound) = Some None"
    unfolding attempt_admit_some by blast
  have e: "attempt_admit E issuers now msg x = Some y \<Longrightarrow> y = None" for x y
    using r attempt_admit_expired [of E issuers now msg x] by (cases y) force+
  from r have g: "m_cred_sig msg \<noteq> []" "0 < m_cred_expire_ms msg" by blast+
  show ?L using g a s
    by (cases bound) (auto simp: admitRegister_def cred_shape_def dest: e split: option.splits)
qed

definition issuers_ok :: "(string, bind) gomap \<Rightarrow> bool" where
  "issuers_ok issuers \<longleftrightarrow> wf_map issuers \<and> list_all (\<lambda>k. k \<noteq> [] \<and> to_lower k = k) (mkeys issuers)"

lemma issuers_ok_put: "issuers_ok m \<Longrightarrow> k \<noteq> [] \<Longrightarrow> to_lower k = k \<Longrightarrow> issuers_ok (mput k b m)"
  by (simp add: issuers_ok_def list_all_iff dom_update)

lemma load_issuers_ok: "issuers_ok acc \<Longrightarrow> issuers_ok (snd (load_issuers iss acc))"
proof (induction iss acc rule: load_issuers.induct)
  case (2 i rest acc)
  let ?a = "to_lower (trim_space (is_address i))"
  show ?case
  proof (cases "?a = [] \<or> parse_bind (to_lower (trim_space (is_bind i))) = None")
    case True
    then show ?thesis using 2 by (auto simp: Let_def)
  next
    case False
    then obtain b where b: "parse_bind (to_lower (trim_space (is_bind i))) = Some b" "?a \<noteq> []" by auto
    have "issuers_ok (mput ?a b acc)" using b(2) 2(3) by (intro issuers_ok_put) simp_all
    then show ?thesis using 2(2) [OF refl b(2) b(1)] b by (simp add: Let_def)
  qed
qed simp

text \<open>The last entry of an issuer decides its policy.\<close>

definition issuer_key :: "rv_issuer \<Rightarrow> string" where
  "issuer_key i = to_lower (trim_space (is_address i))"

lemma load_issuers_get:
  "load_issuers iss acc = (None, m) \<Longrightarrow> k \<noteq> [] \<Longrightarrow>
   mget m k = (case find (\<lambda>i. issuer_key i = k) (rev iss) of
                 Some i \<Rightarrow> parse_bind (to_lower (trim_space (is_bind i)))
               | None \<Rightarrow> mget acc k)"
proof (induction iss acc rule: load_issuers.induct)
  case (2 i rest acc)
  have f: "find P (xs @ [y]) = (case find P xs of Some x \<Rightarrow> Some x | None \<Rightarrow> if P y then Some y else None)"
    for P and xs :: "rv_issuer list" and y by (induction xs) auto
  show ?case
  proof (cases "issuer_key i = []")
    case True
    then have "mget m k = (case find (\<lambda>i. issuer_key i = k) (rev rest) of
                 Some i \<Rightarrow> parse_bind (to_lower (trim_space (is_bind i))) | None \<Rightarrow> mget acc k)"
      using 2 by (simp add: issuer_key_def Let_def)
    then show ?thesis using True 2(4) by (auto simp: f split: option.splits)
  next
    case False
    then obtain b where b: "parse_bind (to_lower (trim_space (is_bind i))) = Some b"
      using 2(3) by (auto simp: Let_def issuer_key_def split: option.splits)
    then have "mget m k = (case find (\<lambda>i. issuer_key i = k) (rev rest) of
                 Some i \<Rightarrow> parse_bind (to_lower (trim_space (is_bind i))) | None \<Rightarrow> mget (mput (issuer_key i) b acc) k)"
      using 2 False unfolding issuer_key_def by (simp add: Let_def)
    then show ?thesis using b by (auto simp: f mget_put split: option.splits)
  qed
qed simp

lemma verifyRegisterSignature_iff:
  assumes "0 \<le> unix_milli now" "unix_milli now < 2 ^ 62" "int64_ok (m_timestamp_ms msg)"
  shows "verifyRegisterSignature V now msg hwHash = None \<longleftrightarrow>
     length (m_signature msg) = 65 \<and> m_timestamp_ms msg \<noteq> 0 \<and>
     (\<bar>unix_milli now - m_timestamp_ms msg\<bar> \<le> 60000 \<or> m_timestamp_ms msg = unix_milli now - 2 ^ 63) \<and>
     (\<exists>addr. addrFromNodeID (ev_eth V) (m_id msg) = Some addr \<and>
        check_signer V addr (RegisterDigest (ev_sha256 V) (m_id msg) (m_cert_hash msg) (m_version msg) (m_bin_hash msg)
           (m_owner_address msg) hwHash (m_timestamp_ms msg)) (m_signature msg) = None)"
  unfolding verifyRegisterSignature_def clock_skew_le [OF assms, symmetric]
  by (auto split: option.splits)

lemma check_signer_None:
  "check_signer V addr d sig = None \<longleftrightarrow>
     (\<exists>pub. sig_to_pub (ev_eth V) d sig = Some pub \<and>
        bytes_equal_fold (ev_rune_fold V) (pubkey_to_address (ev_eth V) pub) addr)"
  by (auto simp: check_signer_def Let_def split: option.splits)

text \<open>The digest that a node signs, computed on its side with \<^verbatim>\<open>setup.HashHardware\<close>.\<close>

definition node_digest :: "('sk, 'pub) rv_env \<Rightarrow> rv_msg \<Rightarrow> string" where
  "node_digest V msg = RegisterDigest (ev_sha256 V) (m_id msg) (m_cert_hash msg) (m_version msg) (m_bin_hash msg)
     (m_owner_address msg) (HashHardware (ev_marshal_hw V) (m_hardware msg)) (m_timestamp_ms msg)"

lemma addrFromNodeID_role:
  "CHR '':'' \<notin> set r \<Longrightarrow> addrFromNodeID E (r @ '':'' @ a) = (if is_hex_address E a then Some (hex_to_address E a) else None)"
  using index_byte_append [of "CHR '':''" r a] by (simp add: addrFromNodeID_def)


section \<open>Properties\<close>

text \<open>C23. A full register is accepted exactly when it carries a 65-byte signature, a non-zero timestamp, and
  the signature over the register digest (with the same hardware hash the node computes) recovers to the
  address of the node id up to the byte comparison of the code. The timestamp must be within 60 s of the
  server's clock, with one exception that the overflow of the negation lets through: the timestamp that
  is exactly \<open>2\<^sup>6\<^sup>3\<close> ms before now. In particular every honest node whose clock is within 60 s is accepted.\<close>

theorem register_signature_exact:
  assumes "0 \<le> unix_milli now" "unix_milli now < 2 ^ 62" "int64_ok (m_timestamp_ms msg)"
  shows "(verifyRegisterSignature V now msg (hashHardwareForVerify (ev_marshal_hw V) (m_hardware msg)) = None \<longleftrightarrow>
           length (m_signature msg) = 65 \<and> m_timestamp_ms msg \<noteq> 0 \<and>
           (\<bar>unix_milli now - m_timestamp_ms msg\<bar> \<le> 60000 \<or> m_timestamp_ms msg = unix_milli now - 2 ^ 63) \<and>
           (\<exists>addr pub. addrFromNodeID (ev_eth V) (m_id msg) = Some addr \<and>
              sig_to_pub (ev_eth V) (node_digest V msg) (m_signature msg) = Some pub \<and>
              bytes_equal_fold (ev_rune_fold V) (pubkey_to_address (ev_eth V) pub) addr)) \<and>
         (\<forall>sk. eth_signs (ev_eth V) \<and> crypto_sign (ev_eth V) (node_digest V msg) sk = Some (m_signature msg) \<and>
           addrFromNodeID (ev_eth V) (m_id msg) = Some (pubkey_to_address (ev_eth V) (public_key (ev_eth V) sk)) \<and>
           m_timestamp_ms msg \<noteq> 0 \<and> \<bar>unix_milli now - m_timestamp_ms msg\<bar> \<le> 60000 \<longrightarrow>
           verifyRegisterSignature V now msg (hashHardwareForVerify (ev_marshal_hw V) (m_hardware msg)) = None)"
  (is "(?ok \<longleftrightarrow> ?cond) \<and> ?honest")
proof
  show iff: "?ok \<longleftrightarrow> ?cond"
    unfolding verifyRegisterSignature_iff [OF assms] check_signer_None hashHardwareForVerify_eq node_digest_def by blast
  show ?honest unfolding iff by (auto simp: eth_signs_def)
qed

definition toy_env :: "(char, char) rv_env" where
  "toy_env = \<lparr>ev_eth = toy_eth, ev_sha256 = (\<lambda>s. s), ev_marshal_hw = (\<lambda>_. Some ''{}''),
     ev_parse_cert = (\<lambda>_. None), ev_rune_fold = (\<lambda>r. r), ev_quote = (\<lambda>s. s)\<rparr>"

definition toy_now :: time where
  "toy_now = (62135596800 + 1700000000) * second_ns"

definition toy_register :: rv_msg where
  "toy_register = empty_msg\<lparr>m_type := TypeRegister, m_role := ''provider'', m_full_sync := True,
     m_id := ''P:0x'' @ concat (replicate 20 ''6b''), m_timestamp_ms := 1700000001000,
     m_signature := CHR ''k'' # replicate 63 CHR ''k'' @ [CHR 0x01]\<rparr>"

lemma toy_eth_signs: "eth_signs (ev_eth toy_env)"
  by (simp add: eth_signs_def toy_env_def toy_eth_def nth_append)

lemma toy_addr: "addrFromNodeID toy_eth (m_id toy_register) = Some (replicate 20 CHR ''k'')"
  by code_simp

lemma toy_now_milli [simp]: "unix_milli toy_now = 1700000000000"
  by (simp add: toy_now_def unix_milli_def second_ns_def)

theorem register_signature_exact_witness:
  "verifyRegisterSignature toy_env toy_now toy_register (hashHardwareForVerify (ev_marshal_hw toy_env) None) = None"
proof -
  have "verifyRegisterSignature toy_env toy_now toy_register
          (hashHardwareForVerify (ev_marshal_hw toy_env) (m_hardware toy_register)) = None"
    using register_signature_exact [of toy_now toy_register toy_env, THEN conjunct2, rule_format, of "CHR ''k''"]
      toy_eth_signs toy_addr
    by (simp add: toy_register_def int64_ok_def toy_env_def toy_eth_def)
  then show ?thesis by (simp add: toy_register_def empty_msg_def)
qed

text \<open>The signer check compares raw address bytes as if they were text: two addresses of the same
  length made of bytes that start no UTF-8 sequence are equal to it, whatever they are. So for such
  a node address the signature of another key is accepted.\<close>

theorem signer_check_confuses_addresses:
  assumes "list_all stray_byte a" "list_all stray_byte b" "length a = length b"
    and "sig_to_pub (ev_eth V) d sig = Some pub" "pubkey_to_address (ev_eth V) pub = a"
  shows "check_signer V b d sig = None"
  using assms by (simp add: check_signer_None bytes_equal_fold_def runes_stray)

theorem signer_check_confuses_addresses_witness:
  "\<exists>a b. a \<noteq> b \<and> pubkey_to_address (ev_eth toy_env) CHR 0x80 = a \<and>
     check_signer toy_env b ''d'' (replicate 65 CHR 0x80) = None"
proof -
  have "check_signer toy_env (replicate 20 CHR 0x90) ''d'' (replicate 65 CHR 0x80) = None"
    by (rule signer_check_confuses_addresses [of "replicate 20 CHR 0x80" _ _ _ _ "CHR 0x80"])
       (simp_all add: stray_byte_def toy_env_def toy_eth_def list_all_iff numeral_eq_Suc)
  moreover have "replicate 20 CHR 0x80 \<noteq> replicate 20 CHR 0x90" by (simp add: numeral_eq_Suc)
  moreover have "pubkey_to_address (ev_eth toy_env) CHR 0x80 = replicate 20 CHR 0x80"
    by (simp add: toy_env_def toy_eth_def)
  ultimately show ?thesis by blast
qed

text \<open>A ping signature says nothing about the role prefix of the id: a ping accepted for an id is
  accepted for the same address under every other prefix, because the role that is signed is taken from
  the message and never compared with the id.\<close>

theorem ping_role_not_bound:
  assumes "CHR '':'' \<notin> set r" "CHR '':'' \<notin> set r'"
  shows "verifyPingSignature V now (msg\<lparr>m_id := r @ '':'' @ a\<rparr>) = None \<longleftrightarrow>
         verifyPingSignature V now (msg\<lparr>m_id := r' @ '':'' @ a\<rparr>) = None"
  unfolding verifyPingSignature_def by (simp add: addrFromNodeID_role [simplified] assms)

theorem ping_role_not_bound_witness:
  "verifyPingSignature toy_env toy_now toy_register = None \<and>
   verifyPingSignature toy_env toy_now (toy_register\<lparr>m_id := ''B'' @ '':'' @ ''0x'' @ concat (replicate 20 ''6b'')\<rparr>) = None"
proof -
  have "clock_skew 1700000000000 1700000001000 = 1000" by (simp add: clock_skew_def wrap64_def)
  then have "verifyPingSignature toy_env toy_now toy_register = None"
    using toy_addr by (simp add: verifyPingSignature_def check_signer_None toy_env_def toy_eth_def toy_register_def)
  moreover have "toy_register = toy_register\<lparr>m_id := ''P'' @ '':'' @ ''0x'' @ concat (replicate 20 ''6b'')\<rparr>"
    by (simp add: toy_register_def)
  ultimately show ?thesis
    using ping_role_not_bound [where r = "''P''" and r' = "''B''" and V = toy_env and now = toy_now
        and msg = toy_register and a = "''0x'' @ concat (replicate 20 ''6b'')"] by auto
qed

text \<open>C24. Protected admission. A register is admitted exactly when it carries a credential with a
  positive expiry that has not passed, and the credential's signature, over the message that names
  this node or over the bearer message, recovers to an issuer of the list whose policy permits that shape.\<close>

theorem admission_exact:
  "admitRegister E issuers now msg = None \<longleftrightarrow>
     m_cred_sig msg \<noteq> [] \<and> 0 < m_cred_expire_ms msg \<and> unix_milli now \<le> m_cred_expire_ms msg \<and>
     (\<exists>addr bound issuer pol. addrFromNodeID E (m_id msg) = Some addr \<and>
        RecoverAddress E (cred_shape E msg addr bound) (m_cred_sig msg) = Inr issuer \<and>
        mget issuers (to_lower issuer) = Some pol \<and> shape_allowed bound pol)"
  by (rule admitRegister_iff)

text \<open>Loading the admission file. A file that loads gives the mode public or protected, a
  protected server has at least one issuer, the issuer keys are distinct, non-empty and lower case, and
  the policy of an issuer is that of its last entry.\<close>

theorem load_rv_auth_ok:
  assumes "LoadRVAuth src = (mode, issuers, None)"
  shows "mode \<in> {''public'', ''protected''} \<and> (mode = ''protected'' \<longrightarrow> issuers \<noteq> []) \<and> issuers_ok issuers \<and>
         (\<forall>f k. src = Parsed f \<and> k \<noteq> [] \<longrightarrow>
            mget issuers k = (case find (\<lambda>i. issuer_key i = k) (rev (af_issuers f)) of
                                Some i \<Rightarrow> parse_bind (to_lower (trim_space (is_bind i))) | None \<Rightarrow> None))"
proof (cases src)
  case (Parsed f)
  with assms have l: "load_issuers (af_issuers f) [] = (None, issuers)"
    and "mode \<in> {''public'', ''protected''}" "mode = ''protected'' \<longrightarrow> issuers \<noteq> []"
    by (auto simp: LoadRVAuth_def Let_def split: if_splits prod.splits option.splits)
  moreover have "issuers_ok issuers"
    using load_issuers_ok [of "[]" "af_issuers f"] l by (simp add: issuers_ok_def)
  ultimately show ?thesis using load_issuers_get [OF l] Parsed by (simp split: option.split)
qed (use assms in \<open>auto simp: LoadRVAuth_def issuers_ok_def\<close>)

theorem load_rv_auth_ok_witness:
  "\<exists>issuers. LoadRVAuth (Parsed \<lparr>af_mode = '' Protected'', af_issuers = [\<lparr>is_address = ''0xAb'', is_bind = []\<rparr>]\<rparr>)
       = (''protected'', issuers, None) \<and> issuers \<noteq> []"
proof -
  have "LoadRVAuth (Parsed \<lparr>af_mode = '' Protected'', af_issuers = [\<lparr>is_address = ''0xAb'', is_bind = []\<rparr>]\<rparr>)
       = (''protected'', [(''0xab'', BindNode)], None)" by code_simp
  from this load_rv_auth_ok [OF this] show ?thesis by blast
qed

text \<open>The registry key. Normalising is idempotent, and two ids share a key exactly when their roles
  and their addresses agree up to case; ids with different roles never share an entry.\<close>

theorem node_key_canonical:
  assumes "CHR '':'' \<notin> set r" "CHR '':'' \<notin> set r'"
  shows "nodeKey (nodeKey nid) = nodeKey nid \<and>
         (nodeKey (r @ '':'' @ a) = nodeKey (r' @ '':'' @ a') \<longleftrightarrow> to_upper r = to_upper r' \<and> to_lower a = to_lower a')"
proof -
  have "to_upper r @ CHR '':'' # to_lower a = to_upper r' @ CHR '':'' # to_lower a' \<longleftrightarrow>
        to_upper r = to_upper r' \<and> to_lower a = to_lower a'"
    by (rule append_sep_eq) (use assms in simp_all)
  then show ?thesis using assms by (simp add: nodeKey_colon [simplified])
qed

theorem node_key_canonical_witness:
  "nodeKey ''p:0xAbC'' = nodeKey ''P:0xabc'' \<and> nodeKey ''P:0xabc'' \<noteq> nodeKey ''B:0xabc''"
proof -
  have "to_upper ''p'' = to_upper ''P'' \<and> to_lower ''0xAbC'' = to_lower ''0xabc''" "to_upper ''P'' \<noteq> to_upper ''B''"
    by code_simp+
  then show ?thesis
    using node_key_canonical [of "''p''" "''P''" "[]" "''0xAbC''" "''0xabc''"]
      node_key_canonical [of "''P''" "''B''" "[]" "''0xabc''" "''0xabc''"] by simp
qed

end
