(* ===== verification/RV_Policy.thy ===== *)
theory RV_Policy
  imports RV_Verify
begin

text \<open>
  The stateless policies of the rendezvous server (\<^verbatim>\<open>pkg/rendezvous/server.go\<close>): hole-punch parameters,
  ping and register cadence, connection status, discovery buckets and their counters, the health
  rate limiter, and the translation of the JSON configuration (\<^verbatim>\<open>cmd/rendezvous/main.go\<close>) into them.
\<close>

section \<open>Server settings\<close>

record holepunch_policy =
  PrePunchCount :: int
  PrePunchIntervalMs :: int
  PreDialWaitMs :: int
  ReplyBurstCount :: int
  ReplyBurstIntervalMs :: int

record rv_settings =
  s_mode :: string
  s_issuers :: "(string, bind) gomap"
  s_proxy_purge :: duration
  s_ping_intervals :: "(string, duration) gomap"
  s_register_intervals :: "(string, duration) gomap"
  s_holepunch :: holepunch_policy

definition EffectivePolicy :: "rv_settings \<Rightarrow> holepunch_policy" where
  "EffectivePolicy s =
     (let p = s_holepunch s in
      \<lparr>PrePunchCount = (if PrePunchCount p \<le> 0 then 5 else PrePunchCount p),
       PrePunchIntervalMs = (if PrePunchIntervalMs p \<le> 0 then 50 else PrePunchIntervalMs p),
       PreDialWaitMs = (if PreDialWaitMs p \<le> 0 then 100 else PreDialWaitMs p),
       ReplyBurstCount = (if ReplyBurstCount p \<le> 0 then 3 else ReplyBurstCount p),
       ReplyBurstIntervalMs = (if ReplyBurstIntervalMs p \<le> 0 then 50 else ReplyBurstIntervalMs p)\<rparr>)"

definition defaultProxyPurge :: duration where "defaultProxyPurge = 120 * second_ns"

definition ProxyPurgeOrDefault :: "rv_settings \<Rightarrow> duration" where
  "ProxyPurgeOrDefault s = (if s_proxy_purge s > 0 then s_proxy_purge s else defaultProxyPurge)"

definition defaultPingInterval :: "string \<Rightarrow> duration" where
  "defaultPingInterval role =
     (if role = ''provider'' \<or> role = ''station'' then 5 * second_ns
      else if role = ''broker'' \<or> role = ''control'' then 10 * second_ns
      else 5 * second_ns)"

definition minPingInterval :: duration where "minPingInterval = 1 * second_ns"
definition maxPingInterval :: duration where "maxPingInterval = 60 * second_ns"

abbreviation interval_of :: "(string, duration) gomap \<Rightarrow> string \<Rightarrow> duration" where
  "interval_of m role \<equiv> (case mget m role of None \<Rightarrow> 0 | Some d \<Rightarrow> d)"

definition PingIntervalFor :: "rv_settings \<Rightarrow> string \<Rightarrow> duration" where
  "PingIntervalFor s role =
     (let d = interval_of (s_ping_intervals s) role;
          d = (if d \<le> 0 then defaultPingInterval role else d);
          d = (if d < minPingInterval then minPingInterval else d)
      in if d > maxPingInterval then maxPingInterval else d)"

definition defaultRegisterInterval :: duration where "defaultRegisterInterval = 300 * second_ns"
definition minRegisterInterval :: duration where "minRegisterInterval = 30 * second_ns"
definition maxRegisterInterval :: duration where "maxRegisterInterval = 3600 * second_ns"

definition RegisterIntervalFor :: "rv_settings \<Rightarrow> string \<Rightarrow> duration" where
  "RegisterIntervalFor s role =
     (let d = interval_of (s_register_intervals s) role;
          d = (if d \<le> 0 then defaultRegisterInterval else d);
          d = (if d < minRegisterInterval then minRegisterInterval else d)
      in if d > maxRegisterInterval then maxRegisterInterval else d)"

definition connStatusThresholds :: "rv_settings \<Rightarrow> string \<Rightarrow> duration \<times> duration" where
  "connStatusThresholds s role = (PingIntervalFor s role * 3, PingIntervalFor s role * 5)"

definition computeConnStatus :: "rv_settings \<Rightarrow> string \<Rightarrow> time \<Rightarrow> time \<Rightarrow> string" where
  "computeConnStatus s role lastSeen now =
     (let age = time_sub now lastSeen; (stale, offline) = connStatusThresholds s role
      in if age > offline then ''offline'' else if age > stale then ''stale'' else ''alive'')"

lemma ping_interval_bounds: "minPingInterval \<le> PingIntervalFor s role \<and> PingIntervalFor s role \<le> maxPingInterval"
  by (simp add: PingIntervalFor_def Let_def minPingInterval_def maxPingInterval_def second_ns_def)

lemma register_interval_bounds:
  "minRegisterInterval \<le> RegisterIntervalFor s role \<and> RegisterIntervalFor s role \<le> maxRegisterInterval"
  by (simp add: RegisterIntervalFor_def Let_def minRegisterInterval_def maxRegisterInterval_def second_ns_def)

text \<open>The age of an entry is below the saturation point of a duration at every threshold.\<close>

lemma computeConnStatus_age:
  "computeConnStatus s role lastSeen now =
     (if PingIntervalFor s role * 5 < now - lastSeen then ''offline''
      else if PingIntervalFor s role * 3 < now - lastSeen then ''stale'' else ''alive'')"
proof -
  have "PingIntervalFor s role * k < time_sub now lastSeen \<longleftrightarrow> PingIntervalFor s role * k < now - lastSeen"
    if "0 \<le> k" "k \<le> 5" for k
  proof (rule time_sub_gr)
    have b: "0 \<le> PingIntervalFor s role" "PingIntervalFor s role \<le> 60 * second_ns"
      using ping_interval_bounds [of s role] by (auto simp: minPingInterval_def maxPingInterval_def second_ns_def)
    show "0 \<le> PingIntervalFor s role * k" using b(1) that(1) by simp
    have "PingIntervalFor s role * k \<le> (60 * second_ns) * 5" using b that by (intro mult_mono) (auto simp: second_ns_def)
    then show "PingIntervalFor s role * k < 2 ^ 63 - 1" by (simp add: second_ns_def)
  qed
  from this [of 3] this [of 5] show ?thesis
    by (simp add: computeConnStatus_def connStatusThresholds_def Let_def)
qed


section \<open>Configuration file\<close>

record role_intervals =
  ri_station :: int
  ri_control :: int
  ri_provider :: int
  ri_broker :: int

record rv_config =
  cf_unified_addr :: string
  cf_proxy_purge_sec :: int
  cf_ping :: role_intervals
  cf_register :: role_intervals
  cf_holepunch :: holepunch_policy

definition firstNonZero :: "int \<Rightarrow> int \<Rightarrow> int" where
  "firstNonZero a b = (if a \<noteq> 0 then a else b)"

definition station_interval :: "role_intervals \<Rightarrow> int" where
  "station_interval p = firstNonZero (ri_station p) (ri_provider p)"

definition control_interval :: "role_intervals \<Rightarrow> int" where
  "control_interval p = firstNonZero (ri_control p) (ri_broker p)"

text \<open>\<^verbatim>\<open>time.Duration(v) * time.Second\<close> is a 64-bit product.\<close>

definition seconds :: "int \<Rightarrow> duration" where
  "seconds v = wrap64 (v * second_ns)"

definition interval_map :: "role_intervals \<Rightarrow> (string, duration) gomap" where
  "interval_map p =
     (let m = (if station_interval p > 0
               then mput ''provider'' (seconds (station_interval p)) (mput ''station'' (seconds (station_interval p)) [])
               else [])
      in if control_interval p > 0
         then mput ''broker'' (seconds (control_interval p)) (mput ''control'' (seconds (control_interval p)) m)
         else m)"

text \<open>The part of \<^verbatim>\<open>main\<close> between reading the files and \<^verbatim>\<open>srv.Run\<close>: \<^const>\<open>None\<close> is \<^verbatim>\<open>log.Fatalf\<close>.\<close>

definition configure :: "rv_config \<Rightarrow> auth_json \<Rightarrow> (string \<times> rv_settings) option" where
  "configure cfg auth =
     (case LoadRVAuth auth of
        (_, _, Some _) \<Rightarrow> None
      | (mode, issuers, None) \<Rightarrow> Some
          (if cf_unified_addr cfg = [] then '':9100'' else cf_unified_addr cfg,
           \<lparr>s_mode = mode, s_issuers = issuers,
            s_proxy_purge = (if cf_proxy_purge_sec cfg > 0 then seconds (cf_proxy_purge_sec cfg) else 0),
            s_ping_intervals = interval_map (cf_ping cfg),
            s_register_intervals = interval_map (cf_register cfg),
            s_holepunch = cf_holepunch cfg\<rparr>))"

lemma interval_map_get:
  "mget (interval_map p) r =
     (if (r = ''station'' \<or> r = ''provider'') \<and> station_interval p > 0 then Some (seconds (station_interval p))
      else if (r = ''control'' \<or> r = ''broker'') \<and> control_interval p > 0 then Some (seconds (control_interval p))
      else None)"
  by (auto simp: interval_map_def Let_def mget_put)


section \<open>Discovery buckets and counters\<close>

definition roleBucket :: "string \<Rightarrow> string" where
  "roleBucket role =
     (let r = to_lower role in
      if r = ''provider'' \<or> r = ''station'' then ''station''
      else if r = ''broker'' \<or> r = ''control'' then ''control''
      else if r = ''consumer'' \<or> r = ''passenger'' then ''passenger''
      else [])"

record rv_counts =
  cntStation :: int
  cntControl :: int
  cntPassenger :: int
  cntPublic :: int

definition zero_counts :: rv_counts where
  "zero_counts = \<lparr>cntStation = 0, cntControl = 0, cntPassenger = 0, cntPublic = 0\<rparr>"

definition countDelta :: "string \<Rightarrow> string \<Rightarrow> int \<Rightarrow> rv_counts \<Rightarrow> rv_counts" where
  "countDelta role authMode delta c =
     (if roleBucket role = ''station'' then
        (let c' = c\<lparr>cntStation := cntStation c + delta\<rparr> in
         if equal_fold authMode ''public'' then c'\<lparr>cntPublic := cntPublic c' + delta\<rparr> else c')
      else if roleBucket role = ''control'' then c\<lparr>cntControl := cntControl c + delta\<rparr>
      else if roleBucket role = ''passenger'' then c\<lparr>cntPassenger := cntPassenger c + delta\<rparr>
      else c)"

text \<open>What one entry adds to each counter, and the counters that a registry should have.\<close>

definition in_bucket :: "string \<Rightarrow> proxy_info \<Rightarrow> int" where
  "in_bucket b p = (if roleBucket (p_role p) = b then 1 else 0)"

definition is_public :: "proxy_info \<Rightarrow> int" where
  "is_public p = (if roleBucket (p_role p) = ''station'' \<and> equal_fold (p_auth_mode p) ''public'' then 1 else 0)"

definition real_counts :: "(string, proxy_info) gomap \<Rightarrow> rv_counts" where
  "real_counts m = \<lparr>cntStation = msum (in_bucket ''station'') m, cntControl = msum (in_bucket ''control'') m,
     cntPassenger = msum (in_bucket ''passenger'') m, cntPublic = msum is_public m\<rparr>"

lemma countDelta_entry:
  "countDelta (p_role p) (p_auth_mode p) d c =
     \<lparr>cntStation = cntStation c + d * in_bucket ''station'' p, cntControl = cntControl c + d * in_bucket ''control'' p,
      cntPassenger = cntPassenger c + d * in_bucket ''passenger'' p, cntPublic = cntPublic c + d * is_public p\<rparr>"
  by (auto simp: countDelta_def in_bucket_def is_public_def Let_def)

lemma real_counts_put:
  assumes "wf_map m"
  shows "real_counts (mput k p m) =
     countDelta (p_role p) (p_auth_mode p) 1
       (case mget m k of None \<Rightarrow> real_counts m | Some q \<Rightarrow> countDelta (p_role q) (p_auth_mode q) (- 1) (real_counts m))"
  by (cases "mget m k") (simp_all add: real_counts_def msum_put assms countDelta_entry)

lemma real_counts_bounds:
  "0 \<le> cntPublic (real_counts m)" "cntPublic (real_counts m) \<le> cntStation (real_counts m)"
proof -
  show "0 \<le> cntPublic (real_counts m)"
    by (simp add: real_counts_def) (rule msum_nonneg, simp add: is_public_def)
  show "cntPublic (real_counts m) \<le> cntStation (real_counts m)"
    unfolding real_counts_def msum_def rv_counts.simps
    by (rule sum_list_mono) (simp add: is_public_def in_bucket_def)
qed


section \<open>Health rate limiter\<close>

definition last_index :: "string \<Rightarrow> char \<Rightarrow> nat option" where
  "last_index s c = map_option (\<lambda>i. length s - Suc i) (index_byte (rev s) c)"

text \<open>\<^verbatim>\<open>net.SplitHostPort\<close>; \<^const>\<open>None\<close> is an error.\<close>

definition split_host_port :: "string \<Rightarrow> (string \<times> string) option" where
  "split_host_port hp =
     (case last_index hp CHR '':'' of
        None \<Rightarrow> None
      | Some i \<Rightarrow>
          if hd hp = CHR ''['' then
            (case index_byte hp CHR '']'' of
               None \<Rightarrow> None
             | Some e \<Rightarrow>
                 if Suc e \<noteq> i then None
                 else if CHR ''['' \<in> set (drop 1 hp) \<or> CHR '']'' \<in> set (drop (Suc e) hp) then None
                 else Some (drop 1 (take e hp), drop (Suc i) hp))
          else if CHR '':'' \<in> set (take i hp) then None
          else if CHR ''['' \<in> set hp \<or> CHR '']'' \<in> set hp then None
          else Some (take i hp, drop (Suc i) hp))"

definition clientIP :: "string \<Rightarrow> string" where
  "clientIP remoteAddr = (case split_host_port remoteAddr of Some (host, _) \<Rightarrow> host | None \<Rightarrow> remoteAddr)"

record health_limiter =
  hl_limit :: nat
  hl_window :: time
  hl_hits :: "(string, nat) gomap"

definition newHealthRateLimiter :: "nat \<Rightarrow> health_limiter" where
  "newHealthRateLimiter perSec = \<lparr>hl_limit = perSec, hl_window = 0, hl_hits = []\<rparr>"

abbreviation hits_of :: "health_limiter \<Rightarrow> string \<Rightarrow> nat" where
  "hits_of h ip \<equiv> (case mget (hl_hits h) ip of None \<Rightarrow> 0 | Some n \<Rightarrow> n)"

definition health_allow :: "health_limiter \<Rightarrow> time \<Rightarrow> string \<Rightarrow> bool \<times> health_limiter" where
  "health_allow h0 t ip =
     (let now = truncate_second t;
          h = (if now > hl_window h0 then h0\<lparr>hl_window := now, hl_hits := []\<rparr> else h0);
          h = h\<lparr>hl_hits := mput ip (Suc (hits_of h ip)) (hl_hits h)\<rparr>
      in (hits_of h ip \<le> hl_limit h, h))"

text \<open>A sequence of requests and what the limiter answers to each.\<close>

fun limiter_run :: "health_limiter \<Rightarrow> (time \<times> string) list \<Rightarrow> ((time \<times> string) \<times> bool) list" where
  "limiter_run h [] = []"
| "limiter_run h ((t, ip) # evs) = (let (ok, h') = health_allow h t ip in ((t, ip), ok) # limiter_run h' evs)"

definition in_window :: "string \<Rightarrow> time \<Rightarrow> time \<times> string \<Rightarrow> bool" where
  "in_window ip w e \<longleftrightarrow> snd e = ip \<and> truncate_second (fst e) = w"

definition granted :: "string \<Rightarrow> time \<Rightarrow> ((time \<times> string) \<times> bool) list \<Rightarrow> nat" where
  "granted ip w rs = length (filter (\<lambda>(e, ok). in_window ip w e \<and> ok) rs)"

definition asked :: "string \<Rightarrow> time \<Rightarrow> (time \<times> string) list \<Rightarrow> nat" where
  "asked ip w evs = length (filter (in_window ip w) evs)"

lemma health_allow_old:
  "truncate_second t \<le> hl_window h \<Longrightarrow>
   health_allow h t ip = (Suc (hits_of h ip) \<le> hl_limit h, h\<lparr>hl_hits := mput ip (Suc (hits_of h ip)) (hl_hits h)\<rparr>)"
  by (simp add: health_allow_def Let_def mget_put)

lemma health_allow_new:
  "hl_window h < truncate_second t \<Longrightarrow>
   health_allow h t ip = (1 \<le> hl_limit h, h\<lparr>hl_window := truncate_second t, hl_hits := [(ip, 1)]\<rparr>)"
  by (simp add: health_allow_def Let_def)

lemma limiter_exact:
  assumes "sorted_wrt (\<le>) (map fst evs)" "\<forall>e\<in>set evs. hl_window h \<le> truncate_second (fst e)"
  shows "granted ip w (limiter_run h evs) =
     min (if w = hl_window h then hl_limit h - hits_of h ip else hl_limit h) (asked ip w evs)"
  using assms
proof (induction evs arbitrary: h)
  case (Cons e evs)
  obtain t i where e: "e = (t, i)" by (cases e)
  let ?h' = "snd (health_allow h t i)" and ?ok = "fst (health_allow h t i)"
  have later: "truncate_second t \<le> truncate_second (fst x)" if "x \<in> set evs" for x
    using Cons.prems(1) that e by (auto intro: truncate_second_mono)
  have w': "hl_window ?h' = truncate_second t"
    using Cons.prems(2) e by (cases "hl_window h < truncate_second t") (auto simp: health_allow_old health_allow_new)
  have IH: "granted ip w (limiter_run ?h' evs) =
      min (if w = truncate_second t then hl_limit ?h' - hits_of ?h' ip else hl_limit ?h') (asked ip w evs)"
    using Cons.IH [of ?h'] Cons.prems later w' e by auto
  have g: "granted ip w (limiter_run h (e # evs)) =
      (if in_window ip w (t, i) \<and> ?ok then 1 else 0) + granted ip w (limiter_run ?h' evs)"
    by (auto simp: e granted_def case_prod_unfold Let_def)
  have a: "asked ip w (e # evs) = (if in_window ip w (t, i) then 1 else 0) + asked ip w evs"
    by (simp add: asked_def e)
  show ?case
  proof (cases "hl_window h < truncate_second t")
    case True
    have none: "w = hl_window h \<Longrightarrow> asked ip w evs = 0"
      using later True by (fastforce simp: asked_def in_window_def filter_empty_conv)
    show ?thesis unfolding g a IH using True none
      by (auto simp: health_allow_new in_window_def)
  next
    case False
    with Cons.prems(2) e have "truncate_second t = hl_window h" by auto
    then show ?thesis unfolding g a IH by (auto simp: health_allow_old in_window_def mget_put)
  qed
qed (simp add: granted_def asked_def)


section \<open>Properties\<close>

text \<open>C38. The health limiter is exact. For every sequence of requests in the order of time, the number
  of requests of a source IP that are let through in a one-second window is the smaller of the limit
  and the number it asked; other IPs and other windows do not matter.\<close>

theorem health_limiter_exact:
  assumes "sorted_wrt (\<le>) (map fst evs)" "\<forall>e\<in>set evs. 0 \<le> fst e"
  shows "granted ip w (limiter_run (newHealthRateLimiter n) evs) = min n (asked ip w evs)"
proof -
  have pos: "0 \<le> truncate_second (fst e)" if "e \<in> set evs" for e
    using assms(2) that truncate_second_mono [of 0 "fst e"] by (simp add: truncate_second_def)
  have "granted ip w (limiter_run (newHealthRateLimiter n) evs) = min (if w = 0 then n - 0 else n) (asked ip w evs)"
    using limiter_exact [of evs "newHealthRateLimiter n" ip w] assms(1) pos
    by (simp add: newHealthRateLimiter_def less_imp_le)
  then show ?thesis by simp
qed

theorem health_limiter_exact_witness:
  "granted ''1.2.3.4'' (7 * second_ns) (limiter_run (newHealthRateLimiter 2)
     [(7 * second_ns, ''1.2.3.4''), (7 * second_ns + 5, ''1.2.3.4''), (7 * second_ns + 9, ''1.2.3.4''), (8 * second_ns, ''1.2.3.4'')]) = 2"
  using health_limiter_exact [of "[(7 * second_ns, ''1.2.3.4''), (7 * second_ns + 5, ''1.2.3.4''), (7 * second_ns + 9, ''1.2.3.4''), (8 * second_ns, ''1.2.3.4'')]"
      "''1.2.3.4''" "7 * second_ns" 2]
  by (simp add: second_ns_def asked_def in_window_def truncate_second_def)

text \<open>Cadence and status. Whatever the configuration says, the ping interval a node is told is
  between 1 s and 60 s and the register interval between 30 s and one hour; the old and the new name of a role
  get the same intervals; and the connection status only goes from alive through stale to offline as a node's
  silence grows, at three and five ping intervals.\<close>

theorem cadence_and_status:
  assumes "configure cfg auth = Some (addr, s)"
  shows "second_ns \<le> PingIntervalFor s role \<and> PingIntervalFor s role \<le> 60 * second_ns \<and>
         30 * second_ns \<le> RegisterIntervalFor s role \<and> RegisterIntervalFor s role \<le> 3600 * second_ns \<and>
         PingIntervalFor s ''station'' = PingIntervalFor s ''provider'' \<and>
         PingIntervalFor s ''control'' = PingIntervalFor s ''broker'' \<and>
         RegisterIntervalFor s ''station'' = RegisterIntervalFor s ''provider'' \<and>
         RegisterIntervalFor s ''control'' = RegisterIntervalFor s ''broker'' \<and>
         computeConnStatus s role seen now =
           (if now - seen \<le> 3 * PingIntervalFor s role then ''alive''
            else if now - seen \<le> 5 * PingIntervalFor s role then ''stale'' else ''offline'') \<and>
         addr \<noteq> []"
proof -
  have m: "s_ping_intervals s = interval_map (cf_ping cfg)" "s_register_intervals s = interval_map (cf_register cfg)"
    and a: "addr \<noteq> []"
    using assms by (auto simp: configure_def split: prod.splits option.splits if_splits)
  have "PingIntervalFor s ''station'' = PingIntervalFor s ''provider''"
    "PingIntervalFor s ''control'' = PingIntervalFor s ''broker''"
    "RegisterIntervalFor s ''station'' = RegisterIntervalFor s ''provider''"
    "RegisterIntervalFor s ''control'' = RegisterIntervalFor s ''broker''"
    unfolding PingIntervalFor_def RegisterIntervalFor_def m interval_map_get
    by (simp_all add: defaultPingInterval_def Let_def)
  then show ?thesis
    using ping_interval_bounds [of s role] register_interval_bounds [of s role] a
    by (auto simp: computeConnStatus_age minPingInterval_def maxPingInterval_def
          minRegisterInterval_def maxRegisterInterval_def)
qed

definition default_config :: rv_config where
  "default_config = \<lparr>cf_unified_addr = [], cf_proxy_purge_sec = 0,
     cf_ping = \<lparr>ri_station = 0, ri_control = 0, ri_provider = 7, ri_broker = 1000\<rparr>,
     cf_register = \<lparr>ri_station = 0, ri_control = 0, ri_provider = 0, ri_broker = 0\<rparr>,
     cf_holepunch = \<lparr>PrePunchCount = 0, PrePunchIntervalMs = 0, PreDialWaitMs = 0, ReplyBurstCount = 0, ReplyBurstIntervalMs = 0\<rparr>\<rparr>"

theorem cadence_and_status_witness:
  "\<exists>s. configure default_config FileMissing = Some ('':9100'', s) \<and>
       PingIntervalFor s ''station'' = PingIntervalFor s ''provider'' \<and> PingIntervalFor s ''broker'' \<le> 60 * second_ns"
proof -
  obtain s where s: "configure default_config FileMissing = Some ('':9100'', s)"
    by (simp add: configure_def LoadRVAuth_def default_config_def)
  show ?thesis using s cadence_and_status [OF s, of "''broker''"] by blast
qed

end
