(* ===== verification/RV_Registry.thy ===== *)
theory RV_Registry
  imports RV_Policy
begin

text \<open>
  The control plane of the rendezvous server: the registry of nodes, the control connections, the
  metric cache and the handlers of \<^verbatim>\<open>pkg/rendezvous/control_tcp.go\<close>, \<^verbatim>\<open>punch_udp.go\<close>, \<^verbatim>\<open>heartbeat.go\<close>,
  \<^verbatim>\<open>lifecycle.go\<close> and the cleanup loop of \<^verbatim>\<open>server.go\<close>. A handler is a function of the settings, the
  clock and the state; each runs as one step, as the server's lock makes it. Frames and datagrams
  that are sent are appended to outboxes. A handler goroutine is an entry of \<open>st_handlers\<close>, so a frame only
  arrives on a connection that said hello and has not ended.
\<close>

section \<open>State\<close>

record rv_state =
  st_proxies :: "(string, proxy_info) gomap"
  st_counts :: rv_counts
  st_conns :: "(string, control_conn) gomap"
  st_metrics :: "(string, node_metric) gomap"
  st_limiter :: health_limiter
  st_handlers :: "(nat, control_conn) gomap"
  st_closed :: "nat list"
  st_out :: "(nat \<times> rv_msg) list"
  st_udp_out :: "(net_addr \<times> string) list"

definition defaultHealthRateLimit :: nat where "defaultHealthRateLimit = 20"

definition NewServer :: rv_state where
  "NewServer = \<lparr>st_proxies = [], st_counts = zero_counts, st_conns = [], st_metrics = [],
     st_limiter = newHealthRateLimiter defaultHealthRateLimit, st_handlers = [], st_closed = [],
     st_out = [], st_udp_out = []\<rparr>"

definition sendFrame :: "control_conn \<Rightarrow> rv_msg \<Rightarrow> rv_state \<Rightarrow> rv_state" where
  "sendFrame cc msg st = st\<lparr>st_out := st_out st @ [(cc_conn cc, msg)]\<rparr>"

definition error_frame :: "string \<Rightarrow> string \<Rightarrow> rv_msg" where
  "error_frame nid text = empty_msg\<lparr>m_v := 1, m_type := TypeError, m_id := nid, m_addr := text\<rparr>"


section \<open>Register\<close>

definition keep_or :: "string \<Rightarrow> string \<Rightarrow> string" where
  "keep_or old new = (if new \<noteq> [] then new else old)"

text \<open>The fields of an entry after a register frame, from the entry \<open>p\<close> before it.\<close>

definition register_entry ::
  "('sk, 'pub) rv_env \<Rightarrow> time \<Rightarrow> control_conn \<Rightarrow> rv_msg \<Rightarrow> proxy_info \<Rightarrow> proxy_info" where
  "register_entry V now cc msg p =
     (let cert = (if m_ek_cert msg \<noteq> [] then ev_parse_cert V (m_ek_cert msg) else None) in
      p\<lparr>p_id := nodeKey (m_id msg),
        p_role := m_role msg,
        p_addr := (if m_addr msg \<noteq> [] then m_addr msg
                   else if p_addr p = [] then na_text (cc_remote cc) else p_addr p),
        p_addr_manual := (if m_addr msg \<noteq> [] then True else p_addr_manual p),
        p_control_ip := (if na_kind (cc_remote cc) = TCPAddr then na_ip (cc_remote cc) else p_control_ip p),
        p_cert_hash := keep_or (p_cert_hash p) (m_cert_hash msg),
        p_last_seen := now,
        p_local_addr := keep_or (p_local_addr p) (m_local_addr msg),
        p_version := keep_or (p_version p) (m_version msg),
        p_bin_hash := keep_or (p_bin_hash p) (m_bin_hash msg),
        p_owner_address := keep_or (p_owner_address p) (m_owner_address msg),
        p_emblem := keep_or (p_emblem p) (m_emblem msg),
        p_auth_mode := keep_or (p_auth_mode p) (m_auth_mode msg),
        p_services := (case m_services msg of Some ss \<Rightarrow> ss | None \<Rightarrow> p_services p),
        p_hardware := (case m_hardware msg of Some h \<Rightarrow> Some h | None \<Rightarrow> p_hardware p),
        p_ek_cert_issuer := (case cert of Some cn \<Rightarrow> cn | None \<Rightarrow> p_ek_cert_issuer p),
        p_tpm_verified := (case cert of Some _ \<Rightarrow> True | None \<Rightarrow> p_tpm_verified p)\<rparr>)"

definition register_reject ::
  "('sk, 'pub) rv_env \<Rightarrow> rv_settings \<Rightarrow> time \<Rightarrow> control_conn \<Rightarrow> rv_msg \<Rightarrow> rv_msg option" where
  "register_reject V S now cc msg =
     (if m_id msg \<noteq> cc_node_id cc then Some (error_frame (m_id msg) ''register id mismatch'')
      else if m_full_sync msg then
        (case verifyRegisterSignature V now msg (hashHardwareForVerify (ev_marshal_hw V) (m_hardware msg)) of
           Some _ \<Rightarrow> Some (error_frame (m_id msg) ''register signature invalid'')
         | None \<Rightarrow>
             if modeProtected (s_mode S) then
               (case admitRegister (ev_eth V) (s_issuers S) now msg of
                  Some e \<Rightarrow> Some (error_frame (m_id msg) (''admission denied: '' @ admit_error_text (ev_quote V) e))
                | None \<Rightarrow> None)
             else None)
      else None)"

definition applyRegister ::
  "('sk, 'pub) rv_env \<Rightarrow> rv_settings \<Rightarrow> time \<Rightarrow> control_conn \<Rightarrow> rv_msg \<Rightarrow> rv_state \<Rightarrow> rv_state" where
  "applyRegister V S now cc msg st =
     (case register_reject V S now cc msg of
        Some frame \<Rightarrow> sendFrame cc frame st
      | None \<Rightarrow>
          (let old = mget (st_proxies st) (nodeKey (m_id msg));
               p0 = (case old of None \<Rightarrow> zero_proxy\<lparr>p_registered_at := now\<rparr> | Some p \<Rightarrow> p);
               p = register_entry V now cc msg p0;
               c0 = (case old of None \<Rightarrow> st_counts st
                     | Some q \<Rightarrow> countDelta (p_role q) (p_auth_mode q) (- 1) (st_counts st))
           in st\<lparr>st_proxies := mput (nodeKey (m_id msg)) p (st_proxies st),
                 st_counts := countDelta (p_role p) (p_auth_mode p) 1 c0\<rparr>))"

text \<open>The acknowledgement of a register frame carries the cadence and the hole-punch policy.\<close>

definition register_ack :: "rv_settings \<Rightarrow> control_conn \<Rightarrow> rv_msg" where
  "register_ack S cc =
     (let policy = EffectivePolicy S in
      empty_msg\<lparr>m_v := 1, m_type := TypeAck,
        m_ping_interval_sec := PingIntervalFor S (cc_role cc) div second_ns,
        m_register_interval_sec := RegisterIntervalFor S (cc_role cc) div second_ns,
        m_punch_count := PrePunchCount policy, m_punch_interval_ms := PrePunchIntervalMs policy,
        m_pre_dial_wait_ms := PreDialWaitMs policy, m_reply_burst_count := ReplyBurstCount policy,
        m_reply_burst_interval_ms := ReplyBurstIntervalMs policy\<rparr>)"


section \<open>Ping and service events\<close>

definition update_proxy :: "string \<Rightarrow> (proxy_info \<Rightarrow> proxy_info) \<Rightarrow> rv_state \<Rightarrow> rv_state" where
  "update_proxy k f st =
     (case mget (st_proxies st) k of None \<Rightarrow> st | Some p \<Rightarrow> st\<lparr>st_proxies := mput k (f p) (st_proxies st)\<rparr>)"

definition applyPing :: "('sk, 'pub) rv_env \<Rightarrow> time \<Rightarrow> control_conn \<Rightarrow> rv_msg \<Rightarrow> rv_state \<Rightarrow> rv_state" where
  "applyPing V now cc msg st =
     (if m_id msg = [] then st
      else if verifyPingSignature V now msg \<noteq> None then st
      else if mget (st_proxies st) (nodeKey (m_id msg)) \<noteq> None
      then update_proxy (nodeKey (m_id msg)) (\<lambda>p. p\<lparr>p_last_seen := now\<rparr>) st
      else sendFrame cc (empty_msg\<lparr>m_v := 1, m_type := TypeNeedRegister, m_id := m_id msg\<rparr>) st)"

definition statusStringToCode :: "string \<Rightarrow> int" where
  "statusStringToCode s =
     (if s = ''idle'' then 1 else if s = ''busy'' then 2 else if s = ''loading'' then 3
      else if s = ''stopped'' then 4 else 0)"

definition heartbeatStatus :: "int \<Rightarrow> string" where
  "heartbeatStatus v =
     (if v = 1 then ''idle'' else if v = 2 then ''busy'' else if v = 3 then ''loading''
      else if v = 4 then ''stopped'' else [])"

definition patch_service :: "service_metrics \<Rightarrow> service_info \<Rightarrow> service_info" where
  "patch_service m s =
     (let st = sm_status m; live = (st = ''idle'' \<or> st = ''busy'');
          known = (live \<or> st = ''loading'' \<or> st = ''stopped'')
      in s\<lparr>svc_queue_depth := uint (sm_queue_depth m),
           svc_total_jobs := sint (sm_total_jobs_done m),
           svc_ready := (if known then live else svc_ready s),
           svc_loading := (if known then st = ''loading'' else svc_loading s),
           svc_avg_job_sec := (if sm_avg_job_sec m > 0 then Some (trunc (sm_avg_job_sec m)) else svc_avg_job_sec s),
           svc_last_job_at := (if sm_last_job_ms m > 0 then sm_last_job_ms m div 1000 else svc_last_job_at s)\<rparr>)"

text \<open>The loop stops at the first service of that name.\<close>

fun patch_first :: "string \<Rightarrow> (service_info \<Rightarrow> service_info) \<Rightarrow> service_info list \<Rightarrow> service_info list" where
  "patch_first name f [] = []"
| "patch_first name f (s # ss) = (if svc_name s = name then f s # ss else s # patch_first name f ss)"

definition applyServiceMetric :: "time \<Rightarrow> string \<Rightarrow> service_metrics \<Rightarrow> rv_state \<Rightarrow> rv_state" where
  "applyServiceMetric now nodeID m st =
     (if sm_service m = [] then st
      else if mget (st_proxies st) (nodeKey nodeID) = None then st
      else
        (let st1 = update_proxy (nodeKey nodeID)
                     (\<lambda>p. p\<lparr>p_last_seen := now, p_services := patch_first (sm_service m) (patch_service m) (p_services p)\<rparr>) st
         in st1\<lparr>st_metrics := mput (metricKey nodeID (sm_service m))
                  \<lparr>nm_node_id = nodeID, nm_service = sm_service m, nm_status = statusStringToCode (sm_status m),
                   nm_queue_depth = sm_queue_depth m, nm_total_jobs_done = sm_total_jobs_done m,
                   nm_avg_job_sec = sm_avg_job_sec m, nm_last_job_ms = sm_last_job_ms m,
                   nm_running_job_id = sm_running_job_id m, nm_running_count = sm_running_count m, nm_seq = 0\<rparr>
                  (st_metrics st1)\<rparr>))"

definition set_str :: "(string, json) gomap \<Rightarrow> string \<Rightarrow> string \<Rightarrow> string" where
  "set_str info k old = (case as_string (mget info k) of Some v \<Rightarrow> v | None \<Rightarrow> old)"

definition set_str_nonempty :: "(string, json) gomap \<Rightarrow> string \<Rightarrow> string \<Rightarrow> string" where
  "set_str_nonempty info k old = (case as_string (mget info k) of Some v \<Rightarrow> if v \<noteq> [] then v else old | None \<Rightarrow> old)"

definition nonempty_string :: "json \<Rightarrow> string option" where
  "nonempty_string j = (case j of JStr s \<Rightarrow> if s \<noteq> [] then Some s else None | _ \<Rightarrow> None)"

definition string_map :: "json option \<Rightarrow> (string, string) gomap" where
  "string_map j = (case j of Some (JObj v) \<Rightarrow> List.map_filter (\<lambda>(k, x). map_option (Pair k) (nonempty_string x)) v | _ \<Rightarrow> [])"

definition string_slice :: "json option \<Rightarrow> string list" where
  "string_slice j = (case j of Some (JArr v) \<Rightarrow> List.map_filter nonempty_string v | _ \<Rightarrow> [])"

definition applyInspectFromEvent :: "(string, json) gomap \<Rightarrow> service_info \<Rightarrow> service_info" where
  "applyInspectFromEvent info e =
     (let i = string_map (mget info ''inspect''); l = string_map (mget info ''inspect_labels'');
          ord = string_slice (mget info ''inspect_order'')
      in e\<lparr>svc_inspect := (if i \<noteq> [] then Some i else svc_inspect e),
           svc_inspect_labels := (if l \<noteq> [] then Some l else svc_inspect_labels e),
           svc_inspect_order := (if ord \<noteq> [] then Some ord else svc_inspect_order e)\<rparr>)"

definition starting_entry :: "rv_msg \<Rightarrow> service_info" where
  "starting_entry msg =
     (let e = zero_service\<lparr>svc_name := m_service_name msg, svc_loading := True\<rparr> in
      case m_service_info msg of None \<Rightarrow> e
      | Some info \<Rightarrow> applyInspectFromEvent info
          (e\<lparr>svc_version := set_str info ''version'' [], svc_bin_hash := set_str info ''bin_hash'' [],
             svc_model := set_str info ''model'' [], svc_model_hash := set_str info ''model_hash'' [],
             svc_model_origin_url := set_str info ''model_origin_url'' [],
             svc_child_pid := (case as_number (mget info ''child_pid'') of Some v \<Rightarrow> trunc v | None \<Rightarrow> 0),
             svc_child_name := set_str info ''child_name'' []\<rparr>))"

definition keep_inspect :: "service_info \<Rightarrow> service_info \<Rightarrow> service_info" where
  "keep_inspect prev e =
     (if svc_inspect e = None \<and> svc_inspect prev \<noteq> None
      then e\<lparr>svc_inspect := svc_inspect prev, svc_inspect_labels := svc_inspect_labels prev,
             svc_inspect_order := svc_inspect_order prev\<rparr>
      else e)"

definition ready_entry :: "rv_msg \<Rightarrow> service_info \<Rightarrow> service_info" where
  "ready_entry msg s =
     (let s1 = s\<lparr>svc_loading := False, svc_ready := True\<rparr> in
      case m_service_info msg of None \<Rightarrow> s1
      | Some info \<Rightarrow> applyInspectFromEvent info
          (s1\<lparr>svc_model := set_str_nonempty info ''model'' (svc_model s1),
              svc_model_hash := set_str_nonempty info ''model_hash'' (svc_model_hash s1),
              svc_model_origin_url := set_str_nonempty info ''model_origin_url'' (svc_model_origin_url s1),
              svc_version := set_str_nonempty info ''version'' (svc_version s1)\<rparr>))"

definition has_service :: "string \<Rightarrow> service_info list \<Rightarrow> bool" where
  "has_service name ss \<longleftrightarrow> name \<in> set (map svc_name ss)"

fun remove_first :: "string \<Rightarrow> service_info list \<Rightarrow> service_info list" where
  "remove_first name [] = []"
| "remove_first name (s # ss) = (if svc_name s = name then ss else s # remove_first name ss)"

definition lifecycle_services :: "rv_msg \<Rightarrow> service_info list \<Rightarrow> service_info list" where
  "lifecycle_services msg ss =
     (let name = m_service_name msg in
      if m_event msg = ''service.starting'' then
        (if has_service name ss then patch_first name (\<lambda>prev. keep_inspect prev (starting_entry msg)) ss
         else ss @ [starting_entry msg])
      else if m_event msg = ''service.ready'' then
        (let ss' = (if has_service name ss then ss else ss @ [zero_service\<lparr>svc_name := name\<rparr>])
         in patch_first name (ready_entry msg) ss')
      else if m_event msg = ''service.stopping'' then ss
      else if m_event msg = ''service.stopped'' then remove_first name ss
      else ss)"

definition applyServiceLifecycle :: "time \<Rightarrow> rv_msg \<Rightarrow> rv_state \<Rightarrow> rv_state" where
  "applyServiceLifecycle now msg st =
     (if m_service_name msg = [] then st
      else update_proxy (nodeKey (m_id msg))
             (\<lambda>p. p\<lparr>p_last_seen := now, p_services := lifecycle_services msg (p_services p)\<rparr>) st)"

definition applyServiceEvent :: "time \<Rightarrow> rv_msg \<Rightarrow> rv_state \<Rightarrow> rv_state" where
  "applyServiceEvent now msg st =
     (if m_id msg = [] then st
      else if m_event msg \<noteq> [] \<and> m_service_name msg \<noteq> [] then applyServiceLifecycle now msg st
      else if m_metrics_batch msg \<noteq> [] then fold (applyServiceMetric now (m_id msg)) (m_metrics_batch msg) st
      else (case m_metrics msg of
              None \<Rightarrow> st
            | Some m \<Rightarrow> if sm_service m = [] then st else applyServiceMetric now (m_id msg) m st))"


section \<open>Connect\<close>

definition PushToNode :: "string \<Rightarrow> rv_msg \<Rightarrow> rv_state \<Rightarrow> rv_state" where
  "PushToNode nodeID msg st =
     (case mget (st_conns st) (nodeKey nodeID) of None \<Rightarrow> st | Some cc \<Rightarrow> sendFrame cc msg st)"

definition requester_addr :: "control_conn \<Rightarrow> rv_state \<Rightarrow> string" where
  "requester_addr cc st =
     (case mget (st_proxies st) (nodeKey (cc_node_id cc)) of
        Some r \<Rightarrow> if p_addr r \<noteq> [] then p_addr r else na_text (cc_remote cc)
      | None \<Rightarrow> na_text (cc_remote cc))"

definition candidates :: "proxy_info \<Rightarrow> string list" where
  "candidates target =
     (if p_local_addr target \<noteq> [] \<and> p_local_addr target \<noteq> p_addr target then [p_local_addr target] else []) @
     (if p_addr target \<noteq> [] then [p_addr target] else [])"

definition handleConnect :: "control_conn \<Rightarrow> rv_msg \<Rightarrow> rv_state \<Rightarrow> rv_state" where
  "handleConnect cc msg st =
     (let targetID = m_id msg in
      if targetID = [] then sendFrame cc (error_frame [] ''connect: missing target id'') st
      else
        (case mget (st_proxies st) (nodeKey targetID) of
           None \<Rightarrow> sendFrame cc (error_frame targetID (''target not found: '' @ targetID)) st
         | Some target \<Rightarrow>
             (let ra = requester_addr cc st;
                  st1 = (if ra \<noteq> [] then PushToNode targetID
                           (empty_msg\<lparr>m_v := 1, m_type := TypePunch, m_id := cc_node_id cc, m_addr := ra\<rparr>) st
                         else st)
              in sendFrame cc (empty_msg\<lparr>m_v := 1, m_type := TypeProxyInfo, m_id := targetID,
                                  m_addr := p_addr target, m_candidates := candidates target\<rparr>) st1)))"


section \<open>The connection loop\<close>

definition controlHello :: "time \<Rightarrow> nat \<Rightarrow> net_addr \<Rightarrow> rv_msg \<Rightarrow> rv_state \<Rightarrow> rv_state" where
  "controlHello now conn remote first st =
     (if m_type first \<noteq> TypeHello \<or> m_id first = [] then st\<lparr>st_closed := conn # st_closed st\<rparr>
      else
        (let cc = \<lparr>cc_conn = conn, cc_node_id = m_id first, cc_role = m_role first, cc_connected_at = now, cc_remote = remote\<rparr>;
             k = nodeKey (m_id first);
             closed = (case mget (st_conns st) k of None \<Rightarrow> [] | Some prev \<Rightarrow> [cc_conn prev]);
             st1 = st\<lparr>st_conns := mput k cc (st_conns st), st_closed := closed @ st_closed st,
                      st_handlers := mput conn cc (st_handlers st)\<rparr>
         in sendFrame cc (empty_msg\<lparr>m_v := 1, m_type := TypeAck\<rparr>) st1))"

definition handleFrame ::
  "('sk, 'pub) rv_env \<Rightarrow> rv_settings \<Rightarrow> time \<Rightarrow> control_conn \<Rightarrow> rv_msg \<Rightarrow> rv_state \<Rightarrow> rv_state" where
  "handleFrame V S now cc msg st =
     (let own = msg\<lparr>m_id := cc_node_id cc\<rparr> in
      if m_type msg = TypeRegister then sendFrame cc (register_ack S cc) (applyRegister V S now cc own st)
      else if m_type msg = TypeConnect then handleConnect cc msg st
      else if m_type msg = TypePing then applyPing V now cc own st
      else if m_type msg = TypeServiceEvent \<or> m_type msg = TypeStatusUpd then applyServiceEvent now own st
      else st)"

text \<open>The end of a connection: the deferred \<^verbatim>\<open>CompareAndDelete\<close> and \<^verbatim>\<open>Close\<close>.\<close>

definition controlEnd :: "nat \<Rightarrow> rv_state \<Rightarrow> rv_state" where
  "controlEnd conn st =
     (case mget (st_handlers st) conn of
        None \<Rightarrow> st
      | Some cc \<Rightarrow>
          (let k = nodeKey (cc_node_id cc);
               conns = (if map_option cc_conn (mget (st_conns st) k) = Some conn then mdel k (st_conns st) else st_conns st)
           in st\<lparr>st_conns := conns, st_handlers := mdel conn (st_handlers st), st_closed := conn # st_closed st\<rparr>))"


section \<open>UDP\<close>

definition learnPublicAddr :: "string \<Rightarrow> net_addr \<Rightarrow> rv_state \<Rightarrow> rv_state" where
  "learnPublicAddr nodeID src st =
     (case mget (st_proxies st) (nodeKey nodeID) of
        None \<Rightarrow> st
      | Some p \<Rightarrow>
          if na_kind src \<noteq> UDPAddr then st
          else if p_control_ip p \<noteq> [] \<and> \<not> ip_equal (na_ip src) (p_control_ip p) then st
          else update_proxy (nodeKey nodeID)
                 (\<lambda>p. p\<lparr>p_udp_addr := Some src, p_addr := (if p_addr_manual p then p_addr p else na_text src)\<rparr>) st)"

definition punchPacket :: "time \<Rightarrow> string \<Rightarrow> net_addr \<Rightarrow> rv_state \<Rightarrow> rv_state" where
  "punchPacket now packet src st =
     (let buf = take 1500 packet in
      case buf of
        b # rest \<Rightarrow>
          if rest = [] then st
          else if b = CHR 0x01 then learnPublicAddr rest src st
          else if b = CHR 0x02 then st
          else if b = CHR 0x03 then
            (let host = clientIP (na_text src) in
             if host = [] then st
             else (let (ok, h) = health_allow (st_limiter st) now host; st1 = st\<lparr>st_limiter := h\<rparr>
                   in if ok then st1\<lparr>st_udp_out := st_udp_out st1 @ [(src, buf)]\<rparr> else st1))
          else st
      | [] \<Rightarrow> st)"


section \<open>Cleanup\<close>

definition stale_proxy :: "rv_settings \<Rightarrow> time \<Rightarrow> proxy_info \<Rightarrow> bool" where
  "stale_proxy S now p \<longleftrightarrow> time_sub now (p_last_seen p) > ProxyPurgeOrDefault S"

definition purge_one ::
  "rv_settings \<Rightarrow> time \<Rightarrow> string \<times> proxy_info \<Rightarrow> (string, proxy_info) gomap \<times> rv_counts \<Rightarrow> (string, proxy_info) gomap \<times> rv_counts" where
  "purge_one S now e acc =
     (if stale_proxy S now (snd e)
      then (mdel (fst e) (fst acc), countDelta (p_role (snd e)) (p_auth_mode (snd e)) (- 1) (snd acc))
      else acc)"

definition purgeProxies :: "rv_settings \<Rightarrow> time \<Rightarrow> rv_state \<Rightarrow> rv_state" where
  "purgeProxies S now st =
     (let (ps, c) = fold (purge_one S now) (st_proxies st) (st_proxies st, st_counts st)
      in st\<lparr>st_proxies := ps, st_counts := c\<rparr>)"

definition pruneMetrics :: "time \<Rightarrow> duration \<Rightarrow> rv_state \<Rightarrow> rv_state" where
  "pruneMetrics now d st =
     st\<lparr>st_metrics := mdrop (\<lambda>k m. case mget (st_proxies st) (nm_node_id m) of
                                   None \<Rightarrow> True | Some p \<Rightarrow> p_last_seen p < now - d) (st_metrics st)\<rparr>"

definition cleanupTick :: "rv_settings \<Rightarrow> time \<Rightarrow> rv_state \<Rightarrow> rv_state" where
  "cleanupTick S now st = pruneMetrics now (300 * second_ns) (purgeProxies S now st)"


section \<open>Metric lookups\<close>

definition GetMetric :: "string \<Rightarrow> string \<Rightarrow> rv_state \<Rightarrow> node_metric option" where
  "GetMetric nodeID serviceName st = mget (st_metrics st) (metricKey nodeID serviceName)"

definition aggregateNodeStatus :: "time \<Rightarrow> string \<Rightarrow> rv_state \<Rightarrow> string" where
  "aggregateNodeStatus now nodeID st =
     (let lastSeen = (case mget (st_proxies st) (nodeKey nodeID) of None \<Rightarrow> 0 | Some p \<Rightarrow> p_last_seen p) in
      if \<not> is_zero_time lastSeen \<and> time_sub now lastSeen > 5 * second_ns then []
      else
        (let sts = map (\<lambda>(k, m). heartbeatStatus (nm_status m))
                     (filter (\<lambda>(k, m). nm_node_id m = nodeID \<or> has_prefix k (nodeID @ ''/'')) (st_metrics st))
         in if sts = [] then []
            else if ''busy'' \<in> set sts then ''busy''
            else if ''loading'' \<in> set sts then ''loading''
            else if ''idle'' \<in> set sts then ''idle''
            else ''standby''))"


section \<open>Steps\<close>

text \<open>
  What can happen to the server, with the clock at that moment. \<open>Hello\<close> is the first frame of a fresh
  connection (one that never had a handler), \<open>Frame\<close> a later frame of a connection that is still open, \<open>End\<close> its end.
\<close>

datatype rv_event =
    Hello nat net_addr rv_msg
  | Frame nat rv_msg
  | End nat
  | Packet string net_addr
  | Tick

fun rv_step :: "('sk, 'pub) rv_env \<Rightarrow> rv_settings \<Rightarrow> rv_state \<Rightarrow> time \<times> rv_event \<Rightarrow> rv_state" where
  "rv_step V S st (now, Hello conn remote msg) =
     (if mget (st_handlers st) conn \<noteq> None \<or> conn \<in> set (st_closed st) then st
      else controlHello now conn remote msg st)"
| "rv_step V S st (now, Frame conn msg) =
     (case mget (st_handlers st) conn of None \<Rightarrow> st | Some cc \<Rightarrow> handleFrame V S now cc msg st)"
| "rv_step V S st (now, End conn) = controlEnd conn st"
| "rv_step V S st (now, Packet data src) = punchPacket now data src st"
| "rv_step V S st (now, Tick) = cleanupTick S now st"

definition rv_run :: "('sk, 'pub) rv_env \<Rightarrow> rv_settings \<Rightarrow> (time \<times> rv_event) list \<Rightarrow> rv_state" where
  "rv_run V S evs = foldl (rv_step V S) NewServer evs"


section \<open>Invariant\<close>

definition reg_inv :: "rv_state \<Rightarrow> bool" where
  "reg_inv st \<longleftrightarrow> wf_map (st_proxies st) \<and>
     (\<forall>k p. mget (st_proxies st) k = Some p \<longrightarrow> p_id p = k \<and> nodeKey k = k) \<and>
     st_counts st = real_counts (st_proxies st)"

definition conn_inv :: "rv_state \<Rightarrow> bool" where
  "conn_inv st \<longleftrightarrow> wf_map (st_conns st) \<and>
     (\<forall>k cc. mget (st_conns st) k = Some cc \<longrightarrow>
        nodeKey (cc_node_id cc) = k \<and> mget (st_handlers st) (cc_conn cc) = Some cc) \<and>
     (\<forall>c cc. mget (st_handlers st) c = Some cc \<longrightarrow> cc_conn cc = c)"

definition metric_inv :: "rv_state \<Rightarrow> bool" where
  "metric_inv st \<longleftrightarrow> wf_map (st_metrics st) \<and> (\<forall>k m. mget (st_metrics st) k = Some m \<longrightarrow> nm_node_id m = k)"

definition rv_inv :: "rv_state \<Rightarrow> bool" where
  "rv_inv st \<longleftrightarrow> reg_inv st \<and> conn_inv st \<and> metric_inv st"

text \<open>What the invariants do not look at.\<close>

lemma inv_out [simp]:
  "reg_inv (sendFrame cc m st) = reg_inv st" "conn_inv (sendFrame cc m st) = conn_inv st"
  "metric_inv (sendFrame cc m st) = metric_inv st"
  by (simp_all add: sendFrame_def reg_inv_def conn_inv_def metric_inv_def)

lemma sendFrame_sel [simp]:
  "st_proxies (sendFrame cc m st) = st_proxies st" "st_counts (sendFrame cc m st) = st_counts st"
  "st_conns (sendFrame cc m st) = st_conns st" "st_metrics (sendFrame cc m st) = st_metrics st"
  "st_handlers (sendFrame cc m st) = st_handlers st" "st_out (sendFrame cc m st) = st_out st @ [(cc_conn cc, m)]"
  by (simp_all add: sendFrame_def)

text \<open>An update of one entry that keeps id, role and mode keeps the counters right.\<close>

lemma reg_inv_update_proxy [inv_intro]:
  assumes "reg_inv st" "\<And>p. p_id (f p) = p_id p \<and> p_role (f p) = p_role p \<and> p_auth_mode (f p) = p_auth_mode p"
  shows "reg_inv (update_proxy k f st)"
proof (cases "mget (st_proxies st) k")
  case (Some p)
  have "real_counts (mput k (f p) (st_proxies st)) = real_counts (st_proxies st)"
    using assms by (simp add: real_counts_put reg_inv_def Some countDelta_entry in_bucket_def is_public_def)
  then show ?thesis using assms Some by (auto simp: reg_inv_def update_proxy_def mget_put)
qed (use assms in \<open>simp add: update_proxy_def\<close>)

lemma update_proxy_sel [simp]:
  "st_counts (update_proxy k f st) = st_counts st" "st_conns (update_proxy k f st) = st_conns st"
  "st_metrics (update_proxy k f st) = st_metrics st" "st_handlers (update_proxy k f st) = st_handlers st"
  "st_out (update_proxy k f st) = st_out st"
  by (simp_all add: update_proxy_def split: option.splits)

lemma update_proxy_get:
  "mget (st_proxies (update_proxy k f st)) k' =
     (if k' = k then map_option f (mget (st_proxies st) k) else mget (st_proxies st) k')"
  by (auto simp: update_proxy_def mget_put split: option.splits)

lemma inv_update_proxy [simp]:
  "conn_inv (update_proxy k f st) = conn_inv st" "metric_inv (update_proxy k f st) = metric_inv st"
  by (simp_all add: conn_inv_def metric_inv_def)


subsection \<open>Register\<close>

lemma register_entry_id [simp]: "p_id (register_entry V now cc msg p) = nodeKey (m_id msg)"
  by (simp add: register_entry_def Let_def)

lemma rv_inv_register [inv_intro]:
  assumes "rv_inv st"
  shows "rv_inv (applyRegister V S now cc msg st)"
proof (cases "register_reject V S now cc msg")
  case None
  let ?k = "nodeKey (m_id msg)"
  have "real_counts (mput ?k p (st_proxies st)) = countDelta (p_role p) (p_auth_mode p) 1
      (case mget (st_proxies st) ?k of None \<Rightarrow> st_counts st
       | Some q \<Rightarrow> countDelta (p_role q) (p_auth_mode q) (- 1) (st_counts st))" for p
    using assms by (simp add: rv_inv_def reg_inv_def real_counts_put split: option.split)
  then show ?thesis using assms None
    by (auto simp: applyRegister_def rv_inv_def reg_inv_def conn_inv_def metric_inv_def mget_put Let_def)
qed (use assms in \<open>simp add: applyRegister_def rv_inv_def\<close>)


subsection \<open>Ping, events and connect\<close>

lemma rv_inv_sendFrame [simp]: "rv_inv (sendFrame cc m st) = rv_inv st"
  by (simp add: rv_inv_def)

lemma rv_inv_update_proxy [inv_intro]:
  "rv_inv st \<Longrightarrow> (\<And>p. p_id (f p) = p_id p \<and> p_role (f p) = p_role p \<and> p_auth_mode (f p) = p_auth_mode p) \<Longrightarrow>
   rv_inv (update_proxy k f st)"
  by (simp add: rv_inv_def reg_inv_update_proxy)

lemma rv_inv_ping [inv_intro]: "rv_inv st \<Longrightarrow> rv_inv (applyPing V now cc msg st)"
  by (simp add: applyPing_def rv_inv_update_proxy)

lemma rv_inv_put_metric:
  "rv_inv st \<Longrightarrow> nm_node_id m = k \<Longrightarrow> rv_inv (st\<lparr>st_metrics := mput k m (st_metrics st)\<rparr>)"
  by (simp add: rv_inv_def reg_inv_def conn_inv_def metric_inv_def mget_put)

lemma rv_inv_metric [inv_intro]: "rv_inv st \<Longrightarrow> rv_inv (applyServiceMetric now nid m st)"
  unfolding applyServiceMetric_def Let_def metricKey_def
  by (simp add: rv_inv_put_metric rv_inv_update_proxy del: update_proxy_sel)

lemma rv_inv_event [inv_intro]: "rv_inv st \<Longrightarrow> rv_inv (applyServiceEvent now msg st)"
proof -
  assume i: "rv_inv st"
  have "rv_inv (fold (applyServiceMetric now nid) ms st)" for nid ms
    using i by (induction ms arbitrary: st) (simp_all add: rv_inv_metric)
  moreover have "rv_inv (applyServiceLifecycle now msg st)"
    using i by (simp add: applyServiceLifecycle_def rv_inv_update_proxy)
  ultimately show ?thesis using i by (simp add: applyServiceEvent_def rv_inv_metric split: option.split)
qed

lemma PushToNode_cases: "PushToNode nid m st = st \<or> (\<exists>cc. PushToNode nid m st = sendFrame cc m st)"
  by (auto simp: PushToNode_def split: option.splits)

lemma rv_inv_push [simp]: "rv_inv (PushToNode nid m st) = rv_inv st"
  using PushToNode_cases [of nid m st] by auto

lemma rv_inv_connect [inv_intro]: "rv_inv st \<Longrightarrow> rv_inv (handleConnect cc msg st)"
  by (simp add: handleConnect_def Let_def split: option.split)

lemma rv_inv_frame [inv_intro]: "rv_inv st \<Longrightarrow> rv_inv (handleFrame V S now cc msg st)"
  by (simp add: handleFrame_def Let_def rv_inv_register rv_inv_connect rv_inv_ping rv_inv_event)


subsection \<open>Connections\<close>

lemma rv_inv_hello [inv_intro]:
  assumes "rv_inv st" "mget (st_handlers st) conn = None"
  shows "rv_inv (controlHello now conn remote first st)"
proof -
  have "cc_conn cc \<noteq> conn" if "mget (st_conns st) k = Some cc" for k cc
    using assms that by (auto simp: rv_inv_def conn_inv_def)
  then show ?thesis using assms
    by (auto simp: controlHello_def rv_inv_def reg_inv_def conn_inv_def metric_inv_def Let_def mget_put
          sendFrame_def split: if_splits)
qed

lemma rv_inv_end [inv_intro]:
  assumes "rv_inv st" shows "rv_inv (controlEnd conn st)"
proof (cases "mget (st_handlers st) conn")
  case (Some cc)
  have c: "conn_inv st" using assms by (simp add: rv_inv_def)
  then have cc: "cc_conn cc = conn" using Some by (simp add: conn_inv_def)
  have "cc_conn c' \<noteq> conn"
    if "mget (st_conns st) k = Some c'" "k \<noteq> nodeKey (cc_node_id cc) \<or> map_option cc_conn (mget (st_conns st) (nodeKey (cc_node_id cc))) \<noteq> Some conn"
    for k c' using c that Some by (auto simp: conn_inv_def)
  then show ?thesis using assms Some cc
    by (auto simp: controlEnd_def rv_inv_def reg_inv_def conn_inv_def metric_inv_def Let_def mget_del split: if_splits)
qed (use assms in \<open>simp add: controlEnd_def\<close>)


subsection \<open>Datagrams and cleanup\<close>

lemma rv_inv_learn [inv_intro]: "rv_inv st \<Longrightarrow> rv_inv (learnPublicAddr nid src st)"
  by (simp add: learnPublicAddr_def rv_inv_update_proxy split: option.split)

lemma rv_inv_packet [inv_intro]: "rv_inv st \<Longrightarrow> rv_inv (punchPacket now data src st)"
proof -
  assume i: "rv_inv st"
  then have "rv_inv (st\<lparr>st_limiter := h\<rparr>)" "rv_inv (st\<lparr>st_limiter := h, st_udp_out := u\<rparr>)" for h u
    by (simp_all add: rv_inv_def reg_inv_def conn_inv_def metric_inv_def)
  with i show ?thesis
    by (simp add: punchPacket_def rv_inv_learn Let_def case_prod_unfold split: list.split)
qed

definition lost :: "rv_settings \<Rightarrow> time \<Rightarrow> (proxy_info \<Rightarrow> int) \<Rightarrow> (string \<times> proxy_info) list \<Rightarrow> int" where
  "lost S now w es = sum_list (map (\<lambda>(k, p). if stale_proxy S now p then w p else 0) es)"

lemma purge_fold:
  "fold (purge_one S now) es (ps, c) =
     (mdrop (\<lambda>k _. \<exists>p. (k, p) \<in> set es \<and> stale_proxy S now p) ps,
      \<lparr>cntStation = cntStation c - lost S now (in_bucket ''station'') es,
       cntControl = cntControl c - lost S now (in_bucket ''control'') es,
       cntPassenger = cntPassenger c - lost S now (in_bucket ''passenger'') es,
       cntPublic = cntPublic c - lost S now is_public es\<rparr>)"
proof (induction es arbitrary: ps c)
  case Nil
  then show ?case by (simp add: mdrop_def lost_def)
next
  case (Cons e es)
  obtain k p where e: "e = (k, p)" by (cases e)
  show ?case
  proof (cases "stale_proxy S now p")
    case True
    have "mdrop (\<lambda>k' _. \<exists>p. (k', p) \<in> set es \<and> stale_proxy S now p) (mdel k ps) =
          mdrop (\<lambda>k' _. \<exists>p. (k', p) \<in> set (e # es) \<and> stale_proxy S now p) ps"
      using True by (auto simp: mdrop_def AList.delete_eq e intro!: filter_cong)
    then show ?thesis using True Cons.IH
      by (simp add: e purge_one_def countDelta_entry lost_def algebra_simps)
  next
    case False
    then have "mdrop (\<lambda>k' _. \<exists>p. (k', p) \<in> set (e # es) \<and> stale_proxy S now p) ps =
               mdrop (\<lambda>k' _. \<exists>p. (k', p) \<in> set es \<and> stale_proxy S now p) ps"
      by (auto simp: mdrop_def e intro!: filter_cong)
    with False Cons.IH show ?thesis by (simp add: e purge_one_def lost_def)
  qed
qed

lemma purgeProxies_eq:
  assumes "wf_map (st_proxies st)"
  shows "st_proxies (purgeProxies S now st) = mdrop (\<lambda>_. stale_proxy S now) (st_proxies st)"
    and "st_counts st = real_counts (st_proxies st) \<Longrightarrow>
         st_counts (purgeProxies S now st) = real_counts (mdrop (\<lambda>_. stale_proxy S now) (st_proxies st))"
proof -
  have "mdrop (\<lambda>k _. \<exists>p. (k, p) \<in> set (st_proxies st) \<and> stale_proxy S now p) (st_proxies st) =
        mdrop (\<lambda>_. stale_proxy S now) (st_proxies st)"
    using assms by (auto simp: mdrop_def wf_map_mem intro!: filter_cong)
  then show "st_proxies (purgeProxies S now st) = mdrop (\<lambda>_. stale_proxy S now) (st_proxies st)"
    by (simp add: purgeProxies_def purge_fold Let_def)
  assume "st_counts st = real_counts (st_proxies st)"
  then show "st_counts (purgeProxies S now st) = real_counts (mdrop (\<lambda>_. stale_proxy S now) (st_proxies st))"
    by (simp add: purgeProxies_def purge_fold Let_def real_counts_def msum_drop lost_def)
qed

lemma purgeProxies_sel [simp]:
  "st_conns (purgeProxies S now st) = st_conns st" "st_handlers (purgeProxies S now st) = st_handlers st"
  "st_metrics (purgeProxies S now st) = st_metrics st"
  by (simp_all add: purgeProxies_def Let_def case_prod_unfold)

lemma rv_inv_tick [inv_intro]:
  assumes "rv_inv st" shows "rv_inv (cleanupTick S now st)"
proof -
  have wf: "wf_map (st_proxies st)" "wf_map (st_metrics st)" "st_counts st = real_counts (st_proxies st)"
    using assms by (simp_all add: rv_inv_def reg_inv_def metric_inv_def)
  then have "reg_inv (purgeProxies S now st)"
    using assms by (auto simp: rv_inv_def reg_inv_def purgeProxies_eq mget_drop split: option.splits if_splits)
  moreover have "conn_inv (purgeProxies S now st)" "metric_inv (purgeProxies S now st)"
    using assms by (simp_all add: rv_inv_def conn_inv_def metric_inv_def)
  ultimately show ?thesis using wf
    by (auto simp: cleanupTick_def pruneMetrics_def rv_inv_def reg_inv_def conn_inv_def metric_inv_def mget_drop
          split: option.splits if_splits)
qed

lemma rv_inv_step: "rv_inv st \<Longrightarrow> rv_inv (rv_step V S st e)"
proof (induction V S st e rule: rv_step.induct)
  case (1 V S st now conn remote msg)
  then show ?case by (auto intro: rv_inv_hello)
next
  case (2 V S st now conn msg)
  then show ?case by (auto intro: rv_inv_frame split: option.splits)
qed (simp_all add: rv_inv_end rv_inv_packet rv_inv_tick)

lemma rv_inv_start: "rv_inv NewServer"
  by (simp add: rv_inv_def reg_inv_def conn_inv_def metric_inv_def NewServer_def zero_counts_def real_counts_def)

interpretation rendezvous: stepped NewServer "rv_step V S" rv_inv for V S
  by unfold_locales (rule rv_inv_start, rule rv_inv_step)


section \<open>What each handler may change\<close>

text \<open>\<open>only_own nid st st'\<close>: going from \<open>st\<close> to \<open>st'\<close> changes no entry but that of \<open>nid\<close>, no metric but its
  own, and no control connection.\<close>

definition only_own :: "string \<Rightarrow> rv_state \<Rightarrow> rv_state \<Rightarrow> bool" where
  "only_own nid st st' \<longleftrightarrow>
     (\<forall>k. k \<noteq> nodeKey nid \<longrightarrow> mget (st_proxies st') k = mget (st_proxies st) k) \<and>
     (\<forall>k. k \<noteq> nid \<longrightarrow> mget (st_metrics st') k = mget (st_metrics st) k) \<and>
     st_conns st' = st_conns st \<and> st_handlers st' = st_handlers st"

lemma only_own_refl [simp]: "only_own nid st st"
  by (simp add: only_own_def)

lemma only_own_trans: "only_own nid a b \<Longrightarrow> only_own nid b c \<Longrightarrow> only_own nid a c"
  by (simp add: only_own_def)

lemma only_own_send [simp]: "only_own nid st (sendFrame cc m st') = only_own nid st st'"
  by (simp add: only_own_def)

lemma only_own_update [simp]: "only_own nid st (update_proxy (nodeKey nid) f st)"
  by (simp add: only_own_def update_proxy_get)

lemma only_own_metric: "only_own nid st (applyServiceMetric now nid m st)"
  by (simp add: applyServiceMetric_def only_own_def update_proxy_get Let_def mget_put metricKey_def)

lemma only_own_batch: "only_own nid st (fold (applyServiceMetric now nid) ms st)"
proof (induction ms arbitrary: st)
  case (Cons m ms)
  show ?case using only_own_trans [OF only_own_metric Cons.IH] by simp
qed simp

lemma only_own_event: "only_own (m_id msg) st (applyServiceEvent now msg st)"
  by (simp add: applyServiceEvent_def applyServiceLifecycle_def only_own_batch only_own_metric split: option.split)

lemma only_own_register: "only_own (m_id msg) st (applyRegister V S now cc msg st)"
  by (simp add: applyRegister_def only_own_def Let_def mget_put split: option.split)

lemma only_own_ping: "only_own (m_id msg) st (applyPing V now cc msg st)"
  by (simp add: applyPing_def)

lemma connect_keeps:
  "st_proxies (handleConnect cc msg st) = st_proxies st" "st_metrics (handleConnect cc msg st) = st_metrics st"
  "st_conns (handleConnect cc msg st) = st_conns st" "st_handlers (handleConnect cc msg st) = st_handlers st"
  by (auto simp: handleConnect_def PushToNode_def Let_def split: option.splits)

lemma only_own_frame: "only_own (cc_node_id cc) st (handleFrame V S now cc msg st)"
  using only_own_register [of "msg\<lparr>m_id := cc_node_id cc\<rparr>" st V S now cc]
    only_own_ping [of "msg\<lparr>m_id := cc_node_id cc\<rparr>" st V now cc]
    only_own_event [of "msg\<lparr>m_id := cc_node_id cc\<rparr>" st now]
  by (auto simp: handleFrame_def Let_def only_own_def connect_keeps)

lemma register_frame:
  assumes "mget (st_handlers st) conn = Some cc" "m_type msg = TypeRegister"
  shows "rv_step V S st (now, Frame conn msg) =
     sendFrame cc (register_ack S cc) (applyRegister V S now cc (msg\<lparr>m_id := cc_node_id cc\<rparr>) st)"
  using assms by (simp add: handleFrame_def)

lemma delta_register_entry:
  assumes "mget (st_handlers st) conn = Some cc" "m_type msg = TypeRegister" "\<not> m_full_sync msg"
  shows "\<exists>p. mget (st_proxies (rv_step V S st (now, Frame conn msg))) (nodeKey (cc_node_id cc)) = Some p \<and>
           p_role p = m_role msg \<and> p_last_seen p = now \<and> (m_addr msg \<noteq> [] \<longrightarrow> p_addr p = m_addr msg)"
  unfolding register_frame [OF assms(1,2)]
  by (simp add: applyRegister_def register_reject_def assms(3) Let_def mget_put register_entry_def)

lemma register_rejected:
  "register_reject V S now cc msg = Some e \<Longrightarrow> applyRegister V S now cc msg st = sendFrame cc e st"
  by (simp add: applyRegister_def)

lemma msum_in_bucket:
  "msum (in_bucket b) m = int (length (filter (\<lambda>(k, p). roleBucket (p_role p) = b) m))"
  "msum is_public m = int (length (filter (\<lambda>(k, p). roleBucket (p_role p) = ''station'' \<and> equal_fold (p_auth_mode p) ''public'') m))"
  by (induction m) (auto simp: msum_def in_bucket_def is_public_def)

lemma rv_inv_run: "rv_inv (rv_run V S evs)"
  unfolding rv_run_def by (rule rendezvous.inv_run)


lemma purge_get:
  assumes "wf_map (st_proxies st)" "ProxyPurgeOrDefault S < 2 ^ 63 - 1"
  shows "mget (st_proxies (cleanupTick S now st)) k =
     (case mget (st_proxies st) k of None \<Rightarrow> None
      | Some p \<Rightarrow> if now - p_last_seen p \<le> ProxyPurgeOrDefault S then Some p else None)"
proof -
  have "0 \<le> ProxyPurgeOrDefault S" by (simp add: ProxyPurgeOrDefault_def defaultProxyPurge_def second_ns_def)
  then have "stale_proxy S now p \<longleftrightarrow> \<not> now - p_last_seen p \<le> ProxyPurgeOrDefault S" for p
    using time_sub_gr [OF _ assms(2)] by (auto simp: stale_proxy_def)
  then show ?thesis using assms(1)
    by (simp add: cleanupTick_def pruneMetrics_def purgeProxies_eq mget_drop split: option.split)
qed

lemma rv_run_wf: "wf_map (st_proxies (rv_run V S evs))"
  using rv_inv_run [of V S evs] by (simp add: rv_inv_def reg_inv_def)


section \<open>Properties\<close>

text \<open>C1. The discovery counters never drift. After every history of hellos, frames, disconnects,
  datagrams and cleanup ticks, each O(1) counter is the number of registry entries of its bucket, the
  public overlay is never negative nor larger than the stations, every entry sits under its own normalised id, every
  control connection is that of a running handler for the id of its key, and every metric row is stored
  under the node id it names.\<close>

theorem registry_counters_exact:
  fixes V S evs
  defines "st \<equiv> rv_run V S evs"
  shows "cntStation (st_counts st) = int (length (filter (\<lambda>(k, p). roleBucket (p_role p) = ''station'') (st_proxies st))) \<and>
         cntControl (st_counts st) = int (length (filter (\<lambda>(k, p). roleBucket (p_role p) = ''control'') (st_proxies st))) \<and>
         cntPassenger (st_counts st) = int (length (filter (\<lambda>(k, p). roleBucket (p_role p) = ''passenger'') (st_proxies st))) \<and>
         cntPublic (st_counts st) = int (length (filter (\<lambda>(k, p). roleBucket (p_role p) = ''station'' \<and>
                                       equal_fold (p_auth_mode p) ''public'') (st_proxies st))) \<and>
         0 \<le> cntPublic (st_counts st) \<and> cntPublic (st_counts st) \<le> cntStation (st_counts st) \<and>
         distinct (mkeys (st_proxies st)) \<and>
         list_all (\<lambda>(k, p). p_id p = k \<and> nodeKey k = k) (st_proxies st) \<and>
         list_all (\<lambda>(k, cc). nodeKey (cc_node_id cc) = k \<and> mget (st_handlers st) (cc_conn cc) = Some cc) (st_conns st) \<and>
         list_all (\<lambda>(k, m). nm_node_id m = k) (st_metrics st)"
proof -
  have i: "rv_inv st" unfolding st_def by (rule rv_inv_run)
  have b: "0 \<le> cntPublic (st_counts st)" "cntPublic (st_counts st) \<le> cntStation (st_counts st)"
    using i real_counts_bounds by (simp_all add: rv_inv_def reg_inv_def)
  have "st_counts st = real_counts (st_proxies st)" using i by (simp add: rv_inv_def reg_inv_def)
  then have "cntStation (st_counts st) = msum (in_bucket ''station'') (st_proxies st)"
    "cntControl (st_counts st) = msum (in_bucket ''control'') (st_proxies st)"
    "cntPassenger (st_counts st) = msum (in_bucket ''passenger'') (st_proxies st)"
    "cntPublic (st_counts st) = msum is_public (st_proxies st)"
    by (simp_all add: real_counts_def)
  moreover have "list_all (\<lambda>(k, p). p_id p = k \<and> nodeKey k = k) (st_proxies st)"
    "list_all (\<lambda>(k, cc). nodeKey (cc_node_id cc) = k \<and> mget (st_handlers st) (cc_conn cc) = Some cc) (st_conns st)"
    "list_all (\<lambda>(k, m). nm_node_id m = k) (st_metrics st)"
    using i by (auto simp: list_all_iff rv_inv_def reg_inv_def conn_inv_def metric_inv_def wf_map_mem)
  moreover have "distinct (mkeys (st_proxies st))" using i by (simp add: rv_inv_def reg_inv_def wf_map_def)
  ultimately show ?thesis using b unfolding msum_in_bucket by simp
qed

definition toy_settings :: rv_settings where
  "toy_settings = \<lparr>s_mode = ''protected'', s_issuers = [(''0xab'', BindNode)], s_proxy_purge = 0, s_ping_intervals = [],
     s_register_intervals = [],
     s_holepunch = \<lparr>PrePunchCount = 0, PrePunchIntervalMs = 0, PreDialWaitMs = 0, ReplyBurstCount = 0, ReplyBurstIntervalMs = 0\<rparr>\<rparr>"

definition toy_remote :: net_addr where
  "toy_remote = \<lparr>na_kind = TCPAddr, na_ip = [CHR 0x0A, CHR 0x00, CHR 0x00, CHR 0x01], na_text = ''10.0.0.1:5000''\<rparr>"

definition toy_hello :: "string \<Rightarrow> rv_msg" where
  "toy_hello nid = empty_msg\<lparr>m_type := TypeHello, m_id := nid, m_role := ''provider''\<rparr>"

definition toy_conn :: "nat \<Rightarrow> string \<Rightarrow> control_conn" where
  "toy_conn c nid = \<lparr>cc_conn = c, cc_node_id = nid, cc_role = ''provider'', cc_connected_at = toy_now, cc_remote = toy_remote\<rparr>"

lemma toy_hello_step:
  "mget (st_handlers st) c = None \<Longrightarrow> c \<notin> set (st_closed st) \<Longrightarrow> nid \<noteq> [] \<Longrightarrow>
   mget (st_handlers (rv_step V S st (toy_now, Hello c toy_remote (toy_hello nid)))) c = Some (toy_conn c nid)"
  by (simp add: controlHello_def toy_hello_def toy_conn_def empty_msg_def Let_def mget_put)

definition toy_start :: rv_state where
  "toy_start = rv_step toy_env toy_settings NewServer (toy_now, Hello 1 toy_remote (toy_hello ''P:0xAb''))"

lemma toy_start_handler: "mget (st_handlers toy_start) 1 = Some (toy_conn 1 ''P:0xAb'')"
  unfolding toy_start_def by (rule toy_hello_step) (simp_all add: NewServer_def)

text \<open>C5. A connection acts for one node only. Whatever frame arrives on a control connection, and
  whatever id it claims, it changes no registry entry but that of the id said in hello, no metric row but
  the one of that id, and no control connection.\<close>

theorem frame_confined:
  assumes "mget (st_handlers st) conn = Some cc" "st' = rv_step V S st (now, Frame conn msg)"
  shows "(\<forall>k. k \<noteq> nodeKey (cc_node_id cc) \<longrightarrow> mget (st_proxies st') k = mget (st_proxies st) k) \<and>
         (\<forall>k. k \<noteq> cc_node_id cc \<longrightarrow> mget (st_metrics st') k = mget (st_metrics st) k) \<and>
         st_conns st' = st_conns st \<and> st_handlers st' = st_handlers st"
  using only_own_frame [of cc st V S now msg] assms by (simp add: only_own_def)

theorem frame_confined_witness:
  "mget (st_proxies (rv_step toy_env toy_settings toy_start (toy_now, Frame 1 (toy_register\<lparr>m_id := ''P:0xcd''\<rparr>)))) ''P:0xcd''
   = mget (st_proxies toy_start) ''P:0xcd''"
proof -
  have "nodeKey (cc_node_id (toy_conn 1 ''P:0xAb'')) = ''P:0xab''" by code_simp
  then show ?thesis
    using frame_confined [OF toy_start_handler refl, of toy_env toy_settings toy_now "toy_register\<lparr>m_id := ''P:0xcd''\<rparr>"]
    by simp
qed

text \<open>C6. A full register is checked before anything is stored: when the signature does not verify, or the
  server is in protected mode and the credential is not admitted, the registry, its counters, the metrics and the connections stay
  as they were and the node gets an error frame (and the usual acknowledgement). Otherwise the entry of
  the connection's id exists afterwards and was seen now.\<close>

theorem full_register_checked:
  assumes "mget (st_handlers st) conn = Some cc" "m_type msg = TypeRegister" "m_full_sync msg"
    and "own = msg\<lparr>m_id := cc_node_id cc\<rparr>" "st' = rv_step V S st (now, Frame conn msg)"
    and "ok \<longleftrightarrow> verifyRegisterSignature V now own (hashHardwareForVerify (ev_marshal_hw V) (m_hardware msg)) = None \<and>
                 (modeProtected (s_mode S) \<longrightarrow> admitRegister (ev_eth V) (s_issuers S) now own = None)"
  shows "if ok then \<exists>p. mget (st_proxies st') (nodeKey (cc_node_id cc)) = Some p \<and> p_last_seen p = now \<and> p_role p = m_role msg
         else st_proxies st' = st_proxies st \<and> st_counts st' = st_counts st \<and> st_metrics st' = st_metrics st \<and>
              st_conns st' = st_conns st \<and>
              (\<exists>e. st_out st' = st_out st @ [(cc_conn cc, e), (cc_conn cc, register_ack S cc)] \<and> m_type e = TypeError)"
proof -
  have ok: "ok \<longleftrightarrow> register_reject V S now cc own = None"
    using assms(3,4,6) by (simp add: register_reject_def split: option.split)
  have st': "st' = sendFrame cc (register_ack S cc) (applyRegister V S now cc own st)"
    unfolding assms(4,5) by (rule register_frame [OF assms(1,2)])
  show ?thesis
  proof (cases ok)
    case True
    then show ?thesis using ok st' assms(4)
      by (simp add: applyRegister_def Let_def mget_put register_entry_def)
  next
    case False
    then obtain e where e: "register_reject V S now cc own = Some e" using ok by auto
    then have "m_type e = TypeError"
      by (auto simp: register_reject_def error_frame_def split: if_splits option.splits)
    then show ?thesis using False st' register_rejected [OF e, of st] by simp
  qed
qed

theorem full_register_checked_witness:
  "st_proxies (rv_step toy_env toy_settings toy_start (toy_now, Frame 1 (toy_register\<lparr>m_signature := []\<rparr>))) = st_proxies toy_start"
  using full_register_checked [OF toy_start_handler, of "toy_register\<lparr>m_signature := []\<rparr>"
      "toy_register\<lparr>m_signature := [], m_id := ''P:0xAb''\<rparr>" _ toy_env toy_settings toy_now False]
  by (simp add: toy_register_def toy_conn_def verifyRegisterSignature_def)

text \<open>A register without \<^verbatim>\<open>FullSync\<close> is not checked at all: on any connection that has said hello, with any
  id, in every mode and without a signature or a credential, it creates or overwrites the entry of the id, with the
  role and the address of the frame.\<close>

theorem delta_register_unchecked:
  assumes "mget (st_handlers st) conn = Some cc" "m_type msg = TypeRegister" "\<not> m_full_sync msg"
  shows "\<exists>p. mget (st_proxies (rv_step V S st (now, Frame conn msg))) (nodeKey (cc_node_id cc)) = Some p \<and>
           p_role p = m_role msg \<and> p_last_seen p = now \<and> (m_addr msg \<noteq> [] \<longrightarrow> p_addr p = m_addr msg)"
  by (rule delta_register_entry [OF assms])

theorem delta_register_unchecked_witness:
  "modeProtected (s_mode toy_settings) \<and>
   (\<exists>p. mget (st_proxies (rv_step toy_env toy_settings toy_start
          (toy_now, Frame 1 (empty_msg\<lparr>m_type := TypeRegister, m_role := ''provider''\<rparr>)))) (nodeKey ''P:0xAb'') = Some p)"
  using delta_register_unchecked [OF toy_start_handler, of "empty_msg\<lparr>m_type := TypeRegister, m_role := ''provider''\<rparr>" toy_env toy_settings toy_now]
  by (auto simp: toy_conn_def modeProtected_def toy_settings_def empty_msg_def)



definition toy_entry :: proxy_info where
  "toy_entry = zero_proxy\<lparr>p_id := ''P:0xab'', p_role := ''provider'', p_addr := ''1.1.1.1:9'', p_last_seen := toy_now,
     p_control_ip := [CHR 0x0A, CHR 0x00, CHR 0x00, CHR 0x01]\<rparr>"

definition toy_registry :: rv_state where
  "toy_registry = NewServer\<lparr>st_proxies := [(''P:0xab'', toy_entry)],
     st_handlers := [(1, toy_conn 1 ''P:0xAb'')], st_conns := [(''P:0xab'', toy_conn 1 ''P:0xAb'')]\<rparr>"

lemma toy_registry_get: "mget (st_proxies toy_registry) ''P:0xab'' = Some toy_entry"
  by (simp add: toy_registry_def)


text \<open>C7. Cleanup is exact and a node that pings stays. A tick keeps exactly the entries that were seen
  within the purge time, each unchanged, and drops the others; so after an accepted ping the entry survives every
  tick until the purge time has passed.\<close>

theorem pinged_node_survives:
  assumes "ProxyPurgeOrDefault S < 2 ^ 63 - 1"
    and "st = rv_run V S evs" "mget (st_handlers st) conn = Some cc" "m_type msg = TypePing"
    and "mget (st_proxies st) (nodeKey (cc_node_id cc)) = Some p" "cc_node_id cc \<noteq> []"
    and "verifyPingSignature V t0 (msg\<lparr>m_id := cc_node_id cc\<rparr>) = None"
    and "\<forall>t\<in>set ticks. t - t0 \<le> ProxyPurgeOrDefault S"
  shows "mget (st_proxies (rv_run V S (evs @ (t0, Frame conn msg) # map (\<lambda>t. (t, Tick)) ticks))) (nodeKey (cc_node_id cc))
         = Some (p\<lparr>p_last_seen := t0\<rparr>)"
  using assms(8)
proof (induction ticks rule: rev_induct)
  case Nil
  have "mget (st_proxies (rv_step V S st (t0, Frame conn msg))) (nodeKey (cc_node_id cc)) = Some (p\<lparr>p_last_seen := t0\<rparr>)"
    using assms(3-7) by (simp add: handleFrame_def applyPing_def update_proxy_get)
  then show ?case using assms(2) by (simp add: rv_run_def)
next
  case (snoc t ticks)
  let ?st = "rv_run V S (evs @ (t0, Frame conn msg) # map (\<lambda>t. (t, Tick)) ticks)"
  have "rv_run V S (evs @ (t0, Frame conn msg) # map (\<lambda>t. (t, Tick)) (ticks @ [t])) = cleanupTick S t ?st"
    by (simp add: rv_run_def)
  then show ?case
    using snoc purge_get [OF rv_run_wf [of V S "evs @ (t0, Frame conn msg) # map (\<lambda>t. (t, Tick)) ticks"] assms(1), of t]
    by simp
qed

theorem pinged_node_survives_witness:
  "\<exists>p. mget (st_proxies (rv_run toy_env toy_settings
      ([(toy_now, Hello 1 toy_remote (toy_hello (m_id toy_register))),
        (toy_now, Frame 1 (empty_msg\<lparr>m_type := TypeRegister, m_role := ''provider''\<rparr>))] @
       (toy_now, Frame 1 (toy_register\<lparr>m_type := TypePing\<rparr>)) # map (\<lambda>t. (t, Tick)) [toy_now + 100 * second_ns])))
     (nodeKey (m_id toy_register)) = Some p"
proof -
  let ?nid = "m_id toy_register"
  let ?h = "rv_step toy_env toy_settings NewServer (toy_now, Hello 1 toy_remote (toy_hello ?nid))"
  let ?r = "empty_msg\<lparr>m_type := TypeRegister, m_role := ''provider''\<rparr>"
  let ?evs = "[(toy_now, Hello 1 toy_remote (toy_hello ?nid)), (toy_now, Frame 1 ?r)]"
  have n: "?nid \<noteq> []" by (simp add: toy_register_def)
  have h: "mget (st_handlers ?h) 1 = Some (toy_conn 1 ?nid)"
    using n by (intro toy_hello_step) (simp_all add: NewServer_def)
  obtain p where p: "mget (st_proxies (rv_step toy_env toy_settings ?h (toy_now, Frame 1 ?r))) (nodeKey ?nid) = Some p"
    using delta_register_entry [OF h, of ?r toy_env toy_settings toy_now] by (auto simp: toy_conn_def empty_msg_def)
  have h2: "mget (st_handlers (rv_step toy_env toy_settings ?h (toy_now, Frame 1 ?r))) 1 = Some (toy_conn 1 ?nid)"
    using only_own_frame [of "toy_conn 1 ?nid" ?h toy_env toy_settings toy_now ?r] h by (simp add: only_own_def)
  have "clock_skew 1700000000000 1700000001000 = 1000" by (simp add: clock_skew_def wrap64_def)
  then have v: "verifyPingSignature toy_env toy_now (toy_register\<lparr>m_type := TypePing, m_id := ?nid\<rparr>) = None"
    using toy_addr by (simp add: verifyPingSignature_def check_signer_None toy_env_def toy_eth_def toy_register_def)
  have run: "rv_run toy_env toy_settings ?evs = rv_step toy_env toy_settings ?h (toy_now, Frame 1 ?r)"
    by (simp add: rv_run_def del: rv_step.simps)
  have "ProxyPurgeOrDefault toy_settings = 120 * second_ns"
    by (simp add: ProxyPurgeOrDefault_def toy_settings_def defaultProxyPurge_def)
  then show ?thesis
    using pinged_node_survives [of toy_settings "rv_run toy_env toy_settings ?evs" toy_env ?evs 1 "toy_conn 1 ?nid"
        "toy_register\<lparr>m_type := TypePing\<rparr>" p toy_now "[toy_now + 100 * second_ns]"] h2 p v n unfolding run
    by (simp add: second_ns_def toy_conn_def del: rv_step.simps)
qed


text \<open>C21. Reconnecting. A hello replaces the node's control connection and closes the one it replaces;
  pushes then go to the new connection, and the end of the old handler, whenever it comes, does not remove
  the new connection.\<close>

theorem reconnect_wins:
  assumes "st = rv_run V S evs" "mget (st_handlers st) new = None" "new \<notin> set (st_closed st)"
    and "m_type hello = TypeHello" "m_id hello \<noteq> []" "old \<noteq> new"
    and "st1 = rv_step V S st (now, Hello new remote hello)" "st2 = rv_step V S st1 (later, End old)"
  shows "map_option cc_conn (mget (st_conns st2) (nodeKey (m_id hello))) = Some new \<and>
         (\<forall>cc. mget (st_conns st) (nodeKey (m_id hello)) = Some cc \<longrightarrow> cc_conn cc \<in> set (st_closed st1)) \<and>
         (\<forall>m. nodeKey nid = nodeKey (m_id hello) \<longrightarrow> st_out (PushToNode nid m st2) = st_out st2 @ [(new, m)])"
proof -
  have st1: "st1 = controlHello now new remote hello st" using assms(2,3,7) by simp
  have c1: "map_option cc_conn (mget (st_conns st1) (nodeKey (m_id hello))) = Some new"
    and closed: "\<forall>cc. mget (st_conns st) (nodeKey (m_id hello)) = Some cc \<longrightarrow> cc_conn cc \<in> set (st_closed st1)"
    using assms(4,5) unfolding st1 by (auto simp: controlHello_def Let_def mget_put sendFrame_def)
  have "mget (st_conns st2) (nodeKey (m_id hello)) = mget (st_conns st1) (nodeKey (m_id hello))"
    using c1 assms(6,8) by (auto simp: controlEnd_def Let_def mget_del split: option.splits)
  then show ?thesis using c1 closed by (auto simp: PushToNode_def)
qed

theorem reconnect_wins_witness:
  "map_option cc_conn (mget (st_conns (rv_step toy_env toy_settings (rv_step toy_env toy_settings
      (rv_run toy_env toy_settings [(toy_now, Hello 1 toy_remote (toy_hello ''P:0xAb''))])
      (toy_now, Hello 2 toy_remote (toy_hello ''p:0xAB''))) (toy_now, End 1))) (nodeKey ''p:0xAB'')) = Some 2"
proof -
  let ?st = "rv_run toy_env toy_settings [(toy_now, Hello 1 toy_remote (toy_hello ''P:0xAb''))]"
  have "mget (st_handlers ?st) 2 = None" "2 \<notin> set (st_closed ?st)"
    by (simp_all add: rv_run_def controlHello_def NewServer_def toy_hello_def empty_msg_def Let_def sendFrame_def)
  then show ?thesis
    using reconnect_wins [of ?st toy_env toy_settings "[(toy_now, Hello 1 toy_remote (toy_hello ''P:0xAb''))]" 2 "toy_hello ''p:0xAB''" 1
        _ toy_now toy_remote _ toy_now]
    by (simp add: toy_hello_def empty_msg_def del: rv_step.simps)
qed



text \<open>Metrics of a node whose id is not in normal form do not last: the cache is keyed by the id as the
  node wrote it, the registry by the normal form, so the next tick drops the row as an orphan however alive the node is.\<close>

theorem raw_id_metrics_vanish:
  assumes "st = rv_run V S evs" "nodeKey nid \<noteq> nid"
  shows "GetMetric nid svc (rv_step V S st (now, Tick)) = None"
proof -
  have i: "rv_inv st" "rv_inv (purgeProxies S now st)"
    using rv_inv_run [of V S evs] assms(1) by (simp_all add: rv_inv_def reg_inv_def conn_inv_def metric_inv_def
        purgeProxies_eq mget_drop split: option.splits)
  have "mget (st_proxies (purgeProxies S now st)) nid = None"
    using i(2) assms(2) by (cases "mget (st_proxies (purgeProxies S now st)) nid") (auto simp: rv_inv_def reg_inv_def)
  then show ?thesis using i(2)
    by (auto simp: GetMetric_def metricKey_def cleanupTick_def pruneMetrics_def mget_drop rv_inv_def metric_inv_def
        split: option.splits)
qed

lemma metric_event_stores:
  assumes "mget (st_handlers st) conn = Some cc" "m_type msg = TypeServiceEvent" "m_event msg = []" "m_metrics_batch msg = []"
    and "m_metrics msg = Some m" "sm_service m \<noteq> []" "cc_node_id cc \<noteq> []"
    and "mget (st_proxies st) (nodeKey (cc_node_id cc)) = Some p"
  shows "\<exists>row. GetMetric (cc_node_id cc) (sm_service m) (rv_step V S st (now, Frame conn msg)) = Some row \<and>
           nm_service row = sm_service m \<and> nm_queue_depth row = sm_queue_depth m"
  using assms
  by (simp add: handleFrame_def applyServiceEvent_def applyServiceMetric_def GetMetric_def metricKey_def Let_def mget_put)

definition toy_metrics :: service_metrics where
  "toy_metrics = \<lparr>sm_service = ''llm'', sm_status = ''busy'', sm_queue_depth = 2, sm_running_count = 1, sm_total_jobs_done = 5,
     sm_avg_job_sec = 3, sm_last_job_ms = 9, sm_running_job_id = [], sm_timestamp_ms = 0\<rparr>"

theorem raw_id_metrics_vanish_witness:
  "\<exists>evs. GetMetric ''P:0xAb'' ''llm'' (rv_run toy_env toy_settings evs) \<noteq> None \<and>
         GetMetric ''P:0xAb'' ''llm'' (rv_step toy_env toy_settings (rv_run toy_env toy_settings evs) (toy_now, Tick)) = None"
proof -
  let ?r = "empty_msg\<lparr>m_type := TypeRegister, m_role := ''provider''\<rparr>"
  let ?e = "empty_msg\<lparr>m_type := TypeServiceEvent, m_metrics := Some toy_metrics\<rparr>"
  let ?evs = "[(toy_now, Hello 1 toy_remote (toy_hello ''P:0xAb'')), (toy_now, Frame 1 ?r), (toy_now, Frame 1 ?e)]"
  let ?s = "rv_step toy_env toy_settings toy_start (toy_now, Frame 1 ?r)"
  have h: "mget (st_handlers ?s) 1 = Some (toy_conn 1 ''P:0xAb'')"
    using only_own_frame [of "toy_conn 1 ''P:0xAb''" toy_start toy_env toy_settings toy_now ?r] toy_start_handler
    by (simp add: only_own_def)
  obtain p where p: "mget (st_proxies ?s) (nodeKey ''P:0xAb'') = Some p"
    using delta_register_entry [OF toy_start_handler, of ?r toy_env toy_settings toy_now] by (auto simp: toy_conn_def empty_msg_def)
  have "rv_run toy_env toy_settings ?evs = rv_step toy_env toy_settings ?s (toy_now, Frame 1 ?e)"
    by (simp add: rv_run_def toy_start_def del: rv_step.simps)
  moreover have "GetMetric ''P:0xAb'' ''llm'' (rv_step toy_env toy_settings ?s (toy_now, Frame 1 ?e)) \<noteq> None"
    using metric_event_stores [OF h, of ?e toy_metrics p toy_env toy_settings toy_now] p
    by (auto simp: toy_conn_def empty_msg_def toy_metrics_def simp del: rv_step.simps)
  moreover have "nodeKey ''P:0xAb'' \<noteq> ''P:0xAb''" by code_simp
  ultimately show ?thesis using raw_id_metrics_vanish [OF refl, of "''P:0xAb''"] by metis
qed

end
