(* ===== verification/RV_Directory.thy ===== *)
theory RV_Directory
  imports RV_Registry "HOL-Library.List_Lexorder" "HOL-Library.Char_ord"
begin

text \<open>
  The REST side of the rendezvous server (\<^verbatim>\<open>handleNodes\<close>, \<^verbatim>\<open>handleMetrics\<close> and \<^verbatim>\<open>handleHealth\<close> of
  \<^verbatim>\<open>pkg/rendezvous/server.go\<close>). Query parameters are an association list; number parsing of floats, time formatting
  and the ETag (a hash of the JSON) are collected in the record \<open>rest_env\<close>. A handler returns
  its response as a value; a Go panic is a response of its own.
\<close>

record dir_node =
  n_id :: string
  n_role :: string
  n_addr :: string
  n_started_at :: string
  n_connected_at :: string
  n_version :: string
  n_bin_hash :: string
  n_owner_address :: string
  n_emblem :: string
  n_auth_mode :: string
  n_hardware :: "hardware option"
  n_services :: "service_info list"
  n_tpm_verified :: bool
  n_ek_cert_issuer :: string

record etag_node =
  e_id :: string
  e_role :: string
  e_addr :: string
  e_auth_mode :: string
  e_hardware :: "hardware option"
  e_services :: "service_info list"

record rest_env =
  re_parse_float :: "string \<Rightarrow> rat option"
  re_rfc3339 :: "time \<Rightarrow> string"
  re_etag :: "etag_node list \<Rightarrow> string"

type_synonym query = "(string, string) gomap"

abbreviation qget :: "query \<Rightarrow> string \<Rightarrow> string" where
  "qget q k \<equiv> (case mget q k of None \<Rightarrow> [] | Some v \<Rightarrow> v)"

record http_req =
  r_method :: string
  r_query :: query
  r_if_none_match :: string
  r_remote :: string


section \<open>Filters\<close>

definition hasGPUName :: "hardware option \<Rightarrow> string \<Rightarrow> bool" where
  "hasGPUName hw needle \<longleftrightarrow>
     (case hw of None \<Rightarrow> False | Some h \<Rightarrow> list_ex (\<lambda>g. contains (to_lower (gpu_name g)) needle) (gpu_list h))"

definition maxGPUVRAM :: "hardware option \<Rightarrow> rat" where
  "maxGPUVRAM hw =
     (case hw of None \<Rightarrow> 0
      | Some h \<Rightarrow> foldl (\<lambda>m g. if vram_total_gb g > m then vram_total_gb g else m) 0 (gpu_list h))"

definition isPassenger :: "string \<Rightarrow> bool" where
  "isPassenger role \<longleftrightarrow> equal_fold role ''consumer'' \<or> equal_fold role ''passenger''"

text \<open>The ids of a \<^verbatim>\<open>node_id\<close> parameter; \<^const>\<open>None\<close> when the parameter is absent or empty.\<close>

definition node_id_set :: "query \<Rightarrow> string list option" where
  "node_id_set q =
     (if qget q ''node_id'' = [] then None
      else Some (remdups (map nodeKey (filter (\<lambda>s. s \<noteq> []) (map trim_space (split (qget q ''node_id'') CHR '',''))))))"

definition min_vram :: "rest_env \<Rightarrow> query \<Rightarrow> rat" where
  "min_vram R q =
     (if qget q ''min_vram'' = [] then 0
      else case re_parse_float R (qget q ''min_vram'') of Some v \<Rightarrow> v | None \<Rightarrow> 0)"

definition status_match :: "query \<Rightarrow> rv_state \<Rightarrow> string \<Rightarrow> bool" where
  "status_match q st nid \<longleftrightarrow>
     (let statusFilter = to_lower (qget q ''status''); svcFilter = to_lower (qget q ''service'') in
      statusFilter = [] \<or>
      list_ex (\<lambda>(k, m). heartbeatStatus (nm_status m) = statusFilter \<and>
                 (svcFilter = [] \<or> to_lower (nm_service m) = svcFilter) \<and> nm_node_id m = nid) (st_metrics st))"

definition node_matches :: "rest_env \<Rightarrow> time \<Rightarrow> query \<Rightarrow> rv_state \<Rightarrow> proxy_info \<Rightarrow> bool" where
  "node_matches R now q st p \<longleftrightarrow>
     (let search = to_lower (qget q ''q''); svcFilter = to_lower (qget q ''service''); modelFilter = qget q ''model'';
          roleFilter = to_lower (qget q ''role''); gpuFilter = to_lower (qget q ''gpu'');
          online = time_sub now (p_last_seen p) < 90 * second_ns
      in \<not> isPassenger (p_role p) \<and>
         (qget q ''online'' = ''true'' \<longrightarrow> online) \<and>
         (roleFilter \<noteq> [] \<longrightarrow> to_lower (p_role p) = roleFilter) \<and>
         status_match q st (p_id p) \<and>
         (search \<noteq> [] \<longrightarrow> contains (to_lower (p_id p)) search \<or> contains (to_lower (p_owner_address p)) search) \<and>
         (svcFilter \<noteq> [] \<or> modelFilter \<noteq> [] \<longrightarrow>
            list_ex (\<lambda>s. (svcFilter \<noteq> [] \<longrightarrow> to_lower (svc_name s) = svcFilter) \<and>
                         (modelFilter \<noteq> [] \<longrightarrow> svc_model s = modelFilter)) (p_services p)) \<and>
         (gpuFilter \<noteq> [] \<longrightarrow> hasGPUName (p_hardware p) gpuFilter) \<and>
         (min_vram R q > 0 \<longrightarrow> \<not> maxGPUVRAM (p_hardware p) < min_vram R q))"


section \<open>The node directory\<close>

definition static_service :: "service_info \<Rightarrow> service_info" where
  "static_service s = zero_service\<lparr>svc_name := svc_name s, svc_type := svc_type s, svc_launcher := svc_launcher s,
     svc_version := svc_version s, svc_bin_hash := svc_bin_hash s, svc_model := svc_model s,
     svc_model_hash := svc_model_hash s, svc_model_origin_url := svc_model_origin_url s, svc_ready := svc_ready s,
     svc_loading := svc_loading s, svc_child_pid := svc_child_pid s, svc_child_name := svc_child_name s,
     svc_max_queue := svc_max_queue s, svc_concurrency := svc_concurrency s, svc_queue_disabled := svc_queue_disabled s,
     svc_inspect := svc_inspect s, svc_inspect_labels := svc_inspect_labels s, svc_inspect_order := svc_inspect_order s\<rparr>"

definition emit_node :: "rest_env \<Rightarrow> rv_state \<Rightarrow> proxy_info \<Rightarrow> dir_node" where
  "emit_node R st p =
     \<lparr>n_id = p_id p, n_role = p_role p, n_addr = p_addr p,
      n_started_at = (if is_zero_time (p_registered_at p) then [] else re_rfc3339 R (p_registered_at p)),
      n_connected_at = (case mget (st_conns st) (p_id p) of
                          Some cc \<Rightarrow> if is_zero_time (cc_connected_at cc) then [] else re_rfc3339 R (cc_connected_at cc)
                        | None \<Rightarrow> []),
      n_version = p_version p, n_bin_hash = p_bin_hash p, n_owner_address = p_owner_address p, n_emblem = p_emblem p,
      n_auth_mode = p_auth_mode p, n_hardware = StableHardware (p_hardware p),
      n_services = map static_service (p_services p),
      n_tpm_verified = p_tpm_verified p, n_ek_cert_issuer = p_ek_cert_issuer p\<rparr>"

definition listed_entries :: "rest_env \<Rightarrow> time \<Rightarrow> query \<Rightarrow> rv_state \<Rightarrow> proxy_info list" where
  "listed_entries R now q st =
     (case node_id_set q of
        Some ids \<Rightarrow> filter (\<lambda>p. \<not> isPassenger (p_role p)) (List.map_filter (mget (st_proxies st)) ids)
      | None \<Rightarrow> filter (node_matches R now q st) (map snd (st_proxies st)))"

definition listed_nodes :: "rest_env \<Rightarrow> time \<Rightarrow> query \<Rightarrow> rv_state \<Rightarrow> dir_node list" where
  "listed_nodes R now q st = sort_key n_id (map (emit_node R st) (listed_entries R now q st))"

text \<open>
  The page \<^verbatim>\<open>all[start:end]\<close>, with the products and sums of 64-bit integers; \<^const>\<open>None\<close> is the panic of a
  slice expression out of range.
\<close>

definition page_slice :: "int \<Rightarrow> int \<Rightarrow> 'a list \<Rightarrow> 'a list option" where
  "page_slice page limit all =
     (let total = int (length all);
          start = wrap64 ((page - 1) * limit);
          start = (if start > total then total else start);
          stop = wrap64 (start + limit);
          stop = (if stop > total then total else stop)
      in if 0 \<le> start \<and> start \<le> stop then Some (take (nat (stop - start)) (drop (nat start) all)) else None)"

definition pos_param :: "query \<Rightarrow> string \<Rightarrow> int \<Rightarrow> int" where
  "pos_param q k d = (case parse_int (qget q k) of Some v \<Rightarrow> if v > 0 then v else d | None \<Rightarrow> d)"

datatype nodes_resp =
    NodesPreflight
  | NodesNotModified string
  | NodesList string "dir_node list"
  | NodesPage string "dir_node list" nat int int
  | NodesPanic

definition etag_of :: "dir_node \<Rightarrow> etag_node" where
  "etag_of n = \<lparr>e_id = n_id n, e_role = n_role n, e_addr = n_addr n, e_auth_mode = n_auth_mode n,
     e_hardware = n_hardware n, e_services = n_services n\<rparr>"

definition handleNodes :: "rest_env \<Rightarrow> time \<Rightarrow> http_req \<Rightarrow> rv_state \<Rightarrow> nodes_resp" where
  "handleNodes R now r st =
     (if r_method r = ''OPTIONS'' then NodesPreflight
      else
        (let q = r_query r; all = listed_nodes R now q st;
             paginate = (qget q ''page'' \<noteq> [] \<or> qget q ''limit'' \<noteq> []);
             page = pos_param q ''page'' 1; limit = pos_param q ''limit'' 50;
             etag = re_etag R (map etag_of all)
         in if paginate then
              (case page_slice page limit all of
                 None \<Rightarrow> NodesPanic
               | Some ns \<Rightarrow> if r_if_none_match r = etag then NodesNotModified etag
                            else NodesPage etag ns (length all) page limit)
            else if r_if_none_match r = etag then NodesNotModified etag
            else NodesList etag all))"


section \<open>Metrics\<close>

record metric_row =
  w_node_id :: string
  w_service :: string
  w_status :: string
  w_queue_depth :: "32 word"
  w_running_count :: "32 word"
  w_total_jobs_done :: "64 word"
  w_avg_job_sec :: rat
  w_last_job_ms :: int
  w_running_job_id :: string
  w_updated_at :: int
  w_conn_status :: string
  w_online :: bool

definition metric_allowed :: "rest_env \<Rightarrow> query \<Rightarrow> proxy_info \<Rightarrow> bool" where
  "metric_allowed R q p \<longleftrightarrow>
     (let fService = (if qget q ''service'' = [] then qget q ''src'' else qget q ''service'');
          fModel = qget q ''model''; fGPU = to_lower (qget q ''gpu'')
      in (p_role p = [] \<or> p_role p = ''provider'' \<or> p_role p = ''station'') \<and>
         (fGPU \<noteq> [] \<longrightarrow> hasGPUName (p_hardware p) fGPU) \<and>
         (min_vram R q > 0 \<longrightarrow> \<not> maxGPUVRAM (p_hardware p) < min_vram R q) \<and>
         (fModel \<noteq> [] \<longrightarrow> list_ex (\<lambda>s. svc_model s = fModel \<and> (fService = [] \<or> svc_name s = fService)) (p_services p)))"

definition live_snapshot :: "query \<Rightarrow> rv_state \<Rightarrow> (string, time \<times> string) gomap" where
  "live_snapshot q st =
     (case node_id_set q of
        Some ids \<Rightarrow> List.map_filter (\<lambda>i. map_option (\<lambda>p. (i, p_last_seen p, p_role p)) (mget (st_proxies st) i)) ids
      | None \<Rightarrow> map (\<lambda>(i, p). (i, p_last_seen p, p_role p)) (st_proxies st))"

definition live_fields :: "rv_settings \<Rightarrow> time \<Rightarrow> time \<times> string \<Rightarrow> int \<times> string \<times> bool" where
  "live_fields S now l =
     (unix_milli (fst l), computeConnStatus S (snd l) (fst l) now,
      \<not> is_zero_time (fst l) \<and> time_sub now (fst l) < 60 * second_ns)"

definition metric_to_row :: "rv_settings \<Rightarrow> time \<Rightarrow> time \<times> string \<Rightarrow> node_metric \<Rightarrow> metric_row" where
  "metric_to_row S now l m =
     (case live_fields S now l of (upd, conn, online) \<Rightarrow>
       \<lparr>w_node_id = nm_node_id m, w_service = nm_service m, w_status = heartbeatStatus (nm_status m),
        w_queue_depth = nm_queue_depth m, w_running_count = nm_running_count m, w_total_jobs_done = nm_total_jobs_done m,
        w_avg_job_sec = nm_avg_job_sec m, w_last_job_ms = nm_last_job_ms m, w_running_job_id = nm_running_job_id m,
        w_updated_at = upd, w_conn_status = conn, w_online = online\<rparr>)"

definition synthetic_row :: "rv_settings \<Rightarrow> time \<Rightarrow> string \<times> time \<times> string \<Rightarrow> metric_row" where
  "synthetic_row S now e =
     (case live_fields S now (snd e) of (upd, conn, online) \<Rightarrow>
       \<lparr>w_node_id = fst e, w_service = [], w_status = [], w_queue_depth = 0, w_running_count = 0, w_total_jobs_done = 0,
        w_avg_job_sec = 0, w_last_job_ms = 0, w_running_job_id = [], w_updated_at = upd, w_conn_status = conn,
        w_online = online\<rparr>)"

definition handleMetrics :: "rest_env \<Rightarrow> rv_settings \<Rightarrow> time \<Rightarrow> http_req \<Rightarrow> rv_state \<Rightarrow> metric_row list option" where
  "handleMetrics R S now r st =
     (if r_method r = ''OPTIONS'' then None
      else
        (let q = r_query r; ids = node_id_set q;
             fService = (if qget q ''service'' = [] then qget q ''src'' else qget q ''service'');
             fStatus = to_lower (qget q ''status'');
             needStatic = (qget q ''model'' \<noteq> [] \<or> to_lower (qget q ''gpu'') \<noteq> [] \<or> min_vram R q > 0);
             allowed = (\<lambda>nid. case mget (st_proxies st) nid of Some p \<Rightarrow> metric_allowed R q p | None \<Rightarrow> False);
             live = live_snapshot q st;
             keep = (\<lambda>m. case ids of
                        Some is' \<Rightarrow> nm_node_id m \<in> set is'
                      | None \<Rightarrow> (needStatic \<longrightarrow> allowed (nm_node_id m)) \<and> (fService \<noteq> [] \<longrightarrow> nm_service m = fService) \<and>
                                (fStatus \<noteq> [] \<longrightarrow> heartbeatStatus (nm_status m) = fStatus));
             kept = filter keep (map snd (st_metrics st));
             rows = map (\<lambda>m. metric_to_row S now (case mget live (nm_node_id m) of Some l \<Rightarrow> l | None \<Rightarrow> (0, [])) m) kept;
             extra = filter (\<lambda>(nid, l). nid \<notin> set (map nm_node_id kept) \<and>
                        (case ids of Some is' \<Rightarrow> nid \<in> set is' | None \<Rightarrow> needStatic \<longrightarrow> allowed nid)) live
         in Some (rows @ (if fService = [] \<and> fStatus = [] then map (synthetic_row S now) extra else []))))"


section \<open>Health\<close>

record health_body =
  hb_uptime_s :: int
  hb_station :: int
  hb_control :: int
  hb_passenger :: int
  hb_public :: int
  hb_total :: int

datatype health_resp = HealthTooMany | HealthNotModified string | HealthOK string health_body

definition health_etag :: "rv_counts \<Rightarrow> string" where
  "health_etag c = CHR 0x22 # ''c-'' @ format_int (cntStation c) @ ''-'' @ format_int (cntControl c) @ ''-'' @
     format_int (cntPassenger c) @ ''-'' @ format_int (cntPublic c) @ [CHR 0x22]"

definition handleHealth :: "time \<Rightarrow> time \<Rightarrow> http_req \<Rightarrow> rv_state \<Rightarrow> health_resp \<times> rv_state" where
  "handleHealth startedAt now r st =
     (let ip = clientIP (r_remote r);
          (ok, h) = (if ip = [] then (True, st_limiter st) else health_allow (st_limiter st) now ip);
          st1 = st\<lparr>st_limiter := h\<rparr>; c = st_counts st1; etag = health_etag c
      in if \<not> ok then (HealthTooMany, st1)
         else if r_if_none_match r = etag then (HealthNotModified etag, st1)
         else (HealthOK etag
                 \<lparr>hb_uptime_s = (if is_zero_time startedAt then 0 else time_sub now startedAt div second_ns),
                  hb_station = cntStation c, hb_control = cntControl c, hb_passenger = cntPassenger c,
                  hb_public = cntPublic c, hb_total = cntStation c + cntControl c\<rparr>, st1))"


section \<open>Lemmas\<close>

lemma isPassenger_bucket: "isPassenger role \<longleftrightarrow> roleBucket role = ''passenger''"
proof -
  have l: "to_lower ''consumer'' = ''consumer''" "to_lower ''passenger'' = ''passenger''" by code_simp+
  show ?thesis by (auto simp: isPassenger_def equal_fold_def l roleBucket_def Let_def)
qed

lemma n_id_emit [simp]: "n_id (emit_node R st p) = p_id p" "n_role (emit_node R st p) = p_role p"
  by (simp_all add: emit_node_def)

lemma map_filter_mem: "y \<in> set (List.map_filter f xs) \<longleftrightarrow> (\<exists>x\<in>set xs. f x = Some y)"
  by (auto simp: map_filter_def) force

lemma map_filter_ids:
  assumes "\<And>k p. mget m k = Some p \<Longrightarrow> g p = k" "distinct ids"
  shows "distinct (map g (List.map_filter (mget m) ids))"
  using assms(2)
proof (induction ids)
  case (Cons i ids)
  have "g p \<noteq> i" if "p \<in> set (List.map_filter (mget m) ids)" for p
    using that Cons.prems assms(1) by (auto simp: map_filter_mem)
  then show ?case using Cons assms(1) by (auto simp: map_filter_simps split: option.split)
qed (simp add: map_filter_simps)

lemma listed_ids:
  assumes "rv_inv st"
  shows "distinct (map p_id (listed_entries R now q st))"
    and "p \<in> set (listed_entries R now q st) \<longleftrightarrow>
         mget (st_proxies st) (p_id p) = Some p \<and>
         (case node_id_set q of Some ids \<Rightarrow> p_id p \<in> set ids \<and> \<not> isPassenger (p_role p) | None \<Rightarrow> node_matches R now q st p)"
proof -
  have i: "wf_map (st_proxies st)" "\<And>k p. mget (st_proxies st) k = Some p \<Longrightarrow> p_id p = k"
    using assms by (auto simp: rv_inv_def reg_inv_def)
  have keys: "map (p_id \<circ> snd) (st_proxies st) = mkeys (st_proxies st)"
    by (rule map_cong) (use i wf_map_mem [OF i(1)] in auto)
  have d: "distinct (map p_id (map snd (st_proxies st)))"
    using i(1) by (simp add: keys wf_map_def)
  have mem: "p \<in> snd ` set (st_proxies st) \<longleftrightarrow> mget (st_proxies st) (p_id p) = Some p" for p
  proof
    assume "p \<in> snd ` set (st_proxies st)"
    then obtain k where "mget (st_proxies st) k = Some p" using wf_map_mem [OF i(1)] by auto
    then show "mget (st_proxies st) (p_id p) = Some p" using i(2) by simp
  next
    assume "mget (st_proxies st) (p_id p) = Some p"
    then have "(p_id p, p) \<in> set (st_proxies st)" using wf_map_mem [OF i(1)] by blast
    then show "p \<in> snd ` set (st_proxies st)" by force
  qed
  have ids: "node_id_set q = Some ids \<Longrightarrow> distinct ids" for ids
    by (auto simp: node_id_set_def split: if_splits)
  have "distinct (map p_id (filter P (map snd (st_proxies st))))" for P
    by (rule distinct_map_filter [OF d])
  moreover have "distinct (map p_id (filter P (List.map_filter (mget (st_proxies st)) ids)))" if "node_id_set q = Some ids" for P ids
    by (rule distinct_map_filter [OF map_filter_ids [OF i(2) ids [OF that]]])
  ultimately show "distinct (map p_id (listed_entries R now q st))"
    by (auto simp: listed_entries_def split: option.split)
  show "p \<in> set (listed_entries R now q st) \<longleftrightarrow>
         mget (st_proxies st) (p_id p) = Some p \<and>
         (case node_id_set q of Some ids \<Rightarrow> p_id p \<in> set ids \<and> \<not> isPassenger (p_role p) | None \<Rightarrow> node_matches R now q st p)"
    using i(2) mem by (auto simp: listed_entries_def map_filter_mem split: option.split)
qed

lemma node_matches_empty: "node_matches R now [] st p \<longleftrightarrow> \<not> isPassenger (p_role p)"
  by (simp add: node_matches_def status_match_def min_vram_def)

lemma page_slice_ok:
  assumes "0 < limit" "0 \<le> i" "(i + 1) * limit < 2 ^ 63"
  shows "page_slice (i + 1) limit all = Some (take (nat limit) (drop (nat (i * limit)) all))"
proof -
  have nn: "0 \<le> i * limit" using assms by simp
  have s: "i * limit + limit < 2 ^ 63" using assms(3) by (simp add: algebra_simps)
  have ok: "wrap64 (i * limit) = i * limit" "wrap64 (i * limit + limit) = i * limit + limit"
    using nn s assms(1) by (simp_all add: int64_ok_def)
  have small: "wrap64 (int (length all) + limit) = int (length all) + limit" if "int (length all) < i * limit"
    using that s assms(1) by (intro wrap64_id) (simp add: int64_ok_def)
  show ?thesis
  proof (cases "i * limit > int (length all)")
    case True
    then show ?thesis using small nn assms(1)
      by (auto simp: page_slice_def ok Let_def)
  next
    case False
    have "nat (i * limit + limit) - nat (i * limit) = nat limit"
      using nn assms(1) by (simp add: nat_add_distrib)
    then show ?thesis using False nn assms(1)
      by (auto simp: page_slice_def ok Let_def nat_diff_distrib' min_def take_all_iff)
  qed
qed

lemma page_overflow:
  "handleNodes R now \<lparr>r_method = ''GET'', r_query = [(''page'', ''4611686018427387905''), (''limit'', ''2'')],
                     r_if_none_match = inm, r_remote = rem\<rparr> st = NodesPanic"
proof -
  have "page_slice 4611686018427387905 2 xs = None" for xs :: "dir_node list"
    by (simp add: page_slice_def wrap64_def Let_def)
  moreover have "pos_param [(''page'', ''4611686018427387905''), (''limit'', ''2'')] ''page'' 1 = 4611686018427387905"
    "pos_param [(''page'', ''4611686018427387905''), (''limit'', ''2'')] ''limit'' 50 = 2" by (simp_all add: pos_param_def parse_int_def digit_of_def int64_ok_def Let_def)
  ultimately show ?thesis by (simp add: handleNodes_def Let_def)
qed

lemma concat_pages:
  assumes "0 < limit"
  shows "concat (map (\<lambda>i. take limit (drop (i * limit) xs)) [0..<k]) = take (k * limit) xs"
proof (induction k)
  case (Suc k)
  have "take (limit + k * limit) xs = take (k * limit) xs @ take limit (drop (k * limit) xs)"
    using take_add [of "k * limit" limit xs] by (simp add: add.commute)
  then show ?case using Suc by simp
qed simp


section \<open>Properties\<close>

text \<open>The directory is exact. For every query in every reachable state the nodes come sorted by id, without
  repetition and without passengers, and they are those of the registry that the query asks for: the
  requested ids, or the entries that pass every filter.\<close>

theorem directory_exact:
  fixes V S evs R now q
  defines "st \<equiv> rv_run V S evs"
  defines "ns \<equiv> listed_nodes R now q st"
  shows "sorted (map n_id ns) \<and> distinct (map n_id ns) \<and> list_all (\<lambda>n. \<not> isPassenger (n_role n)) ns \<and>
         set (map n_id ns) = {k. \<exists>p. mget (st_proxies st) k = Some p \<and>
            (case node_id_set q of Some ids \<Rightarrow> k \<in> set ids \<and> \<not> isPassenger (p_role p) | None \<Rightarrow> node_matches R now q st p)}"
proof -
  have i: "rv_inv st" unfolding st_def by (rule rv_inv_run)
  note l = listed_ids [OF i, where R = R and now = now and q = q]
  have "distinct (map n_id (map (emit_node R st) (listed_entries R now q st)))"
    using l(1) by (simp add: o_def)
  then have d: "distinct (map n_id ns)" unfolding ns_def listed_nodes_def distinct_map by (simp add: distinct_map)
  have np: "\<not> isPassenger (p_role p)" if "p \<in> set (listed_entries R now q st)" for p
    using that l(2) [of p] by (auto simp: node_matches_def Let_def split: option.splits)
  let ?asked = "\<lambda>k p. case node_id_set q of Some ids \<Rightarrow> k \<in> set ids \<and> \<not> isPassenger (p_role p) | None \<Rightarrow> node_matches R now q st p"
  have pid: "p_id p = k" if "mget (st_proxies st) k = Some p" for k p
    using i that by (simp add: rv_inv_def reg_inv_def)
  have "set (map n_id ns) = p_id ` set (listed_entries R now q st)"
    unfolding ns_def listed_nodes_def by (simp add: image_image)
  also have "\<dots> = {k. \<exists>p. mget (st_proxies st) k = Some p \<and> ?asked k p}"
  proof (rule set_eqI, rule iffI)
    fix k assume "k \<in> p_id ` set (listed_entries R now q st)"
    then obtain p where "p \<in> set (listed_entries R now q st)" "k = p_id p" by blast
    then show "k \<in> {k. \<exists>p. mget (st_proxies st) k = Some p \<and> ?asked k p}" using l(2) [of p] by blast
  next
    fix k assume "k \<in> {k. \<exists>p. mget (st_proxies st) k = Some p \<and> ?asked k p}"
    then obtain p where p: "mget (st_proxies st) k = Some p" "?asked k p" by blast
    then have "p \<in> set (listed_entries R now q st)" using l(2) [of p] pid [OF p(1)] by blast
    then show "k \<in> p_id ` set (listed_entries R now q st)" using pid [OF p(1)] by blast
  qed
  finally have "set (map n_id ns) = {k. \<exists>p. mget (st_proxies st) k = Some p \<and> ?asked k p}" .
  moreover have "list_all (\<lambda>n. \<not> isPassenger (n_role n)) ns"
    using np by (auto simp: ns_def listed_nodes_def list_all_iff)
  moreover have "sorted (map n_id ns)" by (simp add: ns_def listed_nodes_def)
  ultimately show ?thesis using d by blast
qed

text \<open>The total of \<^verbatim>\<open>/health\<close> against the directory. In every reachable state the unfiltered directory has as many nodes as
  the health total (stations and controls) plus the entries whose role is in no bucket: the total is the number of
  visible nodes exactly when every role is known.\<close>

theorem health_total_vs_directory:
  fixes V S evs
  defines "st \<equiv> rv_run V S evs"
  shows "int (length (listed_nodes R now [] st)) =
           cntStation (st_counts st) + cntControl (st_counts st) +
           int (length (filter (\<lambda>(k, p). roleBucket (p_role p) = []) (st_proxies st)))"
proof -
  have i: "rv_inv st" unfolding st_def by (rule rv_inv_run)
  have b: "roleBucket r = ''station'' \<or> roleBucket r = ''control'' \<or> roleBucket r = ''passenger'' \<or> roleBucket r = []" for r
    by (simp add: roleBucket_def Let_def)
  have "int (length (filter (\<lambda>p. roleBucket (p_role p) \<noteq> ''passenger'') (map snd m))) =
        msum (in_bucket ''station'') m + msum (in_bucket ''control'') m + msum (in_bucket []) m" for m :: "(string, proxy_info) gomap"
  proof (induction m)
    case (Cons e m)
    then show ?case using b [of "p_role (snd e)"] by (auto simp: msum_def in_bucket_def)
  qed simp
  moreover have "listed_entries R now [] st = filter (\<lambda>p. roleBucket (p_role p) \<noteq> ''passenger'') (map snd (st_proxies st))"
    by (simp add: listed_entries_def node_id_set_def node_matches_empty isPassenger_bucket cong: filter_cong)
  moreover have "st_counts st = real_counts (st_proxies st)" using i by (simp add: rv_inv_def reg_inv_def)
  ultimately show ?thesis
    by (simp add: listed_nodes_def real_counts_def msum_in_bucket(1))
qed

text \<open>Pages partition the list: as long as page numbers times the limit stay below \<open>2\<^sup>6\<^sup>3\<close>, the first pages of a
  positive limit put together are the beginning of the list, and all of it once they reach its end. Beyond
  that the product overflows: the query page=4611686018427387905, limit=2 makes the handler panic in every state.\<close>

theorem directory_pages:
  assumes "0 < limit" "int k * limit < 2 ^ 63"
  shows "(\<forall>i<k. page_slice (int i + 1) limit all \<noteq> None) \<and>
         concat (map (\<lambda>i. the (page_slice (int i + 1) limit all)) [0..<k]) = take (k * nat limit) all \<and>
         handleNodes R now \<lparr>r_method = ''GET'', r_query = [(''page'', ''4611686018427387905''), (''limit'', ''2'')],
                           r_if_none_match = inm, r_remote = rem\<rparr> st = NodesPanic"
proof -
  have s: "page_slice (int i + 1) limit all = Some (take (nat limit) (drop (i * nat limit) all))" if "i < k" for i
  proof -
    have "(int i + 1) * limit \<le> int k * limit" using that assms(1) by (intro mult_right_mono) auto
    then have "(int i + 1) * limit < 2 ^ 63" using assms(2) by linarith
    then have "page_slice (int i + 1) limit all = Some (take (nat limit) (drop (nat (int i * limit)) all))"
      using assms(1) by (intro page_slice_ok) auto
    then show ?thesis by (simp add: nat_mult_distrib)
  qed
  have "concat (map (\<lambda>i. the (page_slice (int i + 1) limit all)) [0..<k]) =
        concat (map (\<lambda>i. take (nat limit) (drop (i * nat limit) all)) [0..<k])"
    by (rule arg_cong [where f = concat], rule map_cong) (simp_all add: s)
  then have "concat (map (\<lambda>i. the (page_slice (int i + 1) limit all)) [0..<k]) = take (k * nat limit) all"
    using assms(1) by (simp add: concat_pages)
  then show ?thesis using s page_overflow [of R now inm rem st] by simp
qed

theorem directory_pages_witness:
  "concat (map (\<lambda>i. the (page_slice (int i + 1) 2 [CHR ''a'', CHR ''b'', CHR ''c''])) [0..<2]) = ''abc''"
  using directory_pages [of 2 2 "''abc''"] by simp

text \<open>The metric listing without parameters covers the registry: its rows are for the nodes that have metrics
  and the nodes that are registered, no others, and each row of a registered node carries the connection status of its last
  sign of life.\<close>

theorem metrics_cover_registry:
  assumes "wf_map (st_proxies st)" "r_method r \<noteq> ''OPTIONS''" "r_query r = []"
  shows "\<exists>rows. handleMetrics R S now r st = Some rows \<and>
           set (map w_node_id rows) = set (map nm_node_id (map snd (st_metrics st))) \<union> set (mkeys (st_proxies st)) \<and>
           (\<forall>w p. w \<in> set rows \<and> mget (st_proxies st) (w_node_id w) = Some p \<longrightarrow>
              w_conn_status w = computeConnStatus S (p_role p) (p_last_seen p) now \<and> w_updated_at w = unix_milli (p_last_seen p))"
proof -
  let ?live = "map (\<lambda>(i, p). (i, p_last_seen p, p_role p)) (st_proxies st)"
  let ?ms = "map snd (st_metrics st)"
  let ?of = "\<lambda>m. case mget ?live (nm_node_id m) of Some l \<Rightarrow> l | None \<Rightarrow> (0, [])"
  let ?rows = "map (\<lambda>m. metric_to_row S now (?of m) m) ?ms @
     map (synthetic_row S now) (filter (\<lambda>(nid, l). nid \<notin> set (map nm_node_id ?ms)) ?live)"
  have rows: "handleMetrics R S now r st = Some ?rows"
    using assms(2,3) by (simp add: handleMetrics_def live_snapshot_def node_id_set_def min_vram_def Let_def image_image cong: filter_cong)
  have l: "mget ?live k = map_option (\<lambda>p. (p_last_seen p, p_role p)) (mget (st_proxies st) k)" for k
    by (induction "st_proxies st" arbitrary: st) (auto simp: map_of_map)
  have nid: "w_node_id (metric_to_row S now l m) = nm_node_id m" "w_node_id (synthetic_row S now e) = fst e"
    "w_conn_status (metric_to_row S now l m) = computeConnStatus S (snd l) (fst l) now"
    "w_conn_status (synthetic_row S now e) = computeConnStatus S (snd (snd e)) (fst (snd e)) now"
    "w_updated_at (metric_to_row S now l m) = unix_milli (fst l)"
    "w_updated_at (synthetic_row S now e) = unix_milli (fst (snd e))" for l m e
    by (simp_all add: metric_to_row_def synthetic_row_def live_fields_def)
  have "set (map w_node_id ?rows) = set (map nm_node_id ?ms) \<union> set (mkeys (st_proxies st))"
    by (force simp: nid image_iff)
  moreover have "w_conn_status w = computeConnStatus S (p_role p) (p_last_seen p) now \<and> w_updated_at w = unix_milli (p_last_seen p)"
    if "w \<in> set ?rows" "mget (st_proxies st) (w_node_id w) = Some p" for w p
    using that wf_map_mem [OF assms(1)] by (auto simp: nid l)
  ultimately show ?thesis using rows by blast
qed

theorem metrics_cover_registry_witness:
  "\<exists>rows. handleMetrics \<lparr>re_parse_float = (\<lambda>_. None), re_rfc3339 = (\<lambda>_. []), re_etag = (\<lambda>_. [])\<rparr> toy_settings toy_now
       \<lparr>r_method = ''GET'', r_query = [], r_if_none_match = [], r_remote = []\<rparr> toy_registry = Some rows \<and>
     set (map w_node_id rows) = {''P:0xab''}"
  using metrics_cover_registry [of toy_registry "\<lparr>r_method = ''GET'', r_query = [], r_if_none_match = [], r_remote = []\<rparr>"
      "\<lparr>re_parse_float = (\<lambda>_. None), re_rfc3339 = (\<lambda>_. []), re_etag = (\<lambda>_. [])\<rparr>" toy_settings toy_now]
  by (auto simp: toy_registry_def NewServer_def wf_map_def)

end
