(* ===== verification/Tunnel_Client.thy ===== *)
theory Tunnel_Client
  imports RV_Data Wire_Codec
begin

text \<open>
  The control-plane client of \<^verbatim>\<open>pkg/tunnel/isannd_client.go\<close>, through which a node talks to the
  rendezvous server: one TCP connection at a time, dialled on demand, that starts with a hello
  frame and carries the frames of one node. A call is one step of the model; the outcome of a
  dial is an argument of the call, a failing write is a failing \<^typ>\<open>writer\<close>. The client keeps, as a
  ghost, what it wrote completely on each connection.
\<close>

section \<open>State\<close>

record client_conn =
  cc_w :: writer
  cc_open :: bool
  cc_sent :: "rv_msg list"

text \<open>Callbacks are named by numbers; \<open>ic_pushed\<close> lists the calls made.\<close>

record isannd_client =
  ic_http_base :: string
  ic_control_addr :: string
  ic_hello_id :: string
  ic_hello_role :: string
  ic_conn :: "nat option"
  ic_conns :: "client_conn list"
  ic_dialing :: bool
  ic_closed :: bool
  ic_need_register :: bool
  ic_callbacks :: "(string, nat) gomap"
  ic_pushed :: "(nat \<times> rv_msg) list"

datatype client_error =
    ClientClosed | CannotSwitch string string | NoIdentity | DialFailed | HelloFailed frame_error
  | ConnNil | IdentityMismatch string string | WriteFailed frame_error | NilMessage | MissingType

text \<open>A dial fails, or gives a connection on which the given number of writes succeed.\<close>

datatype dial = Refused | Accepted "nat option"

definition NewIsanndClient :: "string \<Rightarrow> string \<Rightarrow> isannd_client" where
  "NewIsanndClient httpBase controlAddr =
     \<lparr>ic_http_base = (if httpBase = [] then ''http://127.0.0.1:8443'' else httpBase),
      ic_control_addr = (if controlAddr = [] then ''127.0.0.1:19100'' else controlAddr),
      ic_hello_id = [], ic_hello_role = [], ic_conn = None, ic_conns = [], ic_dialing = False,
      ic_closed = False, ic_need_register = False, ic_callbacks = [], ic_pushed = []\<rparr>"

definition OnPush :: "string \<Rightarrow> nat \<Rightarrow> isannd_client \<Rightarrow> isannd_client" where
  "OnPush frameType cb c = c\<lparr>ic_callbacks := mput frameType cb (ic_callbacks c)\<rparr>"


section \<open>Operations\<close>

definition close_conn :: "nat \<Rightarrow> isannd_client \<Rightarrow> isannd_client" where
  "close_conn i c = c\<lparr>ic_conns := (ic_conns c)[i := (ic_conns c ! i)\<lparr>cc_open := False\<rparr>], ic_conn := None\<rparr>"

definition drop_conn :: "isannd_client \<Rightarrow> isannd_client" where
  "drop_conn c = (case ic_conn c of None \<Rightarrow> c | Some i \<Rightarrow> close_conn i c)"

definition hello_msg :: "isannd_client \<Rightarrow> rv_msg" where
  "hello_msg c = empty_msg\<lparr>m_v := 1, m_type := TypeHello, m_id := ic_hello_id c, m_role := ic_hello_role c\<rparr>"

definition dialAndHello ::
  "(rv_msg \<Rightarrow> string option) \<Rightarrow> dial \<Rightarrow> isannd_client \<Rightarrow> client_error option \<times> isannd_client" where
  "dialAndHello marshal net c =
     (if ic_dialing c then (None, c)
      else
        let c1 = drop_conn c in
        if ic_hello_id c1 = [] then (Some NoIdentity, c1)
        else case net of
          Refused \<Rightarrow> (Some DialFailed, c1)
        | Accepted n \<Rightarrow>
            (case writeFrameTo marshal \<lparr>w_out = [], w_left = n\<rparr> (hello_msg c1) of
               (Some e, w) \<Rightarrow> (Some (HelloFailed e),
                  c1\<lparr>ic_conns := ic_conns c1 @ [\<lparr>cc_w = w, cc_open = False, cc_sent = []\<rparr>]\<rparr>)
             | (None, w) \<Rightarrow> (None,
                  c1\<lparr>ic_conns := ic_conns c1 @ [\<lparr>cc_w = w, cc_open = True, cc_sent = [hello_msg c1]\<rparr>],
                     ic_conn := Some (length (ic_conns c1))\<rparr>)))"

definition Connect ::
  "(rv_msg \<Rightarrow> string option) \<Rightarrow> dial \<Rightarrow> string \<Rightarrow> string \<Rightarrow> isannd_client \<Rightarrow> client_error option \<times> isannd_client" where
  "Connect marshal net nodeID role c =
     (if ic_closed c then (Some ClientClosed, c)
      else if ic_hello_id c \<noteq> [] \<and> ic_hello_id c \<noteq> nodeID
           then (Some (CannotSwitch (ic_hello_id c) nodeID), c)
      else
        let c1 = c\<lparr>ic_hello_id := nodeID, ic_hello_role := role\<rparr> in
        if ic_conn c1 \<noteq> None then (None, c1) else dialAndHello marshal net c1)"

definition markConnDead :: "nat \<Rightarrow> isannd_client \<Rightarrow> isannd_client" where
  "markConnDead i c = (if ic_conn c = Some i then close_conn i c else c)"

definition ensureConn ::
  "(rv_msg \<Rightarrow> string option) \<Rightarrow> dial \<Rightarrow> isannd_client \<Rightarrow> (client_error + nat) \<times> isannd_client" where
  "ensureConn marshal net c =
     (case ic_conn c of
        Some i \<Rightarrow> (Inr i, c)
      | None \<Rightarrow>
          (case dialAndHello marshal net c of
             (Some e, c1) \<Rightarrow> (Inl e, c1)
           | (None, c1) \<Rightarrow> (case ic_conn c1 of None \<Rightarrow> (Inl ConnNil, c1) | Some i \<Rightarrow> (Inr i, c1))))"

text \<open>The write itself: the connection carries the bytes, a complete frame is recorded as sent.\<close>

definition conn_write ::
  "(rv_msg \<Rightarrow> string option) \<Rightarrow> nat \<Rightarrow> rv_msg \<Rightarrow> isannd_client \<Rightarrow> client_error option \<times> isannd_client" where
  "conn_write marshal i msg c =
     (let cc = ic_conns c ! i in
      case writeFrameTo marshal (cc_w cc) msg of
        (Some e, w) \<Rightarrow> (Some (WriteFailed e), markConnDead i (c\<lparr>ic_conns := (ic_conns c)[i := cc\<lparr>cc_w := w\<rparr>]\<rparr>))
      | (None, w) \<Rightarrow> (None, c\<lparr>ic_conns := (ic_conns c)[i := cc\<lparr>cc_w := w, cc_sent := cc_sent cc @ [msg]\<rparr>]\<rparr>))"

definition writeFrame ::
  "(rv_msg \<Rightarrow> string option) \<Rightarrow> dial \<Rightarrow> rv_msg \<Rightarrow> isannd_client \<Rightarrow> client_error option \<times> isannd_client" where
  "writeFrame marshal net msg c =
     (let seed = ic_hello_id c = [] \<and> m_id msg \<noteq> [] in
      if \<not> seed \<and> m_id msg \<noteq> [] \<and> ic_hello_id c \<noteq> m_id msg
      then (Some (IdentityMismatch (ic_hello_id c) (m_id msg)), c)
      else
        let c1 = (if seed then c\<lparr>ic_hello_id := m_id msg, ic_hello_role := m_role msg\<rparr> else c) in
        case ensureConn marshal net c1 of
          (Inl e, c2) \<Rightarrow> (Some e, c2)
        | (Inr i, c2) \<Rightarrow> conn_write marshal i msg c2)"

definition SendRegister where
  "SendRegister marshal net msg c =
     (case msg of None \<Rightarrow> (Some NilMessage, c)
      | Some m \<Rightarrow> writeFrame marshal net (if m_type m = [] then m\<lparr>m_type := TypeRegister\<rparr> else m) c)"

record heartbeat_ping =
  hp_node_id :: string
  hp_role :: string
  hp_timestamp_ms :: int
  hp_signature :: string

definition ping_msg :: "heartbeat_ping \<Rightarrow> rv_msg" where
  "ping_msg p = empty_msg\<lparr>m_v := 1, m_type := TypePing, m_id := hp_node_id p, m_role := hp_role p,
                          m_timestamp_ms := hp_timestamp_ms p, m_signature := hp_signature p\<rparr>"

definition SendHeartbeat ::
  "(rv_msg \<Rightarrow> string option) \<Rightarrow> dial \<Rightarrow> heartbeat_ping option \<Rightarrow> isannd_client
    \<Rightarrow> (bool \<times> client_error option) \<times> isannd_client" where
  "SendHeartbeat marshal net ping c =
     (case ping of None \<Rightarrow> ((False, Some NilMessage), c)
      | Some p \<Rightarrow>
          (case writeFrame marshal net (ping_msg p) c of
             (Some e, c1) \<Rightarrow> ((False, Some e), c1)
           | (None, c1) \<Rightarrow> ((ic_need_register c1, None), c1\<lparr>ic_need_register := False\<rparr>)))"

record metrics_event =
  me_node_id :: string
  me_role :: string
  me_service :: service_metrics

definition SendMetrics where
  "SendMetrics marshal net evt c =
     (case evt of None \<Rightarrow> (Some NilMessage, c)
      | Some e \<Rightarrow> writeFrame marshal net
          (empty_msg\<lparr>m_v := 1, m_type := TypeServiceEvent, m_id := me_node_id e, m_role := me_role e,
                     m_metrics := Some (me_service e)\<rparr>) c)"

definition SendMetricsBatch where
  "SendMetricsBatch marshal net nodeID role batch c =
     writeFrame marshal net
       (empty_msg\<lparr>m_v := 1, m_type := TypeServiceEvent, m_id := nodeID, m_role := role, m_metrics_batch := batch\<rparr>) c"

definition SendFrame where
  "SendFrame marshal net msg c =
     (case msg of None \<Rightarrow> (Some NilMessage, c)
      | Some m \<Rightarrow> if m_type m = [] then (Some MissingType, c) else writeFrame marshal net m c)"

definition Close :: "isannd_client \<Rightarrow> isannd_client" where
  "Close c = (if ic_closed c then c else drop_conn (c\<lparr>ic_closed := True\<rparr>))"

text \<open>One turn of \<^verbatim>\<open>runReader\<close>: a frame, or the error that ends it.\<close>

definition reader_frame :: "rv_msg \<Rightarrow> isannd_client \<Rightarrow> isannd_client" where
  "reader_frame msg c =
     (if m_type msg = TypeNeedRegister then c\<lparr>ic_need_register := True\<rparr>
      else case mget (ic_callbacks c) (m_type msg) of None \<Rightarrow> c
           | Some cb \<Rightarrow> c\<lparr>ic_pushed := ic_pushed c @ [(cb, msg)]\<rparr>)"

definition runReader :: "(string \<Rightarrow> rv_msg option) \<Rightarrow> nat \<Rightarrow> string \<Rightarrow> isannd_client \<Rightarrow> string option \<times> isannd_client" where
  "runReader unmarshal i stream c =
     (case readFrameFrom unmarshal stream of
        (Inl _, _) \<Rightarrow> (None, markConnDead i c)
      | (Inr msg, rest) \<Rightarrow> (Some rest, reader_frame msg c))"

text \<open>\<^verbatim>\<open>GetTPMFingerprint\<close> on the response to its request: \<^const>\<open>None\<close> is a failed exchange.\<close>

datatype tpm_result = NoFingerprint | Fingerprint string | HTTPFailed int string | RequestFailed | DecodeFailed

definition GetTPMFingerprint :: "(string \<Rightarrow> string option) \<Rightarrow> (string \<Rightarrow> (int \<times> string) option) \<Rightarrow> isannd_client \<Rightarrow> tpm_result" where
  "GetTPMFingerprint decode http c =
     (case http (ic_http_base c @ ''/internal/api/tpm/measurement'') of
        None \<Rightarrow> RequestFailed
      | Some (status, body) \<Rightarrow>
          if status = 503 then NoFingerprint
          else if status \<noteq> 200 then HTTPFailed status body
          else (case decode body of None \<Rightarrow> DecodeFailed | Some f \<Rightarrow> Fingerprint f))"


section \<open>Runs\<close>

datatype client_op =
    OpConnect dial string string
  | OpRegister dial rv_msg
  | OpHeartbeat dial heartbeat_ping
  | OpMetrics dial metrics_event
  | OpBatch dial string string "service_metrics list"
  | OpFrame dial rv_msg
  | OpClose
  | OpPushed rv_msg
  | OpReadError nat

definition client_step :: "(rv_msg \<Rightarrow> string option) \<Rightarrow> isannd_client \<Rightarrow> client_op \<Rightarrow> isannd_client" where
  "client_step marshal c op =
     (case op of
        OpConnect net i r \<Rightarrow> snd (Connect marshal net i r c)
      | OpRegister net m \<Rightarrow> snd (SendRegister marshal net (Some m) c)
      | OpHeartbeat net p \<Rightarrow> snd (SendHeartbeat marshal net (Some p) c)
      | OpMetrics net e \<Rightarrow> snd (SendMetrics marshal net (Some e) c)
      | OpBatch net i r b \<Rightarrow> snd (SendMetricsBatch marshal net i r b c)
      | OpFrame net m \<Rightarrow> snd (SendFrame marshal net (Some m) c)
      | OpClose \<Rightarrow> Close c
      | OpPushed m \<Rightarrow> reader_frame m c
      | OpReadError i \<Rightarrow> markConnDead i c)"


section \<open>The invariant\<close>

definition sent_bytes :: "(rv_msg \<Rightarrow> string option) \<Rightarrow> rv_msg list \<Rightarrow> string" where
  "sent_bytes marshal ms = concat (map (\<lambda>m. frame_bytes (the (marshal m))) ms)"

text \<open>What a failed write leaves behind: nothing or the length of a frame.\<close>

definition stray_header :: "string \<Rightarrow> bool" where
  "stray_header t \<longleftrightarrow> t = [] \<or> (\<exists>n \<le> frameMaxSize. t = put_uint32 n)"

definition own_frames :: "string \<Rightarrow> rv_msg list \<Rightarrow> bool" where
  "own_frames i ms \<longleftrightarrow>
     (case ms of [] \<Rightarrow> True
      | h # rest \<Rightarrow> m_type h = TypeHello \<and> m_id h = i \<and> (\<forall>m\<in>set rest. m_id m = [] \<or> m_id m = i))"

definition conn_ok :: "(rv_msg \<Rightarrow> string option) \<Rightarrow> string \<Rightarrow> client_conn \<Rightarrow> bool" where
  "conn_ok marshal i cc \<longleftrightarrow>
     (\<forall>m\<in>set (cc_sent cc). \<exists>d. marshal m = Some d \<and> length d \<le> frameMaxSize)
     \<and> (\<exists>t. w_out (cc_w cc) = sent_bytes marshal (cc_sent cc) @ t \<and> stray_header t \<and> (cc_open cc \<longrightarrow> t = []))
     \<and> (cc_open cc \<longrightarrow> cc_sent cc \<noteq> []) \<and> own_frames i (cc_sent cc)"

definition client_inv :: "(rv_msg \<Rightarrow> string option) \<Rightarrow> isannd_client \<Rightarrow> bool" where
  "client_inv marshal c \<longleftrightarrow>
     (\<forall>cc\<in>set (ic_conns c). conn_ok marshal (ic_hello_id c) cc)
     \<and> (\<forall>i < length (ic_conns c). cc_open (ic_conns c ! i) \<longleftrightarrow> ic_conn c = Some i)
     \<and> (\<forall>i. ic_conn c = Some i \<longrightarrow> i < length (ic_conns c))
     \<and> (ic_hello_id c = [] \<longrightarrow> ic_conns c = [])"

lemma writeFrameTo_done:
  "writeFrameTo marshal w m = (None, w') \<Longrightarrow>
     \<exists>d. marshal m = Some d \<and> length d \<le> frameMaxSize \<and> w_out w' = w_out w @ frame_bytes d"
  by (auto simp: writeFrameTo_def do_write_def frame_bytes_def
      split: option.splits nat.splits prod.splits if_splits)

lemma writeFrameTo_failed:
  "writeFrameTo marshal w m = (Some e, w') \<Longrightarrow> \<exists>t. w_out w' = w_out w @ t \<and> stray_header t"
  by (auto simp: writeFrameTo_def do_write_def stray_header_def not_less
      split: option.splits nat.splits prod.splits if_splits)

lemma client_inv_same:
  assumes "client_inv marshal c" "ic_conns c' = ic_conns c" "ic_conn c' = ic_conn c"
    "ic_hello_id c' = ic_hello_id c \<or> ic_hello_id c = []"
  shows "client_inv marshal c'"
  using assms by (auto simp: client_inv_def)

lemma conn_ok_close: "conn_ok marshal i cc \<Longrightarrow> conn_ok marshal i (cc\<lparr>cc_open := False\<rparr>)"
  by (auto simp: conn_ok_def)

lemma client_inv_close:
  assumes "client_inv marshal c" "ic_conn c = Some i"
  shows "client_inv marshal (close_conn i c)"
proof -
  have i: "i < length (ic_conns c)" using assms by (simp add: client_inv_def)
  then have "conn_ok marshal (ic_hello_id c) (ic_conns c ! i)" using assms(1) by (simp add: client_inv_def)
  then have "\<forall>cc\<in>set ((ic_conns c)[i := (ic_conns c ! i)\<lparr>cc_open := False\<rparr>]). conn_ok marshal (ic_hello_id c) cc"
    using assms(1) conn_ok_close set_update_subset_insert [of "ic_conns c" i] by (fastforce simp: client_inv_def)
  then show ?thesis using assms i by (auto simp: client_inv_def close_conn_def nth_list_update)
qed

lemma close_conn_sel [simp]:
  "ic_hello_id (close_conn i c) = ic_hello_id c" "ic_conn (close_conn i c) = None"
  "ic_closed (close_conn i c) = ic_closed c" "ic_need_register (close_conn i c) = ic_need_register c"
  "ic_hello_role (close_conn i c) = ic_hello_role c" "length (ic_conns (close_conn i c)) = length (ic_conns c)"
  by (simp_all add: close_conn_def)

lemma client_inv_drop: "client_inv marshal c \<Longrightarrow> client_inv marshal (drop_conn c)"
  by (simp add: drop_conn_def client_inv_close split: option.split)

lemma drop_conn_sel [simp]:
  "ic_hello_id (drop_conn c) = ic_hello_id c" "ic_conn (drop_conn c) = None"
  "ic_need_register (drop_conn c) = ic_need_register c" "ic_closed (drop_conn c) = ic_closed c"
  by (simp_all add: drop_conn_def split: option.split)

lemma client_inv_dead: "client_inv marshal c \<Longrightarrow> client_inv marshal (markConnDead i c)"
  by (simp add: markConnDead_def client_inv_close)

text \<open>A new connection, open or given up.\<close>

lemma client_inv_add:
  assumes "client_inv marshal c" "ic_conn c = None" "ic_hello_id c \<noteq> []" "conn_ok marshal (ic_hello_id c) cc"
  shows "client_inv marshal (c\<lparr>ic_conns := ic_conns c @ [cc],
           ic_conn := (if cc_open cc then Some (length (ic_conns c)) else None)\<rparr>)"
  using assms by (auto simp: client_inv_def nth_append less_Suc_eq)

lemma client_inv_dial:
  assumes "client_inv marshal c"
  shows "client_inv marshal (snd (dialAndHello marshal net c))
       \<and> ic_hello_id (snd (dialAndHello marshal net c)) = ic_hello_id c
       \<and> ic_need_register (snd (dialAndHello marshal net c)) = ic_need_register c
       \<and> ic_closed (snd (dialAndHello marshal net c)) = ic_closed c"
proof (cases net)
  case Refused
  then show ?thesis using assms client_inv_drop by (simp add: dialAndHello_def Let_def)
next
  case (Accepted n)
  define c1 where "c1 = drop_conn c"
  have c1: "client_inv marshal c1" "ic_conn c1 = None" using assms client_inv_drop by (simp_all add: c1_def)
  obtain r w where w: "writeFrameTo marshal \<lparr>w_out = [], w_left = n\<rparr> (hello_msg c1) = (r, w)" by fastforce
  have failed: "client_inv marshal (c1\<lparr>ic_conns := ic_conns c1 @ [\<lparr>cc_w = w, cc_open = False, cc_sent = []\<rparr>]\<rparr>)"
    if "ic_hello_id c1 \<noteq> []" "r = Some e" for e
  proof -
    have "conn_ok marshal (ic_hello_id c1) \<lparr>cc_w = w, cc_open = False, cc_sent = []\<rparr>"
      using writeFrameTo_failed [of marshal "\<lparr>w_out = [], w_left = n\<rparr>" "hello_msg c1" e w] w that(2)
      by (auto simp: conn_ok_def sent_bytes_def own_frames_def)
    from client_inv_add [OF c1 that(1) this] show ?thesis using c1(2) by (simp add: client_inv_def)
  qed
  have wrote: "client_inv marshal (c1\<lparr>ic_conns := ic_conns c1 @ [\<lparr>cc_w = w, cc_open = True, cc_sent = [hello_msg c1]\<rparr>],
      ic_conn := Some (length (ic_conns c1))\<rparr>)" if "ic_hello_id c1 \<noteq> []" "r = None"
  proof -
    have "conn_ok marshal (ic_hello_id c1) \<lparr>cc_w = w, cc_open = True, cc_sent = [hello_msg c1]\<rparr>"
      using writeFrameTo_done [of marshal _ "hello_msg c1" w] w that(2)
      by (fastforce simp: conn_ok_def sent_bytes_def own_frames_def stray_header_def hello_msg_def)
    from client_inv_add [OF c1 that(1) this] show ?thesis by simp
  qed
  show ?thesis
    using assms c1 failed wrote w Accepted
    by (auto simp: dialAndHello_def Let_def c1_def split: option.split)
qed

lemma client_inv_ensure:
  assumes "client_inv marshal c" "ensureConn marshal net c = (r, c')"
  shows "client_inv marshal c' \<and> ic_hello_id c' = ic_hello_id c \<and> ic_need_register c' = ic_need_register c
       \<and> ic_closed c' = ic_closed c \<and> (\<forall>i. r = Inr i \<longrightarrow> ic_conn c' = Some i)"
  using assms client_inv_dial [OF assms(1), of net]
  by (auto simp: ensureConn_def split: option.splits prod.splits)

lemma client_inv_update:
  assumes inv: "client_inv marshal c" and i: "ic_conn c = Some i" and ok: "conn_ok marshal (ic_hello_id c) cc"
  shows "client_inv marshal (c\<lparr>ic_conns := (ic_conns c)[i := cc], ic_conn := (if cc_open cc then Some i else None)\<rparr>)"
proof -
  have len: "i < length (ic_conns c)" and hello: "ic_hello_id c \<noteq> []" using inv i by (auto simp: client_inv_def)
  have 1: "\<forall>x\<in>set ((ic_conns c)[i := cc]). conn_ok marshal (ic_hello_id c) x"
    using inv ok set_update_subset_insert [of "ic_conns c" i cc] by (fastforce simp: client_inv_def)
  have 2: "cc_open ((ic_conns c)[i := cc] ! j) \<longleftrightarrow> (if cc_open cc then Some i else None) = Some j"
    if j: "j < length (ic_conns c)" for j
  proof (cases "j = i")
    case True
    with len show ?thesis by simp
  next
    case False
    have "cc_open (ic_conns c ! j) \<longleftrightarrow> ic_conn c = Some j" using inv j by (simp add: client_inv_def)
    with False i show ?thesis by simp
  qed
  show ?thesis unfolding client_inv_def using 1 2 len hello by auto
qed

lemma client_inv_write:
  assumes inv: "client_inv marshal c" and i: "ic_conn c = Some i" and m: "m_id m = [] \<or> m_id m = ic_hello_id c"
  shows "client_inv marshal (snd (conn_write marshal i m c))"
proof -
  define cc where "cc = ic_conns c ! i"
  have len: "i < length (ic_conns c)" and open_cc: "cc_open cc" using inv i by (auto simp: client_inv_def cc_def)
  have ok: "conn_ok marshal (ic_hello_id c) cc" using inv len by (simp add: client_inv_def cc_def)
  obtain r w where w: "writeFrameTo marshal (cc_w cc) m = (r, w)" by fastforce
  note upd = client_inv_update [OF inv i]
  show ?thesis
  proof (cases r)
    case None
    then obtain d where "marshal m = Some d" "length d \<le> frameMaxSize" "w_out w = w_out (cc_w cc) @ frame_bytes d"
      using writeFrameTo_done [of marshal "cc_w cc" m w] w by auto
    then have "conn_ok marshal (ic_hello_id c) (cc\<lparr>cc_w := w, cc_sent := cc_sent cc @ [m]\<rparr>)"
      using ok open_cc m by (auto simp: conn_ok_def sent_bytes_def own_frames_def split: list.splits)
    from upd [OF this] show ?thesis using None w i open_cc
      by (simp add: conn_write_def cc_def [symmetric] client_inv_def)
  next
    case (Some e)
    then obtain t where "w_out w = w_out (cc_w cc) @ t" "stray_header t"
      using writeFrameTo_failed [of marshal "cc_w cc" m e w] w by auto
    then have "conn_ok marshal (ic_hello_id c) (cc\<lparr>cc_w := w, cc_open := False\<rparr>)"
      using ok open_cc by (auto simp: conn_ok_def)
    from upd [OF this] show ?thesis using Some w i len
      by (simp add: conn_write_def cc_def [symmetric] markConnDead_def close_conn_def client_inv_def)
  qed
qed

lemma conn_write_sel:
  "ic_hello_id (snd (conn_write marshal i m c)) = ic_hello_id c"
  "ic_need_register (snd (conn_write marshal i m c)) = ic_need_register c"
  "ic_closed (snd (conn_write marshal i m c)) = ic_closed c"
  by (simp_all add: conn_write_def Let_def markConnDead_def split: prod.split option.split)

lemma writeFrame_effect:
  assumes "client_inv marshal c"
  shows "client_inv marshal (snd (writeFrame marshal net m c))
       \<and> (ic_hello_id c \<noteq> [] \<longrightarrow> ic_hello_id (snd (writeFrame marshal net m c)) = ic_hello_id c)
       \<and> ic_need_register (snd (writeFrame marshal net m c)) = ic_need_register c"
proof (cases "m_id m \<noteq> [] \<and> ic_hello_id c \<noteq> [] \<and> ic_hello_id c \<noteq> m_id m")
  case True
  then show ?thesis using assms by (simp add: writeFrame_def)
next
  case False
  define c1 where "c1 = (if ic_hello_id c = [] \<and> m_id m \<noteq> []
      then c\<lparr>ic_hello_id := m_id m, ic_hello_role := m_role m\<rparr> else c)"
  have c1: "client_inv marshal c1" "ic_need_register c1 = ic_need_register c"
    "ic_hello_id c \<noteq> [] \<longrightarrow> ic_hello_id c1 = ic_hello_id c" "m_id m = [] \<or> m_id m = ic_hello_id c1"
    using False assms client_inv_same [OF assms, of c1] by (auto simp: c1_def)
  obtain r c2 where r: "ensureConn marshal net c1 = (r, c2)" by fastforce
  note c2 = client_inv_ensure [OF c1(1) r]
  have w: "writeFrame marshal net m c = (case r of Inl e \<Rightarrow> (Some e, c2) | Inr i \<Rightarrow> conn_write marshal i m c2)"
    using False r by (auto simp: writeFrame_def Let_def c1_def split: sum.split)
  show ?thesis
  proof (cases r)
    case (Inr i)
    then show ?thesis using w c1 c2 client_inv_write [of marshal c2 i m] by (auto simp: conn_write_sel)
  qed (use w c1 c2 in simp)
qed

lemma connect_effect:
  assumes "client_inv marshal c"
  shows "client_inv marshal (snd (Connect marshal net i r c))
       \<and> (ic_hello_id c \<noteq> [] \<longrightarrow> ic_hello_id (snd (Connect marshal net i r c)) = ic_hello_id c)
       \<and> ic_need_register (snd (Connect marshal net i r c)) = ic_need_register c"
proof (cases "ic_closed c \<or> ic_hello_id c \<noteq> [] \<and> ic_hello_id c \<noteq> i")
  case True
  then show ?thesis using assms by (auto simp: Connect_def)
next
  case False
  define c1 where "c1 = c\<lparr>ic_hello_id := i, ic_hello_role := r\<rparr>"
  have "client_inv marshal c1" using False client_inv_same [OF assms, of c1] by (auto simp: c1_def)
  with client_inv_dial [OF this, of net] show ?thesis
    using False by (auto simp: Connect_def Let_def c1_def)
qed

lemma heartbeat_effect:
  assumes "client_inv marshal c" "SendHeartbeat marshal net p c = ((b, r), c')"
  shows "client_inv marshal c' \<and> (ic_hello_id c \<noteq> [] \<longrightarrow> ic_hello_id c' = ic_hello_id c)
       \<and> (if r = None then b = ic_need_register c \<and> \<not> ic_need_register c'
          else \<not> b \<and> ic_need_register c' = ic_need_register c)"
proof (cases p)
  case (Some hp)
  obtain e c1 where w: "writeFrame marshal net (ping_msg hp) c = (e, c1)" by fastforce
  from writeFrame_effect [OF assms(1), of net "ping_msg hp"] have "client_inv marshal c1"
    "ic_hello_id c \<noteq> [] \<longrightarrow> ic_hello_id c1 = ic_hello_id c" "ic_need_register c1 = ic_need_register c"
    by (simp_all add: w)
  then show ?thesis using assms(2) Some w
    by (auto simp: SendHeartbeat_def client_inv_def split: option.splits)
qed (use assms in \<open>auto simp: SendHeartbeat_def\<close>)

lemma step_effect:
  assumes "client_inv marshal c"
  shows "client_inv marshal (client_step marshal c op)
       \<and> (ic_hello_id c \<noteq> [] \<longrightarrow> ic_hello_id (client_step marshal c op) = ic_hello_id c)"
proof (cases op)
  case (OpHeartbeat net p)
  obtain b r c' where "SendHeartbeat marshal net (Some p) c = ((b, r), c')" by (metis surj_pair)
  with heartbeat_effect [OF assms this] show ?thesis by (simp add: OpHeartbeat client_step_def)
next
  case OpClose
  have "client_inv marshal (c\<lparr>ic_closed := True\<rparr>)" using assms by (rule client_inv_same) simp_all
  then show ?thesis using assms client_inv_drop by (simp add: OpClose client_step_def Close_def)
next
  case (OpPushed m)
  then show ?thesis using client_inv_same [OF assms]
    by (simp add: client_step_def reader_frame_def split: option.split)
qed (use assms writeFrame_effect connect_effect client_inv_dead in
    \<open>auto simp: client_step_def SendRegister_def SendMetrics_def SendMetricsBatch_def SendFrame_def markConnDead_def\<close>)

lemma client_inv_new: "client_inv marshal (NewIsanndClient httpBase addr)"
  by (simp add: client_inv_def NewIsanndClient_def)

interpretation isannd: stepped "NewIsanndClient httpBase addr" "client_step marshal" "client_inv marshal"
  for httpBase addr marshal
  by unfold_locales (use client_inv_new step_effect in auto)

lemma hello_id_pinned:
  "client_inv marshal c \<Longrightarrow> ic_hello_id c \<noteq> [] \<Longrightarrow> ic_hello_id (foldl (client_step marshal) c ops) = ic_hello_id c"
proof (induction ops arbitrary: c)
  case (Cons op ops)
  then show ?case using step_effect [of marshal c op] by simp
qed simp


section \<open>Properties\<close>

text \<open>Encoded messages are non-empty texts that decode to a message of the same type and id.\<close>

definition codec_ok :: "(rv_msg \<Rightarrow> string option) \<Rightarrow> (string \<Rightarrow> rv_msg option) \<Rightarrow> bool" where
  "codec_ok marshal unmarshal \<longleftrightarrow>
     (\<forall>m d. marshal m = Some d \<longrightarrow> d \<noteq> [] \<and> (\<exists>m'. unmarshal d = Some m' \<and> m_type m' = m_type m \<and> m_id m' = m_id m))"

lemma read_stray: "stray_header t \<Longrightarrow> \<exists>e r. ReadFrame unmarshal t = (Inl e, r)"
proof -
  assume "stray_header t"
  then consider "t = []" | n where "n \<le> 2 ^ 20" "t = put_uint32 n"
    by (auto simp: stray_header_def frameMaxSize_def)
  then show ?thesis
  proof cases
    case 2
    then have "be_value t = n" "length t = 4" using get_put_uint32 [of n] by simp_all
    then show ?thesis by (simp add: ReadFrame_def read_full_def Let_def maxFrameSize_def)
  qed (simp add: ReadFrame_def read_full_def)
qed

lemma read_sent:
  assumes "codec_ok marshal unmarshal" "\<forall>m\<in>set ms. \<exists>d. marshal m = Some d \<and> length d \<le> frameMaxSize"
    "stray_header t" "length ms < fuel"
  shows "fst (read_stream unmarshal fuel (sent_bytes marshal ms @ t)) = map (\<lambda>m. the (unmarshal (the (marshal m)))) ms"
  using assms(2,4)
proof (induction ms arbitrary: fuel)
  case Nil
  obtain f e r where "fuel = Suc f" "ReadFrame unmarshal t = (Inl e, r)"
    using Nil read_stray [OF assms(3), of unmarshal] by (cases fuel) auto
  then show ?case by (simp add: sent_bytes_def)
next
  case (Cons m ms)
  obtain f where f: "fuel = Suc f" "length ms < f" using Cons.prems(2) by (cases fuel) auto
  obtain d where d: "marshal m = Some d" "length d \<le> maxFrameSize"
    using Cons.prems(1) by (auto simp: frameMaxSize_def maxFrameSize_def)
  with assms(1) obtain m' where m': "d \<noteq> []" "unmarshal d = Some m'" by (auto simp: codec_ok_def)
  have "ReadFrame unmarshal (frame_bytes d @ sent_bytes marshal ms @ t) = (Inr m', sent_bytes marshal ms @ t)"
    using d m' by (intro ReadFrame_bytes) (auto simp: frame_ok_def)
  then show ?case using Cons f d m' by (simp add: sent_bytes_def case_prod_beta)
qed

lemma own_frames_decode:
  assumes "codec_ok marshal unmarshal" "\<forall>m\<in>set ms. \<exists>d. marshal m = Some d \<and> length d \<le> frameMaxSize" "own_frames i ms"
  shows "own_frames i (map (\<lambda>m. the (unmarshal (the (marshal m)))) ms)"
proof -
  have "m_type (the (unmarshal (the (marshal m)))) = m_type m \<and> m_id (the (unmarshal (the (marshal m)))) = m_id m"
    if "m \<in> set ms" for m
    using assms(1,2) that by (fastforce simp: codec_ok_def)
  then show ?thesis using assms(3) by (auto simp: own_frames_def split: list.splits)
qed


definition toy_marshal :: "rv_msg \<Rightarrow> string option" where
  "toy_marshal m = (if CHR '':'' \<in> set (m_type m) then None else Some (m_type m @ CHR '':'' # m_id m))"

definition toy_unmarshal :: "string \<Rightarrow> rv_msg option" where
  "toy_unmarshal s = (case cut s CHR '':'' of (t, i, ok) \<Rightarrow>
     if ok then Some (empty_msg\<lparr>m_type := t, m_id := i\<rparr>) else None)"

lemma toy_codec_ok: "codec_ok toy_marshal toy_unmarshal"
  by (auto simp: codec_ok_def toy_marshal_def toy_unmarshal_def cut_def index_byte_append split: if_splits)

definition toy_ops :: "client_op list" where
  "toy_ops = [OpFrame Refused (empty_msg\<lparr>m_type := ''ping'', m_id := ''n''\<rparr>), OpConnect (Accepted (Some 3)) ''n'' ''r'',
     OpFrame Refused (empty_msg\<lparr>m_type := ''ping'', m_id := ''n''\<rparr>)]"


fun unreported :: "(rv_msg \<Rightarrow> string option) \<Rightarrow> isannd_client \<Rightarrow> client_op list \<Rightarrow> bool" where
  "unreported marshal c [] = True"
| "unreported marshal c (op # ops) =
     ((case op of OpHeartbeat net p \<Rightarrow> snd (fst (SendHeartbeat marshal net (Some p) c)) \<noteq> None | _ \<Rightarrow> True)
      \<and> unreported marshal (client_step marshal c op) ops)"

lemma need_register_kept:
  assumes "client_inv marshal c" "ic_need_register c" "unreported marshal c [op]"
  shows "ic_need_register (client_step marshal c op)"
proof (cases op)
  case (OpHeartbeat net p)
  obtain b r c' where "SendHeartbeat marshal net (Some p) c = ((b, r), c')" by (metis surj_pair)
  with heartbeat_effect [OF assms(1) this] assms show ?thesis by (simp add: OpHeartbeat client_step_def split: if_splits)
next
  case (OpPushed m)
  then show ?thesis using assms(2) by (simp add: client_step_def reader_frame_def split: option.split)
qed (use assms writeFrame_effect connect_effect in
    \<open>auto simp: client_step_def SendRegister_def SendMetrics_def SendMetricsBatch_def SendFrame_def markConnDead_def Close_def\<close>)

lemma need_register_run:
  "client_inv marshal c \<Longrightarrow> ic_need_register c \<Longrightarrow> unreported marshal c ops
   \<Longrightarrow> ic_need_register (foldl (client_step marshal) c ops)"
proof (induction ops arbitrary: c)
  case (Cons op ops)
  then show ?case using need_register_kept [of marshal c op] step_effect [of marshal c op] by simp
qed simp

text \<open>A request of the server to register again is not lost: it is reported by the next heartbeat that
  is sent, whatever is called in between, and only by that one.\<close>

theorem need_register_reported_once:
  assumes "c = foldl (client_step marshal) (NewIsanndClient httpBase addr) (ops @ [OpPushed m] @ ops')"
    "m_type m = TypeNeedRegister"
    "unreported marshal (foldl (client_step marshal) (NewIsanndClient httpBase addr) (ops @ [OpPushed m])) ops'"
    "SendHeartbeat marshal net (Some p) c = ((b, None), c')"
  shows "b \<and> (\<forall>net p b' r c''. SendHeartbeat marshal net (Some p) c' = ((b', r), c'') \<longrightarrow> \<not> b')"
proof -
  define c1 where "c1 = foldl (client_step marshal) (NewIsanndClient httpBase addr) (ops @ [OpPushed m])"
  have 1: "client_inv marshal c1" unfolding c1_def by (rule isannd.inv_run)
  have "ic_need_register c1" by (simp add: c1_def client_step_def reader_frame_def assms(2))
  then have "ic_need_register c" using need_register_run [OF 1] assms(1,3) by (simp add: c1_def)
  moreover have "client_inv marshal c" unfolding assms(1) by (rule isannd.inv_run)
  ultimately have b: "b" "client_inv marshal c'" "\<not> ic_need_register c'"
    using heartbeat_effect [OF _ assms(4)] by auto
  have "\<not> b'" if "SendHeartbeat marshal net (Some p) c' = ((b', r), c'')" for net p b' r c''
    using heartbeat_effect [OF b(2) that] b(3) by (auto split: if_splits)
  with b(1) show ?thesis by blast
qed

definition toy_ping :: heartbeat_ping where
  "toy_ping = \<lparr>hp_node_id = ''n'', hp_role = ''r'', hp_timestamp_ms = 0, hp_signature = []\<rparr>"

theorem need_register_reported_once_witness:
  "\<exists>c'. SendHeartbeat toy_marshal (Accepted None) (Some toy_ping)
     (foldl (client_step toy_marshal) (NewIsanndClient [] []) [OpPushed (empty_msg\<lparr>m_type := TypeNeedRegister\<rparr>), OpHeartbeat Refused toy_ping])
       = ((True, None), c')"
proof -
  let ?m = "empty_msg\<lparr>m_type := TypeNeedRegister\<rparr>"
  let ?c1 = "foldl (client_step toy_marshal) (NewIsanndClient [] []) ([] @ [OpPushed ?m])"
  let ?c = "foldl (client_step toy_marshal) (NewIsanndClient [] []) ([] @ [OpPushed ?m] @ [OpHeartbeat Refused toy_ping])"
  note defs = client_step_def NewIsanndClient_def writeFrame_def ensureConn_def dialAndHello_def drop_conn_def Let_def
    hello_msg_def toy_marshal_def writeFrameTo_def do_write_def empty_msg_def frameMaxSize_def conn_write_def
    SendHeartbeat_def reader_frame_def toy_ping_def ping_msg_def
  have u: "unreported toy_marshal ?c1 [OpHeartbeat Refused toy_ping]" by (simp add: defs)
  obtain b c' where h: "SendHeartbeat toy_marshal (Accepted None) (Some toy_ping) ?c = ((b, None), c')"
    by (simp add: defs)
  have "m_type ?m = TypeNeedRegister" by simp
  from need_register_reported_once [OF refl this u h] h show ?thesis by auto
qed

text \<open>Closing a client does not stop it: the next frame opens a connection that a second \<^verbatim>\<open>Close\<close> leaves open.\<close>

theorem send_after_close_reopens:
  assumes "\<not> ic_dialing c" "ic_hello_id c \<noteq> []" "m_id m = ic_hello_id c" "m_type m \<noteq> []"
    "marshal (hello_msg c) = Some d1" "length d1 \<le> frameMaxSize" "marshal m = Some d2" "length d2 \<le> frameMaxSize"
    "\<not> ic_closed c" "ic_conn c = None"
    "SendFrame marshal (Accepted None) (Some m) (Close c) = (r, c')"
  shows "r = None \<and> ic_conn (Close c') \<noteq> None"
proof -
  have "Close c = c\<lparr>ic_closed := True\<rparr>" using assms by (simp add: Close_def drop_conn_def)
  moreover have "hello_msg (c\<lparr>ic_closed := True\<rparr>) = hello_msg c" by (simp add: hello_msg_def)
  ultimately show ?thesis using assms
    by (auto simp: SendFrame_def writeFrame_def ensureConn_def dialAndHello_def drop_conn_def Let_def
        writeFrameTo_def do_write_def conn_write_def Close_def)
qed

theorem send_after_close_reopens_witness:
  "\<exists>c'. SendFrame toy_marshal (Accepted None) (Some (empty_msg\<lparr>m_type := ''x'', m_id := ''n''\<rparr>))
       (Close ((NewIsanndClient [] [])\<lparr>ic_hello_id := ''n''\<rparr>)) = (None, c') \<and> ic_conn (Close c') \<noteq> None"
proof -
  let ?c = "(NewIsanndClient [] [])\<lparr>ic_hello_id := ''n''\<rparr>" and ?m = "empty_msg\<lparr>m_type := ''x'', m_id := ''n''\<rparr>"
  obtain r c' where s: "SendFrame toy_marshal (Accepted None) (Some ?m) (Close ?c) = (r, c')" by fastforce
  have "\<not> ic_dialing ?c" "ic_hello_id ?c \<noteq> []" "m_id ?m = ic_hello_id ?c" "m_type ?m \<noteq> []"
    "toy_marshal (hello_msg ?c) = Some ''hello:n''" "length ''hello:n'' \<le> frameMaxSize"
    "toy_marshal ?m = Some ''x:n''" "length ''x:n'' \<le> frameMaxSize" "\<not> ic_closed ?c" "ic_conn ?c = None"
    by (simp_all add: NewIsanndClient_def toy_marshal_def hello_msg_def empty_msg_def frameMaxSize_def)
  from send_after_close_reopens [OF this s] s show ?thesis by auto
qed

end
