(* ===== verification/Control_Link.thy ===== *)
theory Control_Link
  imports RV_Registry Tunnel_Client
begin

text \<open>
  The two ends of the control plane put together. On the server side, \<^verbatim>\<open>handleControlConn\<close> of
  \<^verbatim>\<open>pkg/rendezvous/control_tcp.go\<close> on the bytes of a connection, alone (\<open>handleControlConn\<close>) and as one of many
  goroutines whose frames interleave (\<open>net_step\<close>); on the client side, the reader goroutine of
  \<^verbatim>\<open>pkg/tunnel/isannd_client.go\<close> on the bytes the server pushed. Time is an argument: \<open>clock n\<close> is what the
  server's clock shows when it handles the \<open>n\<close>-th frame of a connection.
\<close>

section \<open>The frames of a byte stream\<close>

function frames_of :: "(string \<Rightarrow> 'm option) \<Rightarrow> string \<Rightarrow> 'm list" where
  "frames_of unmarshal r = (case ReadFrame unmarshal r of (Inl _, _) \<Rightarrow> [] | (Inr m, r') \<Rightarrow> m # frames_of unmarshal r')"
  by pat_completeness auto
termination
  by (relation "measure (\<lambda>(u, r). length r)") (auto dest: ReadFrame_consumes [OF sym])

declare frames_of.simps [simp del]

lemma frames_of_error: "ReadFrame unmarshal r = (Inl e, r') \<Longrightarrow> frames_of unmarshal r = []"
  by (subst frames_of.simps) simp

lemma frames_of_frame: "ReadFrame unmarshal r = (Inr m, r') \<Longrightarrow> frames_of unmarshal r = m # frames_of unmarshal r'"
  by (subst frames_of.simps) simp

text \<open>It is what the bounded reader gives with fuel for every frame.\<close>

lemma read_stream_frames_of: "length r < fuel \<Longrightarrow> fst (read_stream unmarshal fuel r) = frames_of unmarshal r"
proof (induction fuel arbitrary: r)
  case (Suc fuel)
  show ?case
  proof (cases "ReadFrame unmarshal r")
    case (Pair res r')
    then show ?thesis using Suc ReadFrame_consumes [OF Pair]
      by (cases res) (auto simp: frames_of_error frames_of_frame case_prod_beta)
  qed
qed simp

lemma frames_of_cons:
  "frame_ok d \<Longrightarrow> unmarshal d = Some m \<Longrightarrow> frames_of unmarshal (frame_bytes d @ rest) = m # frames_of unmarshal rest"
  by (rule frames_of_frame) (rule ReadFrame_bytes)

lemma frames_of_Nil [simp]: "frames_of unmarshal [] = []"
  by (rule frames_of_error) (simp add: ReadFrame_def read_full_def)


section \<open>One connection\<close>

definition hello_conn :: "time \<Rightarrow> nat \<Rightarrow> net_addr \<Rightarrow> rv_msg \<Rightarrow> control_conn" where
  "hello_conn now conn remote first =
     \<lparr>cc_conn = conn, cc_node_id = m_id first, cc_role = m_role first, cc_connected_at = now, cc_remote = remote\<rparr>"

definition good_hello :: "rv_msg \<Rightarrow> bool" where
  "good_hello first \<longleftrightarrow> m_type first = TypeHello \<and> m_id first \<noteq> []"

function control_loop ::
  "('sk, 'pub) rv_env \<Rightarrow> rv_settings \<Rightarrow> (string \<Rightarrow> rv_msg option) \<Rightarrow> (nat \<Rightarrow> time) \<Rightarrow> nat \<Rightarrow> control_conn \<Rightarrow> string
     \<Rightarrow> rv_state \<Rightarrow> rv_state" where
  "control_loop V S unmarshal clock n cc r st =
     (case ReadFrame unmarshal r of
        (Inl _, _) \<Rightarrow> controlEnd (cc_conn cc) st
      | (Inr msg, r') \<Rightarrow> control_loop V S unmarshal clock (Suc n) cc r' (handleFrame V S (clock n) cc msg st))"
  by pat_completeness auto
termination
  by (relation "measure (\<lambda>(V, S, u, t, n, cc, r, st). length r)") (auto dest: ReadFrame_consumes [OF sym])

declare control_loop.simps [simp del]

definition handleControlConn ::
  "('sk, 'pub) rv_env \<Rightarrow> rv_settings \<Rightarrow> (string \<Rightarrow> rv_msg option) \<Rightarrow> (nat \<Rightarrow> time) \<Rightarrow> nat \<Rightarrow> net_addr \<Rightarrow> string
     \<Rightarrow> rv_state \<Rightarrow> rv_state" where
  "handleControlConn V S unmarshal clock conn remote bytes st =
     (case ReadFrame unmarshal bytes of
        (Inl _, _) \<Rightarrow> st\<lparr>st_closed := conn # st_closed st\<rparr>
      | (Inr first, r) \<Rightarrow>
          if good_hello first
          then control_loop V S unmarshal clock 1 (hello_conn (clock 0) conn remote first) r
                 (controlHello (clock 0) conn remote first st)
          else controlHello (clock 0) conn remote first st)"

text \<open>The events of a connection that carries the frames \<open>ms\<close>.\<close>

definition frame_events :: "(nat \<Rightarrow> time) \<Rightarrow> nat \<Rightarrow> nat \<Rightarrow> rv_msg list \<Rightarrow> (time \<times> rv_event) list" where
  "frame_events clock n conn ms = map (\<lambda>(i, m). (clock i, Frame conn m)) (enumerate n ms) @ [(clock (n + length ms), End conn)]"

definition conn_events :: "(nat \<Rightarrow> time) \<Rightarrow> nat \<Rightarrow> net_addr \<Rightarrow> rv_msg list \<Rightarrow> (time \<times> rv_event) list" where
  "conn_events clock conn remote ms =
     (case ms of [] \<Rightarrow> [(clock 0, Hello conn remote empty_msg)]
      | first # rest \<Rightarrow> (clock 0, Hello conn remote first) # frame_events clock 1 conn rest)"

lemma frame_events_simps [simp]:
  "frame_events clock n conn [] = [(clock n, End conn)]"
  "frame_events clock n conn (m # ms) = (clock n, Frame conn m) # frame_events clock (Suc n) conn ms"
  by (simp_all add: frame_events_def)

lemma handleFrame_handlers [simp]: "st_handlers (handleFrame V S now cc msg st) = st_handlers st"
  using only_own_frame [of cc st V S now msg] by (simp add: only_own_def)

lemma hello_handler:
  "good_hello first \<Longrightarrow> mget (st_handlers (controlHello now conn remote first st)) conn = Some (hello_conn now conn remote first)"
  by (simp add: controlHello_def good_hello_def hello_conn_def Let_def mget_put)

lemma bad_hello:
  "\<not> good_hello first \<Longrightarrow> controlHello now conn remote first st = st\<lparr>st_closed := conn # st_closed st\<rparr>"
  by (auto simp: controlHello_def good_hello_def)

lemma bad_empty [simp]: "\<not> good_hello empty_msg"
  by (simp add: good_hello_def empty_msg_def)

lemma control_loop_events:
  assumes "mget (st_handlers st) (cc_conn cc) = Some cc"
  shows "control_loop V S unmarshal clock n cc r st =
     foldl (rv_step V S) st (frame_events clock n (cc_conn cc) (frames_of unmarshal r))"
  using assms
proof (induction V S unmarshal clock n cc r st rule: control_loop.induct)
  case (1 V S unmarshal clock n cc r st)
  show ?case
  proof (cases "ReadFrame unmarshal r")
    case (Pair res r')
    show ?thesis
    proof (cases res)
      case (Inl e)
      then show ?thesis using Pair by (subst control_loop.simps) (simp add: frames_of_error)
    next
      case (Inr m)
      then show ?thesis using Pair 1 by (subst control_loop.simps) (simp add: frames_of_frame)
    qed
  qed
qed

lemma frames_without_handler:
  "mget (st_handlers st) conn = None \<Longrightarrow> foldl (rv_step V S) st (frame_events clock n conn ms) = st"
  by (induction ms arbitrary: n) (simp_all add: controlEnd_def)

lemma handle_events:
  assumes "mget (st_handlers st) conn = None" "conn \<notin> set (st_closed st)"
  shows "handleControlConn V S unmarshal clock conn remote bytes st =
     foldl (rv_step V S) st (conn_events clock conn remote (frames_of unmarshal bytes))"
proof (cases "ReadFrame unmarshal bytes")
  case (Pair res r)
  show ?thesis
  proof (cases res)
    case (Inl e)
    then show ?thesis using Pair assms
      by (simp add: handleControlConn_def frames_of_error conn_events_def bad_hello)
  next
    case (Inr first)
    have fr: "frames_of unmarshal bytes = first # frames_of unmarshal r" using Pair Inr by (simp add: frames_of_frame)
    let ?st = "controlHello (clock 0) conn remote first st"
    show ?thesis
    proof (cases "good_hello first")
      case True
      have "control_loop V S unmarshal clock 1 (hello_conn (clock 0) conn remote first) r ?st =
          foldl (rv_step V S) ?st (frame_events clock 1 conn (frames_of unmarshal r))"
        using control_loop_events [of ?st "hello_conn (clock 0) conn remote first"] hello_handler [OF True]
        by (simp add: hello_conn_def)
      then show ?thesis using Pair Inr True assms fr by (simp add: handleControlConn_def conn_events_def)
    next
      case False
      then have "mget (st_handlers ?st) conn = None" using assms(1) by (simp add: bad_hello)
      then show ?thesis using Pair Inr False assms fr
        by (simp add: handleControlConn_def conn_events_def frames_without_handler)
    qed
  qed
qed


section \<open>Many connections\<close>

text \<open>
  The accept loop starts one goroutine per connection. Each goes through the phases below, one frame at a time, in
  any order with the others, with datagrams and with cleanup ticks; a connection can also be cut at any moment (by the
  peer, or by \<^verbatim>\<open>Close\<close> when the same node says hello again). The stream of a connection is what its peer will have
  sent until the end, kept in \<open>ns_streams\<close>; when the server reads a frame of it is up to the steps.
\<close>

datatype link = Greeting net_addr string | Serving control_conn string | Over

record net_state =
  ns_rv :: rv_state
  ns_links :: "(nat, link) gomap"
  ns_streams :: "(nat, string) gomap"

definition net_start :: net_state where
  "net_start = \<lparr>ns_rv = NewServer, ns_links = [], ns_streams = []\<rparr>"

definition set_link :: "nat \<Rightarrow> link \<Rightarrow> rv_state \<Rightarrow> net_state \<Rightarrow> net_state" where
  "set_link conn l st n = n\<lparr>ns_rv := st, ns_links := mput conn l (ns_links n)\<rparr>"

definition close_mark :: "nat \<Rightarrow> rv_state \<Rightarrow> rv_state" where
  "close_mark conn st = st\<lparr>st_closed := conn # st_closed st\<rparr>"

inductive net_step ::
  "('sk, 'pub) rv_env \<Rightarrow> rv_settings \<Rightarrow> (string \<Rightarrow> rv_msg option) \<Rightarrow> net_state \<Rightarrow> (time \<times> rv_event) list \<Rightarrow> net_state \<Rightarrow> bool"
  for V :: "('sk, 'pub) rv_env" and S :: rv_settings and unmarshal :: "string \<Rightarrow> rv_msg option" where
  Accept: "mget (ns_links n) conn = None \<Longrightarrow> mget (st_handlers (ns_rv n)) conn = None \<Longrightarrow> conn \<notin> set (st_closed (ns_rv n)) \<Longrightarrow>
     net_step V S unmarshal n []
       (set_link conn (Greeting remote bytes) (ns_rv n) (n\<lparr>ns_streams := mput conn bytes (ns_streams n)\<rparr>))"
| Greet: "mget (ns_links n) conn = Some (Greeting remote r) \<Longrightarrow> ReadFrame unmarshal r = (Inr first, r') \<Longrightarrow>
     net_step V S unmarshal n [(now, Hello conn remote first)]
       (set_link conn (if good_hello first then Serving (hello_conn now conn remote first) r' else Over)
          (controlHello now conn remote first (ns_rv n)) n)"
| NoHello: "mget (ns_links n) conn = Some (Greeting remote r) \<Longrightarrow>
     net_step V S unmarshal n [(now, Hello conn remote empty_msg)] (set_link conn Over (close_mark conn (ns_rv n)) n)"
| Serve: "mget (ns_links n) conn = Some (Serving cc r) \<Longrightarrow> ReadFrame unmarshal r = (Inr msg, r') \<Longrightarrow>
     net_step V S unmarshal n [(now, Frame conn msg)]
       (set_link conn (Serving cc r') (handleFrame V S now cc msg (ns_rv n)) n)"
| Hangup: "mget (ns_links n) conn = Some (Serving cc r) \<Longrightarrow>
     net_step V S unmarshal n [(now, End conn)] (set_link conn Over (controlEnd conn (ns_rv n)) n)"
| Datagram: "net_step V S unmarshal n [(now, Packet data src)] (n\<lparr>ns_rv := punchPacket now data src (ns_rv n)\<rparr>)"
| Cleanup: "net_step V S unmarshal n [(now, Tick)] (n\<lparr>ns_rv := cleanupTick S now (ns_rv n)\<rparr>)"

inductive_simps net_step_hello: "net_step V S unmarshal n [(now, Hello conn remote first)] n'"
inductive_simps net_step_frame: "net_step V S unmarshal n [(now, Frame conn msg)] n'"
inductive_simps net_step_end: "net_step V S unmarshal n [(now, End conn)] n'"

inductive net_run ::
  "('sk, 'pub) rv_env \<Rightarrow> rv_settings \<Rightarrow> (string \<Rightarrow> rv_msg option) \<Rightarrow> net_state \<Rightarrow> (time \<times> rv_event) list \<Rightarrow> net_state \<Rightarrow> bool"
  for V :: "('sk, 'pub) rv_env" and S :: rv_settings and unmarshal :: "string \<Rightarrow> rv_msg option" where
  stop: "net_run V S unmarshal n [] n"
| step: "net_run V S unmarshal n evs n1 \<Longrightarrow> net_step V S unmarshal n1 e n2 \<Longrightarrow> net_run V S unmarshal n (evs @ e) n2"

text \<open>A handler runs exactly for the connections that are being served, and an accepted connection that has not said
  hello is not closed.\<close>

fun link_ok :: "nat \<Rightarrow> link option \<Rightarrow> rv_state \<Rightarrow> bool" where
  "link_ok conn (Some (Serving cc r)) st \<longleftrightarrow> mget (st_handlers st) conn = Some cc"
| "link_ok conn (Some (Greeting remote r)) st \<longleftrightarrow> mget (st_handlers st) conn = None \<and> conn \<notin> set (st_closed st)"
| "link_ok conn _ st \<longleftrightarrow> mget (st_handlers st) conn = None"

definition links_ok :: "net_state \<Rightarrow> bool" where
  "links_ok n \<longleftrightarrow> rv_inv (ns_rv n) \<and> (\<forall>conn. link_ok conn (mget (ns_links n) conn) (ns_rv n))"

text \<open>Which connections a handler may close.\<close>

lemma register_closed [simp]: "st_closed (applyRegister V S now cc msg st) = st_closed st"
  by (simp add: applyRegister_def sendFrame_def Let_def split: option.split)

lemma update_closed [simp]: "st_closed (update_proxy k f st) = st_closed st"
  by (simp add: update_proxy_def split: option.split)

lemma send_closed [simp]: "st_closed (sendFrame cc m st) = st_closed st"
  by (simp add: sendFrame_def)

lemma metric_closed [simp]: "st_closed (applyServiceMetric now nid m st) = st_closed st"
  by (simp add: applyServiceMetric_def Let_def)

lemma event_closed [simp]: "st_closed (applyServiceEvent now msg st) = st_closed st"
proof -
  have "st_closed (fold (applyServiceMetric now nid) ms st) = st_closed st" for nid ms
    by (induction ms arbitrary: st) simp_all
  then show ?thesis by (simp add: applyServiceEvent_def applyServiceLifecycle_def split: option.split)
qed

lemma connect_closed [simp]: "st_closed (handleConnect cc msg st) = st_closed st"
  by (simp add: handleConnect_def PushToNode_def Let_def split: option.split)

lemma frame_closed [simp]: "st_closed (handleFrame V S now cc msg st) = st_closed st"
  by (simp add: handleFrame_def applyPing_def Let_def)

lemma packet_keeps [simp]:
  "st_closed (punchPacket now data src st) = st_closed st" "st_handlers (punchPacket now data src st) = st_handlers st"
  by (simp_all add: punchPacket_def learnPublicAddr_def Let_def case_prod_unfold split: list.split option.split)

lemma tick_keeps [simp]:
  "st_closed (cleanupTick S now st) = st_closed st" "st_handlers (cleanupTick S now st) = st_handlers st"
  by (simp_all add: cleanupTick_def pruneMetrics_def purgeProxies_def Let_def case_prod_unfold)

lemma link_ok_same:
  "link_ok conn l st \<Longrightarrow> mget (st_handlers st') conn = mget (st_handlers st) conn \<Longrightarrow>
   (conn \<in> set (st_closed st') \<Longrightarrow> conn \<in> set (st_closed st) \<or> mget (st_handlers st) conn \<noteq> None) \<Longrightarrow> link_ok conn l st'"
  by (cases "(conn, l, st)" rule: link_ok.cases) auto

lemma hello_other:
  assumes "rv_inv st" "conn' \<noteq> conn"
  shows "mget (st_handlers (controlHello now conn remote first st)) conn' = mget (st_handlers st) conn'"
    and "conn' \<in> set (st_closed (controlHello now conn remote first st)) \<Longrightarrow>
         conn' \<in> set (st_closed st) \<or> mget (st_handlers st) conn' \<noteq> None"
  using assms
  by (auto simp: controlHello_def Let_def mget_put rv_inv_def conn_inv_def split: option.splits if_splits)

lemma end_other:
  assumes "conn' \<noteq> conn"
  shows "mget (st_handlers (controlEnd conn st)) conn' = mget (st_handlers st) conn'"
    and "conn' \<in> set (st_closed (controlEnd conn st)) \<Longrightarrow> conn' \<in> set (st_closed st)"
  using assms by (auto simp: controlEnd_def Let_def mget_del split: option.splits)

lemma links_ok_set:
  assumes "links_ok n" "rv_inv st" "link_ok conn (Some l) st"
    "\<And>c. c \<noteq> conn \<Longrightarrow> mget (st_handlers st) c = mget (st_handlers (ns_rv n)) c"
    "\<And>c. c \<noteq> conn \<Longrightarrow> c \<in> set (st_closed st) \<Longrightarrow> c \<in> set (st_closed (ns_rv n)) \<or> mget (st_handlers (ns_rv n)) c \<noteq> None"
  shows "links_ok (set_link conn l st n)"
  using assms link_ok_same [of _ _ "ns_rv n" st] by (auto simp: links_ok_def set_link_def mget_put)

lemma greeting_ok:
  assumes "mget (ns_links n) conn = Some (Greeting remote r)" "links_ok n"
  shows "rv_inv (ns_rv n)" "mget (st_handlers (ns_rv n)) conn = None" "conn \<notin> set (st_closed (ns_rv n))"
    "rv_inv (controlHello now conn remote first (ns_rv n))"
proof -
  have "link_ok conn (Some (Greeting remote r)) (ns_rv n)" and i: "rv_inv (ns_rv n)" using assms by (metis links_ok_def)+
  then show l: "mget (st_handlers (ns_rv n)) conn = None" "conn \<notin> set (st_closed (ns_rv n))" "rv_inv (ns_rv n)" by simp_all
  show "rv_inv (controlHello now conn remote first (ns_rv n))" using i l by (simp add: rv_inv_hello)
qed

lemma close_hello: "close_mark conn st = controlHello now conn remote empty_msg st"
  by (simp add: close_mark_def bad_hello)

lemma net_step_sound:
  assumes "net_step V S unmarshal n evs n'" "links_ok n"
  shows "ns_rv n' = foldl (rv_step V S) (ns_rv n) evs \<and> links_ok n'"
  using assms
proof (induction rule: net_step.induct)
  case (Greet n conn remote r first r' now)
  note g = greeting_ok [OF Greet(1,3)]
  have "link_ok conn (Some (if good_hello first then Serving (hello_conn now conn remote first) r' else Over))
      (controlHello now conn remote first (ns_rv n))" using g(2) by (simp add: hello_handler bad_hello)
  then show ?case using g(2,3) links_ok_set [OF Greet.prems g(4)] hello_other [OF g(1)] by (auto simp: set_link_def)
next
  case (NoHello n conn remote r now)
  note g = greeting_ok [OF NoHello(1,2)]
  have "links_ok (set_link conn Over (close_mark conn (ns_rv n)) n)"
    using g(2) links_ok_set [OF NoHello.prems g(4) [where first = empty_msg], folded close_hello, of conn Over] by (simp add: close_mark_def)
  then show ?case using g(2,3) close_hello [of conn "ns_rv n" now remote] by (simp add: set_link_def)
next
  case (Serve n conn cc r msg r' now)
  then have l: "mget (st_handlers (ns_rv n)) conn = Some cc" "rv_inv (ns_rv n)"
    by (metis links_ok_def link_ok.simps(1))+
  then have "links_ok (set_link conn (Serving cc r') (handleFrame V S now cc msg (ns_rv n)) n)"
    using Serve.prems by (intro links_ok_set) (simp_all add: rv_inv_frame)
  then show ?case using l by (simp add: set_link_def)
next
  case (Hangup n conn cc r now)
  then have i: "rv_inv (ns_rv n)" by (simp add: links_ok_def)
  have "links_ok (set_link conn Over (controlEnd conn (ns_rv n)) n)"
  proof (rule links_ok_set [OF Hangup.prems rv_inv_end [OF i]])
    show "link_ok conn (Some Over) (controlEnd conn (ns_rv n))"
      using Hangup by (simp add: controlEnd_def Let_def mget_del split: option.split)
  qed (use end_other in auto)
  then show ?case by (simp add: set_link_def)
next
  case (Accept n conn remote bytes)
  then have "links_ok (set_link conn (Greeting remote bytes) (ns_rv n) (n\<lparr>ns_streams := mput conn bytes (ns_streams n)\<rparr>))"
    by (intro links_ok_set) (simp_all add: links_ok_def)
  then show ?case by (simp add: set_link_def)
qed (auto simp: links_ok_def rv_inv_packet rv_inv_tick intro: link_ok_same)

lemma links_ok_start: "links_ok net_start"
  using rv_inv_start by (simp add: links_ok_def net_start_def NewServer_def)

lemma net_run_sound:
  assumes "net_run V S unmarshal n evs n'" "links_ok n"
  shows "ns_rv n' = foldl (rv_step V S) (ns_rv n) evs \<and> links_ok n'"
  using assms by (induction rule: net_run.induct) (auto dest: net_step_sound)



text \<open>The frames of a connection that reached a handler.\<close>

fun received :: "nat \<Rightarrow> (time \<times> rv_event) list \<Rightarrow> rv_msg list" where
  "received conn [] = []"
| "received conn ((now, Hello c remote m) # evs) = (if c = conn \<and> good_hello m then m # received conn evs else received conn evs)"
| "received conn ((now, Frame c m) # evs) = (if c = conn then m # received conn evs else received conn evs)"
| "received conn (_ # evs) = received conn evs"

lemma received_append [simp]: "received conn (evs @ evs') = received conn evs @ received conn evs'"
  by (induction conn evs rule: received.induct) simp_all

text \<open>Where a connection stands in its stream, given the frames handled so far.\<close>

fun link_stream :: "(string \<Rightarrow> rv_msg option) \<Rightarrow> link option \<Rightarrow> string option \<Rightarrow> rv_msg list \<Rightarrow> bool" where
  "link_stream unmarshal (Some (Greeting remote r)) (Some bytes) ms \<longleftrightarrow> r = bytes \<and> ms = []"
| "link_stream unmarshal (Some (Serving cc r)) (Some bytes) ms \<longleftrightarrow>
     ms \<noteq> [] \<and> good_hello (hd ms) \<and> cc_node_id cc = m_id (hd ms) \<and> frames_of unmarshal bytes = ms @ frames_of unmarshal r"
| "link_stream unmarshal (Some Over) (Some bytes) ms \<longleftrightarrow> (\<exists>ms'. frames_of unmarshal bytes = ms @ ms')"
| "link_stream unmarshal None None ms \<longleftrightarrow> ms = []"
| "link_stream unmarshal _ _ ms \<longleftrightarrow> False"

definition streams_ok :: "(string \<Rightarrow> rv_msg option) \<Rightarrow> net_state \<Rightarrow> (time \<times> rv_event) list \<Rightarrow> bool" where
  "streams_ok unmarshal n evs \<longleftrightarrow>
     (\<forall>conn. link_stream unmarshal (mget (ns_links n) conn) (mget (ns_streams n) conn) (received conn evs))"

lemma link_streamD:
  "link_stream unmarshal (Some (Greeting remote r)) b ms \<Longrightarrow> b = Some r \<and> ms = []"
  "link_stream unmarshal (Some (Serving cc r)) b ms \<Longrightarrow>
     ms \<noteq> [] \<and> good_hello (hd ms) \<and> cc_node_id cc = m_id (hd ms) \<and> (\<exists>bytes. b = Some bytes \<and> frames_of unmarshal bytes = ms @ frames_of unmarshal r)"
  "link_stream unmarshal None b ms \<Longrightarrow> b = None \<and> ms = []"
  by (cases b; simp)+

lemma streams_ok_set:
  assumes "streams_ok unmarshal n evs" "\<And>c. c \<noteq> conn \<Longrightarrow> received c e = []"
    "link_stream unmarshal (Some l) (mget (ns_streams n) conn) (received conn evs @ received conn e)"
  shows "streams_ok unmarshal (set_link conn l st n) (evs @ e)"
  using assms by (auto simp: streams_ok_def set_link_def mget_put)

lemma net_step_streams:
  assumes "net_step V S unmarshal n e n'" "streams_ok unmarshal n evs"
  shows "streams_ok unmarshal n' (evs @ e)"
  using assms
proof (induction rule: net_step.induct)
  case (Accept n conn remote bytes)
  then have "received conn evs = []" using link_streamD(3) by (metis streams_ok_def)
  then show ?case using Accept by (auto simp: streams_ok_def set_link_def mget_put)
next
  case (Greet n conn remote r first r' now)
  then have "mget (ns_streams n) conn = Some r \<and> received conn evs = []" using link_streamD(1) by (metis streams_ok_def)
  then show ?case using Greet by (intro streams_ok_set) (auto simp: hello_conn_def frames_of_frame)
next
  case (NoHello n conn remote r now)
  then have "mget (ns_streams n) conn = Some r \<and> received conn evs = []" using link_streamD(1) by (metis streams_ok_def)
  then show ?case using NoHello by (intro streams_ok_set) auto
next
  case (Serve n conn cc r msg r' now)
  then have "link_stream unmarshal (Some (Serving cc r)) (mget (ns_streams n) conn) (received conn evs)"
    by (metis streams_ok_def)
  from link_streamD(2) [OF this] show ?case
    using Serve by (intro streams_ok_set) (auto simp: frames_of_frame)
next
  case (Hangup n conn cc r now)
  then have "link_stream unmarshal (Some (Serving cc r)) (mget (ns_streams n) conn) (received conn evs)"
    by (metis streams_ok_def)
  from link_streamD(2) [OF this] show ?case using Hangup by (intro streams_ok_set) auto
qed (simp_all add: streams_ok_def)

lemma net_run_streams:
  assumes "net_run V S unmarshal n evs n'" "streams_ok unmarshal n []"
  shows "streams_ok unmarshal n' evs"
  using assms by (induction rule: net_run.induct) (auto intro: net_step_streams)

lemma streams_ok_start: "streams_ok unmarshal net_start []"
  by (simp add: streams_ok_def net_start_def)

lemma received_prefix:
  assumes "streams_ok unmarshal n evs"
  shows "case mget (ns_streams n) conn of None \<Rightarrow> received conn evs = []
         | Some bytes \<Rightarrow> \<exists>ms. frames_of unmarshal bytes = received conn evs @ ms"
proof -
  have "link_stream unmarshal (mget (ns_links n) conn) (mget (ns_streams n) conn) (received conn evs)"
    using assms by (simp add: streams_ok_def)
  then show ?thesis
    by (cases "(unmarshal, mget (ns_links n) conn, mget (ns_streams n) conn, received conn evs)" rule: link_stream.cases) auto
qed


text \<open>Conversely, a handler that is not interrupted is a run of the interleaving server.\<close>

lemma net_run_trans:
  assumes "net_run V S unmarshal n1 evs' n2" "net_run V S unmarshal n evs n1"
  shows "net_run V S unmarshal n (evs @ evs') n2"
  using assms
proof (induction rule: net_run.induct)
  case (step n1 evs' n2 e n3)
  then show ?case using net_run.step [of V S unmarshal n "evs @ evs'"] by simp
qed simp

lemma net_run_Cons:
  assumes "net_step V S unmarshal n [e] n1" "net_run V S unmarshal n1 evs n2"
  shows "net_run V S unmarshal n (e # evs) n2"
  using net_run_trans [OF assms(2) net_run.step [OF net_run.stop assms(1)]] by simp

lemma serve_schedule:
  assumes "mget (ns_links n) conn = Some (Serving cc r)"
  shows "\<exists>n'. net_run V S unmarshal n (frame_events clock i conn (frames_of unmarshal r)) n'"
  using assms
proof (induction r arbitrary: n i rule: measure_induct_rule [where f = length])
  case (less r)
  show ?case
  proof (cases "ReadFrame unmarshal r")
    case (Pair res r')
    show ?thesis
    proof (cases res)
      case (Inl e)
      then show ?thesis using Pair net_step.Hangup [OF less.prems] net_run_Cons net_run.stop
        by (fastforce simp: frames_of_error)
    next
      case (Inr m)
      let ?n = "set_link conn (Serving cc r') (handleFrame V S (clock i) cc m (ns_rv n)) n"
      have "mget (ns_links ?n) conn = Some (Serving cc r')" by (simp add: set_link_def mget_put)
      with less.IH obtain n' where "net_run V S unmarshal ?n (frame_events clock (Suc i) conn (frames_of unmarshal r')) n'"
        using ReadFrame_consumes [OF Pair] Inr by blast
      then show ?thesis
        using Pair Inr net_run_Cons [OF net_step.Serve [OF less.prems, of unmarshal m r' V S "clock i"]]
        by (auto simp: frames_of_frame)
    qed
  qed
qed

definition uninterrupted :: "nat \<Rightarrow> (nat \<Rightarrow> time) \<Rightarrow> net_addr \<Rightarrow> rv_msg list \<Rightarrow> (time \<times> rv_event) list" where
  "uninterrupted conn clock remote ms =
     (case ms of first # _ \<Rightarrow> if good_hello first then conn_events clock conn remote ms else [(clock 0, Hello conn remote first)]
      | [] \<Rightarrow> conn_events clock conn remote [])"

lemma greet_schedule:
  assumes "mget (ns_links n) conn = Some (Greeting remote bytes)"
  shows "\<exists>n'. net_run V S unmarshal n (uninterrupted conn clock remote (frames_of unmarshal bytes)) n'"
proof (cases "ReadFrame unmarshal bytes")
  case (Pair res r)
  show ?thesis
  proof (cases res)
    case (Inl e)
    then show ?thesis using Pair net_run_Cons [OF net_step.NoHello [OF assms, of V S unmarshal "clock 0"] net_run.stop]
      by (auto simp: uninterrupted_def conn_events_def frames_of_error)
  next
    case (Inr first)
    let ?n = "set_link conn (if good_hello first then Serving (hello_conn (clock 0) conn remote first) r else Over)
          (controlHello (clock 0) conn remote first (ns_rv n)) n"
    have g: "net_step V S unmarshal n [(clock 0, Hello conn remote first)] ?n"
      by (rule net_step.Greet [OF assms]) (simp add: Pair Inr)
    have f: "frames_of unmarshal bytes = first # frames_of unmarshal r" using Pair Inr by (simp add: frames_of_frame)
    show ?thesis
    proof (cases "good_hello first")
      case True
      then have "mget (ns_links ?n) conn = Some (Serving (hello_conn (clock 0) conn remote first) r)"
        by (simp add: set_link_def mget_put)
      from serve_schedule [OF this] obtain n' where "net_run V S unmarshal ?n (frame_events clock 1 conn (frames_of unmarshal r)) n'"
        by blast
      from net_run_Cons [OF g this] show ?thesis using True f by (auto simp: uninterrupted_def conn_events_def)
    next
      case False
      then show ?thesis using net_run_Cons [OF g net_run.stop] f by (auto simp: uninterrupted_def)
    qed
  qed
qed

lemma handle_uninterrupted:
  assumes "mget (st_handlers st) conn = None" "conn \<notin> set (st_closed st)"
  shows "handleControlConn V S unmarshal clock conn remote bytes st =
     foldl (rv_step V S) st (uninterrupted conn clock remote (frames_of unmarshal bytes))"
  using assms
  by (auto simp: handle_events uninterrupted_def conn_events_def bad_hello frames_without_handler split: list.split)



section \<open>Client and server\<close>

text \<open>What the reader goroutine of the client does with the bytes it has received so far.\<close>

definition reader_run :: "(string \<Rightarrow> rv_msg option) \<Rightarrow> string \<Rightarrow> isannd_client \<Rightarrow> isannd_client" where
  "reader_run unmarshal bytes c = foldl (\<lambda>c m. reader_frame m c) c (frames_of unmarshal bytes)"

text \<open>What the server wrote on a connection.\<close>

definition pushed_bytes :: "(rv_msg \<Rightarrow> string option) \<Rightarrow> nat \<Rightarrow> rv_state \<Rightarrow> string" where
  "pushed_bytes marshal conn st = sent_bytes marshal (map snd (filter (\<lambda>(c, m). c = conn) (st_out st)))"

text \<open>A message survives its encoding when it is encoded within the frame limit and decoded to itself.\<close>

definition survives :: "(rv_msg \<Rightarrow> string option) \<Rightarrow> (string \<Rightarrow> rv_msg option) \<Rightarrow> rv_msg \<Rightarrow> bool" where
  "survives marshal unmarshal m \<longleftrightarrow> (\<exists>d. marshal m = Some d \<and> frame_ok d \<and> unmarshal d = Some m)"

lemma frames_of_sent:
  "\<forall>m\<in>set ms. survives marshal unmarshal m \<Longrightarrow> frames_of unmarshal (sent_bytes marshal ms) = ms"
proof (induction ms)
  case (Cons m ms)
  then show ?case by (auto simp: sent_bytes_def survives_def frames_of_cons)
qed (simp add: sent_bytes_def)

lemma client_stream_frames:
  assumes "codec_ok marshal unmarshal" "client_inv marshal c" "cc \<in> set (ic_conns c)"
  shows "own_frames (ic_hello_id c) (frames_of unmarshal (w_out (cc_w cc)))"
proof -
  have ok: "conn_ok marshal (ic_hello_id c) cc" using assms(2,3) by (simp add: client_inv_def)
  then obtain t where t: "w_out (cc_w cc) = sent_bytes marshal (cc_sent cc) @ t" "stray_header t"
    by (auto simp: conn_ok_def)
  let ?fuel = "Suc (length (cc_sent cc) + length (w_out (cc_w cc)))"
  have "frames_of unmarshal (w_out (cc_w cc)) = fst (read_stream unmarshal ?fuel (w_out (cc_w cc)))"
    by (rule read_stream_frames_of [symmetric]) simp
  then show ?thesis using ok read_sent [OF assms(1) _ t(2), of "cc_sent cc" ?fuel] own_frames_decode [OF assms(1)]
    by (simp add: t(1) conn_ok_def del: read_stream.simps)
qed

text \<open>The connection an event belongs to.\<close>

fun event_conn :: "rv_event \<Rightarrow> nat option" where
  "event_conn (Hello c remote m) = Some c"
| "event_conn (Frame c m) = Some c"
| "event_conn (End c) = Some c"
| "event_conn _ = None"

lemma controlHello_proxies [simp]: "st_proxies (controlHello now conn remote first st) = st_proxies st"
  by (simp add: controlHello_def Let_def)

lemma controlEnd_proxies [simp]: "st_proxies (controlEnd conn st) = st_proxies st"
  by (simp add: controlEnd_def Let_def split: option.split)

lemma client_step_confined:
  assumes "net_step V S unmarshal n [(now, e)] n'" "streams_ok unmarshal n evs" "event_conn e = Some conn"
    "mget (ns_streams n) conn = Some bytes" "own_frames i (frames_of unmarshal bytes)" "k \<noteq> nodeKey i"
  shows "mget (st_proxies (ns_rv n')) k = mget (st_proxies (ns_rv n)) k"
proof (cases e)
  case (Frame c msg)
  with assms(1,3) obtain cc r r' where f: "c = conn" "mget (ns_links n) conn = Some (Serving cc r)"
    "n' = set_link conn (Serving cc r') (handleFrame V S now cc msg (ns_rv n)) n" by (auto simp: net_step_frame)
  then have "link_stream unmarshal (Some (Serving cc r)) (Some bytes) (received conn evs)"
    using assms(2,4) by (metis streams_ok_def)
  then have "cc_node_id cc = i" using assms(5) by (cases "received conn evs") (auto simp: own_frames_def)
  then show ?thesis using only_own_frame [of cc "ns_rv n" V S now msg] assms(6) f by (auto simp: only_own_def set_link_def)
qed (use assms(1,3) in \<open>auto simp: net_step_hello net_step_end set_link_def close_mark_def\<close>)



text \<open>The bytes of a client that dials, says hello and sends one frame.\<close>

lemma hello_id_fields [simp]: "m_id (hello_msg c) = ic_hello_id c" "m_type (hello_msg c) = TypeHello" "m_role (hello_msg c) = ic_hello_role c"
  by (simp_all add: hello_msg_def)

lemma dial_bytes:
  assumes "dialAndHello marshal (Accepted k) c = (None, c1)" "\<not> ic_dialing c" "ic_conn c = None"
  shows "\<exists>w. c1 = c\<lparr>ic_conns := ic_conns c @ [\<lparr>cc_w = w, cc_open = True, cc_sent = [hello_msg c]\<rparr>], ic_conn := Some (length (ic_conns c))\<rparr> \<and>
     w_out w = sent_bytes marshal [hello_msg c] \<and> ic_hello_id c \<noteq> []"
  using assms writeFrameTo_done [of marshal "\<lparr>w_out = [], w_left = k\<rparr>" "hello_msg c"]
  by (auto simp: dialAndHello_def drop_conn_def Let_def sent_bytes_def split: prod.splits option.splits if_splits)

lemma write_bytes:
  assumes "conn_write marshal i m c = (None, c1)" "i < length (ic_conns c)"
  shows "w_out (cc_w (ic_conns c1 ! i)) = w_out (cc_w (ic_conns c ! i)) @ sent_bytes marshal [m] \<and>
     length (ic_conns c1) = length (ic_conns c)"
  using assms writeFrameTo_done [of marshal "cc_w (ic_conns c ! i)" m]
  by (auto simp: conn_write_def Let_def sent_bytes_def split: prod.splits option.splits)

lemma dial_write_bytes:
  assumes "dialAndHello marshal (Accepted k) c = (None, c1)" "\<not> ic_dialing c" "ic_conn c = None"
    "conn_write marshal (length (ic_conns c)) m c1 = (None, c2)"
  shows "length (ic_conns c2) = Suc (length (ic_conns c)) \<and>
     w_out (cc_w (last (ic_conns c2))) = sent_bytes marshal [hello_msg c, m]"
proof -
  obtain w where w: "c1 = c\<lparr>ic_conns := ic_conns c @ [\<lparr>cc_w = w, cc_open = True, cc_sent = [hello_msg c]\<rparr>], ic_conn := Some (length (ic_conns c))\<rparr>"
    "w_out w = sent_bytes marshal [hello_msg c]" using dial_bytes [OF assms(1-3)] by blast
  from write_bytes [OF assms(4)] w
  have 1: "w_out (cc_w (ic_conns c2 ! length (ic_conns c))) = w_out w @ sent_bytes marshal [m] \<and>
      length (ic_conns c2) = Suc (length (ic_conns c))" by (simp add: nth_append)
  then have "ic_conns c2 \<noteq> []" by auto
  with 1 w(2) show ?thesis by (simp add: last_conv_nth sent_bytes_def)
qed

text \<open>The server on such a stream.\<close>

lemma handle_two:
  assumes "mget (st_handlers st) conn = None" "conn \<notin> set (st_closed st)" "good_hello first"
    "survives marshal unmarshal first" "survives marshal unmarshal m"
  shows "handleControlConn V S unmarshal clock conn remote (sent_bytes marshal [first, m]) st =
     controlEnd conn (handleFrame V S (clock 1) (hello_conn (clock 0) conn remote first) m
       (controlHello (clock 0) conn remote first st))"
proof -
  have "frames_of unmarshal (sent_bytes marshal [first, m]) = [first, m]" using assms(4,5) by (intro frames_of_sent) simp
  then show ?thesis using assms(1-3) hello_handler [OF assms(3)] by (simp add: handle_events conn_events_def)
qed

lemma controlHello_out: "good_hello first \<Longrightarrow>
  st_out (controlHello now conn remote first st) = st_out st @ [(conn, empty_msg\<lparr>m_v := 1, m_type := TypeAck\<rparr>)]"
  by (simp add: controlHello_def good_hello_def Let_def sendFrame_def)

lemma controlEnd_out [simp]: "st_out (controlEnd conn st) = st_out st"
  by (simp add: controlEnd_def Let_def split: option.split)

lemma hello_conn_sel [simp]:
  "cc_conn (hello_conn now conn remote first) = conn" "cc_node_id (hello_conn now conn remote first) = m_id first"
  "cc_role (hello_conn now conn remote first) = m_role first" "cc_remote (hello_conn now conn remote first) = remote"
  by (simp_all add: hello_conn_def)

lemma honest_register_verifies:
  assumes "eth_signs (ev_eth V)" "crypto_sign (ev_eth V) (node_digest V m) sk = Some (m_signature m)"
    "addrFromNodeID (ev_eth V) (m_id m) = Some (pubkey_to_address (ev_eth V) (public_key (ev_eth V) sk))"
    "m_timestamp_ms m \<noteq> 0" "int64_ok (m_timestamp_ms m)" "0 \<le> unix_milli now" "unix_milli now < 2 ^ 62"
    "\<bar>unix_milli now - m_timestamp_ms m\<bar> \<le> 60000"
  shows "verifyRegisterSignature V now m (hashHardwareForVerify (ev_marshal_hw V) (m_hardware m)) = None"
  unfolding verifyRegisterSignature_iff [OF assms(6,7,5)] check_signer_None hashHardwareForVerify_eq
  using assms(1-4,8) by (auto simp: eth_signs_def node_digest_def)


section \<open>Properties\<close>


definition toy_stream :: string where
  "toy_stream = sent_bytes toy_marshal [empty_msg\<lparr>m_type := TypeHello, m_id := ''P:0xAb''\<rparr>]"

definition toy_net :: net_state where
  "toy_net = set_link 1 (Greeting toy_remote toy_stream) NewServer (net_start\<lparr>ns_streams := [(1, toy_stream)]\<rparr>)"

lemma toy_net_run: "net_run V S unmarshal net_start [] toy_net"
proof -
  have "net_step V S unmarshal net_start [] toy_net"
    using net_step.Accept [of net_start 1 V S unmarshal toy_remote toy_stream]
    by (simp add: net_start_def NewServer_def toy_net_def set_link_def)
  from net_run.step [OF net_run.stop this] show ?thesis by simp
qed


text \<open>C10. An honest client acts for its own node only, end to end. Take any history of calls on a client and any of its
  connections. When the server reads the bytes of that connection, interleaved in any way with other connections, no step
  of it changes a registry entry other than that of the client's node.\<close>

theorem honest_client_confined:
  assumes "codec_ok marshal unmarshal" "c = foldl (client_step marshal) (NewIsanndClient httpBase addr) ops"
    "cc \<in> set (ic_conns c)" "net_run V S unmarshal net_start evs n" "mget (ns_streams n) conn = Some (w_out (cc_w cc))"
    "net_step V S unmarshal n [(now, e)] n'" "event_conn e = Some conn"
  shows "\<forall>k. k \<noteq> nodeKey (ic_hello_id c) \<longrightarrow> mget (st_proxies (ns_rv n')) k = mget (st_proxies (ns_rv n)) k"
proof -
  have "client_inv marshal c" unfolding assms(2) by (rule isannd.inv_run)
  from client_stream_frames [OF assms(1) this assms(3)] show ?thesis
    using client_step_confined [OF assms(6) net_run_streams [OF assms(4) streams_ok_start] assms(7,5)] by blast
qed


theorem honest_client_confined_witness:
  "\<exists>n'. net_step toy_env toy_settings toy_unmarshal toy_net
          [(toy_now, Hello 1 toy_remote (empty_msg\<lparr>m_type := TypeHello, m_id := ''P:0xAb''\<rparr>))] n' \<and>
     mget (st_proxies (ns_rv n')) ''P:0xcd'' = None"
proof -
  let ?ops = "[OpConnect (Accepted None) ''P:0xAb'' ''r'']" and ?h = "empty_msg\<lparr>m_type := TypeHello, m_id := ''P:0xAb''\<rparr>"
  let ?c = "foldl (client_step toy_marshal) (NewIsanndClient [] []) ?ops"
  obtain cc where cc: "cc \<in> set (ic_conns ?c)" "w_out (cc_w cc) = toy_stream" "ic_hello_id ?c = ''P:0xAb''"
    by (simp add: client_step_def Connect_def NewIsanndClient_def dialAndHello_def drop_conn_def hello_msg_def toy_marshal_def
        writeFrameTo_def do_write_def toy_stream_def sent_bytes_def frame_bytes_def frameMaxSize_def empty_msg_def)
  have "survives toy_marshal toy_unmarshal ?h"
    by (simp add: survives_def toy_marshal_def toy_unmarshal_def frame_ok_def maxFrameSize_def empty_msg_def cut_def index_byte_append)
  then obtain d where d: "toy_stream = frame_bytes d @ []" "frame_ok d" "toy_unmarshal d = Some ?h"
    by (auto simp: toy_stream_def sent_bytes_def survives_def)
  have l: "mget (ns_links toy_net) 1 = Some (Greeting toy_remote toy_stream)" "mget (ns_streams toy_net) 1 = Some (w_out (cc_w cc))"
    by (simp_all add: toy_net_def set_link_def mget_put cc)
  obtain n' where s: "net_step toy_env toy_settings toy_unmarshal toy_net [(toy_now, Hello 1 toy_remote ?h)] n'"
    using net_step.Greet [OF l(1)] ReadFrame_bytes [of d toy_unmarshal, OF d(2,3), of "[]"] d(1) by metis
  have "nodeKey ''P:0xAb'' = ''P:0xab''" by code_simp
  then have "mget (st_proxies (ns_rv n')) ''P:0xcd'' = mget (st_proxies (ns_rv toy_net)) ''P:0xcd''"
    using honest_client_confined [OF toy_codec_ok refl cc(1) toy_net_run l(2) s] cc(3) by simp
  then show ?thesis using s by (auto simp: toy_net_def set_link_def NewServer_def)
qed


text \<open>C9. A node that connects and registers is in the directory, end to end. A client with the node's key dials, says hello
  and sends a full register with a clock within 60 s of the server's and, in protected mode, a credential that is admitted.
  When both calls succeed, the server that reads the client's bytes has an entry for the node afterwards, seen
  when it handled the register, with the role and the address the node sent, and it has answered with the two
  acknowledgements, the second with the cadence of the node's role.\<close>

theorem register_reaches_directory:
  assumes "Connect marshal (Accepted k) nid role (NewIsanndClient httpBase addr) = (None, c1)"
    "SendRegister marshal net (Some m) c1 = (None, c2)"
    "m_type m = TypeRegister" "m_id m = nid" "m_full_sync m"
    "survives marshal unmarshal (hello_msg c1)" "survives marshal unmarshal m"
    "eth_signs (ev_eth V)" "crypto_sign (ev_eth V) (node_digest V m) sk = Some (m_signature m)"
    "addrFromNodeID (ev_eth V) nid = Some (pubkey_to_address (ev_eth V) (public_key (ev_eth V) sk))"
    "m_timestamp_ms m \<noteq> 0" "int64_ok (m_timestamp_ms m)" "0 \<le> unix_milli (clock 1)" "unix_milli (clock 1) < 2 ^ 62"
    "\<bar>unix_milli (clock 1) - m_timestamp_ms m\<bar> \<le> 60000"
    "modeProtected (s_mode S) \<longrightarrow> admitRegister (ev_eth V) (s_issuers S) (clock 1) m = None"
    "mget (st_handlers st) conn = None" "conn \<notin> set (st_closed st)"
    "st' = handleControlConn V S unmarshal clock conn remote (w_out (cc_w (last (ic_conns c2)))) st"
  shows "\<exists>p. mget (st_proxies st') (nodeKey nid) = Some p \<and> p_last_seen p = clock 1 \<and> p_role p = m_role m \<and>
     (m_addr m \<noteq> [] \<longrightarrow> p_addr p = m_addr m) \<and>
     st_out st' = st_out st @ [(conn, empty_msg\<lparr>m_v := 1, m_type := TypeAck\<rparr>),
       (conn, register_ack S (hello_conn (clock 0) conn remote (hello_msg c1)))]"
proof -
  let ?c = "(NewIsanndClient httpBase addr)\<lparr>ic_hello_id := nid, ic_hello_role := role\<rparr>"
  have d: "dialAndHello marshal (Accepted k) ?c = (None, c1)" using assms(1) by (simp add: Connect_def NewIsanndClient_def)
  have q: "\<not> ic_dialing ?c" "ic_conn ?c = None" "ic_conns ?c = []" by (simp_all add: NewIsanndClient_def)
  obtain w where c1: "c1 = ?c\<lparr>ic_conns := [w], ic_conn := Some 0\<rparr>" "nid \<noteq> []" using dial_bytes [OF d q(1,2)] q(3) by auto
  then have "conn_write marshal 0 m c1 = (None, c2)" and h: "hello_msg c1 = hello_msg ?c"
    using assms(2,3,4) by (auto simp: SendRegister_def writeFrame_def ensureConn_def Let_def hello_msg_def)
  then have b: "w_out (cc_w (last (ic_conns c2))) = sent_bytes marshal [hello_msg c1, m]"
    using dial_write_bytes [OF d q(1,2), of m c2] q(3) by simp
  have g: "good_hello (hello_msg c1)" using c1 by (simp add: good_hello_def)
  let ?cc = "hello_conn (clock 0) conn remote (hello_msg c1)"
  have id: "m_id (hello_msg c1) = nid" using c1 by simp
  have st': "st' = controlEnd conn (handleFrame V S (clock 1) ?cc m (controlHello (clock 0) conn remote (hello_msg c1) st))"
    unfolding assms(19) b by (rule handle_two [OF assms(17,18) g assms(6,7)])
  have "m\<lparr>m_id := nid\<rparr> = m" using assms(4) by auto
  then have f: "handleFrame V S now ?cc m st0 = sendFrame ?cc (register_ack S ?cc) (applyRegister V S now ?cc m st0)" for now st0
    using assms(3) id by (simp add: handleFrame_def)
  have "register_reject V S (clock 1) ?cc m = None"
    using honest_register_verifies [OF assms(8,9) _ assms(11-15)] assms(4,5,10,16) id by (simp add: register_reject_def)
  then show ?thesis using assms(4) controlHello_out [OF g]
    by (simp add: st' f applyRegister_def Let_def mget_put register_entry_def)
qed


text \<open>A codec that carries the messages of a book, one per type.\<close>

definition book_marshal :: "rv_msg list \<Rightarrow> rv_msg \<Rightarrow> string option" where
  "book_marshal ms m = (if m \<in> set ms then Some (m_type m) else None)"

definition book_unmarshal :: "rv_msg list \<Rightarrow> string \<Rightarrow> rv_msg option" where
  "book_unmarshal ms s = find (\<lambda>m. m_type m = s) ms"

lemma book_survives:
  assumes "distinct (map m_type ms)" "m \<in> set ms" "frame_ok (m_type m)"
  shows "survives (book_marshal ms) (book_unmarshal ms) m"
proof -
  have "find (\<lambda>m'. m_type m' = m_type m) ms = Some m"
    using assms(1,2) by (induction ms) (auto simp: image_iff)
  then show ?thesis using assms(2,3) by (simp add: survives_def book_marshal_def book_unmarshal_def)
qed

definition toy_node :: string where
  "toy_node = ''P:0x'' @ concat (replicate 20 ''6b'')"

definition toy_first :: rv_msg where
  "toy_first = empty_msg\<lparr>m_v := 1, m_type := TypeHello, m_id := toy_node, m_role := ''provider''\<rparr>"

lemma toy_node_register [simp]: "m_id toy_register = toy_node" "m_type toy_register = TypeRegister" "toy_node \<noteq> []"
  by (simp_all add: toy_register_def toy_node_def)

definition toy_register_run where
  "toy_register_run =
     (let M = book_marshal [toy_first, toy_register];
          c1 = snd (Connect M (Accepted None) toy_node ''provider'' (NewIsanndClient [] []));
          c2 = snd (SendRegister M Refused (Some toy_register) c1)
      in handleControlConn toy_env (toy_settings\<lparr>s_mode := ''public''\<rparr>) (book_unmarshal [toy_first, toy_register]) (\<lambda>_. toy_now)
           1 toy_remote (w_out (cc_w (last (ic_conns c2)))) NewServer)"

theorem register_reaches_directory_witness:
  "\<exists>p. mget (st_proxies toy_register_run) (nodeKey toy_node) = Some p \<and> p_role p = ''provider'' \<and> p_last_seen p = toy_now"
proof -
  let ?B = "[toy_first, toy_register]"
  let ?M = "book_marshal ?B" and ?U = "book_unmarshal ?B" and ?c = "NewIsanndClient [] []"
  have b: "distinct (map m_type ?B)" "frame_ok TypeHello" "frame_ok TypeRegister"
    by (simp_all add: toy_first_def frame_ok_def maxFrameSize_def)
  have s: "survives ?M ?U toy_first" "survives ?M ?U toy_register"
    using b by (auto intro!: book_survives simp: toy_first_def)
  have m: "?M toy_first = Some TypeHello" "?M toy_register = Some TypeRegister"
    by (simp_all add: book_marshal_def toy_first_def)
  define c1 where "c1 = snd (Connect ?M (Accepted None) toy_node ''provider'' ?c)"
  have h: "hello_msg (?c\<lparr>ic_hello_id := toy_node, ic_hello_role := ''provider''\<rparr>) = toy_first"
    by (simp add: hello_msg_def toy_first_def)
  have c1: "Connect ?M (Accepted None) toy_node ''provider'' ?c = (None, c1)" "ic_hello_id c1 = toy_node" "ic_conn c1 = Some 0"
     "hello_msg c1 = toy_first" "\<exists>w. ic_conns c1 = [w] \<and> w_left (cc_w w) = None"
    using m h unfolding c1_def
    by (simp_all add: Connect_def dialAndHello_def drop_conn_def Let_def NewIsanndClient_def writeFrameTo_def do_write_def
        frameMaxSize_def toy_first_def hello_msg_def)
  define c2 where "c2 = snd (SendRegister ?M Refused (Some toy_register) c1)"
  have c2: "SendRegister ?M Refused (Some toy_register) c1 = (None, c2)"
    using c1 m unfolding c2_def
    by (auto simp: SendRegister_def writeFrame_def ensureConn_def conn_write_def writeFrameTo_def do_write_def frameMaxSize_def Let_def)
  have r: "toy_register_run = handleControlConn toy_env (toy_settings\<lparr>s_mode := ''public''\<rparr>) ?U (\<lambda>_. toy_now) 1 toy_remote
      (w_out (cc_w (last (ic_conns c2)))) NewServer"
    by (simp only: toy_register_run_def Let_def c1_def c2_def)
  have a: "addrFromNodeID (ev_eth toy_env) toy_node = Some (pubkey_to_address (ev_eth toy_env) (public_key (ev_eth toy_env) CHR ''k''))"
    using toy_addr by (simp add: toy_env_def) (simp add: toy_eth_def)
  have g: "crypto_sign (ev_eth toy_env) (node_digest toy_env toy_register) CHR ''k'' = Some (m_signature toy_register)"
    by (simp add: toy_env_def toy_eth_def toy_register_def)
  have t: "m_full_sync toy_register" "m_timestamp_ms toy_register = 1700000001000" "m_role toy_register = ''provider''"
    by (simp_all add: toy_register_def)
  have p: "\<not> modeProtected (s_mode (toy_settings\<lparr>s_mode := ''public''\<rparr>))" by (simp add: modeProtected_def) code_simp
  show ?thesis
    using register_reaches_directory [OF c1(1) c2 _ _ t(1) _ s(2) toy_eth_signs g a, where clock = "\<lambda>_. toy_now" and st = NewServer
        and conn = 1 and S = "toy_settings\<lparr>s_mode := ''public''\<rparr>" and st' = toy_register_run and remote = toy_remote]
      s(1) p r t c1(4)
    by (auto simp: int64_ok_def NewServer_def)
qed


text \<open>The frames a restarted server pushes to a node that only pings.\<close>

definition restart_frames :: "string \<Rightarrow> rv_msg list" where
  "restart_frames nid = [empty_msg\<lparr>m_v := 1, m_type := TypeAck\<rparr>, empty_msg\<lparr>m_v := 1, m_type := TypeNeedRegister, m_id := nid\<rparr>]"

lemma ping_fields [simp]: "m_id (ping_msg p) = hp_node_id p" "m_type (ping_msg p) = TypePing"
  by (simp_all add: ping_msg_def)

lemma heartbeat_bytes:
  assumes "SendHeartbeat marshal (Accepted k) (Some p) c = ((b, None), c1)" "\<not> ic_dialing c" "ic_conn c = None"
    "ic_hello_id c = hp_node_id p"
  shows "w_out (cc_w (last (ic_conns c1))) = sent_bytes marshal [hello_msg c, ping_msg p] \<and> hp_node_id p \<noteq> []"
proof -
  obtain c' where c': "writeFrame marshal (Accepted k) (ping_msg p) c = (None, c')" "c1 = c'\<lparr>ic_need_register := False\<rparr>"
    using assms(1) by (auto simp: SendHeartbeat_def split: prod.splits option.splits)
  obtain c0 where d: "dialAndHello marshal (Accepted k) c = (None, c0)"
    using c'(1) assms(3,4) by (auto simp: writeFrame_def ensureConn_def Let_def split: prod.splits option.splits)
  obtain w where c0: "c0 = c\<lparr>ic_conns := ic_conns c @ [w], ic_conn := Some (length (ic_conns c))\<rparr>" "ic_hello_id c \<noteq> []"
    using dial_bytes [OF d assms(2,3)] by blast
  then have "conn_write marshal (length (ic_conns c)) (ping_msg p) c0 = (None, c')"
    using c'(1) d assms(3,4) by (simp add: writeFrame_def ensureConn_def Let_def)
  from dial_write_bytes [OF d assms(2,3) this] show ?thesis using c'(2) c0(2) assms(4) by simp
qed

lemma reader_restart:
  assumes "\<forall>m\<in>set (restart_frames nid). survives marshal unmarshal m"
  shows "ic_need_register (reader_run unmarshal (sent_bytes marshal (restart_frames nid)) c)"
proof -
  have "ic_need_register (foldl (\<lambda>c m. reader_frame m c) c (restart_frames nid))"
    by (simp add: restart_frames_def reader_frame_def empty_msg_def)
  then show ?thesis using frames_of_sent [OF assms] by (simp add: reader_run_def)
qed

lemma reader_frame_inv: "client_inv marshal c \<Longrightarrow> client_inv marshal (reader_frame m c)"
  using step_effect [of marshal c "OpPushed m"] by (simp add: client_step_def)

lemma reader_run_inv: "client_inv marshal c \<Longrightarrow> client_inv marshal (reader_run unmarshal bytes c)"
proof -
  have "client_inv marshal c \<Longrightarrow> client_inv marshal (foldl (\<lambda>c m. reader_frame m c) c ms)" for ms
    by (induction ms arbitrary: c) (simp_all add: reader_frame_inv)
  then show "client_inv marshal c \<Longrightarrow> ?thesis" by (simp add: reader_run_def)
qed

text \<open>C16. The control plane heals after a restart of the server. A client, after any history, has lost its connection and
  sends a heartbeat that is signed well, which dials again; the restarted server, with an empty registry, reads those bytes and pushes a request
  to register; once the client has read what was pushed, its next successful heartbeat reports the request to the node, which then
  registers again.\<close>

theorem restart_asks_to_register:
  assumes "c = foldl (client_step marshal) (NewIsanndClient httpBase addr) ops" "\<not> ic_dialing c" "ic_conn c = None"
    "ic_hello_id c = hp_node_id p" "SendHeartbeat marshal (Accepted k) (Some p) c = ((b, None), c1)"
    "survives marshal unmarshal (hello_msg c)" "survives marshal unmarshal (ping_msg p)"
    "\<forall>m\<in>set (restart_frames (hp_node_id p)). survives marshal unmarshal m"
    "verifyPingSignature V (clock 1) (ping_msg p) = None"
    "st = handleControlConn V S unmarshal clock conn remote (w_out (cc_w (last (ic_conns c1)))) NewServer"
    "c2 = reader_run unmarshal (pushed_bytes marshal conn st) c1"
    "SendHeartbeat marshal net (Some p') c2 = ((b', None), c3)"
  shows "st_proxies st = [] \<and> b'"
proof -
  have i: "client_inv marshal c" unfolding assms(1) by (rule isannd.inv_run)
  have b: "w_out (cc_w (last (ic_conns c1))) = sent_bytes marshal [hello_msg c, ping_msg p]" "hp_node_id p \<noteq> []"
    using heartbeat_bytes [OF assms(5,2,3,4)] by auto
  have g: "good_hello (hello_msg c)" using b(2) assms(4) by (simp add: good_hello_def)
  have f: "mget (st_handlers NewServer) conn = None" "conn \<notin> set (st_closed NewServer)" "mget (st_proxies NewServer) x = None" for x
    by (simp_all add: NewServer_def)
  let ?cc = "hello_conn (clock 0) conn remote (hello_msg c)" and ?st = "controlHello (clock 0) conn remote (hello_msg c) NewServer"
  have own: "(ping_msg p)\<lparr>m_id := hp_node_id p\<rparr> = ping_msg p" by (simp add: ping_msg_def)
  have "st = controlEnd conn (handleFrame V S (clock 1) ?cc (ping_msg p) ?st)"
    unfolding assms(10) b(1) by (rule handle_two [OF f(1,2) g assms(6,7)])
  also have "handleFrame V S (clock 1) ?cc (ping_msg p) ?st =
      sendFrame ?cc (empty_msg\<lparr>m_v := 1, m_type := TypeNeedRegister, m_id := hp_node_id p\<rparr>) ?st"
    using assms(4,9) b(2) f(3) by (simp add: handleFrame_def applyPing_def Let_def own)
  finally have st: "st_out st = map (Pair conn) (restart_frames (hp_node_id p))" "st_proxies st = []"
    using controlHello_out [OF g, of "clock 0" conn remote NewServer]
    by (simp_all add: restart_frames_def) (simp_all add: NewServer_def)
  then have "pushed_bytes marshal conn st = sent_bytes marshal (restart_frames (hp_node_id p))"
    by (simp add: pushed_bytes_def restart_frames_def)
  then have "ic_need_register c2" using reader_restart [OF assms(8)] assms(11) by simp
  moreover have "client_inv marshal c2" unfolding assms(11) by (rule reader_run_inv) (use heartbeat_effect [OF i assms(5)] in simp)
  ultimately show ?thesis using heartbeat_effect [OF _ assms(12)] st(2) by auto
qed


definition toy_signed_ping :: heartbeat_ping where
  "toy_signed_ping = \<lparr>hp_node_id = toy_node, hp_role = ''provider'', hp_timestamp_ms = 1700000001000,
     hp_signature = CHR ''k'' # replicate 63 CHR ''k'' @ [CHR 0x01]\<rparr>"

definition toy_frames :: "rv_msg list" where
  "toy_frames = toy_first # ping_msg toy_signed_ping # restart_frames toy_node"

lemma toy_frames_survive: "m \<in> set toy_frames \<Longrightarrow> survives (book_marshal toy_frames) (book_unmarshal toy_frames) m"
proof (rule book_survives)
  show "distinct (map m_type toy_frames)" "m \<in> set toy_frames \<Longrightarrow> frame_ok (m_type m)"
    by (auto simp: toy_frames_def toy_first_def restart_frames_def frame_ok_def maxFrameSize_def)
qed

theorem restart_asks_to_register_witness:
  "\<exists>c c1 c2 c3 st. c = foldl (client_step (book_marshal toy_frames)) (NewIsanndClient [] []) [OpConnect Refused toy_node ''provider''] \<and>
     SendHeartbeat (book_marshal toy_frames) (Accepted None) (Some toy_signed_ping) c = ((False, None), c1) \<and>
     st = handleControlConn toy_env toy_settings (book_unmarshal toy_frames) (\<lambda>_. toy_now) 1 toy_remote
            (w_out (cc_w (last (ic_conns c1)))) NewServer \<and>
     c2 = reader_run (book_unmarshal toy_frames) (pushed_bytes (book_marshal toy_frames) 1 st) c1 \<and>
     SendHeartbeat (book_marshal toy_frames) Refused (Some toy_signed_ping) c2 = ((True, None), c3)"
proof -
  let ?M = "book_marshal toy_frames" and ?U = "book_unmarshal toy_frames" and ?p = toy_signed_ping
  let ?c = "foldl (client_step ?M) (NewIsanndClient [] []) [OpConnect Refused toy_node ''provider'']"
  have c: "?c = (NewIsanndClient [] [])\<lparr>ic_hello_id := toy_node, ic_hello_role := ''provider''\<rparr>"
    by (simp add: client_step_def Connect_def NewIsanndClient_def dialAndHello_def drop_conn_def)
  have h: "hello_msg ?c = toy_first" unfolding c by (simp add: hello_msg_def toy_first_def)
  have m: "?M toy_first = Some TypeHello" "?M (ping_msg ?p) = Some TypePing"
    by (simp_all add: book_marshal_def toy_frames_def toy_first_def)
  note defs = SendHeartbeat_def writeFrame_def ensureConn_def conn_write_def writeFrameTo_def do_write_def frameMaxSize_def Let_def
  obtain c1 where c1: "SendHeartbeat ?M (Accepted None) (Some ?p) ?c = ((False, None), c1)" "ic_conn c1 = Some 0" "ic_hello_id c1 = toy_node"
      "\<exists>w. ic_conns c1 = [w] \<and> w_left (cc_w w) = None"
    using m h unfolding c
    by (simp add: defs dialAndHello_def drop_conn_def NewIsanndClient_def toy_signed_ping_def)
  define st where "st = handleControlConn toy_env toy_settings ?U (\<lambda>_. toy_now) 1 toy_remote (w_out (cc_w (last (ic_conns c1)))) NewServer"
  define c2 where "c2 = reader_run ?U (pushed_bytes ?M 1 st) c1"
  have "ic_conn (foldl (\<lambda>c m. reader_frame m c) c1 ms) = ic_conn c1 \<and> ic_conns (foldl (\<lambda>c m. reader_frame m c) c1 ms) = ic_conns c1
      \<and> ic_hello_id (foldl (\<lambda>c m. reader_frame m c) c1 ms) = ic_hello_id c1" for ms
    by (induction ms rule: rev_induct) (simp_all add: reader_frame_def split: option.split)
  then have "ic_conn c2 = Some 0" "ic_hello_id c2 = toy_node" "\<exists>w. ic_conns c2 = [w] \<and> w_left (cc_w w) = None"
    using c1 by (simp_all add: c2_def reader_run_def)
  then obtain b' c3 where c3: "SendHeartbeat ?M Refused (Some ?p) c2 = ((b', None), c3)"
    using m by (auto simp: defs toy_signed_ping_def)
  have "clock_skew 1700000000000 1700000001000 = 1000" by (simp add: clock_skew_def wrap64_def)
  then have v: "verifyPingSignature toy_env toy_now (ping_msg ?p) = None"
    using toy_addr by (simp add: verifyPingSignature_def check_signer_None toy_env_def toy_eth_def toy_signed_ping_def ping_msg_def)
  have s: "survives ?M ?U (hello_msg ?c)" "survives ?M ?U (ping_msg ?p)" "\<forall>m\<in>set (restart_frames (hp_node_id ?p)). survives ?M ?U m"
    unfolding h using toy_frames_survive by (simp_all add: toy_frames_def toy_signed_ping_def)
  have q: "\<not> ic_dialing ?c" "ic_conn ?c = None" "ic_hello_id ?c = hp_node_id ?p"
    unfolding c by (simp_all add: NewIsanndClient_def toy_signed_ping_def)
  have b': b' using restart_asks_to_register [OF refl q c1(1) s v [folded One_nat_def] st_def c2_def c3] by blast
  show ?thesis
    by (intro exI [of _ ?c] exI [of _ c1] exI [of _ c2] exI [of _ c3] exI [of _ st] conjI refl c1(1) st_def c2_def)
      (use c3 b' in simp)
qed

end
