(* ===== verification/Go_Path.thy ===== *)
theory Go_Path
  imports Go_Prelude
begin

text \<open>
  The functions of Go's \<^verbatim>\<open>path/filepath\<close> on Unix that the recipe parser uses to find included
  files: \<^verbatim>\<open>Clean\<close>, \<^verbatim>\<open>Join\<close>, \<^verbatim>\<open>IsAbs\<close>, \<^verbatim>\<open>Abs\<close> (relative to a working directory) and \<^verbatim>\<open>Dir\<close>. The
  lemmas show that an absolute path is in normal form: rooted, and without empty, \<^verbatim>\<open>.\<close> or \<^verbatim>\<open>..\<close>
  components, so that two spellings of one path are the same key.
\<close>

section \<open>Definitions\<close>

text \<open>One component added to the reversed list of the components kept so far.\<close>

definition clean_step :: "bool \<Rightarrow> string list \<Rightarrow> string \<Rightarrow> string list" where [go_defs]:
  "clean_step rooted acc c =
     (if c = [] \<or> c = ''.'' then acc
      else if c = ''..'' then
        (case acc of [] \<Rightarrow> if rooted then [] else [''..'']
         | x # xs \<Rightarrow> if x = ''..'' then ''..'' # acc else xs)
      else c # acc)"

definition clean_parts :: "bool \<Rightarrow> string \<Rightarrow> string list" where [go_defs]:
  "clean_parts rooted s = rev (foldl (clean_step rooted) [] (split s CHR ''/''))"

definition is_abs :: "string \<Rightarrow> bool" where [go_defs]:
  "is_abs p \<longleftrightarrow> has_prefix p ''/''"

definition clean_path :: "string \<Rightarrow> string" where [go_defs]:
  "clean_path p =
     (let out = join ''/'' (clean_parts (is_abs p) p) in
      if is_abs p then CHR ''/'' # out else if out = [] then ''.'' else out)"

definition join_path :: "string \<Rightarrow> string \<Rightarrow> string" where [go_defs]:
  "join_path a b =
     (if a \<noteq> [] then clean_path (a @ ''/'' @ b) else if b \<noteq> [] then clean_path b else [])"

text \<open>\<^verbatim>\<open>filepath.Abs\<close> in the working directory \<open>cwd\<close>.\<close>

definition abs_path :: "string \<Rightarrow> string \<Rightarrow> string" where [go_defs]:
  "abs_path cwd p = (if is_abs p then clean_path p else join_path cwd p)"

text \<open>\<^verbatim>\<open>filepath.Dir\<close>: everything up to the last slash, cleaned.\<close>

definition dir_path :: "string \<Rightarrow> string" where [go_defs]:
  "dir_path p = clean_path (rev (dropWhile (\<lambda>c. c \<noteq> CHR ''/'') (rev p)))"


section \<open>Absolute paths are in normal form\<close>

definition plain_part :: "string \<Rightarrow> bool" where
  "plain_part c \<longleftrightarrow> c \<noteq> [] \<and> c \<noteq> ''.'' \<and> c \<noteq> ''..'' \<and> CHR ''/'' \<notin> set c"

lemma clean_step_plain:
  "list_all plain_part acc \<Longrightarrow> CHR ''/'' \<notin> set c \<Longrightarrow> list_all plain_part (clean_step True acc c)"
  by (auto simp: clean_step_def plain_part_def split: list.splits)

lemma clean_parts_plain: "list_all plain_part (clean_parts True s)"
proof -
  have "list_all plain_part (foldl (clean_step True) acc cs)"
    if "list_all plain_part acc" "\<forall>c\<in>set cs. CHR ''/'' \<notin> set c" for acc cs
    using that by (induction cs arbitrary: acc) (auto intro: clean_step_plain)
  from this [of "[]" "split s CHR ''/''"] show ?thesis
    using split_pieces by (auto simp: clean_parts_def list_all_rev)
qed

text \<open>Cleaning plain components keeps them.\<close>

lemma clean_plain_fold: "list_all plain_part cs \<Longrightarrow> foldl (clean_step r) acc cs = rev cs @ acc"
  by (induction cs arbitrary: acc) (auto simp: clean_step_def plain_part_def)

lemma clean_abs_normal:
  assumes "list_all plain_part cs"
  shows "clean_path (CHR ''/'' # join ''/'' cs) = CHR ''/'' # join ''/'' cs"
proof -
  have "split (CHR ''/'' # join ''/'' cs) CHR ''/'' = [] # split (join ''/'' cs) CHR ''/''"
    using split_append [of "CHR ''/''" "[]"] by simp
  moreover have "foldl (clean_step True) [] (split (join ''/'' cs) CHR ''/'') = rev cs"
  proof (cases "cs = []")
    case True
    then show ?thesis by (simp add: split_none clean_step_def)
  next
    case False
    with assms show ?thesis
      by (subst split_join) (auto simp: plain_part_def list_all_iff clean_plain_fold)
  qed
  ultimately show ?thesis
    by (simp add: clean_path_def is_abs_def has_prefix_def clean_parts_def clean_step_def)
qed

lemma clean_path_abs:
  "is_abs p \<Longrightarrow> \<exists>cs. list_all plain_part cs \<and> clean_path p = CHR ''/'' # join ''/'' cs"
  using clean_parts_plain [of p] by (auto simp: clean_path_def Let_def)

lemma abs_path_normal:
  assumes "is_abs cwd"
  shows "\<exists>cs. list_all plain_part cs \<and> abs_path cwd p = CHR ''/'' # join ''/'' cs"
proof (cases "is_abs p")
  case True
  then show ?thesis using clean_path_abs by (simp add: abs_path_def)
next
  case False
  have "is_abs (cwd @ ''/'' @ p)" "cwd \<noteq> []" using assms by (cases cwd; auto simp: is_abs_def has_prefix_def)+
  with False show ?thesis using clean_path_abs by (simp add: abs_path_def join_path_def)
qed

text \<open>Making an absolute path absolute again changes nothing, in every working directory.\<close>

lemma abs_path_idem:
  assumes "is_abs cwd"
  shows "abs_path cwd' (abs_path cwd p) = abs_path cwd p"
proof -
  from abs_path_normal [OF assms, of p] obtain cs where
    "list_all plain_part cs" "abs_path cwd p = CHR ''/'' # join ''/'' cs" by blast
  then show ?thesis by (simp add: abs_path_def is_abs_def has_prefix_def clean_abs_normal)
qed

end
