(* ===== verification/Recipe_Parser.thy ===== *)
theory Recipe_Parser
  imports Complex_Main Go_Prelude Go_Path
begin

text \<open>
  The recipe parser, \<^verbatim>\<open>pkg/recipe/parser.go\<close>: the version pragma, the doc string, the
  \<^verbatim>\<open>requires:\<close> block, the tokenizer with its three terminators, the check that control
  markers form blocks, and the resolution of includes.

  A source is a byte string. The files that \<^verbatim>\<open>os.ReadFile\<close> can read are a finite map from absolute
  paths to contents, which does not change during a parse; the working directory and
  \<^verbatim>\<open>strconv.ParseFloat\<close> are fields of the environment. An error is its position and its kind,
  with the texts that its message quotes.
\<close>

section \<open>Data\<close>

datatype control = Normal | CIf | CElseIf | CElse | CEnd

record statement =
  stm_line :: nat
  stm_argv :: "string list"
  stm_capture :: string
  stm_src :: string
  stm_control :: control
  stm_cond :: "string list"

datatype float64 = Finite rat | PosInf | NegInf | NotANumber

record requires =
  req_vram :: float64
  req_gpu :: "string list"

record recipe =
  rc_path :: string
  rc_min_version :: string
  rc_meta :: "(string, string) gomap"
  rc_requires :: "requires option"
  rc_statements :: "statement list"

datatype parse_fault =
    EmptyRecipe | FirstLine string | MalformedPragma string | NotSemver string
  | RequiresItem string | InvalidVRAM string | RequiresV2 string | UnknownRequires string
  | EndTerminates "string list" | UnterminatedQuote | NotTerminated
  | NeedsBegin string | BeginWithoutHeader | IfNeedsCond | ElseIfNeedsCond
  | AfterElse string | BeginMustFollow string
  | OutsideIf control | SecondElse control | EndWithoutIf | NotClosed
  | IncludeArity | IncludeCycle string | IncludeUnreadable string | IncludeHasRequires string nat

datatype parse_error = ParseError (err_path: string) (err_line: nat) (err_fault: parse_fault)

record parse_env =
  pe_cwd :: string
  pe_files :: "(string, string) gomap"
  pe_parse_float :: "string \<Rightarrow> float64 option"

text \<open>The error monad of the parser: \<^const>\<open>Inl\<close> is the returned error.\<close>

definition and_then :: "'err + 'v \<Rightarrow> ('v \<Rightarrow> 'err + 'w) \<Rightarrow> 'err + 'w" where
  "and_then r f = (case r of Inl e \<Rightarrow> Inl e | Inr a \<Rightarrow> f a)"

lemma and_then_simps [simp]: "and_then (Inl e) f = Inl e" "and_then (Inr a) f = f a"
  by (simp_all add: and_then_def)

lemma and_then_Inr: "and_then r f = Inr b \<longleftrightarrow> (\<exists>a. r = Inr a \<and> f a = Inr b)"
  by (cases r) auto

lemma and_then_cong [fundef_cong]:
  "r = r' \<Longrightarrow> (\<And>a. r' = Inr a \<Longrightarrow> f a = f' a) \<Longrightarrow> and_then r f = and_then r' f'"
  by (cases r') auto


section \<open>Lines and the version pragma\<close>

fun crlf_to_lf :: "string \<Rightarrow> string" where
  "crlf_to_lf (a # b # s) =
     (if a = CHR 0x0D \<and> b = CHR 0x0A then CHR 0x0A # crlf_to_lf s else a # crlf_to_lf (b # s))"
| "crlf_to_lf s = s"

definition source_lines :: "string \<Rightarrow> string list" where
  "source_lines src = split (crlf_to_lf src) CHR 0x0A"

text \<open>\<^verbatim>\<open>strings.Index\<close>.\<close>

fun index_str :: "string \<Rightarrow> string \<Rightarrow> nat option" where
  "index_str [] p = (if p = [] then Some 0 else None)"
| "index_str (c # s) p = (if has_prefix (c # s) p then Some 0 else map_option Suc (index_str s p))"

definition looksLikeSemver :: "string \<Rightarrow> bool" where
  "looksLikeSemver s =
     (let parts = split (trim_prefix s ''v'') CHR ''.'' in
      1 \<le> length parts \<and> length parts \<le> 4 \<and> list_all (\<lambda>p. p \<noteq> [] \<and> parse_int p \<noteq> None) parts)"

definition parsePragma :: "string \<Rightarrow> string list \<Rightarrow> parse_error + string" where
  "parsePragma path lns =
     (case lns of [] \<Rightarrow> Inl (ParseError path 0 EmptyRecipe)
      | l0 # _ \<Rightarrow>
        let first = trim_space l0 in
        if first = [] \<or> \<not> has_prefix first ''#pragma'' then Inl (ParseError path 1 (FirstLine l0))
        else
          let rest = trim_space (trim_prefix first ''#pragma'');
              rest = (case index_str rest '' #'' of Some h \<Rightarrow> trim_space (take h rest) | None \<Rightarrow> rest)
          in (case Go_Prelude.fields rest of
                isann # ver # _ \<Rightarrow>
                  if isann \<noteq> ''ISANN'' then Inl (ParseError path 1 (MalformedPragma first))
                  else if \<not> looksLikeSemver ver then Inl (ParseError path 1 (NotSemver ver))
                  else Inr ver
              | _ \<Rightarrow> Inl (ParseError path 1 (MalformedPragma first))))"

text \<open>
  The value that \<^verbatim>\<open>strconv.Atoi\<close> returns beside its error: 0 for a malformed number, the nearest
  bound for one out of range. The digits are read until the first one that exceeds 64 bits.
\<close>

fun scan_uint :: "nat \<Rightarrow> string \<Rightarrow> nat option" where
  "scan_uint acc [] = Some acc"
| "scan_uint acc (c # cs) =
     (case digit_of c of None \<Rightarrow> None
      | Some d \<Rightarrow> if 10 * acc + d \<ge> 2 ^ 64 then Some (2 ^ 64 - 1) else scan_uint (10 * acc + d) cs)"

definition atoi_value :: "string \<Rightarrow> int" where
  "atoi_value s =
     (let (neg, ds) = (case s of [] \<Rightarrow> (False, [])
                        | c # cs \<Rightarrow> if c = CHR ''-'' then (True, cs)
                                    else if c = CHR ''+'' then (False, cs) else (False, s))
      in if ds = [] then 0
         else case scan_uint 0 ds of None \<Rightarrow> 0
              | Some n \<Rightarrow> if neg then max (- (2 ^ 63)) (- int n) else min (2 ^ 63 - 1) (int n))"

definition splitVerNums :: "string \<Rightarrow> int list" where
  "splitVerNums s = map atoi_value (split (trim_prefix s ''v'') CHR ''.'')"

text \<open>The loop of \<^verbatim>\<open>CompareSemver\<close>: the missing components of the shorter version are zero.\<close>

fun compare_nums :: "int list \<Rightarrow> int list \<Rightarrow> int" where
  "compare_nums [] [] = 0"
| "compare_nums (x # xs) [] = (if x < 0 then -1 else if x > 0 then 1 else compare_nums xs [])"
| "compare_nums [] (y # ys) = (if 0 < y then -1 else if 0 > y then 1 else compare_nums [] ys)"
| "compare_nums (x # xs) (y # ys) = (if x < y then -1 else if x > y then 1 else compare_nums xs ys)"

definition CompareSemver :: "string \<Rightarrow> string \<Rightarrow> int" where
  "CompareSemver a b = compare_nums (splitVerNums a) (splitVerNums b)"


section \<open>The doc string and the requires block\<close>

definition ident_char :: "bool \<Rightarrow> char \<Rightarrow> bool" where
  "ident_char first c =
     (let n = of_char c :: nat in
      c = CHR ''_'' \<or> (97 \<le> n \<and> n \<le> 122) \<or> (65 \<le> n \<and> n \<le> 90) \<or> (\<not> first \<and> 48 \<le> n \<and> n \<le> 57))"

definition isVarName :: "string \<Rightarrow> bool" where
  "isVarName s = (case s of [] \<Rightarrow> False | c # cs \<Rightarrow> ident_char True c \<and> list_all (ident_char False) cs)"

definition isDocKey :: "string \<Rightarrow> bool" where
  "isDocKey s = (case s of [] \<Rightarrow> False
     | c # cs \<Rightarrow> length s \<le> 32 \<and> (ident_char True c \<or> c = CHR ''-'')
                 \<and> list_all (\<lambda>c. ident_char False c \<or> c = CHR ''-'') cs)"

fun doc_lines :: "string list \<Rightarrow> (string, string) gomap \<Rightarrow> (string, string) gomap" where
  "doc_lines [] out = out"
| "doc_lines (raw # ls) out =
     (let t = trim_space raw in
      if t = [] then doc_lines ls out
      else if \<not> has_prefix t ''#'' then out
      else if t = ''# requires:'' then out
      else
        let body = trim_space (trim_prefix t ''#'') in
        if body = [] then doc_lines ls out
        else
          let (key, val, ok) = cut body CHR '':'' in
          if \<not> ok then doc_lines ls out
          else
            let key = trim_space key; val = trim_space val in
            if key = [] \<or> val = [] \<or> \<not> isDocKey key then doc_lines ls out
            else doc_lines ls (mput key val out))"

definition parseDocString :: "string list \<Rightarrow> (string, string) gomap" where
  "parseDocString lns = doc_lines lns []"

definition parseVRAM :: "(string \<Rightarrow> float64 option) \<Rightarrow> string \<Rightarrow> parse_fault + float64" where
  "parseVRAM pf s =
     (let v = trim_space (trim_suffix (trim_space s) ''+'');
          low = trim_space (trim_suffix (trim_suffix (to_lower v) ''gb'') ''g'')
      in case pf low of None \<Rightarrow> Inl (InvalidVRAM s) | Some gb \<Rightarrow> Inr gb)"

definition parseAlternation :: "string \<Rightarrow> string list" where
  "parseAlternation s = filter (\<lambda>p. p \<noteq> []) (map trim_space (split s CHR ''|''))"

text \<open>The first line that is neither blank nor a comment, or the header of the block.\<close>

fun seek_requires :: "nat \<Rightarrow> string list \<Rightarrow> nat \<times> bool" where
  "seek_requires i [] = (i, False)"
| "seek_requires i (l # ls) =
     (let t = trim_space l in
      if t = [] then seek_requires (Suc i) ls
      else if t = ''requires:'' \<or> t = ''# requires:'' then (i, True)
      else if has_prefix t ''#'' then seek_requires (Suc i) ls
      else (i, False))"

fun requires_items ::
  "parse_env \<Rightarrow> string \<Rightarrow> nat \<Rightarrow> string list \<Rightarrow> requires \<Rightarrow> parse_error + nat \<times> requires" where
  "requires_items env path i [] req = Inr (i, req)"
| "requires_items env path i (raw # ls) req =
     (if trim_space raw = [] then Inr (Suc i, req)
      else
        let item = trim_space (trim_prefix (trim_space raw) ''#'') in
        if item = [] then requires_items env path (Suc i) ls req
        else
          let (key, val, ok) = cut item CHR '':'' in
          if \<not> ok then Inl (ParseError path (i + 1) (RequiresItem raw))
          else
            let key = trim_space key; val = trim_space val in
            if key = ''vram'' then
              (case parseVRAM (pe_parse_float env) val of
                 Inl f \<Rightarrow> Inl (ParseError path (i + 1) f)
               | Inr gb \<Rightarrow> requires_items env path (Suc i) ls (req\<lparr>req_vram := gb\<rparr>))
            else if key = ''gpu'' then
              requires_items env path (Suc i) ls (req\<lparr>req_gpu := parseAlternation val\<rparr>)
            else if key \<in> {''os'', ''docker'', ''engines_installed'', ''engines_running''} then
              Inl (ParseError path (i + 1) (RequiresV2 key))
            else Inl (ParseError path (i + 1) (UnknownRequires key)))"

definition parseRequires :: "parse_env \<Rightarrow> string \<Rightarrow> string list \<Rightarrow> parse_error + nat \<times> requires option" where
  "parseRequires env path lns =
     (let (i, found) = seek_requires 0 lns in
      if \<not> found then Inr (i, None)
      else and_then (requires_items env path (Suc i) (drop (Suc i) lns) \<lparr>req_vram = Finite 0, req_gpu = []\<rparr>)
             (\<lambda>(b, req). Inr (b, Some req)))"


section \<open>The tokenizer\<close>

datatype termKind = TermSemi | TermBegin | TermEnd

record lexer =
  lx_out :: "statement list"
  lx_argv :: "string list"
  lx_tok :: string
  lx_inTok :: bool
  lx_tokQuoted :: bool
  lx_quote :: "char option"
  lx_stmtLine :: nat

definition lexer_start :: lexer where
  "lexer_start = \<lparr>lx_out = [], lx_argv = [], lx_tok = [], lx_inTok = False, lx_tokQuoted = False,
     lx_quote = None, lx_stmtLine = 0\<rparr>"

definition marker :: "string \<Rightarrow> nat \<Rightarrow> control \<Rightarrow> string list \<Rightarrow> statement" where
  "marker path line c cond = \<lparr>stm_line = line, stm_argv = [], stm_capture = [], stm_src = path,
     stm_control = c, stm_cond = cond\<rparr>"

definition normalStatement :: "string \<Rightarrow> nat \<Rightarrow> string list \<Rightarrow> parse_error + statement" where
  "normalStatement path line argv =
     (if argv ! 0 = ''IF'' \<or> argv ! 0 = ''ELSE'' then Inl (ParseError path line (NeedsBegin (argv ! 0)))
      else
        let (capture, argv) =
          (if length argv \<ge> 3 \<and> argv ! 1 = '':='' \<and> isVarName (argv ! 0) then (argv ! 0, drop 2 argv)
           else ([], argv))
        in Inr \<lparr>stm_line = line, stm_argv = argv, stm_capture = capture, stm_src = path,
                stm_control = Normal, stm_cond = []\<rparr>)"

definition headerStatement :: "string \<Rightarrow> nat \<Rightarrow> string list \<Rightarrow> parse_error + statement" where
  "headerStatement path line argv =
     (case argv of [] \<Rightarrow> Inl (ParseError path line BeginWithoutHeader)
      | w # cond \<Rightarrow>
        if w = ''IF'' then
          (if cond = [] then Inl (ParseError path line IfNeedsCond) else Inr (marker path line CIf cond))
        else if w = ''ELSE'' then
          (case cond of [] \<Rightarrow> Inr (marker path line CElse [])
           | w2 # cond2 \<Rightarrow>
             if w2 = ''IF'' then
               (if cond2 = [] then Inl (ParseError path line ElseIfNeedsCond)
                else Inr (marker path line CElseIf cond2))
             else Inl (ParseError path line (AfterElse w2)))
        else Inl (ParseError path line (BeginMustFollow w)))"

definition emit :: "string \<Rightarrow> termKind \<Rightarrow> lexer \<Rightarrow> parse_error + lexer" where
  "emit path term lx =
     and_then
       (case term of
          TermBegin \<Rightarrow> and_then (headerStatement path (lx_stmtLine lx) (lx_argv lx)) (\<lambda>st. Inr [st])
        | TermEnd \<Rightarrow>
            if lx_argv lx \<noteq> [] then Inl (ParseError path (lx_stmtLine lx) (EndTerminates (lx_argv lx)))
            else Inr [marker path (lx_stmtLine lx) CEnd []]
        | TermSemi \<Rightarrow>
            if lx_argv lx \<noteq> [] then and_then (normalStatement path (lx_stmtLine lx) (lx_argv lx)) (\<lambda>st. Inr [st])
            else Inr [])
       (\<lambda>sts. Inr (lx\<lparr>lx_out := lx_out lx @ sts, lx_argv := []\<rparr>))"

definition flushTok :: "string \<Rightarrow> lexer \<Rightarrow> parse_error + lexer" where
  "flushTok path lx =
     (if \<not> lx_inTok lx then Inr lx
      else
        let t = lx_tok lx; wasQuoted = lx_tokQuoted lx;
            lx = lx\<lparr>lx_tok := [], lx_inTok := False, lx_tokQuoted := False\<rparr>
        in if \<not> wasQuoted \<and> t = ''BEGIN'' then emit path TermBegin lx
           else if \<not> wasQuoted \<and> t = ''END'' then emit path TermEnd lx
           else Inr (lx\<lparr>lx_argv := lx_argv lx @ [t]\<rparr>))"

definition startTok :: "nat \<Rightarrow> lexer \<Rightarrow> lexer" where
  "startTok lineNo lx =
     (if lx_inTok lx then lx
      else if lx_argv lx = [] then lx\<lparr>lx_inTok := True, lx_stmtLine := lineNo\<rparr>
      else lx\<lparr>lx_inTok := True\<rparr>)"

definition writeByte :: "char \<Rightarrow> lexer \<Rightarrow> lexer" where
  "writeByte c lx = lx\<lparr>lx_tok := lx_tok lx @ [c]\<rparr>"

text \<open>One byte outside a comment.\<close>

definition lex_char :: "string \<Rightarrow> nat \<Rightarrow> char \<Rightarrow> lexer \<Rightarrow> parse_error + lexer" where
  "lex_char path lineNo ch lx =
     (case lx_quote lx of
        Some q \<Rightarrow> Inr (if ch = q then lx\<lparr>lx_quote := None\<rparr> else writeByte ch lx)
      | None \<Rightarrow>
          if ch = CHR '' '' \<or> ch = CHR 0x09 then flushTok path lx
          else if ch = CHR '';'' then and_then (flushTok path lx) (emit path TermSemi)
          else if ch = CHR 0x22 \<or> ch = CHR 0x27 then
            Inr ((startTok lineNo lx)\<lparr>lx_tokQuoted := True, lx_quote := Some ch\<rparr>)
          else Inr (writeByte ch (startTok lineNo lx)))"

fun lex_line :: "string \<Rightarrow> nat \<Rightarrow> string \<Rightarrow> lexer \<Rightarrow> parse_error + lexer" where
  "lex_line path lineNo [] lx = Inr lx"
| "lex_line path lineNo (ch # cs) lx =
     (if lx_quote lx = None \<and> ch = CHR ''#'' then Inr lx
      else and_then (lex_char path lineNo ch lx) (lex_line path lineNo cs))"

definition end_line :: "string \<Rightarrow> lexer \<Rightarrow> parse_error + lexer" where
  "end_line path lx = (if lx_quote lx \<noteq> None then Inr (writeByte CHR 0x0A lx) else flushTok path lx)"

fun lex_lines :: "string \<Rightarrow> nat \<Rightarrow> string list \<Rightarrow> lexer \<Rightarrow> parse_error + lexer" where
  "lex_lines path lineNo [] lx = Inr lx"
| "lex_lines path lineNo (l # ls) lx =
     and_then (and_then (lex_line path lineNo l lx) (end_line path)) (lex_lines path (Suc lineNo) ls)"


section \<open>Control blocks\<close>

text \<open>The stack holds one frame per open IF, the innermost first: its line and whether ELSE was seen.\<close>

fun check_markers :: "string \<Rightarrow> statement list \<Rightarrow> (nat \<times> bool) list \<Rightarrow> parse_error + (nat \<times> bool) list" where
  "check_markers path [] stack = Inr stack"
| "check_markers path (st # sts) stack =
     (case stm_control st of
        Normal \<Rightarrow> check_markers path sts stack
      | CIf \<Rightarrow> check_markers path sts ((stm_line st, False) # stack)
      | CEnd \<Rightarrow> (case stack of [] \<Rightarrow> Inl (ParseError path (stm_line st) EndWithoutIf)
                 | _ # stack' \<Rightarrow> check_markers path sts stack')
      | c \<Rightarrow> (case stack of [] \<Rightarrow> Inl (ParseError path (stm_line st) (OutsideIf c))
              | (l, sawElse) # stack' \<Rightarrow>
                if sawElse then Inl (ParseError path (stm_line st) (SecondElse c))
                else check_markers path sts ((l, c = CElse) # stack')))"

definition validateControlFlow :: "string \<Rightarrow> statement list \<Rightarrow> parse_error option" where
  "validateControlFlow path sts =
     (case check_markers path sts [] of
        Inl e \<Rightarrow> Some e
      | Inr [] \<Rightarrow> None
      | Inr ((l, _) # _) \<Rightarrow> Some (ParseError path l NotClosed))"

definition parseStatements :: "string \<Rightarrow> string list \<Rightarrow> nat \<Rightarrow> parse_error + statement list" where
  "parseStatements path lns start =
     and_then (lex_lines path (start + 1) (drop start lns) lexer_start) (\<lambda>lx.
       if lx_quote lx \<noteq> None then Inl (ParseError path (lx_stmtLine lx) UnterminatedQuote)
       else and_then (flushTok path lx) (\<lambda>lx.
         if lx_argv lx \<noteq> [] then Inl (ParseError path (lx_stmtLine lx) NotTerminated)
         else (case validateControlFlow path (lx_out lx) of Some e \<Rightarrow> Inl e | None \<Rightarrow> Inr (lx_out lx))))"


section \<open>Files and includes\<close>

definition parseFile :: "parse_env \<Rightarrow> string \<Rightarrow> string \<Rightarrow> parse_error + recipe" where
  "parseFile env path src =
     (let lns = source_lines src in
      and_then (parsePragma path lns) (\<lambda>minVer.
      and_then (parseRequires env path lns) (\<lambda>(bodyStart, req).
      and_then (parseStatements path lns bodyStart) (\<lambda>stmts.
        Inr \<lparr>rc_path = path, rc_min_version = minVer, rc_meta = parseDocString lns,
             rc_requires = req, rc_statements = stmts\<rparr>))))"

definition is_include :: "statement \<Rightarrow> bool" where
  "is_include st = (case stm_argv st of [] \<Rightarrow> False | a # _ \<Rightarrow> a = ''include'')"

text \<open>The absolute path that an include statement names.\<close>

definition include_target :: "parse_env \<Rightarrow> string \<Rightarrow> string \<Rightarrow> string" where
  "include_target env baseDir t =
     abs_path (pe_cwd env) (if is_abs t then t else join_path baseDir t)"

text \<open>Everything an include statement does before the recursive call: the file's path and statements.\<close>

definition open_include ::
  "parse_env \<Rightarrow> string \<Rightarrow> string list \<Rightarrow> statement \<Rightarrow> parse_error + string \<times> statement list" where
  "open_include env baseDir chain st =
     (if length (stm_argv st) \<noteq> 2 then Inl (ParseError (stm_src st) (stm_line st) IncludeArity)
      else
        let abs = include_target env baseDir (stm_argv st ! 1) in
        if abs \<in> set chain then Inl (ParseError (stm_src st) (stm_line st) (IncludeCycle abs))
        else
          (case mget (pe_files env) abs of
             None \<Rightarrow> Inl (ParseError (stm_src st) (stm_line st) (IncludeUnreadable (stm_argv st ! 1)))
           | Some data \<Rightarrow>
             and_then (parseFile env abs data) (\<lambda>inc.
               if rc_requires inc \<noteq> None then
                 Inl (ParseError abs 0 (IncludeHasRequires (stm_src st) (stm_line st)))
               else Inr (abs, rc_statements inc))))"

lemma open_include_new:
  "open_include env baseDir chain st = Inr (f, body) \<Longrightarrow> f \<in> set (mkeys (pe_files env)) - set chain"
  by (auto simp: open_include_def Let_def and_then_Inr split: if_splits option.splits
      dest!: map_of_SomeD intro: rev_image_eqI)

text \<open>
  The recursion ends because every nested file is a readable one that is not on the chain of
  open includes.
\<close>

function resolveIncludes ::
  "parse_env \<Rightarrow> statement list \<Rightarrow> string \<Rightarrow> string list \<Rightarrow> parse_error + statement list" where
  "resolveIncludes env [] baseDir chain = Inr []"
| "resolveIncludes env (st # sts) baseDir chain =
     (if \<not> is_include st then
        and_then (resolveIncludes env sts baseDir chain) (\<lambda>out. Inr (st # out))
      else
        and_then (open_include env baseDir chain st) (\<lambda>inc.
        and_then (resolveIncludes env (snd inc) (dir_path (fst inc)) (fst inc # chain)) (\<lambda>sub.
        and_then (resolveIncludes env sts baseDir chain) (\<lambda>out. Inr (sub @ out)))))"
  by pat_completeness auto

termination
proof (relation "measures [\<lambda>(env, sts, _, chain). card (set (mkeys (pe_files env)) - set chain),
                           \<lambda>(_, sts, _, _). length sts]", goal_cases)
  case (3 env st sts baseDir chain inc)
  obtain f body where inc: "inc = (f, body)" by (cases inc)
  have "f \<in> set (mkeys (pe_files env)) - set chain"
    using 3 open_include_new unfolding inc by blast
  then have "card (set (mkeys (pe_files env)) - set (f # chain)) < card (set (mkeys (pe_files env)) - set chain)"
    by (intro psubset_card_mono) auto
  then show ?case by (simp add: inc)
qed auto

definition Parse :: "parse_env \<Rightarrow> string \<Rightarrow> string \<Rightarrow> parse_error + recipe" where
  "Parse env path src =
     and_then (parseFile env path src) (\<lambda>rc.
       let abs = abs_path (pe_cwd env) path in
       and_then (resolveIncludes env (rc_statements rc) (dir_path abs) [abs]) (\<lambda>stmts.
         Inr (rc\<lparr>rc_statements := stmts\<rparr>)))"


section \<open>What a parsed recipe looks like\<close>

text \<open>
  The shape of a statement: markers carry a condition exactly when they need one, commands are
  not empty, and what looks like a header or a capture is one.
\<close>

definition wf_stmt :: "statement \<Rightarrow> bool" where
  "wf_stmt st \<longleftrightarrow>
     (if stm_control st = Normal
      then stm_argv st \<noteq> [] \<and> stm_cond st = []
           \<and> (if stm_capture st = []
              then stm_argv st ! 0 \<notin> {''IF'', ''ELSE''}
                   \<and> \<not> (3 \<le> length (stm_argv st) \<and> stm_argv st ! 1 = '':='' \<and> isVarName (stm_argv st ! 0))
              else isVarName (stm_capture st) \<and> stm_capture st \<notin> {''IF'', ''ELSE''})
      else stm_argv st = [] \<and> stm_capture st = []
           \<and> (stm_cond st \<noteq> [] \<longleftrightarrow> stm_control st = CIf \<or> stm_control st = CElseIf))"

definition wf_out :: "lexer \<Rightarrow> bool" where
  "wf_out lx \<longleftrightarrow> list_all wf_stmt (lx_out lx)"

lemma wf_marker [simp]:
  "wf_stmt (marker path l c cond) \<longleftrightarrow> c \<noteq> Normal \<and> (cond \<noteq> [] \<longleftrightarrow> c = CIf \<or> c = CElseIf)"
  by (auto simp: wf_stmt_def marker_def)

lemma isVarName_Nil [simp]: "\<not> isVarName []"
  by (simp add: isVarName_def)

lemma normalStatement_wf: "normalStatement path l argv = Inr st \<Longrightarrow> argv \<noteq> [] \<Longrightarrow> wf_stmt st"
  by (auto simp: normalStatement_def wf_stmt_def Let_def split: if_splits)

lemma headerStatement_wf: "headerStatement path l argv = Inr st \<Longrightarrow> wf_stmt st"
  by (auto simp: headerStatement_def split: list.splits if_splits)

lemma emit_wf: "emit path k lx = Inr lx' \<Longrightarrow> wf_out lx \<Longrightarrow> wf_out lx'"
  by (auto simp: emit_def and_then_Inr wf_out_def split: termKind.splits if_splits
      dest: normalStatement_wf headerStatement_wf)

lemma flushTok_wf: "flushTok path lx = Inr lx' \<Longrightarrow> wf_out lx \<Longrightarrow> wf_out lx'"
  by (auto simp: flushTok_def Let_def wf_out_def split: if_splits dest: emit_wf [unfolded wf_out_def])

lemma lex_char_wf: "lex_char path n c lx = Inr lx' \<Longrightarrow> wf_out lx \<Longrightarrow> wf_out lx'"
  by (auto simp: lex_char_def and_then_Inr startTok_def writeByte_def wf_out_def
      split: option.splits if_splits
      dest: emit_wf [unfolded wf_out_def] flushTok_wf [unfolded wf_out_def])

lemma lex_line_wf: "lex_line path n cs lx = Inr lx' \<Longrightarrow> wf_out lx \<Longrightarrow> wf_out lx'"
proof (induction cs arbitrary: lx)
  case (Cons c cs)
  then show ?case by (auto simp: and_then_Inr split: if_splits dest: lex_char_wf)
qed simp

lemma end_line_wf: "end_line path lx = Inr lx' \<Longrightarrow> wf_out lx \<Longrightarrow> wf_out lx'"
  by (auto simp: end_line_def writeByte_def wf_out_def split: if_splits dest: flushTok_wf [unfolded wf_out_def])

lemma lex_lines_wf: "lex_lines path n ls lx = Inr lx' \<Longrightarrow> wf_out lx \<Longrightarrow> wf_out lx'"
proof (induction ls arbitrary: lx n)
  case (Cons l ls)
  then show ?case by (auto simp: and_then_Inr dest: lex_line_wf end_line_wf)
qed simp

text \<open>Balanced marker lists: the check ends with an empty stack.\<close>

lemma validate_iff: "validateControlFlow path sts = None \<longleftrightarrow> check_markers path sts [] = Inr []"
  by (auto simp: validateControlFlow_def split: sum.splits list.splits)

lemma parseStatements_ok:
  assumes "parseStatements path lns start = Inr sts"
  shows "list_all wf_stmt sts" "check_markers path sts [] = Inr []"
proof -
  from assms obtain lx lx' where lx: "lex_lines path (start + 1) (drop start lns) lexer_start = Inr lx"
      "flushTok path lx = Inr lx'" and sts: "sts = lx_out lx'" "validateControlFlow path (lx_out lx') = None"
    by (auto simp: parseStatements_def and_then_Inr split: if_splits option.splits)
  have "wf_out lexer_start" by (simp add: wf_out_def lexer_start_def)
  with lx have "wf_out lx'" using lex_lines_wf flushTok_wf by blast
  with sts show "list_all wf_stmt sts" "check_markers path sts [] = Inr []"
    by (simp_all add: wf_out_def validate_iff)
qed

lemma parseFile_ok:
  assumes "parseFile env path src = Inr rc"
  shows "list_all wf_stmt (rc_statements rc)" "check_markers path (rc_statements rc) [] = Inr []"
    "looksLikeSemver (rc_min_version rc)" "rc_path rc = path"
proof -
  from assms obtain b where p: "parsePragma path (source_lines src) = Inr (rc_min_version rc)"
      and s: "parseStatements path (source_lines src) b = Inr (rc_statements rc)"
      and q: "rc_path rc = path"
    by (auto simp: parseFile_def and_then_Inr Let_def)
  show "looksLikeSemver (rc_min_version rc)"
    using p by (auto simp: parsePragma_def Let_def split: list.splits if_splits option.splits)
  show "list_all wf_stmt (rc_statements rc)" "check_markers path (rc_statements rc) [] = Inr []"
    using parseStatements_ok [OF s] by simp_all
  show "rc_path rc = path" by (rule q)
qed

lemma check_markers_append:
  "check_markers path (xs @ ys) s = and_then (check_markers path xs s) (check_markers path ys)"
  by (induction path xs s rule: check_markers.induct) (auto split: control.splits list.splits)

text \<open>A list that is accepted is accepted, with the same effect, above any deeper stack and in any file.\<close>

lemma check_markers_frame:
  "check_markers path xs s = Inr s' \<Longrightarrow> check_markers path' xs (s @ t) = Inr (s' @ t)"
  by (induction path xs s rule: check_markers.induct) (auto split: control.splits list.splits if_splits)

lemma open_include_ok:
  assumes "open_include env base chain st = Inr (f, body)"
  shows "list_all wf_stmt body" "check_markers f body [] = Inr []"
  using assms
  by (auto simp: open_include_def Let_def and_then_Inr split: if_splits option.splits dest: parseFile_ok)

lemma resolve_ok:
  "resolveIncludes env sts base chain = Inr out \<Longrightarrow> list_all wf_stmt sts \<Longrightarrow>
     check_markers p sts s = Inr s' \<Longrightarrow>
     list_all (\<lambda>st. wf_stmt st \<and> \<not> is_include st) out \<and> check_markers p out s = Inr s'"
proof (induction env sts base chain arbitrary: out s s' p rule: resolveIncludes.induct)
  case (2 env st sts base chain)
  show ?case
  proof (cases "is_include st")
    case False
    with "2.prems" obtain rest where r: "resolveIncludes env sts base chain = Inr rest" "out = st # rest"
      by (auto simp: and_then_Inr)
    from "2.prems"(3) have "and_then (check_markers p [st] s) (check_markers p sts) = Inr s'"
      using check_markers_append [of p "[st]" sts s] by (simp del: check_markers.simps)
    then obtain u where u: "check_markers p [st] s = Inr u" "check_markers p sts u = Inr s'"
      unfolding and_then_Inr by blast
    from "2.IH"(1) [OF False r(1) _ u(2)] "2.prems"(2) have
      "list_all (\<lambda>st. wf_stmt st \<and> \<not> is_include st) rest" "check_markers p rest u = Inr s'" by simp_all
    with u r False "2.prems"(2) check_markers_append [of p "[st]" rest s] show ?thesis
      by (simp del: check_markers.simps)
  next
    case True
    with "2.prems"(1) obtain inc sub rest where i: "open_include env base chain st = Inr inc"
        and sub: "resolveIncludes env (snd inc) (dir_path (fst inc)) (fst inc # chain) = Inr sub"
        and rest: "resolveIncludes env sts base chain = Inr rest" and out: "out = sub @ rest"
      by (auto simp: and_then_Inr)
    have normal: "stm_control st = Normal"
      using True "2.prems"(2) by (auto simp: is_include_def wf_stmt_def split: list.splits if_splits)
    have body: "list_all wf_stmt (snd inc)" "check_markers (fst inc) (snd inc) [] = Inr []"
      using open_include_ok [of env base chain st "fst inc" "snd inc"] i by simp_all
    have "check_markers p (snd inc) s = Inr s" using check_markers_frame [OF body(2), of p s] by simp
    with "2.IH"(2) [OF _ i sub body(1)] True
    have sub': "list_all (\<lambda>st. wf_stmt st \<and> \<not> is_include st) sub" "check_markers p sub s = Inr s" by auto
    have "check_markers p sts s = Inr s'" using "2.prems"(3) normal by simp
    with "2.IH"(3) [OF _ i sub rest] True "2.prems"(2)
    have "list_all (\<lambda>st. wf_stmt st \<and> \<not> is_include st) rest" "check_markers p rest s = Inr s'" by auto
    with sub' show ?thesis by (simp add: out check_markers_append)
  qed
qed simp

text \<open>C27. A recipe that parses is well-formed, also after its includes are inlined: its control
  markers form properly nested blocks with at most one final ELSE, every command has a first word
  and none is an include any more, conditions stand exactly on IF and ELSE IF, captured names are
  identifiers, and the pragma names a version.\<close>

theorem parsed_recipe_well_formed:
  assumes "Parse env path src = Inr rc"
  shows "validateControlFlow path (rc_statements rc) = None
    \<and> list_all (\<lambda>st. wf_stmt st \<and> \<not> is_include st) (rc_statements rc)
    \<and> looksLikeSemver (rc_min_version rc) \<and> rc_path rc = path"
proof -
  from assms obtain rc0 sts where rc0: "parseFile env path src = Inr rc0"
      and r: "resolveIncludes env (rc_statements rc0) (dir_path (abs_path (pe_cwd env) path))
                [abs_path (pe_cwd env) path] = Inr sts"
      and rc: "rc = rc0\<lparr>rc_statements := sts\<rparr>"
    by (auto simp: Parse_def and_then_Inr Let_def)
  note ok = parseFile_ok [OF rc0]
  from resolve_ok [OF r ok(1,2)] have "list_all (\<lambda>st. wf_stmt st \<and> \<not> is_include st) sts"
    "check_markers path sts [] = Inr []" by simp_all
  with ok rc show ?thesis by (simp add: validate_iff)
qed

definition toy_parse_env :: parse_env where
  "toy_parse_env = \<lparr>pe_cwd = ''/r'',
     pe_files = [(''/r/b.ian'', ''#pragma ISANN 0.1'' @ [CHR 0x0A] @ ''IF ${x} BEGIN docker stop; END'')],
     pe_parse_float = (\<lambda>s. None)\<rparr>"

definition toy_source :: string where
  "toy_source = ''#pragma ISANN 0.1.0'' @ [CHR 0x0A] @ ''IF a == b BEGIN include ./b.ian; ELSE BEGIN x := func read; END''"

lemma toy_parse:
  "(case Parse toy_parse_env ''a.ian'' toy_source of Inr rc \<Rightarrow> map (\<lambda>st. (stm_control st, stm_capture st, stm_argv st)) (rc_statements rc) | Inl _ \<Rightarrow> []) =
    [(CIf, [], []), (CIf, [], []), (Normal, [], [''docker'', ''stop'']), (CEnd, [], []), (CElse, [], []),
     (Normal, ''x'', [''func'', ''read'']), (CEnd, [], [])]"
  by code_simp

theorem parsed_recipe_well_formed_witness:
  "\<exists>rc. Parse toy_parse_env ''a.ian'' toy_source = Inr rc \<and> validateControlFlow ''a.ian'' (rc_statements rc) = None
     \<and> list_all (\<lambda>st. wf_stmt st \<and> \<not> is_include st) (rc_statements rc)
     \<and> length (rc_statements rc) = 7 \<and> looksLikeSemver (rc_min_version rc) \<and> rc_path rc = ''a.ian''"
proof (cases "Parse toy_parse_env ''a.ian'' toy_source")
  case (Inr rc)
  from arg_cong [OF toy_parse, of length] Inr have "length (rc_statements rc) = 7" by simp
  with Inr parsed_recipe_well_formed [OF Inr] show ?thesis by simp
qed (use toy_parse in simp)

end
