(* ===== verification/Recipe_Syntax.thy ===== *)
theory Recipe_Syntax
  imports Recipe_Parser
begin

text \<open>
  Properties of the recipe language of \<^verbatim>\<open>pkg/recipe/parser.go\<close>: the tokenizer reads back every
  well-formed statement list from its fully quoted text, a parse succeeds exactly when the include
  graph below the recipe is acyclic and sound, and version comparison is a total preorder.
\<close>

section \<open>Text of a statement list\<close>

text \<open>Every byte of a token in quotes of the kind that differs from it.\<close>

definition quote_char :: "char \<Rightarrow> string" where
  "quote_char c = (let q = (if c = CHR 0x22 then CHR 0x27 else CHR 0x22) in [q, c, q])"

definition quote_tok :: "string \<Rightarrow> string" where
  "quote_tok t = [CHR 0x22, CHR 0x22] @ concat (map quote_char t)"

definition print_toks :: "string list \<Rightarrow> string" where
  "print_toks ts = concat (map (\<lambda>t. quote_tok t @ '' '') ts)"

definition print_stmt :: "statement \<Rightarrow> string" where
  "print_stmt st =
     (case stm_control st of
        Normal \<Rightarrow> print_toks ((if stm_capture st = [] then [] else [stm_capture st, '':='']) @ stm_argv st) @ '';''
      | CIf \<Rightarrow> ''IF '' @ print_toks (stm_cond st) @ ''BEGIN ''
      | CElseIf \<Rightarrow> ''ELSE IF '' @ print_toks (stm_cond st) @ ''BEGIN ''
      | CElse \<Rightarrow> ''ELSE BEGIN ''
      | CEnd \<Rightarrow> ''END '')"

definition print_stmts :: "statement list \<Rightarrow> string" where
  "print_stmts sts = concat (map print_stmt sts)"

text \<open>What a statement says, without its position.\<close>

definition stm_view :: "statement \<Rightarrow> control \<times> string \<times> string list \<times> string list" where
  "stm_view st = (stm_control st, stm_capture st, stm_argv st, stm_cond st)"


section \<open>The tokenizer on the whole text\<close>

text \<open>The tokenizer reads lines; here it reads the joined text, with a flag for comments.\<close>

fun lex_src :: "string \<Rightarrow> nat \<Rightarrow> bool \<Rightarrow> string \<Rightarrow> lexer \<Rightarrow> parse_error + lexer" where
  "lex_src path n cm [] lx = Inr lx"
| "lex_src path n cm (c # cs) lx =
     (if c = CHR 0x0A then and_then (end_line path lx) (lex_src path (Suc n) False cs)
      else if cm \<or> (lx_quote lx = None \<and> c = CHR ''#'') then lex_src path n True cs lx
      else and_then (lex_char path n c lx) (lex_src path n False cs))"

lemma and_then_assoc: "and_then (and_then r f) g = and_then r (\<lambda>a. and_then (f a) g)"
  by (cases r) simp_all

lemma lex_src_lines:
  "and_then (lex_src path n cm s lx) (end_line path) =
     (case split s CHR 0x0A of l # ls \<Rightarrow>
        and_then (and_then (if cm then Inr lx else lex_line path n l lx) (end_line path))
          (lex_lines path (Suc n) ls))"
proof (induction path n cm s lx rule: lex_src.induct)
  case (1 path n cm lx)
  then show ?case by (cases "end_line path lx") (simp_all add: split_none)
next
  case (2 path n cm c cs lx)
  obtain l ls where s: "split cs CHR 0x0A = l # ls" by (metis split_not_Nil list.exhaust)
  show ?case
  proof (cases "c = CHR 0x0A")
    case True
    then have "split (c # cs) CHR 0x0A = [] # l # ls" using s split_append [of c "[]" cs] by simp
    then show ?thesis
      using 2(1) True s by (cases "end_line path lx") (simp_all add: and_then_assoc)
  next
    case False
    then have "split (c # cs) CHR 0x0A = (c # l) # ls" using s by (simp add: split_def)
    then show ?thesis
      using 2(2,3) False s
      by (cases "cm \<or> (lx_quote lx = None \<and> c = CHR ''#'')"; cases "lex_char path n c lx")
         (auto simp: and_then_assoc)
  qed
qed

lemma lex_lines_src:
  "lex_lines path n (split s CHR 0x0A) lx = and_then (lex_src path n False s lx) (end_line path)"
proof -
  obtain l ls where "split s CHR 0x0A = l # ls" by (metis split_not_Nil list.exhaust)
  then show ?thesis using lex_src_lines [of path n False s lx] by simp
qed


section \<open>Reading printed tokens\<close>

text \<open>A state between two tokens, with what was emitted and collected so far.\<close>

definition idle :: "lexer \<Rightarrow> (control \<times> string \<times> string list \<times> string list) list \<Rightarrow> string list \<Rightarrow> bool" where
  "idle lx out argv \<longleftrightarrow> lx_tok lx = [] \<and> \<not> lx_inTok lx \<and> \<not> lx_tokQuoted lx \<and> lx_quote lx = None
     \<and> map stm_view (lx_out lx) = out \<and> lx_argv lx = argv"

text \<open>A state inside a token.\<close>

definition inside :: "lexer \<Rightarrow> bool \<Rightarrow> string \<Rightarrow> (control \<times> string \<times> string list \<times> string list) list \<Rightarrow> string list \<Rightarrow> bool" where
  "inside lx quoted t out argv \<longleftrightarrow> lx_tok lx = t \<and> lx_inTok lx \<and> lx_tokQuoted lx = quoted \<and> lx_quote lx = None
     \<and> map stm_view (lx_out lx) = out \<and> lx_argv lx = argv"

text \<open>Reading \<open>a\<close> takes the tokenizer from one state to another, whatever follows.\<close>

definition reads :: "string \<Rightarrow> nat \<Rightarrow> lexer \<Rightarrow> string \<Rightarrow> nat \<Rightarrow> lexer \<Rightarrow> bool" where
  "reads path n lx a n' lx' \<longleftrightarrow> (\<forall>b. lex_src path n False (a @ b) lx = lex_src path n' False b lx')"

lemma reads_Nil [simp]: "reads path n lx [] n lx"
  by (simp add: reads_def)

lemma reads_append: "reads path n lx a n' lx' \<Longrightarrow> reads path n' lx' b n'' lx'' \<Longrightarrow> reads path n lx (a @ b) n'' lx''"
  by (simp add: reads_def)

lemma read_quote_char:
  assumes "inside lx True t out argv"
  shows "\<exists>n' lx'. reads path n lx (quote_char c) n' lx' \<and> inside lx' True (t @ [c]) out argv"
  using assms
  by (cases lx, intro exI [of _ "if c = CHR 0x0A then Suc n else n"] exI [of _ "(writeByte c lx)\<lparr>lx_tokQuoted := True, lx_quote := None\<rparr>"])
     (auto simp: reads_def quote_char_def Let_def inside_def lex_char_def startTok_def writeByte_def end_line_def)

lemma read_quote_chars:
  "inside lx True t out argv \<Longrightarrow>
     \<exists>n' lx'. reads path n lx (concat (map quote_char cs)) n' lx' \<and> inside lx' True (t @ cs) out argv"
proof (induction cs arbitrary: lx t n)
  case Nil
  then show ?case by (intro exI [of _ n] exI [of _ lx]) simp
next
  case (Cons c cs)
  from read_quote_char [OF Cons.prems] obtain n1 lx1 where
    1: "reads path n lx (quote_char c) n1 lx1" "inside lx1 True (t @ [c]) out argv" by blast
  from Cons.IH [OF 1(2)] obtain n2 lx2 where
    "reads path n1 lx1 (concat (map quote_char cs)) n2 lx2" "inside lx2 True ((t @ [c]) @ cs) out argv" by blast
  with 1(1) show ?case using reads_append by fastforce
qed

lemma read_token:
  assumes "idle lx out argv"
  shows "\<exists>n' lx'. reads path n lx (quote_tok t @ '' '') n' lx' \<and> idle lx' out (argv @ [t])"
proof -
  define lx1 where "lx1 = (startTok n lx)\<lparr>lx_tokQuoted := True, lx_quote := None\<rparr>"
  have 1: "reads path n lx [CHR 0x22, CHR 0x22] n lx1" "inside lx1 True [] out argv"
    using assms by (auto simp: lx1_def reads_def idle_def inside_def lex_char_def startTok_def)
  from read_quote_chars [OF 1(2), of path n t] obtain n2 lx2 where
    2: "reads path n lx1 (concat (map quote_char t)) n2 lx2" "inside lx2 True t out argv" by auto
  define lx3 where "lx3 = lx2\<lparr>lx_tok := [], lx_inTok := False, lx_tokQuoted := False, lx_argv := argv @ [t]\<rparr>"
  have 3: "reads path n2 lx2 '' '' n2 lx3" "idle lx3 out (argv @ [t])"
    using 2(2) by (auto simp: lx3_def reads_def idle_def inside_def lex_char_def flushTok_def Let_def)
  have "reads path n lx (quote_tok t @ '' '') n2 lx3"
    using reads_append [OF 1(1) reads_append [OF 2(1) 3(1)]] by (simp add: quote_tok_def)
  with 3(2) show ?thesis by blast
qed

lemma read_tokens:
  "idle lx out argv \<Longrightarrow> \<exists>n' lx'. reads path n lx (print_toks ts) n' lx' \<and> idle lx' out (argv @ ts)"
proof (induction ts arbitrary: lx argv n)
  case Nil
  then show ?case by (intro exI [of _ n] exI [of _ lx]) (simp add: print_toks_def)
next
  case (Cons t ts)
  from read_token [OF Cons.prems] obtain n1 lx1 where
    1: "reads path n lx (quote_tok t @ '' '') n1 lx1" "idle lx1 out (argv @ [t])" by blast
  from Cons.IH [OF 1(2)] obtain n2 lx2 where
    2: "reads path n1 lx1 (print_toks ts) n2 lx2" "idle lx2 out ((argv @ [t]) @ ts)" by blast
  have "print_toks (t # ts) = (quote_tok t @ '' '') @ print_toks ts" by (simp add: print_toks_def)
  with 2 reads_append [OF 1(1) 2(1)] show ?case by auto
qed

text \<open>Bare words, keywords included.\<close>

definition bare_char :: "char \<Rightarrow> bool" where
  "bare_char c \<longleftrightarrow> c \<notin> {CHR 0x0A, CHR ''#'', CHR '' '', CHR 0x09, CHR '';'', CHR 0x22, CHR 0x27}"

lemma read_bare:
  "inside lx False t out argv \<Longrightarrow> list_all bare_char w \<Longrightarrow>
     \<exists>lx'. reads path n lx w n lx' \<and> inside lx' False (t @ w) out argv"
proof (induction w arbitrary: lx t)
  case Nil
  then show ?case by (intro exI [of _ lx]) simp
next
  case (Cons c w)
  have 1: "reads path n lx [c] n (writeByte c lx)" "inside (writeByte c lx) False (t @ [c]) out argv"
    using Cons.prems by (auto simp: reads_def inside_def bare_char_def lex_char_def writeByte_def startTok_def)
  from Cons.IH [OF 1(2)] Cons.prems obtain lx2 where
    "reads path n (writeByte c lx) w n lx2" "inside lx2 False ((t @ [c]) @ w) out argv" by auto
  with reads_append [OF 1(1)] show ?case by fastforce
qed

lemma read_word:
  assumes "idle lx out argv" and "w \<noteq> []" and "list_all bare_char w"
  shows "\<exists>lx'. reads path n lx w n lx' \<and> inside lx' False w out argv"
proof -
  from assms obtain c v where w: "w = c # v" "bare_char c" "list_all bare_char v" by (cases w) auto
  define lx1 where "lx1 = writeByte c (startTok n lx)"
  have 1: "reads path n lx [c] n lx1" "inside lx1 False [c] out argv"
    using assms(1) w by (auto simp: lx1_def reads_def idle_def inside_def bare_char_def lex_char_def writeByte_def startTok_def)
  from read_bare [OF 1(2) w(3)] obtain lx2 where
    "reads path n lx1 v n lx2" "inside lx2 False ([c] @ v) out argv" by blast
  with reads_append [OF 1(1)] w(1) show ?thesis by fastforce
qed

lemma read_plain_word:
  assumes "idle lx out argv" and "w \<noteq> []" and "list_all bare_char w" and "w \<noteq> ''BEGIN''" and "w \<noteq> ''END''"
  shows "\<exists>lx'. reads path n lx (w @ '' '') n lx' \<and> idle lx' out (argv @ [w])"
proof -
  from read_word [OF assms(1-3)] obtain lx1 where
    1: "reads path n lx w n lx1" "inside lx1 False w out argv" by blast
  define lx2 where "lx2 = lx1\<lparr>lx_tok := [], lx_inTok := False, lx_tokQuoted := False, lx_argv := argv @ [w]\<rparr>"
  have "reads path n lx1 '' '' n lx2" "idle lx2 out (argv @ [w])"
    using 1(2) assms by (auto simp: lx2_def reads_def idle_def inside_def lex_char_def flushTok_def Let_def)
  with reads_append [OF 1(1)] show ?thesis by blast
qed

text \<open>The three terminators.\<close>

lemma read_semi:
  assumes "idle lx out argv" and "argv \<noteq> []" and "\<And>l. \<exists>st. normalStatement path l argv = Inr st \<and> stm_view st = v"
  shows "\<exists>lx'. reads path n lx '';'' n lx' \<and> idle lx' (out @ [v]) []"
proof -
  from assms(3) obtain st where st: "normalStatement path (lx_stmtLine lx) argv = Inr st" "stm_view st = v" by blast
  have "reads path n lx '';'' n (lx\<lparr>lx_out := lx_out lx @ [st], lx_argv := []\<rparr>)"
    using assms(1,2) st by (auto simp: reads_def idle_def lex_char_def flushTok_def emit_def)
  moreover have "idle (lx\<lparr>lx_out := lx_out lx @ [st], lx_argv := []\<rparr>) (out @ [v]) []"
    using assms(1) st by (auto simp: idle_def)
  ultimately show ?thesis by blast
qed

lemma read_begin:
  assumes "idle lx out argv" and "\<And>l. \<exists>st. headerStatement path l argv = Inr st \<and> stm_view st = v"
  shows "\<exists>lx'. reads path n lx ''BEGIN '' n lx' \<and> idle lx' (out @ [v]) []"
proof -
  from read_word [OF assms(1), of "''BEGIN''"] obtain lx1 where
    1: "reads path n lx ''BEGIN'' n lx1" "inside lx1 False ''BEGIN'' out argv" by (auto simp: bare_char_def)
  from assms(2) obtain st where st: "headerStatement path (lx_stmtLine lx1) argv = Inr st" "stm_view st = v" by blast
  define lx2 where "lx2 = lx1\<lparr>lx_tok := [], lx_inTok := False, lx_tokQuoted := False, lx_out := lx_out lx1 @ [st], lx_argv := []\<rparr>"
  have "reads path n lx1 '' '' n lx2" "idle lx2 (out @ [v]) []"
    using 1(2) st by (auto simp: lx2_def reads_def idle_def inside_def lex_char_def flushTok_def emit_def Let_def)
  with reads_append [OF 1(1)] show ?thesis by fastforce
qed

lemma read_end:
  assumes "idle lx out []"
  shows "\<exists>lx'. reads path n lx ''END '' n lx' \<and> idle lx' (out @ [(CEnd, [], [], [])]) []"
proof -
  from read_word [OF assms(1), of "''END''"] obtain lx1 where
    1: "reads path n lx ''END'' n lx1" "inside lx1 False ''END'' out []" by (auto simp: bare_char_def)
  define lx2 where "lx2 = lx1\<lparr>lx_tok := [], lx_inTok := False, lx_tokQuoted := False,
    lx_out := lx_out lx1 @ [marker path (lx_stmtLine lx1) CEnd []], lx_argv := []\<rparr>"
  have "reads path n lx1 '' '' n lx2" "idle lx2 (out @ [(CEnd, [], [], [])]) []"
    using 1(2)
    by (auto simp: lx2_def reads_def idle_def inside_def lex_char_def flushTok_def emit_def Let_def stm_view_def marker_def)
  with reads_append [OF 1(1)] show ?thesis by fastforce
qed


section \<open>Reading printed statements\<close>

lemma normal_readback:
  assumes "wf_stmt st" and "stm_control st = Normal"
  shows "\<exists>st'. normalStatement path l ((if stm_capture st = [] then [] else [stm_capture st, '':='']) @ stm_argv st) = Inr st'
    \<and> stm_view st' = stm_view st"
proof (cases "stm_capture st = []")
  case True
  with assms show ?thesis by (auto simp: wf_stmt_def normalStatement_def Let_def stm_view_def)
next
  case False
  then have "3 \<le> length ([stm_capture st, '':=''] @ stm_argv st)"
    using assms by (cases "stm_argv st") (auto simp: wf_stmt_def)
  with False assms show ?thesis by (auto simp: wf_stmt_def normalStatement_def Let_def stm_view_def)
qed

lemma read_header:
  assumes "idle lx out []" and "\<exists>n' lx'. reads path n lx h n' lx' \<and> idle lx' out ws"
    and "\<And>l. \<exists>st. headerStatement path l (ws @ cond) = Inr st \<and> stm_view st = v"
  shows "\<exists>n' lx'. reads path n lx (h @ print_toks cond @ ''BEGIN '') n' lx' \<and> idle lx' (out @ [v]) []"
proof -
  from assms(2) obtain n1 lx1 where 1: "reads path n lx h n1 lx1" "idle lx1 out ws" by blast
  from read_tokens [OF 1(2)] obtain n2 lx2 where
    2: "reads path n1 lx1 (print_toks cond) n2 lx2" "idle lx2 out (ws @ cond)" by blast
  from read_begin [OF 2(2) assms(3)] obtain lx3 where
    "reads path n2 lx2 ''BEGIN '' n2 lx3" "idle lx3 (out @ [v]) []" by blast
  with reads_append [OF 1(1) reads_append [OF 2(1)]] show ?thesis by blast
qed

lemma read_stmt:
  assumes "idle lx out []" and "wf_stmt st"
  shows "\<exists>n' lx'. reads path n lx (print_stmt st) n' lx' \<and> idle lx' (out @ [stm_view st]) []"
proof (cases "stm_control st")
  case Normal
  let ?ws = "(if stm_capture st = [] then [] else [stm_capture st, '':='']) @ stm_argv st"
  from read_tokens [OF assms(1)] obtain n1 lx1 where
    1: "reads path n lx (print_toks ?ws) n1 lx1" "idle lx1 out ([] @ ?ws)" by blast
  have "?ws \<noteq> []" using assms(2) Normal by (simp add: wf_stmt_def)
  from read_semi [OF 1(2) [simplified append_Nil] this normal_readback [OF assms(2) Normal]] obtain lx2 where
    2: "reads path n1 lx1 '';'' n1 lx2" "idle lx2 (out @ [stm_view st]) []" by blast
  from reads_append [OF 1(1) 2(1)] Normal have "reads path n lx (print_stmt st) n1 lx2"
    unfolding print_stmt_def by simp
  with 2(2) show ?thesis by blast
next
  case CIf
  have "\<exists>n' lx'. reads path n lx ''IF '' n' lx' \<and> idle lx' out [''IF'']"
    using read_plain_word [OF assms(1), of "''IF''" path n] by (auto simp: bare_char_def)
  from read_header [OF assms(1) this, of "stm_cond st" "stm_view st"] CIf assms(2) show ?thesis
    by (simp add: print_stmt_def headerStatement_def stm_view_def marker_def wf_stmt_def)
next
  case CElseIf
  from read_plain_word [OF assms(1), of "''ELSE''" path n] obtain lx1 where
    1: "reads path n lx ''ELSE '' n lx1" "idle lx1 out [''ELSE'']" by (auto simp: bare_char_def)
  from read_plain_word [OF 1(2), of "''IF''" path n] obtain lx2 where
    2: "reads path n lx1 ''IF '' n lx2" "idle lx2 out [''ELSE'', ''IF'']" by (auto simp: bare_char_def)
  have "\<exists>n' lx'. reads path n lx ''ELSE IF '' n' lx' \<and> idle lx' out [''ELSE'', ''IF'']"
    using reads_append [OF 1(1) 2(1)] 2(2) by auto
  from read_header [OF assms(1) this, of "stm_cond st" "stm_view st"] CElseIf assms(2) show ?thesis
    by (simp add: print_stmt_def headerStatement_def stm_view_def marker_def wf_stmt_def)
next
  case CElse
  have "\<exists>n' lx'. reads path n lx ''ELSE '' n' lx' \<and> idle lx' out [''ELSE'']"
    using read_plain_word [OF assms(1), of "''ELSE''" path n] by (auto simp: bare_char_def)
  from read_header [OF assms(1) this, of "[]" "stm_view st"] CElse assms(2) show ?thesis
    by (simp add: print_stmt_def print_toks_def headerStatement_def stm_view_def marker_def wf_stmt_def)
next
  case CEnd
  then have "stm_view st = (CEnd, [], [], [])" using assms(2) by (simp add: stm_view_def wf_stmt_def)
  with read_end [OF assms(1), of path n] CEnd show ?thesis by (auto simp: print_stmt_def)
qed

lemma read_stmts:
  "idle lx out [] \<Longrightarrow> list_all wf_stmt sts \<Longrightarrow>
     \<exists>n' lx'. reads path n lx (print_stmts sts) n' lx' \<and> idle lx' (out @ map stm_view sts) []"
proof (induction sts arbitrary: lx out n)
  case Nil
  then show ?case by (intro exI [of _ n] exI [of _ lx]) (simp add: print_stmts_def)
next
  case (Cons st sts)
  then have "wf_stmt st" "list_all wf_stmt sts" by simp_all
  from read_stmt [OF Cons.prems(1) this(1)] obtain n1 lx1 where
    1: "reads path n lx (print_stmt st) n1 lx1" "idle lx1 (out @ [stm_view st]) []" by blast
  from Cons.IH [OF 1(2) \<open>list_all wf_stmt sts\<close>] obtain n2 lx2 where
    2: "reads path n1 lx1 (print_stmts sts) n2 lx2" "idle lx2 ((out @ [stm_view st]) @ map stm_view sts) []" by blast
  have "print_stmts (st # sts) = print_stmt st @ print_stmts sts" by (simp add: print_stmts_def)
  with 2 reads_append [OF 1(1) 2(1)] show ?case by auto
qed

text \<open>The block check looks at the markers only.\<close>

lemma check_markers_view:
  "check_markers p xs s = Inr s' \<Longrightarrow> map stm_control ys = map stm_control xs \<Longrightarrow> map snd t = map snd s \<Longrightarrow>
     \<exists>t'. check_markers q ys t = Inr t' \<and> map snd t' = map snd s'"
proof (induction p xs s arbitrary: ys t rule: check_markers.induct)
  case (2 p st sts s)
  from "2.prems"(2) obtain y ys' where ys: "ys = y # ys'" "stm_control y = stm_control st"
    "map stm_control ys' = map stm_control sts" by auto
  show ?case
  proof (cases "stm_control st")
    case Normal
    with 2 ys show ?thesis by simp
  next
    case CIf
    with "2.IH"(2) [OF CIf _ ys(3), of "(stm_line y, False) # t"] "2.prems" ys show ?thesis by simp
  next
    case CEnd
    with "2.IH" "2.prems" ys show ?thesis by (cases s; cases t) (auto split: list.splits)
  next
    case CElseIf
    with "2.IH" "2.prems" ys show ?thesis by (cases s; cases t) (auto split: list.splits if_splits)
  next
    case CElse
    with "2.IH" "2.prems" ys show ?thesis by (cases s; cases t) (auto split: list.splits if_splits)
  qed
qed simp

lemma validate_view:
  assumes "validateControlFlow p xs = None" and "map stm_view ys = map stm_view xs"
  shows "validateControlFlow q ys = None"
proof -
  have "map fst (map stm_view ys) = map fst (map stm_view xs)" using assms(2) by simp
  then have "map stm_control ys = map stm_control xs" by (simp add: stm_view_def comp_def)
  then show ?thesis
    using check_markers_view [of p xs "[]" "[]" ys "[]" q] assms(1) by (auto simp: validate_iff)
qed

lemma parse_printed:
  assumes "list_all wf_stmt sts" and "validateControlFlow p sts = None"
    and "drop start lns = split (print_stmts sts) CHR 0x0A"
  shows "\<exists>sts'. parseStatements path lns start = Inr sts' \<and> map stm_view sts' = map stm_view sts"
proof -
  have "idle lexer_start [] []" by (simp add: idle_def lexer_start_def)
  from read_stmts [OF this assms(1), of path "start + 1"] obtain n' lx' where
    r: "reads path (start + 1) lexer_start (print_stmts sts) n' lx'" and i: "idle lx' (map stm_view sts) []" by auto
  have "lex_src path (start + 1) False (print_stmts sts) lexer_start = Inr lx'"
    using r [unfolded reads_def, rule_format, of "[]"] by simp
  moreover have "flushTok path lx' = Inr lx'" "end_line path lx' = Inr lx'"
    using i by (simp_all add: idle_def flushTok_def end_line_def)
  ultimately have "parseStatements path lns start = Inr (lx_out lx')"
    using i validate_view [OF assms(2), of "lx_out lx'" path]
    by (simp add: parseStatements_def assms(3) lex_lines_src idle_def)
  with i show ?thesis by (auto simp: idle_def)
qed




section \<open>The include graph\<close>

definition includes_of :: "parse_env \<Rightarrow> string \<Rightarrow> statement list \<Rightarrow> string list" where
  "includes_of env base sts = map (\<lambda>st. include_target env base (stm_argv st ! 1)) (filter is_include sts)"

definition arity_ok :: "statement list \<Rightarrow> bool" where
  "arity_ok sts \<longleftrightarrow> list_all (\<lambda>st. is_include st \<longrightarrow> length (stm_argv st) = 2) sts"

text \<open>The statements of a file that may be included: it can be read, it parses, and it has no \<^verbatim>\<open>requires:\<close>.\<close>

definition include_body :: "parse_env \<Rightarrow> string \<Rightarrow> statement list option" where
  "include_body env f =
     (case mget (pe_files env) f of None \<Rightarrow> None
      | Some data \<Rightarrow>
        (case parseFile env f data of Inl _ \<Rightarrow> None
         | Inr rc \<Rightarrow> if rc_requires rc = None then Some (rc_statements rc) else None))"

definition file_includes :: "parse_env \<Rightarrow> string \<Rightarrow> string \<Rightarrow> bool" where
  "file_includes env f g =
     (case include_body env f of None \<Rightarrow> False | Some sts \<Rightarrow> g \<in> set (includes_of env (dir_path f) sts))"

definition includable :: "parse_env \<Rightarrow> string \<Rightarrow> bool" where
  "includable env f = (case include_body env f of None \<Rightarrow> False | Some sts \<Rightarrow> arity_ok sts)"

text \<open>The files reached from a statement list.\<close>

definition reached :: "parse_env \<Rightarrow> string \<Rightarrow> statement list \<Rightarrow> string \<Rightarrow> bool" where
  "reached env base sts g \<longleftrightarrow> (\<exists>f\<in>set (includes_of env base sts). (file_includes env)\<^sup>*\<^sup>* f g)"

lemma open_include_iff:
  "open_include env base chain st = Inr (f, body) \<longleftrightarrow>
     length (stm_argv st) = 2 \<and> f = include_target env base (stm_argv st ! 1) \<and> f \<notin> set chain
     \<and> include_body env f = Some body"
  by (auto simp: open_include_def include_body_def Let_def and_then_Inr split: if_splits option.splits sum.splits)

lemma includes_of_simps [simp]:
  "includes_of env base [] = []"
  "includes_of env base (st # sts) =
     (if is_include st then [include_target env base (stm_argv st ! 1)] else []) @ includes_of env base sts"
  by (simp_all add: includes_of_def)

lemma reached_cons:
  "reached env base (st # sts) g \<longleftrightarrow>
     (is_include st \<and> (file_includes env)\<^sup>*\<^sup>* (include_target env base (stm_argv st ! 1)) g) \<or> reached env base sts g"
  by (auto simp: reached_def)

lemma reached_body:
  assumes "include_body env f = Some body"
  shows "reached env (dir_path f) body g \<longleftrightarrow> (file_includes env)\<^sup>+\<^sup>+ f g"
proof -
  have "file_includes env f h \<longleftrightarrow> h \<in> set (includes_of env (dir_path f) body)" for h
    using assms by (simp add: file_includes_def)
  then show ?thesis unfolding reached_def
    by (metis rtranclp_into_tranclp2 tranclpD)
qed

text \<open>What success of the recursion means: nothing reached is on the chain, and no reached file reaches itself.\<close>

definition include_sound :: "parse_env \<Rightarrow> string \<Rightarrow> statement list \<Rightarrow> string list \<Rightarrow> bool" where
  "include_sound env base sts chain \<longleftrightarrow> arity_ok sts
     \<and> (\<forall>g. reached env base sts g \<longrightarrow> includable env g \<and> g \<notin> set chain \<and> \<not> (file_includes env)\<^sup>+\<^sup>+ g g)"

lemma sound_skip:
  "\<not> is_include st \<Longrightarrow> include_sound env base (st # sts) chain \<longleftrightarrow> include_sound env base sts chain"
  by (auto simp: include_sound_def reached_cons arity_ok_def)

lemma sound_include:
  assumes "is_include st"
  shows "include_sound env base (st # sts) chain \<longleftrightarrow>
    (\<exists>f body. open_include env base chain st = Inr (f, body)
       \<and> include_sound env (dir_path f) body (f # chain)) \<and> include_sound env base sts chain"
    (is "?L \<longleftrightarrow> ?R \<and> ?S")
proof -
  let ?f = "include_target env base (stm_argv st ! 1)"
  have reach: "reached env base (st # sts) g \<longleftrightarrow> (file_includes env)\<^sup>*\<^sup>* ?f g \<or> reached env base sts g" for g
    using assms by (simp add: reached_cons)
  have ar: "arity_ok (st # sts) \<longleftrightarrow> length (stm_argv st) = 2 \<and> arity_ok sts"
    using assms by (simp add: arity_ok_def)
  have r: "?R \<longleftrightarrow> length (stm_argv st) = 2 \<and>
      (\<forall>g. (file_includes env)\<^sup>*\<^sup>* ?f g \<longrightarrow> includable env g \<and> g \<notin> set chain \<and> \<not> (file_includes env)\<^sup>+\<^sup>+ g g)"
      (is "_ \<longleftrightarrow> ?T")
  proof
    assume ?R
    then obtain body where b: "length (stm_argv st) = 2" "?f \<notin> set chain" "include_body env ?f = Some body"
        "include_sound env (dir_path ?f) body (?f # chain)"
      by (auto simp: open_include_iff)
    from b(4) have s: "arity_ok body" "\<And>g. (file_includes env)\<^sup>+\<^sup>+ ?f g \<Longrightarrow>
        includable env g \<and> g \<notin> set (?f # chain) \<and> \<not> (file_includes env)\<^sup>+\<^sup>+ g g"
      unfolding include_sound_def reached_body [OF b(3)] by blast+
    have "includable env ?f" using b(3) s(1) by (simp add: includable_def)
    moreover have "\<not> (file_includes env)\<^sup>+\<^sup>+ ?f ?f" using s(2) [of ?f] by auto
    ultimately show ?T using b s(2) by (metis rtranclpD list.set_intros(2))
  next
    assume T: ?T
    then have "includable env ?f" "?f \<notin> set chain" "\<not> (file_includes env)\<^sup>+\<^sup>+ ?f ?f" by auto
    then obtain body where b: "include_body env ?f = Some body" "arity_ok body"
      by (auto simp: includable_def split: option.splits)
    have "include_sound env (dir_path ?f) body (?f # chain)"
      unfolding include_sound_def reached_body [OF b(1)]
      using T b(2) \<open>\<not> (file_includes env)\<^sup>+\<^sup>+ ?f ?f\<close> by (auto dest: tranclp_into_rtranclp)
    then show ?R using T b(1) \<open>?f \<notin> set chain\<close> by (auto simp: open_include_iff)
  qed
  show ?thesis unfolding r unfolding include_sound_def reach ar by blast
qed

lemma resolve_iff:
  "(\<exists>out. resolveIncludes env sts base chain = Inr out) \<longleftrightarrow> include_sound env base sts chain"
proof (induction env sts base chain rule: resolveIncludes.induct)
  case (1 env base chain)
  then show ?case by (simp add: include_sound_def arity_ok_def reached_def)
next
  case (2 env st sts base chain)
  show ?case
  proof (cases "is_include st")
    case False
    with "2.IH"(1) show ?thesis by (auto simp: sound_skip and_then_Inr)
  next
    case True
    show ?thesis
    proof (cases "open_include env base chain st")
      case (Inl e)
      with True show ?thesis by (simp add: sound_include)
    next
      case (Inr inc)
      note i2 = "2.IH"(2) [unfolded not_not, OF True Inr] and i3 = "2.IH"(3) [unfolded not_not, OF True Inr]
      show ?thesis
        using True Inr i2 i3
        by (cases "resolveIncludes env (snd inc) (dir_path (fst inc)) (fst inc # chain)")
           (auto simp: sound_include and_then_Inr prod_eq_iff)
    qed
  qed
qed

text \<open>C12. The parser accepts a recipe exactly when its own file parses and every file its includes
  reach can be read, parses, has no requirements of its own, is not the recipe itself and does not
  include itself again, directly or indirectly. In particular an include cycle is always
  reported and never followed.\<close>

theorem parse_accepts_exactly:
  "(\<exists>rc. Parse env path src = Inr rc) \<longleftrightarrow>
     (\<exists>rc0. parseFile env path src = Inr rc0
        \<and> include_sound env (dir_path (abs_path (pe_cwd env) path)) (rc_statements rc0) [abs_path (pe_cwd env) path])"
  by (auto simp: Parse_def and_then_Inr Let_def resolve_iff [symmetric])


section \<open>Version comparison\<close>

text \<open>Component \<open>i\<close> of a version, zero beyond its end.\<close>

definition comp_at :: "int list \<Rightarrow> nat \<Rightarrow> int" where
  "comp_at xs i = (if i < length xs then xs ! i else 0)"

lemma comp_at_simps [simp]:
  "comp_at [] i = 0" "comp_at (x # xs) 0 = x" "comp_at (x # xs) (Suc i) = comp_at xs i"
  by (simp_all add: comp_at_def)

lemma ex_nat_split: "Ex Q = (Q 0 \<or> (\<exists>n. Q (Suc n)))"
  using not0_implies_Suc by metis

lemma all_less_Suc_split: "(\<forall>j<Suc i. P j) \<longleftrightarrow> P 0 \<and> (\<forall>j<i. P (Suc j))" for P :: "nat \<Rightarrow> bool"
  by (metis Suc_less_eq not0_implies_Suc zero_less_Suc)

definition nums_less :: "int list \<Rightarrow> int list \<Rightarrow> bool" where
  "nums_less xs ys \<longleftrightarrow> (\<exists>i. comp_at xs i < comp_at ys i \<and> (\<forall>j<i. comp_at xs j = comp_at ys j))"

lemma nums_less_step:
  "nums_less xs ys \<longleftrightarrow> comp_at xs 0 < comp_at ys 0 \<or> comp_at xs 0 = comp_at ys 0
     \<and> (\<exists>i. comp_at xs (Suc i) < comp_at ys (Suc i) \<and> (\<forall>j<i. comp_at xs (Suc j) = comp_at ys (Suc j)))"
  unfolding nums_less_def by (subst ex_nat_split) (auto simp: all_less_Suc_split)

lemma nums_less_simps [simp]:
  "nums_less [] [] = False"
  "nums_less (x # xs) [] = (x < 0 \<or> x = 0 \<and> nums_less xs [])"
  "nums_less [] (y # ys) = (0 < y \<or> y = 0 \<and> nums_less [] ys)"
  "nums_less (x # xs) (y # ys) = (x < y \<or> x = y \<and> nums_less xs ys)"
  by (subst nums_less_step, simp add: nums_less_def)+

lemma compare_nums_cases:
  "compare_nums xs ys = (if nums_less xs ys then -1 else if nums_less ys xs then 1 else 0)"
  by (induction xs ys rule: compare_nums.induct) auto

lemma nums_less_trans: "nums_less xs ys \<Longrightarrow> nums_less ys zs \<Longrightarrow> nums_less xs zs"
proof -
  assume "nums_less xs ys" "nums_less ys zs"
  then obtain i j where i: "comp_at xs i < comp_at ys i" "\<forall>k<i. comp_at xs k = comp_at ys k"
    and j: "comp_at ys j < comp_at zs j" "\<forall>k<j. comp_at ys k = comp_at zs k"
    unfolding nums_less_def by blast
  then show ?thesis unfolding nums_less_def
    by (intro exI [of _ "min i j"]) (cases "i < j"; cases "i = j"; force)
qed

lemma nums_less_irrefl [simp]: "\<not> nums_less xs xs"
  by (simp add: nums_less_def)

lemma nums_unrelated: "\<not> nums_less xs ys \<Longrightarrow> \<not> nums_less ys xs \<Longrightarrow> comp_at xs i = comp_at ys i"
proof (induction i rule: less_induct)
  case (less i)
  then show ?case unfolding nums_less_def by (metis linorder_neqE)
qed

lemma nums_less_cong: "(\<And>i. comp_at ys i = comp_at zs i) \<Longrightarrow> nums_less xs ys = nums_less xs zs"
  by (simp add: nums_less_def)

text \<open>Version comparison is a total preorder that agrees with its sign in both directions, and
  two versions are equal for it exactly when their components agree up to missing zeros.\<close>

theorem semver_compare_order:
  shows "CompareSemver a b \<in> {-1, 0, 1}"
    and "CompareSemver b a = - CompareSemver a b"
    and "CompareSemver a b \<le> 0 \<Longrightarrow> CompareSemver b c \<le> 0 \<Longrightarrow> CompareSemver a c \<le> 0"
    and "CompareSemver a b = 0 \<longleftrightarrow> (\<forall>i. comp_at (splitVerNums a) i = comp_at (splitVerNums b) i)"
proof -
  let ?a = "splitVerNums a" and ?b = "splitVerNums b" and ?c = "splitVerNums c"
  have asym: "\<not> (nums_less xs ys \<and> nums_less ys xs)" for xs ys
    using nums_less_trans nums_less_irrefl by blast
  show "CompareSemver a b \<in> {-1, 0, 1}" "CompareSemver b a = - CompareSemver a b"
    using asym [of ?a ?b] by (auto simp: CompareSemver_def compare_nums_cases)
  show "CompareSemver a c \<le> 0" if "CompareSemver a b \<le> 0" "CompareSemver b c \<le> 0"
  proof -
    have ab: "\<not> nums_less ?b ?a" and bc: "\<not> nums_less ?c ?b"
      using that asym [of ?a ?b] asym [of ?b ?c]
      by (auto simp: CompareSemver_def compare_nums_cases split: if_splits)
    have "\<not> nums_less ?c ?a"
    proof
      assume ca: "nums_less ?c ?a"
      have "\<not> nums_less ?a ?b" using nums_less_trans [OF ca] bc by blast
      then have "comp_at ?a i = comp_at ?b i" for i using ab nums_unrelated by blast
      then have "nums_less ?c ?a = nums_less ?c ?b" by (rule nums_less_cong)
      with ca have "nums_less ?c ?b" by simp
      with bc show False by simp
    qed
    then show ?thesis by (simp add: CompareSemver_def compare_nums_cases)
  qed
  show "CompareSemver a b = 0 \<longleftrightarrow> (\<forall>i. comp_at ?a i = comp_at ?b i)"
  proof
    assume "CompareSemver a b = 0"
    then have "\<not> nums_less ?a ?b" "\<not> nums_less ?b ?a"
      by (auto simp: CompareSemver_def compare_nums_cases split: if_splits)
    then show "\<forall>i. comp_at ?a i = comp_at ?b i" using nums_unrelated by blast
  next
    assume "\<forall>i. comp_at ?a i = comp_at ?b i"
    then show "CompareSemver a b = 0" by (simp add: CompareSemver_def compare_nums_cases nums_less_def)
  qed
qed


theorem semver_compare_order_witness:
  "CompareSemver ''v0.1'' ''0.1.0'' = 0 \<and> CompareSemver ''0.1.0'' ''0.10'' = -1 \<and> CompareSemver ''v0.1'' ''0.10'' \<le> 0"
proof -
  have 1: "CompareSemver ''v0.1'' ''0.1.0'' = 0" and 2: "CompareSemver ''0.1.0'' ''0.10'' = -1"
    by (simp_all add: CompareSemver_def splitVerNums_def split_def trim_prefix_def has_prefix_def atoi_value_def digit_of_def)
  then show ?thesis using semver_compare_order(3) [of "''v0.1''" "''0.1.0''" "''0.10''"] by simp
qed

end
