(* ===== verification/Market_Store.thy ===== *)
theory Market_Store
  imports Complex_Main Go_Prelude "HOL-Library.List_Lexorder" "HOL-Library.Char_ord" "HOL-Library.Multiset"
begin

text \<open>
  The persistence layer of the market (\<^verbatim>\<open>pkg/market/sqlstore.go\<close>, \<^verbatim>\<open>store.go\<close>, \<^verbatim>\<open>models.go\<close>) over the SQLite dialect:
  three tables as lists of rows in the order of insertion, and every method of \<^verbatim>\<open>Store\<close> as a function on them. A query
  without ORDER BY returns rows in the order of the table and rows that ORDER BY does not separate keep it; a time
  is the second \<^verbatim>\<open>datetime('now')\<close> names. The database itself does not fail: the errors are those of the
  constraints and of absent rows.
\<close>

section \<open>Rows\<close>

record author_row =
  au_id :: nat
  au_eoa :: string
  au_handle :: "string option"
  au_created :: int

record asset_row =
  as_id :: nat
  as_type :: string
  as_author_id :: nat
  as_name :: string
  as_latest :: string
  as_summary :: string
  as_license :: string
  as_min_isann :: string
  as_tags :: string
  as_visibility :: string
  as_price :: string
  as_token :: "string option"
  as_downloads :: int
  as_rating :: "rat option"
  as_created :: int
  as_updated :: int

record version_row =
  vr_asset_id :: nat
  vr_version :: string
  vr_sha256 :: string
  vr_body :: string
  vr_created :: int

text \<open>The tables with the counters behind AUTOINCREMENT.\<close>

record market_db =
  db_authors :: "author_row list"
  db_assets :: "asset_row list"
  db_versions :: "version_row list"
  db_next_author :: nat
  db_next_asset :: nat

definition migrate :: market_db where
  "migrate = \<lparr>db_authors = [], db_assets = [], db_versions = [], db_next_author = 1, db_next_asset = 1\<rparr>"

record asset =
  a_type :: string
  a_author :: string
  a_eoa :: string
  a_handle :: string
  a_name :: string
  a_version :: string
  a_ref :: string
  a_summary :: string
  a_license :: string
  a_min_isann :: string
  a_tags :: "string list"
  a_visibility :: string
  a_price :: string
  a_token :: "string option"
  a_downloads :: int
  a_rating :: "rat option"
  a_created :: int
  a_updated :: int

record version_info =
  v_version :: string
  v_sha256 :: string
  v_created :: int

record asset_meta =
  am_name :: string
  am_author :: string
  am_version :: string
  am_summary :: string
  am_license :: string
  am_min_isann :: string
  am_tags :: "string list"

record push_input =
  pi_type :: string
  pi_author :: string
  pi_meta :: asset_meta
  pi_body :: string
  pi_sha256 :: string

record list_filter =
  lf_type :: string
  lf_author :: string
  lf_query :: string
  lf_paid :: "bool option"
  lf_sort :: string
  lf_page :: int
  lf_limit :: int

datatype store_error = ErrNotFound | ErrVersionExists


section \<open>Version order\<close>

text \<open>One round of the loop of \<^verbatim>\<open>semverLess\<close>: the answer, or \<^const>\<open>None\<close> for the next component.\<close>

definition component_less :: "string \<Rightarrow> string \<Rightarrow> bool option" where
  "component_less xa xb =
     (case (parse_int xa, parse_int xb) of
        (Some na, Some nb) \<Rightarrow> if na \<noteq> nb then Some (na < nb) else None
      | _ \<Rightarrow> if xa \<noteq> xb then Some (xa < xb) else None)"

fun components_less :: "string list \<Rightarrow> string list \<Rightarrow> bool" where
  "components_less [] [] = False"
| "components_less (x # xs) [] = (case component_less x [] of Some r \<Rightarrow> r | None \<Rightarrow> components_less xs [])"
| "components_less [] (y # ys) = (case component_less [] y of Some r \<Rightarrow> r | None \<Rightarrow> components_less [] ys)"
| "components_less (x # xs) (y # ys) = (case component_less x y of Some r \<Rightarrow> r | None \<Rightarrow> components_less xs ys)"

definition semverLess :: "string \<Rightarrow> string \<Rightarrow> bool" where
  "semverLess a b = components_less (split a CHR ''.'') (split b CHR ''.'')"

text \<open>The inner loop of the insertion sort moves an element before the smaller ones at the end of the sorted part.\<close>

fun sink_desc :: "version_info \<Rightarrow> version_info list \<Rightarrow> version_info list" where
  "sink_desc v [] = [v]"
| "sink_desc v (w # ws) = (if semverLess (v_version w) (v_version v) then w # sink_desc v ws else v # w # ws)"

text \<open>The sorted part is kept reversed, so its end comes first.\<close>

definition sortVersionsDesc :: "version_info list \<Rightarrow> version_info list" where
  "sortVersionsDesc vs = rev (foldl (\<lambda>acc v. sink_desc v acc) [] vs)"


section \<open>Reads\<close>

definition author_is :: "market_db \<Rightarrow> string \<Rightarrow> asset_row \<Rightarrow> bool" where
  "author_is db eoa a \<longleftrightarrow> list_ex (\<lambda>au. au_id au = as_author_id a \<and> au_eoa au = eoa) (db_authors db)"

text \<open>The row that the condition on type, author and name selects.\<close>

definition find_asset :: "market_db \<Rightarrow> string \<Rightarrow> string \<Rightarrow> string \<Rightarrow> asset_row option" where
  "find_asset db typ eoa name =
     find (\<lambda>a. as_type a = typ \<and> author_is db (to_lower eoa) a \<and> as_name a = name) (db_assets db)"

definition versions_of :: "market_db \<Rightarrow> nat \<Rightarrow> version_row list" where
  "versions_of db aid = filter (\<lambda>v. vr_asset_id v = aid) (db_versions db)"

definition scanAsset :: "author_row \<Rightarrow> asset_row \<Rightarrow> asset" where
  "scanAsset au a =
     (let handle = (case au_handle au of None \<Rightarrow> [] | Some h \<Rightarrow> h);
          author = (if handle \<noteq> [] then handle else au_eoa au)
      in \<lparr>a_type = as_type a, a_author = author, a_eoa = au_eoa au, a_handle = handle, a_name = as_name a,
          a_version = as_latest a, a_ref = author @ ''/'' @ as_name a @ ''@'' @ as_latest a,
          a_summary = as_summary a, a_license = as_license a, a_min_isann = as_min_isann a,
          a_tags = (if as_tags a \<noteq> [] then split (as_tags a) CHR '','' else []),
          a_visibility = as_visibility a, a_price = as_price a, a_token = as_token a, a_downloads = as_downloads a,
          a_rating = as_rating a, a_created = as_created a, a_updated = as_updated a\<rparr>)"

text \<open>The inner join of assets and authors.\<close>

definition joined :: "market_db \<Rightarrow> (author_row \<times> asset_row) list" where
  "joined db = concat (map (\<lambda>a. map (\<lambda>au. (au, a)) (filter (\<lambda>au. au_id au = as_author_id a) (db_authors db))) (db_assets db))"

text \<open>SQLite's LIKE: \<^verbatim>\<open>%\<close> stands for any string, \<^verbatim>\<open>_\<close> for any character, letters match up to case.\<close>

function like :: "string \<Rightarrow> string \<Rightarrow> bool" where
  "like [] s = (s = [])"
| "like (c # p) s =
     (if c = CHR ''%'' then like p s \<or> (case s of [] \<Rightarrow> False | _ # t \<Rightarrow> like (c # p) t)
      else (case s of [] \<Rightarrow> False
            | x # t \<Rightarrow> if c = CHR ''_'' \<or> lower_char c = lower_char x then like p t else False))"
  by pat_completeness auto
termination by (relation "measure (\<lambda>(p, s). length p + length s)") auto

definition like_any :: "string \<Rightarrow> string \<Rightarrow> bool" where
  "like_any q s = like (''%'' @ to_lower q @ ''%'') (to_lower s)"

definition list_where :: "list_filter \<Rightarrow> string \<Rightarrow> bool \<Rightarrow> author_row \<times> asset_row \<Rightarrow> bool" where
  "list_where f mineEOA publicOnly r \<longleftrightarrow>
     (let au = fst r; a = snd r in
      (publicOnly \<longrightarrow> as_visibility a = ''public'') \<and>
      (mineEOA \<noteq> [] \<longrightarrow> au_eoa au = mineEOA) \<and>
      (lf_type f \<noteq> [] \<longrightarrow> as_type a = lf_type f) \<and>
      (lf_author f \<noteq> [] \<longrightarrow> au_eoa au = to_lower (lf_author f) \<or> au_handle au = Some (lf_author f)) \<and>
      (lf_query f \<noteq> [] \<longrightarrow> like_any (lf_query f) (as_name a) \<or> like_any (lf_query f) (as_summary a) \<or> like_any (lf_query f) (as_tags a)) \<and>
      (case lf_paid f of None \<Rightarrow> True | Some True \<Rightarrow> as_price a \<noteq> ''0'' | Some False \<Rightarrow> as_price a = ''0''))"

text \<open>Descending order; a missing rating is smaller than every rating.\<close>

definition order_rows :: "string \<Rightarrow> (author_row \<times> asset_row) list \<Rightarrow> (author_row \<times> asset_row) list" where
  "order_rows by rows =
     (if by = ''updated'' then sort_key (\<lambda>(au, a). - as_updated a) rows
      else if by = ''rating'' then
        sort_key (\<lambda>(au, a). - the (as_rating a)) (filter (\<lambda>(au, a). as_rating a \<noteq> None) rows) @
        filter (\<lambda>(au, a). as_rating a = None) rows
      else sort_key (\<lambda>(au, a). - as_downloads a) rows)"

definition list_limit :: "list_filter \<Rightarrow> nat" where
  "list_limit f = (if lf_limit f \<le> 0 \<or> lf_limit f > 100 then 20 else nat (lf_limit f))"

text \<open>\<^verbatim>\<open>LIMIT ? OFFSET ?\<close>: a negative offset counts as zero.\<close>

definition list_offset :: "list_filter \<Rightarrow> nat" where
  "list_offset f = nat (wrap64 (((if lf_page f < 1 then 1 else lf_page f) - 1) * int (list_limit f)))"

definition list_rows :: "market_db \<Rightarrow> list_filter \<Rightarrow> string \<Rightarrow> bool \<Rightarrow> asset list \<times> nat" where
  "list_rows db f mineEOA publicOnly =
     (let rows = filter (list_where f mineEOA publicOnly) (joined db)
      in (map (\<lambda>(au, a). scanAsset au a) (take (list_limit f) (drop (list_offset f) (order_rows (lf_sort f) rows))),
          length rows))"

definition ListAssets :: "market_db \<Rightarrow> list_filter \<Rightarrow> asset list \<times> nat" where
  "ListAssets db f = list_rows db f [] True"

definition ListMine :: "market_db \<Rightarrow> string \<Rightarrow> list_filter \<Rightarrow> asset list \<times> nat" where
  "ListMine db eoa f = list_rows db f (to_lower eoa) False"

definition ListVersions :: "market_db \<Rightarrow> string \<Rightarrow> string \<Rightarrow> string \<Rightarrow> version_info list" where
  "ListVersions db typ eoa name =
     (case find_asset db typ eoa name of
        None \<Rightarrow> []
      | Some a \<Rightarrow> sortVersionsDesc (map (\<lambda>v. \<lparr>v_version = vr_version v, v_sha256 = vr_sha256 v, v_created = vr_created v\<rparr>)
                     (versions_of db (as_id a))))"

definition GetAsset :: "market_db \<Rightarrow> string \<Rightarrow> string \<Rightarrow> string \<Rightarrow> string \<Rightarrow> (asset \<times> version_info list) option" where
  "GetAsset db typ eoa name version =
     (case find_asset db typ eoa name of
        None \<Rightarrow> None
      | Some row \<Rightarrow>
          (case find (\<lambda>au. au_id au = as_author_id row \<and> au_eoa au = to_lower eoa) (db_authors db) of
             None \<Rightarrow> None
           | Some au \<Rightarrow>
               (let a = scanAsset au row; versions = ListVersions db typ eoa name in
                if version = [] then Some (a, versions)
                else if version \<in> set (map v_version versions)
                then Some (a\<lparr>a_version := version, a_ref := a_author a @ ''/'' @ a_name a @ ''@'' @ version\<rparr>, versions)
                else None)))"

definition GetRecipe :: "market_db \<Rightarrow> string \<Rightarrow> string \<Rightarrow> string \<Rightarrow> string \<Rightarrow> (string \<times> string \<times> string) option" where
  "GetRecipe db typ eoa name version =
     (case find_asset db typ eoa name of
        None \<Rightarrow> None
      | Some a \<Rightarrow>
          (let version = (if version = [] then as_latest a else version) in
           case find (\<lambda>v. vr_version v = version) (versions_of db (as_id a)) of
             None \<Rightarrow> None
           | Some v \<Rightarrow> Some (vr_body v, vr_sha256 v, as_visibility a)))"


section \<open>Writes\<close>

definition authorID :: "int \<Rightarrow> string \<Rightarrow> market_db \<Rightarrow> nat \<times> market_db" where
  "authorID now eoa0 db =
     (let eoa = to_lower eoa0 in
      case find (\<lambda>au. au_eoa au = eoa) (db_authors db) of
        Some au \<Rightarrow> (au_id au, db)
      | None \<Rightarrow>
          (db_next_author db,
           db\<lparr>db_authors := db_authors db @ [\<lparr>au_id = db_next_author db, au_eoa = eoa, au_handle = None, au_created = now\<rparr>],
              db_next_author := Suc (db_next_author db)\<rparr>))"

definition update_asset :: "nat \<Rightarrow> (asset_row \<Rightarrow> asset_row) \<Rightarrow> market_db \<Rightarrow> market_db" where
  "update_asset aid f db = db\<lparr>db_assets := map (\<lambda>a. if as_id a = aid then f a else a) (db_assets db)\<rparr>"

definition latest_of :: "string list \<Rightarrow> string" where
  "latest_of vs = foldl (\<lambda>latest v. if latest = [] \<or> semverLess latest v then v else latest) [] vs"

definition refreshLatest :: "int \<Rightarrow> nat \<Rightarrow> asset_meta \<Rightarrow> market_db \<Rightarrow> market_db" where
  "refreshLatest now aid meta db =
     (let latest = latest_of (map vr_version (versions_of db aid)) in
      if latest = am_version meta
      then update_asset aid (\<lambda>a. a\<lparr>as_latest := latest, as_summary := am_summary meta, as_license := am_license meta,
                                   as_min_isann := am_min_isann meta, as_tags := join '','' (am_tags meta), as_updated := now\<rparr>) db
      else update_asset aid (\<lambda>a. a\<lparr>as_latest := latest, as_updated := now\<rparr>) db)"

definition new_asset :: "int \<Rightarrow> nat \<Rightarrow> nat \<Rightarrow> push_input \<Rightarrow> asset_row" where
  "new_asset now aid author inp =
     (let m = pi_meta inp in
      \<lparr>as_id = aid, as_type = pi_type inp, as_author_id = author, as_name = am_name m, as_latest = am_version m,
       as_summary = am_summary m, as_license = am_license m, as_min_isann = am_min_isann m,
       as_tags = join '','' (am_tags m), as_visibility = ''private'', as_price = ''0'', as_token = None,
       as_downloads = 0, as_rating = None, as_created = now, as_updated = now\<rparr>)"

definition assetID :: "int \<Rightarrow> nat \<Rightarrow> push_input \<Rightarrow> market_db \<Rightarrow> nat \<times> market_db" where
  "assetID now author inp db =
     (case find (\<lambda>a. as_type a = pi_type inp \<and> as_author_id a = author \<and> as_name a = am_name (pi_meta inp)) (db_assets db) of
        Some a \<Rightarrow> (as_id a, db)
      | None \<Rightarrow> (db_next_asset db,
                 db\<lparr>db_assets := db_assets db @ [new_asset now (db_next_asset db) author inp],
                    db_next_asset := Suc (db_next_asset db)\<rparr>))"

definition PutAsset :: "int \<Rightarrow> push_input \<Rightarrow> market_db \<Rightarrow> (store_error + asset option) \<times> market_db" where
  "PutAsset now inp db =
     (let (author, db1) = authorID now (pi_author inp) db;
          (aid, db2) = assetID now author inp db1;
          m = pi_meta inp
      in if am_version m \<in> set (map vr_version (versions_of db2 aid)) then (Inl ErrVersionExists, db2)
         else
           (let db3 = db2\<lparr>db_versions := db_versions db2 @
                       [\<lparr>vr_asset_id = aid, vr_version = am_version m, vr_sha256 = pi_sha256 inp, vr_body = pi_body inp, vr_created = now\<rparr>]\<rparr>;
                db4 = refreshLatest now aid m db3
            in (Inr (map_option fst (GetAsset db4 (pi_type inp) (pi_author inp) (am_name m) [])), db4)))"

definition SetVisibility :: "int \<Rightarrow> string \<Rightarrow> string \<Rightarrow> string \<Rightarrow> string \<Rightarrow> market_db \<Rightarrow> (store_error + bool) \<times> market_db" where
  "SetVisibility now typ eoa name vis db =
     (case find_asset db typ eoa name of
        None \<Rightarrow> (Inl ErrNotFound, db)
      | Some a \<Rightarrow>
          if as_visibility a = vis then (Inr False, db)
          else (Inr True, update_asset (as_id a) (\<lambda>a. a\<lparr>as_visibility := vis, as_updated := now\<rparr>) db))"

definition SetPrice ::
  "int \<Rightarrow> string \<Rightarrow> string \<Rightarrow> string \<Rightarrow> string \<Rightarrow> string option \<Rightarrow> market_db \<Rightarrow> (store_error + bool) \<times> market_db" where
  "SetPrice now typ eoa name price token db =
     (case find_asset db typ eoa name of
        None \<Rightarrow> (Inl ErrNotFound, db)
      | Some a \<Rightarrow>
          (let text = (\<lambda>t. case t of None \<Rightarrow> [] | Some s \<Rightarrow> s) in
           if as_price a = price \<and> text (as_token a) = text token then (Inr False, db)
           else (Inr True, update_asset (as_id a) (\<lambda>a. a\<lparr>as_price := price, as_token := token, as_updated := now\<rparr>) db)))"

definition SetMeta ::
  "int \<Rightarrow> string \<Rightarrow> string \<Rightarrow> string \<Rightarrow> string option \<Rightarrow> string option \<Rightarrow> market_db \<Rightarrow> (store_error + bool) \<times> market_db" where
  "SetMeta now typ eoa name tags summary db =
     (case find_asset db typ eoa name of
        None \<Rightarrow> (Inl ErrNotFound, db)
      | Some a \<Rightarrow>
          (let newTags = (case tags of Some t \<Rightarrow> t | None \<Rightarrow> as_tags a);
               newSummary = (case summary of Some s \<Rightarrow> s | None \<Rightarrow> as_summary a)
           in if newTags = as_tags a \<and> newSummary = as_summary a then (Inr False, db)
              else (Inr True, update_asset (as_id a)
                      (\<lambda>a. a\<lparr>as_tags := newTags, as_summary := newSummary, as_updated := now\<rparr>) db)))"

definition DeleteAsset :: "string \<Rightarrow> string \<Rightarrow> string \<Rightarrow> market_db \<Rightarrow> bool \<times> market_db" where
  "DeleteAsset typ eoa name db =
     (case find_asset db typ eoa name of
        None \<Rightarrow> (False, db)
      | Some a \<Rightarrow> (True, db\<lparr>db_versions := filter (\<lambda>v. vr_asset_id v \<noteq> as_id a) (db_versions db),
                           db_assets := filter (\<lambda>x. as_id x \<noteq> as_id a) (db_assets db)\<rparr>))"

definition IncrDownloads :: "string \<Rightarrow> string \<Rightarrow> string \<Rightarrow> market_db \<Rightarrow> market_db" where
  "IncrDownloads typ eoa name db =
     (case find_asset db typ eoa name of
        None \<Rightarrow> db
      | Some a \<Rightarrow> update_asset (as_id a) (\<lambda>a. a\<lparr>as_downloads := as_downloads a + 1\<rparr>) db)"


section \<open>Invariant\<close>

text \<open>The keys and references that the schema declares (and those it relies on).\<close>

definition db_keys :: "market_db \<Rightarrow> bool" where
  "db_keys db \<longleftrightarrow>
     distinct (map au_id (db_authors db)) \<and> distinct (map au_eoa (db_authors db)) \<and>
     (\<forall>au\<in>set (db_authors db). au_id au < db_next_author db \<and> to_lower (au_eoa au) = au_eoa au) \<and>
     distinct (map as_id (db_assets db)) \<and>
     distinct (map (\<lambda>a. (as_type a, as_author_id a, as_name a)) (db_assets db)) \<and>
     (\<forall>a\<in>set (db_assets db). as_id a < db_next_asset db \<and> as_author_id a \<in> au_id ` set (db_authors db) \<and>
        as_visibility a \<in> {''public'', ''private''}) \<and>
     distinct (map (\<lambda>v. (vr_asset_id v, vr_version v)) (db_versions db)) \<and>
     (\<forall>v\<in>set (db_versions db). vr_asset_id v \<in> as_id ` set (db_assets db) \<and> vr_version v \<noteq> [])"

text \<open>Every asset has versions and its latest one is among them.\<close>

definition db_latest :: "market_db \<Rightarrow> bool" where
  "db_latest db \<longleftrightarrow> (\<forall>a\<in>set (db_assets db). as_latest a \<in> vr_version ` set (versions_of db (as_id a)))"

definition db_inv :: "market_db \<Rightarrow> bool" where
  "db_inv db \<longleftrightarrow> db_keys db \<and> db_latest db"

lemma db_inv_migrate: "db_inv migrate"
  by (simp add: db_inv_def db_keys_def db_latest_def migrate_def)

lemma latest_of_snoc:
  "latest_of (vs @ [v]) = (if latest_of vs = [] \<or> semverLess (latest_of vs) v then v else latest_of vs)"
  by (simp add: latest_of_def)

lemma latest_of_in: "vs \<noteq> [] \<Longrightarrow> [] \<notin> set vs \<Longrightarrow> latest_of vs \<in> set vs"
proof (induction vs rule: rev_induct)
  case (snoc v vs)
  show ?case
  proof (cases "vs = []")
    case True
    then show ?thesis by (simp add: latest_of_def)
  next
    case False
    with snoc show ?thesis by (simp add: latest_of_snoc)
  qed
qed simp


subsection \<open>Selecting an asset\<close>

lemma author_unique:
  assumes "db_keys db" "author_is db e a" "author_is db e b"
  shows "as_author_id a = as_author_id b"
proof -
  from assms obtain au au' where "au \<in> set (db_authors db)" "au_id au = as_author_id a" "au_eoa au = e"
    and "au' \<in> set (db_authors db)" "au_id au' = as_author_id b" "au_eoa au' = e"
    by (auto simp: author_is_def list_ex_iff)
  moreover have "distinct (map au_eoa (db_authors db))" using assms(1) by (simp add: db_keys_def)
  ultimately show ?thesis using distinct_map_eq by metis
qed

lemma find_asset_iff:
  assumes "db_keys db"
  shows "find_asset db t e n = Some a \<longleftrightarrow>
     a \<in> set (db_assets db) \<and> as_type a = t \<and> author_is db (to_lower e) a \<and> as_name a = n"
  unfolding find_asset_def
proof (rule find_unique)
  fix x y assume xy: "x \<in> set (db_assets db)" "y \<in> set (db_assets db)"
    "as_type x = t \<and> author_is db (to_lower e) x \<and> as_name x = n" "as_type y = t \<and> author_is db (to_lower e) y \<and> as_name y = n"
  then have "(as_type x, as_author_id x, as_name x) = (as_type y, as_author_id y, as_name y)"
    using author_unique [OF assms, of "to_lower e" x y] by simp
  moreover have "distinct (map (\<lambda>a. (as_type a, as_author_id a, as_name a)) (db_assets db))" using assms by (simp add: db_keys_def)
  ultimately show "x = y" using xy(1,2) distinct_map_eq by fastforce
qed

lemma find_asset_authors:
  "db_assets db' = db_assets db \<Longrightarrow> (\<And>a. a \<in> set (db_assets db) \<Longrightarrow> author_is db' (to_lower e) a = author_is db (to_lower e) a) \<Longrightarrow>
   find_asset db' t e n = find_asset db t e n"
  unfolding find_asset_def by (auto intro: find_cong)


subsection \<open>Updates of one asset row\<close>

definition same_key :: "(asset_row \<Rightarrow> asset_row) \<Rightarrow> bool" where
  "same_key f \<longleftrightarrow> (\<forall>a. as_id (f a) = as_id a \<and> as_type (f a) = as_type a \<and> as_author_id (f a) = as_author_id a \<and> as_name (f a) = as_name a)"

lemma update_asset_sel [simp]:
  "db_authors (update_asset i f db) = db_authors db" "db_versions (update_asset i f db) = db_versions db"
  "versions_of (update_asset i f db) j = versions_of db j"
  by (simp_all add: update_asset_def versions_of_def)

lemma find_asset_update:
  assumes "same_key f"
  shows "find_asset (update_asset i f db) t e n = map_option (\<lambda>a. if as_id a = i then f a else a) (find_asset db t e n)"
proof -
  have "author_is (update_asset i f db) e' (f a) = author_is db e' a" "author_is (update_asset i f db) e' a = author_is db e' a" for e' a
    using assms by (simp_all add: author_is_def same_key_def)
  then show ?thesis using assms
    by (auto simp: find_asset_def update_asset_def find_map_list same_key_def o_def
        intro!: arg_cong [where f = "map_option _"] find_cong)
qed

lemma GetRecipe_update:
  assumes "same_key f" "\<And>a. as_visibility (f a) = as_visibility a" "v \<noteq> []"
  shows "GetRecipe (update_asset i f db) t e n v = GetRecipe db t e n v"
  using assms by (auto simp: GetRecipe_def find_asset_update same_key_def Let_def split: option.splits)

lemma db_keys_update:
  assumes "db_keys db" "same_key f" "\<And>a. a \<in> set (db_assets db) \<Longrightarrow> as_visibility (f a) \<in> {''public'', ''private''}"
  shows "db_keys (update_asset i f db)"
proof -
  let ?g = "\<lambda>a. if as_id a = i then f a else a"
  have m: "map as_id (map ?g (db_assets db)) = map as_id (db_assets db)"
    "map (\<lambda>a. (as_type a, as_author_id a, as_name a)) (map ?g (db_assets db)) = map (\<lambda>a. (as_type a, as_author_id a, as_name a)) (db_assets db)"
    using assms(2) by (simp_all add: same_key_def)
  have ids: "as_id ` set (map ?g (db_assets db)) = as_id ` set (db_assets db)"
    using arg_cong [OF m(1), of set] by (simp only: set_map)
  have "db_assets (update_asset i f db) = map ?g (db_assets db)" "db_next_asset (update_asset i f db) = db_next_asset db"
    "db_next_author (update_asset i f db) = db_next_author db" by (simp_all add: update_asset_def)
  then show ?thesis using assms unfolding db_keys_def update_asset_sel by (simp only: m ids) (auto simp: same_key_def)
qed

lemma db_inv_update:
  assumes "db_inv db" "same_key f" "\<And>a. as_visibility (f a) = as_visibility a \<or> as_visibility (f a) \<in> {''public'', ''private''}"
    and "\<And>a. as_latest (f a) = as_latest a"
  shows "db_inv (update_asset i f db)"
proof -
  have "as_visibility (f a) \<in> {''public'', ''private''}" if "a \<in> set (db_assets db)" for a
  proof -
    have "as_visibility a \<in> {''public'', ''private''}" using assms(1) that by (simp add: db_inv_def db_keys_def)
    with assms(3) [of a] show ?thesis by auto
  qed
  then have "db_keys (update_asset i f db)" using assms(1,2) by (intro db_keys_update) (auto simp: db_inv_def)
  moreover have "db_latest (update_asset i f db)"
    using assms unfolding db_inv_def db_latest_def update_asset_sel by (auto simp: update_asset_def same_key_def)
  ultimately show ?thesis by (simp add: db_inv_def)
qed


subsection \<open>Pushing a version\<close>

abbreviation put_row :: "int \<Rightarrow> nat \<Rightarrow> push_input \<Rightarrow> version_row" where
  "put_row now aid inp \<equiv> \<lparr>vr_asset_id = aid, vr_version = am_version (pi_meta inp), vr_sha256 = pi_sha256 inp,
     vr_body = pi_body inp, vr_created = now\<rparr>"

definition add_version :: "int \<Rightarrow> nat \<Rightarrow> push_input \<Rightarrow> market_db \<Rightarrow> market_db" where
  "add_version now aid inp db =
     refreshLatest now aid (pi_meta inp) (db\<lparr>db_versions := db_versions db @ [put_row now aid inp]\<rparr>)"

lemma authorID_new:
  assumes "db_keys db" "find (\<lambda>au. au_eoa au = to_lower e) (db_authors db) = None" "authorID now e db = (i, db1)"
  shows "db_keys db1" "i \<in> au_id ` set (db_authors db1)" "author_is db1 (to_lower e) a \<longleftrightarrow> as_author_id a = i"
    "a \<in> set (db_assets db) \<Longrightarrow> author_is db1 x a = author_is db x a"
proof -
  have d: "db1 = db\<lparr>db_authors := db_authors db @ [\<lparr>au_id = db_next_author db, au_eoa = to_lower e, au_handle = None, au_created = now\<rparr>],
      db_next_author := Suc (db_next_author db)\<rparr>" "i = db_next_author db"
    using assms(2,3) by (auto simp: authorID_def Let_def)
  have no: "\<forall>au\<in>set (db_authors db). au_eoa au \<noteq> to_lower e" using assms(2) by (auto simp: find_None_iff)
  have fresh: "db_next_author db \<notin> au_id ` set (db_authors db)" using assms(1) by (auto simp: db_keys_def)
  show "db_keys db1" using assms(1) no fresh unfolding d db_keys_def by (auto simp: less_Suc_eq)
  show "i \<in> au_id ` set (db_authors db1)" by (simp add: d)
  show "author_is db1 (to_lower e) a \<longleftrightarrow> as_author_id a = i" using no by (auto simp: author_is_def d list_ex_iff)
  show "author_is db1 x a = author_is db x a" if "a \<in> set (db_assets db)"
  proof -
    have "as_author_id a \<in> au_id ` set (db_authors db)" using assms(1) that by (simp add: db_keys_def)
    then have "as_author_id a \<noteq> db_next_author db" using fresh by metis
    then show ?thesis by (auto simp: author_is_def d)
  qed
qed

lemma authorID_old:
  assumes "db_keys db" "find (\<lambda>au. au_eoa au = to_lower e) (db_authors db) = Some au" "authorID now e db = (i, db1)"
  shows "db1 = db" "i \<in> au_id ` set (db_authors db)" "author_is db (to_lower e) a \<longleftrightarrow> as_author_id a = i"
proof -
  have d: "db1 = db" "i = au_id au" using assms(2,3) by (auto simp: authorID_def Let_def)
  have au: "au \<in> set (db_authors db)" "au_eoa au = to_lower e" using find_SomeD [OF assms(2)] by simp_all
  have u: "distinct (map au_eoa (db_authors db))" using assms(1) by (simp add: db_keys_def)
  show "db1 = db" "i \<in> au_id ` set (db_authors db)" using d au by simp_all
  show "author_is db (to_lower e) a \<longleftrightarrow> as_author_id a = i"
    using au d distinct_map_eq [OF u] by (auto simp: author_is_def list_ex_iff) metis
qed

lemma authorID_spec:
  assumes "db_keys db" "authorID now e db = (i, db1)"
  shows "db_keys db1" "db_assets db1 = db_assets db" "db_versions db1 = db_versions db" "db_next_asset db1 = db_next_asset db"
    "i \<in> au_id ` set (db_authors db1)" "author_is db1 (to_lower e) a \<longleftrightarrow> as_author_id a = i"
    "a \<in> set (db_assets db) \<Longrightarrow> author_is db1 x a = author_is db x a"
proof -
  show "db_assets db1 = db_assets db" "db_versions db1 = db_versions db" "db_next_asset db1 = db_next_asset db"
    using assms(2) by (auto simp: authorID_def Let_def split: option.splits)
  show "db_keys db1" "i \<in> au_id ` set (db_authors db1)" "author_is db1 (to_lower e) a \<longleftrightarrow> as_author_id a = i"
    "a \<in> set (db_assets db) \<Longrightarrow> author_is db1 x a = author_is db x a"
    using authorID_new [OF assms(1) _ assms(2)] authorID_old [OF assms(1) _ assms(2)] assms(1)
    by (cases "find (\<lambda>au. au_eoa au = to_lower e) (db_authors db)"; simp)+
qed

lemma authorID_found:
  assumes "db_keys db" "find_asset db t e n = Some a"
  shows "authorID now e db = (as_author_id a, db)"
proof -
  have f: "author_is db (to_lower e) a" using assms by (simp add: find_asset_iff)
  then obtain au where au: "au \<in> set (db_authors db)" "au_id au = as_author_id a" "au_eoa au = to_lower e"
    by (auto simp: author_is_def list_ex_iff)
  have "distinct (map au_eoa (db_authors db))" using assms(1) by (simp add: db_keys_def)
  then have "find (\<lambda>au. au_eoa au = to_lower e) (db_authors db) = Some au \<longleftrightarrow> au \<in> set (db_authors db) \<and> au_eoa au = to_lower e"
    by (intro find_unique) (auto dest: distinct_map_eq)
  then show ?thesis using au by (simp add: authorID_def Let_def)
qed

text \<open>The three ways a push can go: the version is already there; the asset is there; the asset is new.\<close>

lemma PutAsset_cases:
  assumes "db_keys db"
  obtains (dup) a where "find_asset db (pi_type inp) (pi_author inp) (am_name (pi_meta inp)) = Some a"
      "am_version (pi_meta inp) \<in> vr_version ` set (versions_of db (as_id a))" "PutAsset now inp db = (Inl ErrVersionExists, db)"
  | (old) a r where "find_asset db (pi_type inp) (pi_author inp) (am_name (pi_meta inp)) = Some a"
      "am_version (pi_meta inp) \<notin> vr_version ` set (versions_of db (as_id a))"
      "PutAsset now inp db = (Inr r, add_version now (as_id a) inp db)"
  | (new) i db1 db2 r where "find_asset db (pi_type inp) (pi_author inp) (am_name (pi_meta inp)) = None"
      "authorID now (pi_author inp) db = (i, db1)"
      "db2 = db1\<lparr>db_assets := db_assets db1 @ [new_asset now (db_next_asset db1) i inp], db_next_asset := Suc (db_next_asset db1)\<rparr>"
      "PutAsset now inp db = (Inr r, add_version now (db_next_asset db1) inp db2)"
proof (cases "find_asset db (pi_type inp) (pi_author inp) (am_name (pi_meta inp))")
  case (Some a)
  have a: "a \<in> set (db_assets db)" "as_type a = pi_type inp" "as_name a = am_name (pi_meta inp)"
    using Some assms by (auto simp: find_asset_iff)
  have "distinct (map (\<lambda>a. (as_type a, as_author_id a, as_name a)) (db_assets db))" using assms by (simp add: db_keys_def)
  then have "find (\<lambda>x. as_type x = pi_type inp \<and> as_author_id x = as_author_id a \<and> as_name x = am_name (pi_meta inp)) (db_assets db) = Some a
     \<longleftrightarrow> a \<in> set (db_assets db) \<and> as_type a = pi_type inp \<and> as_author_id a = as_author_id a \<and> as_name a = am_name (pi_meta inp)"
    by (intro find_unique) (auto dest: distinct_map_eq)
  with a have f: "find (\<lambda>x. as_type x = pi_type inp \<and> as_author_id x = as_author_id a \<and> as_name x = am_name (pi_meta inp)) (db_assets db) = Some a"
    by blast
  have p: "PutAsset now inp db =
    (if am_version (pi_meta inp) \<in> vr_version ` set (versions_of db (as_id a)) then (Inl ErrVersionExists, db)
     else (Inr (map_option fst (GetAsset (add_version now (as_id a) inp db) (pi_type inp) (pi_author inp) (am_name (pi_meta inp)) [])),
           add_version now (as_id a) inp db))"
    by (simp add: PutAsset_def authorID_found [OF assms Some] assetID_def f add_version_def Let_def)
  show ?thesis using p dup [OF Some] old [OF Some] by (cases "am_version (pi_meta inp) \<in> vr_version ` set (versions_of db (as_id a))") auto
next
  case None
  obtain i db1 where au: "authorID now (pi_author inp) db = (i, db1)" by fastforce
  note s = authorID_spec [OF assms au]
  have "find (\<lambda>x. as_type x = pi_type inp \<and> as_author_id x = i \<and> as_name x = am_name (pi_meta inp)) (db_assets db1) = None"
    using None s(2,6,7) unfolding find_asset_def find_None_iff by auto
  then have a: "assetID now i inp db1 = (db_next_asset db1,
      db1\<lparr>db_assets := db_assets db1 @ [new_asset now (db_next_asset db1) i inp], db_next_asset := Suc (db_next_asset db1)\<rparr>)"
    by (simp add: assetID_def)
  have "vr_asset_id v \<noteq> db_next_asset db1" if "v \<in> set (db_versions db1)" for v
    using s(1) that by (fastforce simp: db_keys_def)
  then have "versions_of (db1\<lparr>db_assets := x, db_next_asset := y\<rparr>) (db_next_asset db1) = []" for x y
    by (auto simp: versions_of_def filter_empty_conv)
  then show ?thesis using None au a new [OF None au refl]
    by (simp add: PutAsset_def add_version_def Let_def)
qed

lemma versions_of_add:
  "versions_of (db\<lparr>db_versions := db_versions db @ [v]\<rparr>) i = versions_of db i @ (if vr_asset_id v = i then [v] else [])"
  by (simp add: versions_of_def)

lemma db_inv_add_version:
  assumes "db_keys db" "aid \<in> as_id ` set (db_assets db)"
    and "am_version (pi_meta inp) \<noteq> []" "am_version (pi_meta inp) \<notin> vr_version ` set (versions_of db aid)"
    and "\<And>a. a \<in> set (db_assets db) \<Longrightarrow> as_id a \<noteq> aid \<Longrightarrow> as_latest a \<in> vr_version ` set (versions_of db (as_id a))"
  shows "db_inv (add_version now aid inp db)"
proof -
  let ?d = "db\<lparr>db_versions := db_versions db @ [put_row now aid inp]\<rparr>"
  let ?vs = "map vr_version (versions_of ?d aid)"
  have "(aid, am_version (pi_meta inp)) \<notin> (\<lambda>v. (vr_asset_id v, vr_version v)) ` set (db_versions db)"
    using assms(4) by (auto simp: versions_of_def)
  then have k: "db_keys ?d" using assms(1-3) unfolding db_keys_def by simp
  have l: "latest_of ?vs \<in> set ?vs"
    by (rule latest_of_in) (use k in \<open>auto simp: versions_of_add db_keys_def versions_of_def\<close>)
  have "db_inv (update_asset aid f ?d)" if "same_key f" "\<And>a. as_visibility (f a) = as_visibility a" "\<And>a. as_latest (f a) = latest_of ?vs" for f
  proof -
    have "as_visibility a \<in> {''public'', ''private''}" if "a \<in> set (db_assets ?d)" for a
      using k that by (simp add: db_keys_def)
    then have "db_keys (update_asset aid f ?d)" using k that(1,2) by (intro db_keys_update) auto
    moreover have "db_latest (update_asset aid f ?d)"
      unfolding db_latest_def update_asset_sel
      using that(1,3) l assms(5) by (auto simp: update_asset_def same_key_def versions_of_add)
    ultimately show ?thesis by (simp add: db_inv_def)
  qed
  then show ?thesis by (simp add: add_version_def refreshLatest_def Let_def same_key_def)
qed

lemma GetRecipe_add_version:
  assumes "v \<noteq> []"
  shows "GetRecipe (add_version now aid inp db) t e n v =
    (case find_asset db t e n of
       None \<Rightarrow> None
     | Some a \<Rightarrow> (case find (\<lambda>x. vr_version x = v) (versions_of db (as_id a)) of
                   Some x \<Rightarrow> Some (vr_body x, vr_sha256 x, as_visibility a)
                 | None \<Rightarrow> if as_id a = aid \<and> v = am_version (pi_meta inp) then Some (pi_body inp, pi_sha256 inp, as_visibility a) else None))"
proof -
  have "GetRecipe (add_version now aid inp db) t e n v = GetRecipe (db\<lparr>db_versions := db_versions db @ [put_row now aid inp]\<rparr>) t e n v"
    using assms by (simp add: add_version_def refreshLatest_def Let_def GetRecipe_update same_key_def)
  moreover have "find_asset (db\<lparr>db_versions := x\<rparr>) t e n = find_asset db t e n" for x
    by (rule find_asset_authors) (simp_all add: author_is_def)
  ultimately show ?thesis using assms
    by (simp add: GetRecipe_def versions_of_add find_append_list split: option.split)
qed

lemma new_asset_key [simp]:
  "as_id (new_asset now i au inp) = i" "as_type (new_asset now i au inp) = pi_type inp"
  "as_author_id (new_asset now i au inp) = au" "as_name (new_asset now i au inp) = am_name (pi_meta inp)"
  "as_visibility (new_asset now i au inp) = ''private''"
  by (simp_all add: new_asset_def Let_def)

lemma new_key_free:
  assumes "db_keys db" "find_asset db (pi_type inp) (pi_author inp) (am_name (pi_meta inp)) = None"
    and "authorID now (pi_author inp) db = (i, db1)"
  shows "(pi_type inp, i, am_name (pi_meta inp)) \<notin> (\<lambda>a. (as_type a, as_author_id a, as_name a)) ` set (db_assets db)"
proof
  note s = authorID_spec [OF assms(1,3)]
  assume "(pi_type inp, i, am_name (pi_meta inp)) \<in> (\<lambda>a. (as_type a, as_author_id a, as_name a)) ` set (db_assets db)"
  then obtain a where a: "a \<in> set (db_assets db)" "as_type a = pi_type inp" "as_author_id a = i" "as_name a = am_name (pi_meta inp)"
    by auto
  then have "author_is db (to_lower (pi_author inp)) a" using s(6,7) by blast
  then have "find_asset db (pi_type inp) (pi_author inp) (am_name (pi_meta inp)) = Some a" using a assms(1) by (simp add: find_asset_iff)
  then show False using assms(2) by simp
qed

lemma author_is_own:
  assumes "db_keys db" "authorID now e db = (i, db1)" "as_author_id r = i"
  shows "author_is db1 x r \<longleftrightarrow> x = to_lower e"
proof -
  note s = authorID_spec [OF assms(1,2)]
  have u: "distinct (map au_id (db_authors db1))" using s(1) by (simp add: db_keys_def)
  have "author_is db1 (to_lower e) r" using s(6) assms(3) by simp
  then obtain au where "au \<in> set (db_authors db1)" "au_id au = i" "au_eoa au = to_lower e"
    using assms(3) by (auto simp: author_is_def list_ex_iff)
  then show ?thesis using assms(3) distinct_map_eq [OF u] by (fastforce simp: author_is_def list_ex_iff)
qed

text \<open>The database after a new asset row was inserted.\<close>

lemma new_asset_db:
  assumes "db_inv db" "find_asset db (pi_type inp) (pi_author inp) (am_name (pi_meta inp)) = None"
    and "authorID now (pi_author inp) db = (i, db1)"
    and "db2 = db1\<lparr>db_assets := db_assets db1 @ [new_asset now (db_next_asset db1) i inp], db_next_asset := Suc (db_next_asset db1)\<rparr>"
  shows "db_keys db2" "versions_of db2 j = versions_of db j" "versions_of db (db_next_asset db1) = []"
    "find_asset db2 t e n = (case find_asset db t e n of Some a \<Rightarrow> Some a
        | None \<Rightarrow> if t = pi_type inp \<and> to_lower e = to_lower (pi_author inp) \<and> n = am_name (pi_meta inp)
                 then Some (new_asset now (db_next_asset db1) i inp) else None)"
    "db_assets db2 = db_assets db @ [new_asset now (db_next_asset db1) i inp]"
proof -
  have k: "db_keys db" using assms(1) by (simp add: db_inv_def)
  note s = authorID_spec [OF k assms(3)]
  note no = new_key_free [OF k assms(2,3)]
  have fresh: "db_next_asset db1 \<notin> as_id ` set (db_assets db)" using s(1,2) by (auto simp: db_keys_def)
  show "db_keys db2" using s(1,2,5) no fresh unfolding assms(4) db_keys_def by (auto simp: less_Suc_eq)
  show "versions_of db2 j = versions_of db j" by (simp add: assms(4) versions_of_def s(3))
  have "vr_asset_id v \<noteq> db_next_asset db1" if "v \<in> set (db_versions db)" for v
  proof -
    have "vr_asset_id v \<in> as_id ` set (db_assets db)" using k that by (simp add: db_keys_def)
    then show ?thesis using fresh by metis
  qed
  then show "versions_of db (db_next_asset db1) = []" by (auto simp: versions_of_def filter_empty_conv)
  show a: "db_assets db2 = db_assets db @ [new_asset now (db_next_asset db1) i inp]" by (simp add: assms(4) s(2))
  have au: "author_is db2 x r = author_is db1 x r" for x r by (simp add: author_is_def assms(4))
  have "find (\<lambda>a. as_type a = t \<and> author_is db2 (to_lower e) a \<and> as_name a = n) (db_assets db) = find_asset db t e n"
    unfolding find_asset_def by (rule find_cong) (simp_all add: au s(7))
  then show "find_asset db2 t e n = (case find_asset db t e n of Some a \<Rightarrow> Some a
        | None \<Rightarrow> if t = pi_type inp \<and> to_lower e = to_lower (pi_author inp) \<and> n = am_name (pi_meta inp)
                 then Some (new_asset now (db_next_asset db1) i inp) else None)"
    unfolding find_asset_def a find_append_list using author_is_own [OF k assms(3)] by (auto simp: au split: option.split)
qed

lemma db_inv_put:
  assumes "db_inv db" "am_version (pi_meta inp) \<noteq> []"
  shows "db_inv (snd (PutAsset now inp db))"
proof -
  have k: "db_keys db" and l: "\<And>a. a \<in> set (db_assets db) \<Longrightarrow> as_latest a \<in> vr_version ` set (versions_of db (as_id a))"
    using assms(1) by (simp_all add: db_inv_def db_latest_def)
  show ?thesis
  proof (cases rule: PutAsset_cases [OF k, of inp now, case_names dup old new])
    case (dup a)
    then show ?thesis using assms(1) by simp
  next
    case (old a r)
    have "db_inv (add_version now (as_id a) inp db)"
      using k l assms(2) old(1,2) by (intro db_inv_add_version) (auto simp: find_asset_iff)
    then show ?thesis by (simp add: old(3))
  next
    case (new i db1 db2 r)
    note n = new_asset_db [OF assms(1) new(1-3)]
    have "db_inv (add_version now (db_next_asset db1) inp db2)"
      using assms(2) l by (intro db_inv_add_version) (auto simp: n)
    then show ?thesis by (simp add: new(4))
  qed
qed


subsection \<open>Deleting\<close>

lemma delete_Some:
  assumes "find_asset db t e n = Some a"
  shows "snd (DeleteAsset t e n db) = db\<lparr>db_versions := filter (\<lambda>v. vr_asset_id v \<noteq> as_id a) (db_versions db),
     db_assets := filter (\<lambda>x. as_id x \<noteq> as_id a) (db_assets db)\<rparr>"
  using assms by (simp add: DeleteAsset_def)

lemma db_inv_delete:
  assumes "db_inv db" shows "db_inv (snd (DeleteAsset t e n db))"
proof (cases "find_asset db t e n")
  case (Some a)
  let ?d = "snd (DeleteAsset t e n db)"
  have k: "db_keys db" and l: "db_latest db" using assms by (simp_all add: db_inv_def)
  have "db_keys ?d"
    using k unfolding delete_Some [OF Some] db_keys_def
    by (auto simp: distinct_map_filter)
  moreover have "versions_of ?d i = versions_of db i" if "i \<noteq> as_id a" for i
    using that by (auto simp: delete_Some [OF Some] versions_of_def intro: filter_cong)
  then have "db_latest ?d" using l by (auto simp: db_latest_def delete_Some [OF Some])
  ultimately show ?thesis by (simp add: db_inv_def)
qed (use assms in \<open>simp add: DeleteAsset_def\<close>)

lemma find_asset_delete:
  assumes "db_inv db" "find_asset db t e n = Some a"
  shows "find_asset (snd (DeleteAsset t e n db)) t' e' n' =
     (case find_asset db t' e' n' of Some b \<Rightarrow> if as_id b = as_id a then None else Some b | None \<Rightarrow> None)"
proof -
  let ?d = "snd (DeleteAsset t e n db)"
  have k: "db_keys db" "db_keys ?d" using assms(1) db_inv_delete [OF assms(1)] by (simp_all add: db_inv_def)
  have a: "author_is ?d x r = author_is db x r" for x r by (simp add: author_is_def delete_Some [OF assms(2)])
  have "find_asset ?d t' e' n' = Some b \<longleftrightarrow> find_asset db t' e' n' = Some b \<and> as_id b \<noteq> as_id a" for b
    unfolding find_asset_iff [OF k(1)] find_asset_iff [OF k(2)] a by (auto simp: delete_Some [OF assms(2)])
  then have *: "find_asset ?d t' e' n' = Some b \<longleftrightarrow> find_asset db t' e' n' = Some b \<and> as_id b \<noteq> as_id a" for b .
  show ?thesis
  proof (cases "find_asset ?d t' e' n'")
    case None
    have "as_id b = as_id a" if "find_asset db t' e' n' = Some b" for b using * [of b] None that by simp
    then show ?thesis unfolding None by (cases "find_asset db t' e' n'") simp_all
  next
    case (Some b)
    then have "find_asset db t' e' n' = Some b" "as_id b \<noteq> as_id a" using * [of b] by blast+
    then show ?thesis unfolding Some by simp
  qed
qed

lemma GetRecipe_delete:
  assumes "db_inv db"
  shows "GetRecipe (snd (DeleteAsset t e n db)) t' e' n' v =
     (if t' = t \<and> to_lower e' = to_lower e \<and> n' = n then None else GetRecipe db t' e' n' v)"
proof (cases "find_asset db t e n")
  case None
  then have "t' = t \<Longrightarrow> to_lower e' = to_lower e \<Longrightarrow> n' = n \<Longrightarrow> find_asset db t' e' n' = None"
    by (simp add: find_asset_def)
  then show ?thesis using None by (auto simp: DeleteAsset_def GetRecipe_def)
next
  case (Some a)
  have k: "db_keys db" using assms by (simp add: db_inv_def)
  have same: "as_id b = as_id a \<longleftrightarrow> t' = t \<and> to_lower e' = to_lower e \<and> n' = n" if b: "find_asset db t' e' n' = Some b" for b
  proof
    assume "as_id b = as_id a"
    moreover have "a \<in> set (db_assets db)" "b \<in> set (db_assets db)" using Some b k by (simp_all add: find_asset_iff)
    moreover have "distinct (map as_id (db_assets db))" using k by (simp add: db_keys_def)
    ultimately have "b = a" using distinct_map_eq by metis
    then have ab: "author_is db (to_lower e) a" "author_is db (to_lower e') a" "t' = t" "n' = n"
      using Some b k by (simp_all add: find_asset_iff)
    have "distinct (map au_id (db_authors db))" using k by (simp add: db_keys_def)
    moreover from ab(1,2) obtain x y where "x \<in> set (db_authors db)" "y \<in> set (db_authors db)"
      "au_id x = au_id y" "au_eoa x = to_lower e" "au_eoa y = to_lower e'" by (auto simp: author_is_def list_ex_iff)
    ultimately have "to_lower e' = to_lower e" using distinct_map_eq by metis
    then show "t' = t \<and> to_lower e' = to_lower e \<and> n' = n" using ab by simp
  next
    assume "t' = t \<and> to_lower e' = to_lower e \<and> n' = n"
    then have "find_asset db t' e' n' = find_asset db t e n" by (simp add: find_asset_def)
    then show "as_id b = as_id a" using Some b by simp
  qed
  have v: "versions_of (snd (DeleteAsset t e n db)) i = versions_of db i" if "i \<noteq> as_id a" for i
    using that by (auto simp: delete_Some [OF Some] versions_of_def intro: filter_cong)
  show ?thesis
  proof (cases "find_asset db t' e' n'")
    case None
    then show ?thesis by (simp add: GetRecipe_def find_asset_delete [OF assms Some])
  next
    case (Some b)
    then show ?thesis using same [OF Some] v by (auto simp: GetRecipe_def find_asset_delete [OF assms \<open>find_asset db t e n = Some a\<close>])
  qed
qed


section \<open>Sequences of operations\<close>

datatype store_op =
    OpPut push_input
  | OpVisibility string string string string
  | OpPrice string string string string "string option"
  | OpMeta string string string "string option" "string option"
  | OpDelete string string string
  | OpIncr string string string

fun store_exec :: "int \<times> store_op \<Rightarrow> market_db \<Rightarrow> market_db" where
  "store_exec (now, OpPut inp) db = snd (PutAsset now inp db)"
| "store_exec (now, OpVisibility t e n v) db = snd (SetVisibility now t e n v db)"
| "store_exec (now, OpPrice t e n p tok) db = snd (SetPrice now t e n p tok db)"
| "store_exec (now, OpMeta t e n tags summary) db = snd (SetMeta now t e n tags summary db)"
| "store_exec (now, OpDelete t e n) db = snd (DeleteAsset t e n db)"
| "store_exec (now, OpIncr t e n) db = IncrDownloads t e n db"

text \<open>What the server checks before it calls the store.\<close>

fun op_ok :: "int \<times> store_op \<Rightarrow> bool" where
  "op_ok (now, OpPut inp) = (am_version (pi_meta inp) \<noteq> [])"
| "op_ok (now, OpVisibility t e n v) = (v \<in> {''public'', ''private''})"
| "op_ok (now, _) = True"

fun op_deletes :: "int \<times> store_op \<Rightarrow> string \<times> string \<times> string \<Rightarrow> bool" where
  "op_deletes (now, OpDelete t e n) (t', e', n') = (t' = t \<and> to_lower e' = to_lower e \<and> n' = n)"
| "op_deletes _ _ = False"

text \<open>The body and hash that a store holds for a version of an asset.\<close>

definition stored :: "market_db \<Rightarrow> string \<times> string \<times> string \<Rightarrow> string \<Rightarrow> (string \<times> string) option" where
  "stored db k v = (case k of (t, e, n) \<Rightarrow>
     if v = [] then None else map_option (\<lambda>(b, s, _). (b, s)) (GetRecipe db t e n v))"

text \<open>
  The contract of a store of immutable versions: operations keep its invariant and, unless they delete the
  asset, every version it holds. The client's lemma is that a version stays as published in every history
  without such a deletion.
\<close>

locale recipe_store = guarded_steps inv exec ok
  for inv :: "'db \<Rightarrow> bool" and exec :: "'op \<Rightarrow> 'db \<Rightarrow> 'db" and ok :: "'op \<Rightarrow> bool" +
  fixes held :: "'db \<Rightarrow> 'key \<Rightarrow> 'ver \<Rightarrow> 'body option"
    and deletes :: "'op \<Rightarrow> 'key \<Rightarrow> bool"
  assumes exec_keeps: "inv db \<Longrightarrow> ok op \<Longrightarrow> held db k v = Some b \<Longrightarrow> \<not> deletes op k \<Longrightarrow> held (exec op db) k v = Some b"
begin

lemma immutable:
  "inv db \<Longrightarrow> list_all ok ops \<Longrightarrow> held db k v = Some b \<Longrightarrow> list_all (\<lambda>op. \<not> deletes op k) ops \<Longrightarrow>
   held (fold exec ops db) k v = Some b"
  by (induction ops arbitrary: db) (auto intro: exec_inv exec_keeps)

end

text \<open>An operation that only rewrites columns outside the keys.\<close>

definition col :: "(asset_row \<Rightarrow> asset_row) \<Rightarrow> bool" where
  "col f \<longleftrightarrow> same_key f \<and> (\<forall>a. as_latest (f a) = as_latest a) \<and>
     (\<forall>a. as_visibility (f a) = as_visibility a \<or> as_visibility (f a) \<in> {''public'', ''private''})"

definition rewritten :: "market_db \<Rightarrow> market_db \<Rightarrow> bool" where
  "rewritten db db' \<longleftrightarrow> db' = db \<or> (\<exists>i f. db' = update_asset i f db \<and> col f)"

lemma rewritten_update: "col f \<Longrightarrow> rewritten db (update_asset i f db)"
  by (auto simp: rewritten_def)

lemma db_inv_rewritten: "rewritten db db' \<Longrightarrow> db_inv db \<Longrightarrow> db_inv db'"
  by (auto simp: rewritten_def col_def intro: db_inv_update)

lemma stored_update:
  assumes "same_key f"
  shows "stored (update_asset i f db) k v = stored db k v"
proof -
  obtain t e n where k: "k = (t, e, n)" by (cases k)
  have id: "as_id (if as_id a = i then f a else a) = as_id a" for a using assms by (simp add: same_key_def)
  show ?thesis using assms
    by (cases "find_asset db t e n") (auto simp: k stored_def GetRecipe_def find_asset_update Let_def id split: option.split)
qed

lemma stored_rewritten: "rewritten db db' \<Longrightarrow> stored db' k v = stored db k v"
  by (auto simp: rewritten_def col_def stored_update)

lemma rewritten_ops:
  "vis \<in> {''public'', ''private''} \<Longrightarrow> rewritten db (snd (SetVisibility now t e n vis db))"
  "rewritten db (snd (SetPrice now t e n p tok db))"
  "rewritten db (snd (SetMeta now t e n tags summary db))"
  "rewritten db (IncrDownloads t e n db)"
  by (auto simp: SetVisibility_def SetPrice_def SetMeta_def IncrDownloads_def Let_def col_def same_key_def rewritten_def [of db db]
      split: option.split intro!: rewritten_update)

lemma stored_put_other:
  assumes "db_inv db" "stored db k v = Some b"
  shows "stored (snd (PutAsset now inp db)) k v = Some b"
proof -
  obtain t e n where k: "k = (t, e, n)" by (cases k)
  have v: "v \<noteq> []" using assms(2) by (auto simp: stored_def k split: if_splits)
  have kk: "db_keys db" using assms(1) by (simp add: db_inv_def)
  have g: "\<exists>s. GetRecipe db t e n v = Some (fst b, snd b, s)" using assms(2) v by (auto simp: stored_def k)
  then obtain a x where a: "find_asset db t e n = Some a" "find (\<lambda>x. vr_version x = v) (versions_of db (as_id a)) = Some x"
    "b = (vr_body x, vr_sha256 x)" using v by (auto simp: GetRecipe_def split: option.splits)
  show ?thesis
  proof (cases rule: PutAsset_cases [OF kk, of inp now, case_names dup old new])
    case (dup a)
    then show ?thesis using assms by simp
  next
    case (old a' r)
    then show ?thesis using a v by (simp add: stored_def k GetRecipe_add_version)
  next
    case (new i db1 db2 r)
    note n = new_asset_db [OF assms(1) new(1-3)]
    show ?thesis using a v by (simp add: stored_def k new(4) GetRecipe_add_version n)
  qed
qed

lemma stored_delete: "db_inv db \<Longrightarrow> stored (snd (DeleteAsset t e n db)) k v = (if op_deletes (now, OpDelete t e n) k then None else stored db k v)"
  by (cases k) (simp add: stored_def GetRecipe_delete)

lemma db_inv_exec: "db_inv db \<Longrightarrow> op_ok op \<Longrightarrow> db_inv (store_exec op db)"
  by (induction op db rule: store_exec.induct)
     (auto intro: db_inv_put db_inv_delete db_inv_rewritten [OF rewritten_ops(1)] db_inv_rewritten [OF rewritten_ops(2)]
       db_inv_rewritten [OF rewritten_ops(3)] db_inv_rewritten [OF rewritten_ops(4)])

lemma stored_exec: "db_inv db \<Longrightarrow> op_ok op \<Longrightarrow> stored db k v = Some b \<Longrightarrow> \<not> op_deletes op k \<Longrightarrow> stored (store_exec op db) k v = Some b"
proof (induction op db rule: store_exec.induct)
  case (5 now t e n db)
  then show ?case by (simp add: stored_delete [of db t e n k v now])
qed (auto simp: stored_put_other stored_rewritten [OF rewritten_ops(1)] stored_rewritten [OF rewritten_ops(2)]
       stored_rewritten [OF rewritten_ops(3)] stored_rewritten [OF rewritten_ops(4)])

interpretation sqlstore: recipe_store db_inv store_exec op_ok stored op_deletes
  by unfold_locales (rule db_inv_exec, assumption+, rule stored_exec)



section \<open>Versions in order\<close>

definition numeric_version :: "string \<Rightarrow> bool" where
  "numeric_version v \<longleftrightarrow> list_all (\<lambda>c. parse_int c \<noteq> None) (split v CHR ''.'')"

definition version_key :: "string \<Rightarrow> int list" where
  "version_key v = map (\<lambda>c. the (parse_int c)) (split v CHR ''.'')"

lemma component_less_nil:
  "parse_int x \<noteq> None \<Longrightarrow> component_less [] x = Some True" "parse_int x \<noteq> None \<Longrightarrow> component_less x [] = Some False"
proof -
  have n: "parse_int [] = None" by (simp add: parse_int_def)
  then show "parse_int x \<noteq> None \<Longrightarrow> component_less [] x = Some True" "parse_int x \<noteq> None \<Longrightarrow> component_less x [] = Some False"
    by (cases x; auto simp: component_less_def)+
qed

lemma components_less_numeric:
  "list_all (\<lambda>c. parse_int c \<noteq> None) xs \<Longrightarrow> list_all (\<lambda>c. parse_int c \<noteq> None) ys \<Longrightarrow>
   components_less xs ys \<longleftrightarrow> map (\<lambda>c. the (parse_int c)) xs < map (\<lambda>c. the (parse_int c)) ys"
proof (induction xs ys rule: components_less.induct)
  case (4 x xs y ys)
  then show ?case by (auto simp: component_less_def split: if_splits)
qed (auto simp: component_less_nil)

lemma semverLess_numeric:
  "numeric_version a \<Longrightarrow> numeric_version b \<Longrightarrow> semverLess a b \<longleftrightarrow> version_key a < version_key b"
  unfolding semverLess_def numeric_version_def version_key_def by (rule components_less_numeric)

lemma latest_of_max:
  "list_all numeric_version vs \<Longrightarrow> [] \<notin> set vs \<Longrightarrow> v \<in> set vs \<Longrightarrow> \<not> semverLess (latest_of vs) v"
proof (induction vs arbitrary: v rule: rev_induct)
  case (snoc x vs)
  show ?case
  proof (cases "vs = []")
    case True
    with snoc show ?thesis by (simp add: latest_of_def semverLess_numeric)
  next
    case False
    then have l: "latest_of vs \<in> set vs" using snoc by (intro latest_of_in) auto
    then have n: "numeric_version (latest_of vs)" "numeric_version x" "numeric_version v" "latest_of vs \<noteq> []"
      using snoc.prems by (auto simp: list_all_iff)
    have IH: "w \<in> set vs \<Longrightarrow> \<not> version_key (latest_of vs) < version_key w" for w
      using snoc n(1) semverLess_numeric by (auto simp: list_all_iff)
    show ?thesis using snoc.prems(3) IH [of v] n by (auto simp: latest_of_snoc semverLess_numeric)
  qed
qed simp

lemma sink_desc_mset: "mset (sink_desc v ws) = add_mset v (mset ws)"
  by (induction ws) auto

lemma sort_desc_mset: "mset (sortVersionsDesc vs) = mset vs"
proof -
  have "mset (foldl (\<lambda>acc v. sink_desc v acc) ws vs) = mset ws + mset vs" for ws
    by (induction vs arbitrary: ws) (auto simp: sink_desc_mset)
  then show ?thesis by (simp add: sortVersionsDesc_def)
qed

definition ver_key :: "version_info \<Rightarrow> int list" where
  "ver_key w = version_key (v_version w)"

lemma sink_desc_sorted:
  "list_all (\<lambda>w. numeric_version (v_version w)) (v # ws) \<Longrightarrow> sorted (map ver_key ws) \<Longrightarrow> sorted (map ver_key (sink_desc v ws))"
proof (induction ws)
  case (Cons w ws)
  have "set (sink_desc v ws) = insert v (set ws)" by (metis sink_desc_mset set_mset_add_mset_insert set_mset_mset)
  with Cons show ?case by (auto simp: semverLess_numeric ver_key_def)
qed simp

lemma sort_desc_sorted:
  assumes "list_all (\<lambda>w. numeric_version (v_version w)) vs"
  shows "sorted (rev (map ver_key (sortVersionsDesc vs)))"
proof -
  have "list_all (\<lambda>w. numeric_version (v_version w)) ws \<Longrightarrow> sorted (map ver_key ws) \<Longrightarrow>
        sorted (map ver_key (foldl (\<lambda>acc v. sink_desc v acc) ws vs))" for ws
    using assms
  proof (induction vs arbitrary: ws)
    case (Cons v vs)
    have "set (sink_desc v ws) = insert v (set ws)" by (metis sink_desc_mset set_mset_add_mset_insert set_mset_mset)
    then show ?case using Cons by (auto simp: list_all_iff intro!: Cons.IH sink_desc_sorted)
  qed simp
  from this [of "[]"] show ?thesis by (simp add: sortVersionsDesc_def rev_map)
qed



section \<open>Properties\<close>

definition toy_push :: "string \<Rightarrow> push_input" where
  "toy_push v = \<lparr>pi_type = ''app'', pi_author = ''0xAb'', pi_meta = \<lparr>am_name = ''x'', am_author = [], am_version = v,
     am_summary = [], am_license = [], am_min_isann = [], am_tags = []\<rparr>, pi_body = ''BODY '' @ v, pi_sha256 = ''h''\<rparr>"

text \<open>C26. The database stays consistent. Whatever sequence of the server's operations runs on an empty database,
  ids, author addresses, asset keys and versions stay unique, every asset has an author, every version an asset,
  every asset a version that is its latest one, and a visibility that is public or private.\<close>

theorem market_db_consistent:
  assumes "list_all op_ok ops" "db = fold store_exec ops migrate"
  shows "distinct (map au_eoa (db_authors db)) \<and>
         distinct (map (\<lambda>a. (as_type a, as_author_id a, as_name a)) (db_assets db)) \<and>
         distinct (map (\<lambda>v. (vr_asset_id v, vr_version v)) (db_versions db)) \<and>
         as_author_id ` set (db_assets db) \<subseteq> au_id ` set (db_authors db) \<and>
         vr_asset_id ` set (db_versions db) \<subseteq> as_id ` set (db_assets db) \<and>
         (\<forall>a\<in>set (db_assets db). as_latest a \<in> vr_version ` set (versions_of db (as_id a)) \<and>
            as_visibility a \<in> {''public'', ''private''})"
  using sqlstore.run_inv [OF db_inv_migrate assms(1)] assms(2)
  by (auto simp: db_inv_def db_keys_def db_latest_def)

theorem market_db_consistent_witness:
  "\<exists>db. db = fold store_exec [(1, OpPut (toy_push ''1.0'')), (2, OpDelete ''app'' ''0xaB'' ''x'')] migrate \<and>
        distinct (map au_eoa (db_authors db))"
  using market_db_consistent [of "[(1, OpPut (toy_push ''1.0'')), (2, OpDelete ''app'' ''0xaB'' ''x'')]"
      "fold store_exec [(1, OpPut (toy_push ''1.0'')), (2, OpDelete ''app'' ''0xaB'' ''x'')] migrate"]
  by (simp add: toy_push_def)

text \<open>C11. A published version is immutable. A push that succeeds makes exactly its body and hash what the store
  holds for that version; a push of a version that exists fails and changes nothing; and from then on every
  sequence of operations that does not delete the asset leaves the version as it was published.\<close>

theorem published_version_immutable:
  assumes "db_inv db" "am_version (pi_meta inp) \<noteq> []"
    and "list_all op_ok ops" "list_all (\<lambda>op. \<not> op_deletes op (pi_type inp, pi_author inp, am_name (pi_meta inp))) ops"
  shows "case PutAsset now inp db of
           (Inl e, db') \<Rightarrow> e = ErrVersionExists \<and> db' = db \<and>
              stored db (pi_type inp, pi_author inp, am_name (pi_meta inp)) (am_version (pi_meta inp)) \<noteq> None
         | (Inr _, db') \<Rightarrow>
              stored db (pi_type inp, pi_author inp, am_name (pi_meta inp)) (am_version (pi_meta inp)) = None \<and>
              stored (fold store_exec ops db') (pi_type inp, pi_author inp, am_name (pi_meta inp)) (am_version (pi_meta inp))
              = Some (pi_body inp, pi_sha256 inp)"
proof -
  let ?k = "(pi_type inp, pi_author inp, am_name (pi_meta inp))" and ?v = "am_version (pi_meta inp)"
  have kk: "db_keys db" using assms(1) by (simp add: db_inv_def)
  have none: "v \<notin> vr_version ` set vs \<Longrightarrow> find (\<lambda>x. vr_version x = v) vs = None" for v vs
    by (auto simp: find_None_iff)
  have some: "v \<in> vr_version ` set vs \<Longrightarrow> find (\<lambda>x. vr_version x = v) vs \<noteq> None" for v vs
    by (auto simp: find_None_iff)
  have inv: "db_inv (snd (PutAsset now inp db))" by (rule db_inv_put [OF assms(1,2)])
  show ?thesis
  proof (cases rule: PutAsset_cases [OF kk, of inp now, case_names dup old new])
    case (dup a)
    then show ?thesis using assms(2) some [OF dup(2)] by (auto simp: stored_def GetRecipe_def)
  next
    case (old a r)
    have "stored (snd (PutAsset now inp db)) ?k ?v = Some (pi_body inp, pi_sha256 inp)"
      using old assms(2) none [OF old(2)] by (simp add: stored_def GetRecipe_add_version)
    from sqlstore.immutable [OF inv assms(3) this assms(4)] show ?thesis
      using old none [OF old(2)] assms(2) by (simp add: stored_def GetRecipe_def)
  next
    case (new i db1 db2 r)
    note n = new_asset_db [OF assms(1) new(1-3)]
    have "stored (snd (PutAsset now inp db)) ?k ?v = Some (pi_body inp, pi_sha256 inp)"
      using new(1,4) assms(2) by (simp add: stored_def GetRecipe_add_version n)
    from sqlstore.immutable [OF inv assms(3) this assms(4)] show ?thesis
      using new(1,4) by (simp add: stored_def GetRecipe_def)
  qed
qed

theorem published_version_immutable_witness:
  "stored (fold store_exec [(2, OpPut (toy_push ''1.1'')), (3, OpVisibility ''app'' ''0xab'' ''x'' ''public'')]
     (snd (PutAsset 1 (toy_push ''1.0'') migrate))) (''app'', ''0xAb'', ''x'') ''1.0'' = Some (''BODY 1.0'', ''h'')"
proof -
  have "fst (PutAsset 1 (toy_push ''1.0'') migrate) \<noteq> Inl ErrVersionExists"
    by (simp add: PutAsset_def authorID_def assetID_def migrate_def versions_of_def Let_def)
  then show ?thesis
    using published_version_immutable [OF db_inv_migrate, of "toy_push ''1.0''"
        "[(2, OpPut (toy_push ''1.1'')), (3, OpVisibility ''app'' ''0xab'' ''x'' ''public'')]" 1]
    by (auto simp: toy_push_def split: prod.splits sum.splits)
qed

text \<open>The latest version. When the versions of an asset are dotted numbers, the one that \<^verbatim>\<open>refreshLatest\<close> picks is one
  of them that no other is greater than, and the same whatever the order of the rows; and the version list is a
  permutation of the versions, sorted from the greatest to the smallest. In general the order is not transitive:
  2 < 10 < 1a < 2.\<close>

theorem latest_version_is_greatest:
  assumes "list_all numeric_version vs" "[] \<notin> set vs" "vs \<noteq> []" "list_all (\<lambda>w. numeric_version (v_version w)) ws"
  shows "latest_of vs \<in> set vs \<and> (\<forall>v\<in>set vs. \<not> semverLess (latest_of vs) v) \<and>
         (\<forall>us. mset us = mset vs \<longrightarrow> version_key (latest_of us) = version_key (latest_of vs)) \<and>
         mset (sortVersionsDesc ws) = mset ws \<and> sorted (rev (map ver_key (sortVersionsDesc ws))) \<and>
         semverLess ''2'' ''10'' \<and> semverLess ''10'' ''1a'' \<and> semverLess ''1a'' ''2''"
proof (intro conjI allI impI)
  show in': "latest_of vs \<in> set vs" by (rule latest_of_in [OF assms(3,2)])
  show max: "\<forall>v\<in>set vs. \<not> semverLess (latest_of vs) v" using latest_of_max [OF assms(1,2)] by blast
  show "mset (sortVersionsDesc ws) = mset ws" by (rule sort_desc_mset)
  show "sorted (rev (map ver_key (sortVersionsDesc ws)))" by (rule sort_desc_sorted [OF assms(4)])
  show "semverLess ''2'' ''10''" "semverLess ''10'' ''1a''" "semverLess ''1a'' ''2''" by code_simp+
  fix us assume "mset us = mset vs"
  then have s: "set us = set vs" by (rule mset_eq_setD)
  moreover have "us \<noteq> []" using s assms(3) by auto
  ultimately have u: "latest_of us \<in> set us" "\<forall>v\<in>set us. \<not> semverLess (latest_of us) v"
    using assms(1-3) latest_of_in [of us] latest_of_max [of us] by (auto simp: list_all_iff)
  have "numeric_version (latest_of us)" "numeric_version (latest_of vs)"
    using in' u(1) s assms(1) by (auto simp: list_all_iff)
  moreover have "\<not> semverLess (latest_of us) (latest_of vs)" "\<not> semverLess (latest_of vs) (latest_of us)"
    using u max s in' by auto
  ultimately show "version_key (latest_of us) = version_key (latest_of vs)" by (simp add: semverLess_numeric)
qed

theorem latest_version_is_greatest_witness:
  "\<not> semverLess (latest_of [''1.2'', ''1.10'', ''1.9'']) ''1.2'' \<and> semverLess ''10'' ''1a''"
proof -
  have "list_all numeric_version [''1.2'', ''1.10'', ''1.9'']" by code_simp
  from latest_version_is_greatest [OF this, of "[]"] show ?thesis by simp
qed

text \<open>What the listings show. The public listing contains only public assets that match its filter, at most the limit of a page,
  and counts them all; the listing of an author contains only assets of that author.\<close>

theorem listings_sound:
  "list_all (\<lambda>a. a_visibility a = ''public'') (fst (ListAssets db f)) \<and>
   length (fst (ListAssets db f)) \<le> min 100 (snd (ListAssets db f)) \<and>
   snd (ListAssets db f) = length (filter (list_where f [] True) (joined db)) \<and>
   list_all (\<lambda>a. eoa = [] \<or> a_eoa a = to_lower eoa) (fst (ListMine db eoa f)) \<and>
   length (fst (ListMine db eoa f)) \<le> min 100 (snd (ListMine db eoa f))"
proof -
  have len: "length (order_rows by rows) = length rows" and set_eq: "set (order_rows by rows) = set rows" for "by" rows
  proof -
    have "mset (order_rows by rows) = mset rows"
      by (simp add: order_rows_def case_prod_unfold)
    then show "length (order_rows by rows) = length rows" "set (order_rows by rows) = set rows"
      by (metis size_mset, metis set_mset_mset)
  qed
  have scan: "a_visibility (scanAsset au a) = as_visibility a" "a_eoa (scanAsset au a) = au_eoa au" for au a
    by (simp_all add: scanAsset_def Let_def)
  have mem: "r \<in> set rows" if "r \<in> set (take l (drop o' (order_rows by rows)))" for r l o' "by" rows
    using in_set_dropD [OF in_set_takeD [OF that]] by (simp add: set_eq)
  have lim: "list_limit f \<le> 100" by (auto simp: list_limit_def)
  show ?thesis
    using lim by (auto simp: ListAssets_def ListMine_def list_rows_def Let_def list_all_iff scan list_where_def len dest!: mem)
qed

end
