(* ===== verification/Market_Server.thy ===== *)
theory Market_Server
  imports Market_Store Eth_Auth Recipe_Parser RV_Data
begin

text \<open>
  The HTTP side of the market: \<^verbatim>\<open>pkg/market/server.go\<close> (routing and every handler), \<^verbatim>\<open>auth_write.go\<close>
  (author signatures and the nonce cache), \<^verbatim>\<open>recipe_meta.go\<close>, \<^verbatim>\<open>recipe_app_validate.go\<close> and
  \<^verbatim>\<open>config.go\<close>, over the store of \<^verbatim>\<open>Market_Store\<close> and the recipe parser.

  A request is what \<^verbatim>\<open>net/http\<close> hands to a handler: method, decoded path, request URI, query and headers by
  their first values, and the body. A response is its status and its body before JSON encoding; the CORS
  headers are the same on every response and are left out. The environment holds Ethereum recovery,
  SHA-256, the decoding of the JSON request bodies, and the files the process can read.
  The clock is in Unix seconds.
\<close>

section \<open>Configuration\<close>

record market_config =
  mc_addr :: string
  mc_tls :: bool
  mc_driver :: string
  mc_dsn :: string
  mc_replay_win :: int
  mc_dev_skip_auth :: bool

definition applyDefaults :: "market_config \<Rightarrow> market_config" where
  "applyDefaults cfg =
     (let cfg = (if mc_addr cfg = [] then cfg\<lparr>mc_addr := '':8820''\<rparr> else cfg);
          cfg = (if mc_driver cfg = [] then cfg\<lparr>mc_driver := ''sqlite''\<rparr> else cfg);
          cfg = (if mc_dsn cfg = [] then cfg\<lparr>mc_dsn := ''market.db''\<rparr> else cfg)
      in if mc_replay_win cfg \<le> 0 then cfg\<lparr>mc_replay_win := 300\<rparr> else cfg)"


section \<open>Requests and responses\<close>

record request =
  rq_method :: string
  rq_path :: string
  rq_uri :: string
  rq_query :: "(string, string) gomap"
  rq_header :: "(string, string) gomap"
  rq_body :: string

definition first_value :: "(string, string) gomap \<Rightarrow> string \<Rightarrow> string" where
  "first_value m k = (case mget m k of None \<Rightarrow> [] | Some v \<Rightarrow> v)"

abbreviation query :: "request \<Rightarrow> string \<Rightarrow> string" where "query rq \<equiv> first_value (rq_query rq)"
abbreviation header :: "request \<Rightarrow> string \<Rightarrow> string" where "header rq \<equiv> first_value (rq_header rq)"

datatype meta_error = RecipeFault parse_error | MissingName | MissingVersion

datatype app_error = TokensNoPlatforms | PlatformsNoTokens | NotOsArch string | DuplicatePlatform string

datatype detail = Text string | MetaDetail meta_error | AppDetail app_error

datatype reply_body =
    ErrBody string detail
  | Health
  | AssetBody "asset option"
  | AssetDetail asset "version_info list"
  | VersionList "version_info list"
  | Listing "asset list" int int nat
  | RecipeText string string
  | StatusBody string string
  | NoBody
  | Redirect string

datatype response = Reply (rp_status: nat) (rp_body: reply_body)

abbreviation errBody :: "nat \<Rightarrow> string \<Rightarrow> string \<Rightarrow> response" where
  "errBody status code msg \<equiv> Reply status (ErrBody code (Text (if msg = [] then code else msg)))"

record ('sk, 'pub) market_env =
  me_eth :: "('sk, 'pub) eth"
  me_sha256 :: "string \<Rightarrow> string"
  me_parse :: parse_env
  me_decode_push :: "string \<Rightarrow> string option"
  me_decode_visibility :: "string \<Rightarrow> string option"
  me_decode_price :: "string \<Rightarrow> (string \<times> string \<times> bool) option"
  me_decode_meta :: "string \<Rightarrow> (json option \<times> string option) option"

record market_state =
  ms_db :: market_db
  ms_nonces :: "(string, int) gomap"

definition newServer :: market_state where
  "newServer = \<lparr>ms_db = migrate, ms_nonces = []\<rparr>"


section \<open>Signatures and nonces\<close>

definition useOnce :: "string \<Rightarrow> int \<Rightarrow> int \<Rightarrow> (string, int) gomap \<Rightarrow> bool \<times> (string, int) gomap" where
  "useOnce nonce expiry now seen =
     (let seen = mdrop (\<lambda>k e. e < now) seen in
      if mget seen nonce \<noteq> None then (False, seen) else (True, mput nonce expiry seen))"

definition request_sig :: "request \<Rightarrow> string" where
  "request_sig rq = trim_space (trim_prefix (header rq ''Authorization'') ''ISANN '')"

text \<open>The address that signed the canonical form of a request for a target.\<close>

definition request_signer :: "('sk, 'pub) market_env \<Rightarrow> request \<Rightarrow> string \<Rightarrow> string \<Rightarrow> auth_error + string" where
  "request_signer env rq body target =
     RecoverAddress (me_eth env)
       (BuildCanonical (rq_method rq) (rq_uri rq) (hex_encode (me_sha256 env body)) (to_lower target)
          (header rq ''X-Isann-Nonce'') (header rq ''X-Isann-Timestamp''))
       (request_sig rq)"

text \<open>
  The signer, or the empty string; then the response that was written, if any. Only the last
  check touches the nonce cache.
\<close>

definition verifyWrite ::
  "('sk, 'pub) market_env \<Rightarrow> market_config \<Rightarrow> int \<Rightarrow> request \<Rightarrow> string \<Rightarrow> string \<Rightarrow> market_state \<Rightarrow>
     string \<times> response option \<times> market_state" where
  "verifyWrite env cfg now rq body target st =
     (if mc_dev_skip_auth cfg then (to_lower target, None, st)
      else if \<not> has_prefix (header rq ''Authorization'') ''ISANN '' then
        ([], Some (errBody 401 ''unauthorized'' ''Authorization: ISANN <sig> required''), st)
      else if header rq ''X-Isann-Nonce'' = [] \<or> header rq ''X-Isann-Timestamp'' = [] then
        ([], Some (errBody 401 ''unauthorized'' ''X-ISANN-Nonce and X-ISANN-Timestamp required''), st)
      else
        (case parse_int (header rq ''X-Isann-Timestamp'') of
           None \<Rightarrow> ([], Some (errBody 401 ''unauthorized'' ''invalid timestamp''), st)
         | Some ts \<Rightarrow>
           let win = mc_replay_win cfg in
           if ts < wrap64 (now - win) \<or> ts > wrap64 (now + win) then
             ([], Some (errBody 401 ''unauthorized'' ''timestamp outside replay window''), st)
           else
             (case request_signer env rq body target of
                Inl e \<Rightarrow> ([], Some (errBody 401 ''unauthorized'' ''signature recover failed''), st)
              | Inr addr \<Rightarrow>
                let (fresh, seen) = useOnce (header rq ''X-Isann-Nonce'') (wrap64 (ts + win)) now (ms_nonces st);
                    st' = st\<lparr>ms_nonces := seen\<rparr>
                in if fresh then (to_lower addr, None, st')
                   else ([], Some (errBody 401 ''unauthorized'' ''nonce already used''), st'))))"

text \<open>The gate of the mutations: the response to give, or the permission to go on.\<close>

definition written :: "response option \<Rightarrow> response" where
  "written r = (case r of Some resp \<Rightarrow> resp | None \<Rightarrow> Reply 200 NoBody)"

definition verifyWriteAuthor ::
  "('sk, 'pub) market_env \<Rightarrow> market_config \<Rightarrow> int \<Rightarrow> request \<Rightarrow> string \<Rightarrow> string \<Rightarrow> market_state \<Rightarrow>
     response option \<times> market_state" where
  "verifyWriteAuthor env cfg now rq body author st =
     (let (signer, r, st') = verifyWrite env cfg now rq body author st in
      if signer = [] then (Some (written r), st')
      else if signer \<noteq> author then
        (Some (errBody 401 ''unauthorized'' ''recovered signer does not match path author''), st')
      else (None, st'))"

text \<open>The gate of the private reads: every failure looks like an absent asset.\<close>

definition privateReadOK ::
  "('sk, 'pub) market_env \<Rightarrow> market_config \<Rightarrow> int \<Rightarrow> request \<Rightarrow> string \<Rightarrow> market_state \<Rightarrow>
     response option \<times> market_state" where
  "privateReadOK env cfg now rq author st =
     (let (signer, r, st') = verifyWrite env cfg now rq [] author st in
      if signer = author then (None, st') else (Some (errBody 404 ''not_found'' ''asset not found''), st'))"


section \<open>Metadata of a pushed recipe\<close>

fun meta_get :: "(string, string) gomap \<Rightarrow> string list \<Rightarrow> string" where
  "meta_get m [] = []"
| "meta_get m (k # ks) = (if first_value m k \<noteq> [] then first_value m k else meta_get m ks)"

definition trimmed_parts :: "string list \<Rightarrow> string list" where
  "trimmed_parts ts = filter (\<lambda>t. t \<noteq> []) (map trim_space ts)"

definition ParseRecipeMeta :: "parse_env \<Rightarrow> string \<Rightarrow> meta_error + asset_meta" where
  "ParseRecipeMeta penv body =
     (case Parse penv ''install.ian'' body of
        Inl e \<Rightarrow> Inl (RecipeFault e)
      | Inr rc \<Rightarrow>
        let tags = meta_get (rc_meta rc) [''tags''];
            m = \<lparr>am_name = meta_get (rc_meta rc) [''name''], am_author = meta_get (rc_meta rc) [''author''],
                 am_version = meta_get (rc_meta rc) [''version''],
                 am_summary = meta_get (rc_meta rc) [''summary'', ''description''],
                 am_license = meta_get (rc_meta rc) [''license''], am_min_isann = rc_min_version rc,
                 am_tags = (if tags \<noteq> [] then trimmed_parts (split tags CHR '','') else [])\<rparr>
        in if am_name m = [] then Inl MissingName
           else if am_version m = [] then Inl MissingVersion
           else Inr m)"

text \<open>The scan of the words after \<^verbatim>\<open>app pull\<close> for the url and the platforms.\<close>

fun app_args :: "string list \<Rightarrow> string \<Rightarrow> string \<Rightarrow> string \<times> string" where
  "app_args [] url platforms = (url, platforms)"
| "app_args [f] url platforms = (if \<not> has_prefix f ''-'' \<and> url = [] then (f, platforms) else (url, platforms))"
| "app_args (f # v # fs) url platforms =
     (if f = ''--platforms'' then app_args fs url v
      else if f = ''--name'' \<or> f = ''--sha256'' then app_args fs url platforms
      else if \<not> has_prefix f ''-'' \<and> url = [] then app_args (v # fs) f platforms
      else app_args (v # fs) url platforms)"

fun check_platforms :: "string list \<Rightarrow> string list \<Rightarrow> app_error option" where
  "check_platforms seen [] = None"
| "check_platforms seen (raw # items) =
     (let item = trim_space raw in
      if item = [] then check_platforms seen items
      else
        let (os, arch, ok) = cut item CHR ''/'' in
        if \<not> ok \<or> os = [] \<or> arch = [] then Some (NotOsArch item)
        else if item \<in> set seen then Some (DuplicatePlatform item)
        else check_platforms (item # seen) items)"

definition validatePlatformList :: "string \<Rightarrow> app_error option" where
  "validatePlatformList l = check_platforms [] (split l CHR '','')"

definition validate_app_line :: "string \<Rightarrow> app_error option" where
  "validate_app_line raw =
     (let line = trim_space (trim_suffix (trim_space raw) '';'') in
      if \<not> has_prefix line ''app pull'' then None
      else
        let (url, platforms) = app_args (drop 2 (Go_Prelude.fields line)) [] [];
            hasTokens = contains url ''{os}'' \<and> contains url ''{arch}''
        in if hasTokens \<and> platforms = [] then Some TokensNoPlatforms
           else if platforms \<noteq> [] then
             (if \<not> hasTokens then Some PlatformsNoTokens else validatePlatformList platforms)
           else None)"

fun validate_app_lines :: "string list \<Rightarrow> app_error option" where
  "validate_app_lines [] = None"
| "validate_app_lines (l # ls) = (case validate_app_line l of Some e \<Rightarrow> Some e | None \<Rightarrow> validate_app_lines ls)"

definition ValidateAppRecipe :: "string \<Rightarrow> app_error option" where
  "ValidateAppRecipe body = validate_app_lines (split body CHR 0x0A)"

text \<open>\<^verbatim>\<open>normalizeTags\<close> on the parsed JSON value: an array of strings (a null element is empty) or a string.\<close>

definition normalizeTags :: "json \<Rightarrow> string" where
  "normalizeTags raw =
     (let text = (\<lambda>v. case v of JStr s \<Rightarrow> Some s | JNull \<Rightarrow> Some [] | _ \<Rightarrow> None) in
      case raw of
        JArr vs \<Rightarrow> if list_all (\<lambda>v. text v \<noteq> None) vs then join '','' (trimmed_parts (map (the \<circ> text) vs)) else []
      | JStr s \<Rightarrow> join '','' (trimmed_parts (split s CHR '',''))
      | _ \<Rightarrow> [])"


section \<open>Handlers\<close>

definition ValidTypes :: "string list" where
  "ValidTypes = [''preset'', ''skill'', ''profile'', ''recipe'', ''app'', ''model'', ''mesh'', ''package'']"

definition queryInt :: "string \<Rightarrow> int \<Rightarrow> int" where
  "queryInt s d = (if s = [] then d else case parse_int s of None \<Rightarrow> d | Some n \<Rightarrow> n)"

definition clampLimit :: "int \<Rightarrow> int" where
  "clampLimit n = (if n \<le> 0 \<or> n > 100 then 20 else n)"

definition handleAssetsList :: "request \<Rightarrow> market_state \<Rightarrow> response \<times> market_state" where
  "handleAssetsList rq st =
     (if rq_method rq \<noteq> ''GET'' then (errBody 405 ''method_not_allowed'' ''GET only'', st)
      else
        let f = \<lparr>lf_type = query rq ''type'', lf_author = query rq ''author'', lf_query = query rq ''q'',
                 lf_paid = (let p = query rq ''paid'' in if p = [] then None else Some (p = ''true'' \<or> p = ''1'')),
                 lf_sort = query rq ''sort'',
                 lf_page = queryInt (query rq ''page'') 1, lf_limit = queryInt (query rq ''limit'') 20\<rparr>
        in if lf_type f \<noteq> [] \<and> lf_type f \<notin> set ValidTypes then
             (errBody 400 ''bad_request'' (''unknown type: '' @ lf_type f), st)
           else
             let (items, total) = ListAssets (ms_db st) f in
             (Reply 200 (Listing items (lf_page f) (clampLimit (lf_limit f)) total), st))"

definition handleGetMeta ::
  "('sk, 'pub) market_env \<Rightarrow> market_config \<Rightarrow> int \<Rightarrow> request \<Rightarrow> string \<Rightarrow> string \<Rightarrow> string \<Rightarrow> market_state \<Rightarrow> response \<times> market_state" where
  "handleGetMeta env cfg now rq typ author name st =
     (case GetAsset (ms_db st) typ author name (query rq ''version'') of
        None \<Rightarrow> (errBody 404 ''not_found'' ''asset not found'', st)
      | Some (a, versions) \<Rightarrow>
        if a_visibility a = ''private'' then
          (case privateReadOK env cfg now rq author st of
             (Some r, st') \<Rightarrow> (r, st')
           | (None, st') \<Rightarrow> (Reply 200 (AssetDetail a versions), st'))
        else (Reply 200 (AssetDetail a versions), st))"

definition handleVersions :: "string \<Rightarrow> string \<Rightarrow> string \<Rightarrow> market_state \<Rightarrow> response \<times> market_state" where
  "handleVersions typ author name st =
     (let versions = ListVersions (ms_db st) typ author name in
      if versions = [] then (errBody 404 ''not_found'' ''asset not found'', st)
      else (Reply 200 (VersionList versions), st))"

definition handleInstall ::
  "('sk, 'pub) market_env \<Rightarrow> market_config \<Rightarrow> int \<Rightarrow> request \<Rightarrow> string \<Rightarrow> string \<Rightarrow> string \<Rightarrow> market_state \<Rightarrow> response \<times> market_state" where
  "handleInstall env cfg now rq typ author name st =
     (case GetRecipe (ms_db st) typ author name (query rq ''version'') of
        None \<Rightarrow> (errBody 404 ''not_found'' ''asset not found'', st)
      | Some (body, sha, visibility) \<Rightarrow>
        let serve = (\<lambda>st. (Reply 200 (RecipeText body sha),
                           st\<lparr>ms_db := store_exec (now, OpIncr typ author name) (ms_db st)\<rparr>)) in
        if visibility = ''private'' then
          (case privateReadOK env cfg now rq author st of (Some r, st') \<Rightarrow> (r, st') | (None, st') \<Rightarrow> serve st')
        else serve st)"

text \<open>The checks of a push after the signature: the input for the store, or the response.\<close>

definition push_input_of ::
  "('sk, 'pub) market_env \<Rightarrow> string \<Rightarrow> string \<Rightarrow> string \<Rightarrow> string \<Rightarrow> response + push_input" where
  "push_input_of env body typ author name =
     (case me_decode_push env body of
        None \<Rightarrow> Inl (errBody 400 ''bad_request'' ''body must be {recipe: ...}'')
      | Some rec \<Rightarrow>
        if rec = [] then Inl (errBody 400 ''bad_request'' ''body must be {recipe: ...}'')
        else
          (case ParseRecipeMeta (me_parse env) rec of
             Inl e \<Rightarrow> Inl (Reply 400 (ErrBody ''bad_request'' (MetaDetail e)))
           | Inr meta \<Rightarrow>
             if am_name meta \<noteq> name then Inl (errBody 400 ''bad_request'' (''recipe name '' @ am_name meta @ '' != path name '' @ name))
             else if am_author meta \<noteq> [] \<and> \<not> equal_fold (am_author meta) author then
               Inl (errBody 400 ''bad_request'' ''recipe author does not match signer'')
             else
               (case (if typ = ''app'' then ValidateAppRecipe rec else None) of
                  Some e \<Rightarrow> Inl (Reply 400 (ErrBody ''bad_request'' (AppDetail e)))
                | None \<Rightarrow> Inr \<lparr>pi_type = typ, pi_author = author, pi_meta = meta, pi_body = rec,
                                 pi_sha256 = hex_encode (me_sha256 env rec)\<rparr>)))"

definition handlePush ::
  "('sk, 'pub) market_env \<Rightarrow> market_config \<Rightarrow> int \<Rightarrow> request \<Rightarrow> string \<Rightarrow> string \<Rightarrow> string \<Rightarrow> market_state \<Rightarrow> response \<times> market_state" where
  "handlePush env cfg now rq typ author name st =
     (let body = take (4 * 1024 * 1024) (rq_body rq) in
      case verifyWriteAuthor env cfg now rq body author st of
        (Some r, st') \<Rightarrow> (r, st')
      | (None, st') \<Rightarrow>
        (case push_input_of env body typ author name of
           Inl r \<Rightarrow> (r, st')
         | Inr inp \<Rightarrow>
           (case PutAsset now inp (ms_db st') of
              (Inl e, db) \<Rightarrow>
                (if e = ErrVersionExists
                 then errBody 409 ''version_exists'' (''version '' @ am_version (pi_meta inp) @ '' already published (immutable)'')
                 else errBody 500 ''internal'' [], st'\<lparr>ms_db := db\<rparr>)
            | (Inr a, db) \<Rightarrow> (Reply 201 (AssetBody a), st'\<lparr>ms_db := db\<rparr>))))"

definition writeMutation ::
  "string \<Rightarrow> string \<Rightarrow> string \<Rightarrow> (store_error + bool) \<times> market_db \<Rightarrow> market_state \<Rightarrow> response \<times> market_state" where
  "writeMutation typ author name res st =
     (let st' = st\<lparr>ms_db := snd res\<rparr> in
      case fst res of
        Inl ErrNotFound \<Rightarrow> (errBody 404 ''not_found'' ''asset not found'', st')
      | Inl _ \<Rightarrow> (errBody 500 ''internal'' [], st')
      | Inr False \<Rightarrow> (Reply 200 (StatusBody ''skip'' ''already in that state''), st')
      | Inr True \<Rightarrow>
        (case GetAsset (ms_db st') typ author name [] of
           None \<Rightarrow> (Reply 200 (StatusBody ''ok'' []), st')
         | Some (a, _) \<Rightarrow> (Reply 200 (AssetBody (Some a)), st')))"

definition handleVisibility ::
  "('sk, 'pub) market_env \<Rightarrow> market_config \<Rightarrow> int \<Rightarrow> request \<Rightarrow> string \<Rightarrow> string \<Rightarrow> string \<Rightarrow> market_state \<Rightarrow> response \<times> market_state" where
  "handleVisibility env cfg now rq typ author name st =
     (let body = take 65536 (rq_body rq) in
      case verifyWriteAuthor env cfg now rq body author st of
        (Some r, st') \<Rightarrow> (r, st')
      | (None, st') \<Rightarrow>
        (case me_decode_visibility env body of
           None \<Rightarrow> (errBody 400 ''bad_request'' ''visibility must be public or private'', st')
         | Some vis \<Rightarrow>
           if vis \<noteq> ''public'' \<and> vis \<noteq> ''private'' then
             (errBody 400 ''bad_request'' ''visibility must be public or private'', st')
           else writeMutation typ author name (SetVisibility now typ author name vis (ms_db st')) st'))"

definition price_of :: "string \<times> string \<times> bool \<Rightarrow> string + string \<times> string option" where
  "price_of r = (case r of (price, token, free) \<Rightarrow>
     if free \<or> price = ''0'' then Inr (''0'', None)
     else if price \<noteq> [] then (if token = [] then Inl ''token required when price > 0'' else Inr (price, Some token))
     else Inl ''provide price+token, or free:true'')"

definition handlePrice ::
  "('sk, 'pub) market_env \<Rightarrow> market_config \<Rightarrow> int \<Rightarrow> request \<Rightarrow> string \<Rightarrow> string \<Rightarrow> string \<Rightarrow> market_state \<Rightarrow> response \<times> market_state" where
  "handlePrice env cfg now rq typ author name st =
     (let body = take 65536 (rq_body rq) in
      case verifyWriteAuthor env cfg now rq body author st of
        (Some r, st') \<Rightarrow> (r, st')
      | (None, st') \<Rightarrow>
        (case me_decode_price env body of
           None \<Rightarrow> (errBody 400 ''bad_request'' ''invalid JSON'', st')
         | Some req \<Rightarrow>
           (case price_of req of
              Inl msg \<Rightarrow> (errBody 400 ''bad_request'' msg, st')
            | Inr (price, token) \<Rightarrow>
              writeMutation typ author name (SetPrice now typ author name price token (ms_db st')) st')))"

definition handleMeta ::
  "('sk, 'pub) market_env \<Rightarrow> market_config \<Rightarrow> int \<Rightarrow> request \<Rightarrow> string \<Rightarrow> string \<Rightarrow> string \<Rightarrow> market_state \<Rightarrow> response \<times> market_state" where
  "handleMeta env cfg now rq typ author name st =
     (let body = take 65536 (rq_body rq) in
      case verifyWriteAuthor env cfg now rq body author st of
        (Some r, st') \<Rightarrow> (r, st')
      | (None, st') \<Rightarrow>
        (case me_decode_meta env body of
           None \<Rightarrow> (errBody 400 ''bad_request'' ''invalid JSON'', st')
         | Some (rawTags, summary) \<Rightarrow>
           let tags = map_option normalizeTags rawTags in
           if tags = None \<and> summary = None then
             (errBody 400 ''bad_request'' ''provide tags and/or summary'', st')
           else writeMutation typ author name (SetMeta now typ author name tags summary (ms_db st')) st'))"

definition handleUnpush ::
  "('sk, 'pub) market_env \<Rightarrow> market_config \<Rightarrow> int \<Rightarrow> request \<Rightarrow> string \<Rightarrow> string \<Rightarrow> string \<Rightarrow> market_state \<Rightarrow> response \<times> market_state" where
  "handleUnpush env cfg now rq typ author name st =
     (case verifyWriteAuthor env cfg now rq [] author st of
        (Some r, st') \<Rightarrow> (r, st')
      | (None, st') \<Rightarrow>
        let (existed, db) = DeleteAsset typ author name (ms_db st') in
        (Reply 200 (if existed then StatusBody ''deleted'' [] else StatusBody ''skip'' ''nothing to delete''),
         st'\<lparr>ms_db := db\<rparr>))"

definition handleMine ::
  "('sk, 'pub) market_env \<Rightarrow> market_config \<Rightarrow> int \<Rightarrow> request \<Rightarrow> market_state \<Rightarrow> response \<times> market_state" where
  "handleMine env cfg now rq st =
     (if rq_method rq \<noteq> ''GET'' then (errBody 405 ''method_not_allowed'' ''GET only'', st)
      else
        let (signer, r, st') = verifyWrite env cfg now rq [] ''mine'' st in
        if signer = [] then (written r, st')
        else
          let signer = (if mc_dev_skip_auth cfg \<and> query rq ''author'' \<noteq> [] then to_lower (query rq ''author'') else signer);
              f = \<lparr>lf_type = query rq ''type'', lf_author = [], lf_query = [], lf_paid = None, lf_sort = [],
                   lf_page = queryInt (query rq ''page'') 1, lf_limit = queryInt (query rq ''limit'') 20\<rparr>;
              (items, total) = ListMine (ms_db st') signer f
          in (Reply 200 (Listing items (lf_page f) (clampLimit (lf_limit f)) total), st'))"


section \<open>Routing\<close>

text \<open>The operation on one asset that the method and the part after its name select.\<close>

definition handleAsset ::
  "('sk, 'pub) market_env \<Rightarrow> market_config \<Rightarrow> int \<Rightarrow> request \<Rightarrow> string \<Rightarrow> string \<Rightarrow> string \<Rightarrow> string \<Rightarrow> market_state \<Rightarrow> response \<times> market_state" where
  "handleAsset env cfg now rq typ author name sub st =
     (let m = rq_method rq in
      if sub = [] then
        (if m = ''GET'' then handleGetMeta env cfg now rq typ author name st
         else if m = ''POST'' then handlePush env cfg now rq typ author name st
         else if m = ''PATCH'' then handleVisibility env cfg now rq typ author name st
         else if m = ''DELETE'' then handleUnpush env cfg now rq typ author name st
         else (errBody 405 ''method_not_allowed'' [], st))
      else if sub = ''versions'' then
        (if m \<noteq> ''GET'' then (errBody 405 ''method_not_allowed'' ''GET only'', st) else handleVersions typ author name st)
      else if sub = ''install'' then
        (if m \<noteq> ''GET'' then (errBody 405 ''method_not_allowed'' ''GET only'', st)
         else handleInstall env cfg now rq typ author name st)
      else if sub = ''price'' then
        (if m \<noteq> ''PATCH'' then (errBody 405 ''method_not_allowed'' ''PATCH only'', st)
         else handlePrice env cfg now rq typ author name st)
      else if sub = ''meta'' then
        (if m \<noteq> ''PATCH'' then (errBody 405 ''method_not_allowed'' ''PATCH only'', st)
         else handleMeta env cfg now rq typ author name st)
      else (errBody 404 ''not_found'' (''unknown subresource: '' @ sub), st))"

definition trim_slashes :: "string \<Rightarrow> string" where
  "trim_slashes s = trim_right (\<lambda>c. c = CHR ''/'') (trim_left (\<lambda>c. c = CHR ''/'') s)"

definition handleAssetsPath ::
  "('sk, 'pub) market_env \<Rightarrow> market_config \<Rightarrow> int \<Rightarrow> request \<Rightarrow> market_state \<Rightarrow> response \<times> market_state" where
  "handleAssetsPath env cfg now rq st =
     (let rest = trim_slashes (trim_prefix (rq_path rq) ''/v1/assets/'') in
      if rest = [] then (errBody 404 ''not_found'' ''asset path required'', st)
      else
        let segs = split rest CHR ''/'' in
        if segs = [''mine''] then handleMine env cfg now rq st
        else
          (case segs of
             typ # author # name # subs \<Rightarrow>
               if length subs > 1 then (errBody 404 ''not_found'' ''expected /v1/assets/{type}/{author}/{name}[/versions|install|price]'', st)
               else if typ \<notin> set ValidTypes then (errBody 400 ''bad_request'' (''unknown type: '' @ typ), st)
               else handleAsset env cfg now rq typ (to_lower author) name (case subs of [] \<Rightarrow> [] | s # _ \<Rightarrow> s) st
           | _ \<Rightarrow> (errBody 404 ''not_found'' ''expected /v1/assets/{type}/{author}/{name}[/versions|install|price]'', st)))"

text \<open>
  The mux of \<^verbatim>\<open>net/http\<close> redirects a path that is not clean; then the exact patterns and the
  subtrees. The CORS wrapper answers OPTIONS before the mux.
\<close>

definition mux_clean :: "string \<Rightarrow> string" where
  "mux_clean p0 =
     (let p = (if has_prefix p0 ''/'' then p0 else ''/'' @ p0); np = clean_path p in
      if has_suffix p ''/'' \<and> np \<noteq> ''/'' then np @ ''/'' else np)"

definition serveMux ::
  "('sk, 'pub) market_env \<Rightarrow> market_config \<Rightarrow> int \<Rightarrow> request \<Rightarrow> market_state \<Rightarrow> response \<times> market_state" where
  "serveMux env cfg now rq st =
     (let p = rq_path rq in
      if rq_method rq \<noteq> ''CONNECT'' \<and> mux_clean p \<noteq> p then (Reply 301 (Redirect (mux_clean p)), st)
      else if p = ''/health'' then (Reply 200 Health, st)
      else if p = ''/v1/assets'' then handleAssetsList rq st
      else if has_prefix p ''/v1/assets/'' then handleAssetsPath env cfg now rq st
      else if p = ''/v1/blob'' then (Reply 301 (Redirect ''/v1/blob/''), st)
      else if has_prefix p ''/v1/blob/'' then
        (errBody 501 ''not_implemented'' ''paid payload fetch is Phase 3 (x402/8183)'', st)
      else (Reply 404 NoBody, st))"

definition corsMiddleware ::
  "('sk, 'pub) market_env \<Rightarrow> market_config \<Rightarrow> int \<Rightarrow> request \<Rightarrow> market_state \<Rightarrow> response \<times> market_state" where
  "corsMiddleware env cfg now rq st =
     (if rq_method rq = ''OPTIONS'' then (Reply 200 NoBody, st) else serveMux env cfg now rq st)"

text \<open>One request at one time.\<close>

definition market_step ::
  "('sk, 'pub) market_env \<Rightarrow> market_config \<Rightarrow> market_state \<Rightarrow> int \<times> request \<Rightarrow> market_state" where
  "market_step env cfg st e = snd (corsMiddleware env cfg (fst e) (snd e) st)"

end
