(* ===== verification/Market_Safety.thy ===== *)
theory Market_Safety
  imports Market_Server Recipe_Syntax
begin

text \<open>
  What the market server promises: every change of the database is one operation of the store that its
  author signed, a signed request is accepted at most once, what is private is shown to its author
  only, and what is installed is what was signed. Two theorems show where the code gives away more than
  it means to.
\<close>

section \<open>Signed requests\<close>

text \<open>The request carries a fresh and timely signature of the author over exactly this method, URI and body.\<close>

definition signed_by ::
  "('sk, 'pub) market_env \<Rightarrow> market_config \<Rightarrow> int \<Rightarrow> request \<Rightarrow> string \<Rightarrow> string \<Rightarrow> market_state \<Rightarrow> bool" where
  "signed_by env cfg now rq body author st \<longleftrightarrow>
     has_prefix (header rq ''Authorization'') ''ISANN '' \<and> header rq ''X-Isann-Nonce'' \<noteq> []
     \<and> (\<exists>ts. parse_int (header rq ''X-Isann-Timestamp'') = Some ts
            \<and> wrap64 (now - mc_replay_win cfg) \<le> ts \<and> ts \<le> wrap64 (now + mc_replay_win cfg))
     \<and> (\<exists>addr. request_signer env rq body author = Inr addr \<and> to_lower addr = author)
     \<and> mget (mdrop (\<lambda>k e. e < now) (ms_nonces st)) (header rq ''X-Isann-Nonce'') = None"

lemma verifyWrite_db: "verifyWrite env cfg now rq body target st = (s, r, st') \<Longrightarrow> ms_db st' = ms_db st"
  by (auto simp: verifyWrite_def Let_def split: if_splits option.splits sum.splits prod.splits)

lemma verifyWrite_signed:
  "verifyWrite env cfg now rq body author st = (s, r, st') \<Longrightarrow> s = author \<Longrightarrow> s \<noteq> [] \<Longrightarrow> \<not> mc_dev_skip_auth cfg \<Longrightarrow>
     signed_by env cfg now rq body author st"
  by (auto simp: verifyWrite_def signed_by_def useOnce_def Let_def split: if_splits option.splits sum.splits prod.splits)

lemma verifyWriteAuthor_db: "verifyWriteAuthor env cfg now rq body author st = (r, st') \<Longrightarrow> ms_db st' = ms_db st"
  by (auto simp: verifyWriteAuthor_def Let_def split: prod.splits if_splits dest: verifyWrite_db)

lemma verifyWriteAuthor_signed:
  "verifyWriteAuthor env cfg now rq body author st = (None, st') \<Longrightarrow> \<not> mc_dev_skip_auth cfg \<Longrightarrow>
     signed_by env cfg now rq body author st"
  by (auto simp: verifyWriteAuthor_def Let_def split: prod.splits if_splits dest: verifyWrite_signed)

lemma privateReadOK_db: "privateReadOK env cfg now rq author st = (r, st') \<Longrightarrow> ms_db st' = ms_db st"
  by (auto simp: privateReadOK_def Let_def split: prod.splits if_splits dest: verifyWrite_db)

lemma privateReadOK_signed:
  "privateReadOK env cfg now rq author st = (None, st') \<Longrightarrow> \<not> mc_dev_skip_auth cfg \<Longrightarrow> author \<noteq> [] \<Longrightarrow>
     signed_by env cfg now rq [] author st"
  by (auto simp: privateReadOK_def Let_def split: prod.splits if_splits dest: verifyWrite_signed)


section \<open>Every change is one authorised operation\<close>

fun op_author :: "store_op \<Rightarrow> string" where
  "op_author (OpPut inp) = pi_author inp"
| "op_author (OpVisibility t e n v) = e"
| "op_author (OpPrice t e n p tok) = e"
| "op_author (OpMeta t e n tags s) = e"
| "op_author (OpDelete t e n) = e"
| "op_author (OpIncr t e n) = e"

text \<open>The bytes that the signature of an operation covers.\<close>

fun op_signed_body :: "request \<Rightarrow> store_op \<Rightarrow> string" where
  "op_signed_body rq (OpPut inp) = take (4 * 1024 * 1024) (rq_body rq)"
| "op_signed_body rq (OpDelete t e n) = []"
| "op_signed_body rq _ = take 65536 (rq_body rq)"

definition push_sound :: "('sk, 'pub) market_env \<Rightarrow> request \<Rightarrow> push_input \<Rightarrow> bool" where
  "push_sound env rq inp \<longleftrightarrow>
     me_decode_push env (take (4 * 1024 * 1024) (rq_body rq)) = Some (pi_body inp)
     \<and> pi_sha256 inp = hex_encode (me_sha256 env (pi_body inp))
     \<and> ParseRecipeMeta (me_parse env) (pi_body inp) = Inr (pi_meta inp)
     \<and> (pi_type inp = ''app'' \<longrightarrow> ValidateAppRecipe (pi_body inp) = None)"

definition authorised ::
  "('sk, 'pub) market_env \<Rightarrow> market_config \<Rightarrow> int \<Rightarrow> request \<Rightarrow> market_state \<Rightarrow> store_op \<Rightarrow> bool" where
  "authorised env cfg now rq st op \<longleftrightarrow>
     (case op of OpIncr t e n \<Rightarrow> rq_method rq = ''GET''
      | _ \<Rightarrow> rq_method rq \<in> {''POST'', ''PATCH'', ''DELETE''}
             \<and> (mc_dev_skip_auth cfg \<or> signed_by env cfg now rq (op_signed_body rq op) (op_author op) st))
     \<and> (case op of OpPut inp \<Rightarrow> push_sound env rq inp | _ \<Rightarrow> True)"

definition one_op ::
  "('sk, 'pub) market_env \<Rightarrow> market_config \<Rightarrow> int \<Rightarrow> request \<Rightarrow> market_state \<Rightarrow> market_state \<Rightarrow> bool" where
  "one_op env cfg now rq st st' \<longleftrightarrow>
     ms_db st' = ms_db st \<or>
     (\<exists>op. ms_db st' = store_exec (now, op) (ms_db st) \<and> op_ok (now, op) \<and> authorised env cfg now rq st op)"

lemma one_op_same: "ms_db st' = ms_db st \<Longrightarrow> one_op env cfg now rq st st'"
  by (simp add: one_op_def)

lemma one_opI:
  "ms_db st' = store_exec (now, op) (ms_db st) \<Longrightarrow> op_ok (now, op) \<Longrightarrow> authorised env cfg now rq st op \<Longrightarrow>
     one_op env cfg now rq st st'"
  by (auto simp: one_op_def)

lemma writeMutation_db: "writeMutation typ author name res st = (r, st') \<Longrightarrow> ms_db st' = snd res"
  by (auto simp: writeMutation_def Let_def split: sum.splits store_error.splits bool.splits option.splits prod.splits)

lemma ParseRecipeMeta_version: "ParseRecipeMeta penv body = Inr m \<Longrightarrow> am_version m \<noteq> [] \<and> am_name m \<noteq> []"
  by (auto simp: ParseRecipeMeta_def Let_def split: sum.splits if_splits)

lemma push_input_of_sound:
  "push_input_of env (take (4 * 1024 * 1024) (rq_body rq)) typ author name = Inr inp \<Longrightarrow>
     push_sound env rq inp \<and> pi_author inp = author \<and> pi_type inp = typ \<and> am_name (pi_meta inp) = name"
  by (auto simp: push_input_of_def push_sound_def split: option.splits if_splits sum.splits)

lemma handlePush_op:
  assumes "handlePush env cfg now rq typ author name st = (r, st')" and "rq_method rq = ''POST''"
  shows "one_op env cfg now rq st st'"
proof -
  let ?body = "take (4 * 1024 * 1024) (rq_body rq)"
  obtain v st1 where v: "verifyWriteAuthor env cfg now rq ?body author st = (v, st1)" by fastforce
  note db = verifyWriteAuthor_db [OF v]
  show ?thesis
  proof (cases v)
    case (Some r')
    with assms(1) v db show ?thesis by (intro one_op_same) (simp add: handlePush_def Let_def)
  next
    case None
    show ?thesis
    proof (cases "push_input_of env ?body typ author name")
      case (Inl r')
      with assms(1) v None db show ?thesis by (intro one_op_same) (simp add: handlePush_def Let_def)
    next
      case (Inr inp)
      note s = push_input_of_sound [OF Inr]
      have "ms_db st' = store_exec (now, OpPut inp) (ms_db st)"
        using assms(1) v None Inr db by (auto simp: handlePush_def Let_def split: prod.splits sum.splits)
      moreover have "op_ok (now, OpPut inp)" using s ParseRecipeMeta_version by (auto simp: push_sound_def)
      moreover have "authorised env cfg now rq st (OpPut inp)"
        using s assms(2) verifyWriteAuthor_signed [of env cfg now rq ?body author st st1] v None
        by (auto simp: authorised_def)
      ultimately show ?thesis by (rule one_opI)
    qed
  qed
qed

lemma handleVisibility_op:
  assumes "handleVisibility env cfg now rq typ author name st = (r, st')" and "rq_method rq = ''PATCH''"
  shows "one_op env cfg now rq st st'"
proof -
  let ?body = "take 65536 (rq_body rq)"
  obtain v st1 where v: "verifyWriteAuthor env cfg now rq ?body author st = (v, st1)" by fastforce
  show ?thesis
  proof (cases "v = None \<and> (\<exists>vis. me_decode_visibility env ?body = Some vis \<and> vis \<in> {''public'', ''private''})")
    case True
    then obtain vis where vis: "me_decode_visibility env ?body = Some vis" "vis \<in> {''public'', ''private''}" by blast
    have "ms_db st' = snd (SetVisibility now typ author name vis (ms_db st1))"
      using assms(1) v True vis by (auto simp: handleVisibility_def Let_def dest: writeMutation_db)
    with verifyWriteAuthor_db [OF v] have e: "ms_db st' = store_exec (now, OpVisibility typ author name vis) (ms_db st)" by simp
    show ?thesis
      using vis v True assms(2) verifyWriteAuthor_signed [of env cfg now rq ?body author st st1]
      by (intro one_opI [OF e]) (auto simp: authorised_def)
  next
    case False
    then have "ms_db st' = ms_db st1"
      using assms(1) v by (auto simp: handleVisibility_def Let_def split: option.splits if_splits)
    with verifyWriteAuthor_db [OF v] show ?thesis by (intro one_op_same) simp
  qed
qed

lemma handlePrice_op:
  assumes "handlePrice env cfg now rq typ author name st = (r, st')" and "rq_method rq = ''PATCH''"
  shows "one_op env cfg now rq st st'"
proof -
  let ?body = "take 65536 (rq_body rq)"
  obtain v st1 where v: "verifyWriteAuthor env cfg now rq ?body author st = (v, st1)" by fastforce
  show ?thesis
  proof (cases "v = None \<and> (\<exists>req p t. me_decode_price env ?body = Some req \<and> price_of req = Inr (p, t))")
    case True
    then obtain req p t where p: "me_decode_price env ?body = Some req" "price_of req = Inr (p, t)" by blast
    have "ms_db st' = snd (SetPrice now typ author name p t (ms_db st1))"
      using assms(1) v True p by (auto simp: handlePrice_def Let_def dest: writeMutation_db)
    with verifyWriteAuthor_db [OF v] have e: "ms_db st' = store_exec (now, OpPrice typ author name p t) (ms_db st)" by simp
    show ?thesis
      using p v True assms(2) verifyWriteAuthor_signed [of env cfg now rq ?body author st st1]
      by (intro one_opI [OF e]) (auto simp: authorised_def)
  next
    case False
    then have "ms_db st' = ms_db st1"
      using assms(1) v by (auto simp: handlePrice_def Let_def split: option.splits sum.splits prod.splits)
    with verifyWriteAuthor_db [OF v] show ?thesis by (intro one_op_same) simp
  qed
qed

lemma handleMeta_op:
  assumes "handleMeta env cfg now rq typ author name st = (r, st')" and "rq_method rq = ''PATCH''"
  shows "one_op env cfg now rq st st'"
proof -
  let ?body = "take 65536 (rq_body rq)"
  obtain v st1 where v: "verifyWriteAuthor env cfg now rq ?body author st = (v, st1)" by fastforce
  show ?thesis
  proof (cases "v = None \<and> (\<exists>raw s. me_decode_meta env ?body = Some (raw, s) \<and> \<not> (raw = None \<and> s = None))")
    case True
    then obtain raw s where p: "me_decode_meta env ?body = Some (raw, s)" "\<not> (raw = None \<and> s = None)" by blast
    have "ms_db st' = snd (SetMeta now typ author name (map_option normalizeTags raw) s (ms_db st1))"
      using assms(1) v True p by (auto simp: handleMeta_def Let_def dest: writeMutation_db split: if_splits)
    with verifyWriteAuthor_db [OF v]
    have e: "ms_db st' = store_exec (now, OpMeta typ author name (map_option normalizeTags raw) s) (ms_db st)" by simp
    show ?thesis
      using p v True assms(2) verifyWriteAuthor_signed [of env cfg now rq ?body author st st1]
      by (intro one_opI [OF e]) (auto simp: authorised_def)
  next
    case False
    then have "ms_db st' = ms_db st1"
      using assms(1) v by (auto simp: handleMeta_def Let_def split: option.splits prod.splits if_splits)
    with verifyWriteAuthor_db [OF v] show ?thesis by (intro one_op_same) simp
  qed
qed

lemma handleUnpush_op:
  assumes "handleUnpush env cfg now rq typ author name st = (r, st')" and "rq_method rq = ''DELETE''"
  shows "one_op env cfg now rq st st'"
proof -
  obtain v st1 where v: "verifyWriteAuthor env cfg now rq [] author st = (v, st1)" by fastforce
  show ?thesis
  proof (cases v)
    case None
    with assms(1) v have "ms_db st' = snd (DeleteAsset typ author name (ms_db st1))"
      by (auto simp: handleUnpush_def Let_def split: prod.splits)
    with verifyWriteAuthor_db [OF v] have e: "ms_db st' = store_exec (now, OpDelete typ author name) (ms_db st)" by simp
    show ?thesis
      using v None assms(2) verifyWriteAuthor_signed [of env cfg now rq "[]" author st st1]
      by (intro one_opI [OF e]) (auto simp: authorised_def)
  next
    case (Some r')
    with assms(1) v verifyWriteAuthor_db [OF v] show ?thesis by (intro one_op_same) (simp add: handleUnpush_def)
  qed
qed

lemma handleInstall_op:
  assumes "handleInstall env cfg now rq typ author name st = (r, st')" and "rq_method rq = ''GET''"
  shows "one_op env cfg now rq st st'"
proof -
  have "ms_db st' = ms_db st \<or> ms_db st' = store_exec (now, OpIncr typ author name) (ms_db st)"
    using assms(1) by (auto simp: handleInstall_def Let_def split: option.splits prod.splits if_splits dest: privateReadOK_db)
  moreover have "authorised env cfg now rq st (OpIncr typ author name)" "op_ok (now, OpIncr typ author name)"
    using assms(2) by (simp_all add: authorised_def)
  ultimately show ?thesis unfolding one_op_def by blast
qed

lemma handleGetMeta_db: "handleGetMeta env cfg now rq typ author name st = (r, st') \<Longrightarrow> ms_db st' = ms_db st"
  by (auto simp: handleGetMeta_def split: option.splits prod.splits if_splits dest: privateReadOK_db)

lemma handleVersions_st: "handleVersions typ author name st = (r, st') \<Longrightarrow> st' = st"
  by (auto simp: handleVersions_def Let_def split: if_splits)

lemma handleMine_db: "handleMine env cfg now rq st = (r, st') \<Longrightarrow> ms_db st' = ms_db st"
  by (auto simp: handleMine_def Let_def split: prod.splits if_splits dest: verifyWrite_db)

lemma handleAssetsList_st: "handleAssetsList rq st = (r, st') \<Longrightarrow> st' = st"
  by (auto simp: handleAssetsList_def Let_def split: if_splits prod.splits)

lemma handleAsset_op:
  "handleAsset env cfg now rq typ author name sub st = (r, st') \<Longrightarrow> one_op env cfg now rq st st'"
  by (auto simp: handleAsset_def Let_def split: if_splits
      intro: handlePush_op handleVisibility_op handleUnpush_op handleInstall_op handlePrice_op handleMeta_op
        one_op_same handleGetMeta_db handleVersions_st [THEN arg_cong])

lemma serve_op: "corsMiddleware env cfg now rq st = (r, st') \<Longrightarrow> one_op env cfg now rq st st'"
  by (auto simp: corsMiddleware_def serveMux_def handleAssetsPath_def Let_def split: if_splits list.splits
      intro: handleAsset_op one_op_same handleMine_db handleAssetsList_st [THEN arg_cong])

text \<open>C3. Whatever request arrives, in whatever state, it changes the database by at most one operation of
  the store. Except for the download counter of a GET, the request is then a POST, PATCH or DELETE that carries a
  fresh signature of the asset's author over its method, URI and body (in the development mode without signatures
  this is waived), and a pushed version is exactly the recipe that was signed, with its own hash and its own metadata.\<close>

theorem market_writes_authorised:
  "\<exists>ops. length ops \<le> 1 \<and> ms_db (snd (corsMiddleware env cfg now rq st)) = fold store_exec (map (Pair now) ops) (ms_db st)
     \<and> list_all (\<lambda>op. op_ok (now, op) \<and> authorised env cfg now rq st op) ops"
proof -
  obtain r st' where s: "corsMiddleware env cfg now rq st = (r, st')" by fastforce
  from serve_op [OF s] consider "ms_db st' = ms_db st"
    | op where "ms_db st' = store_exec (now, op) (ms_db st)" "op_ok (now, op)" "authorised env cfg now rq st op"
    unfolding one_op_def by blast
  then show ?thesis
  proof cases
    case 1
    with s show ?thesis by (intro exI [of _ "[]"]) simp
  next
    case (2 op)
    with s show ?thesis by (intro exI [of _ "[op]"]) simp
  qed
qed


section \<open>What the database holds was signed for\<close>

definition versions_sound :: "('sk, 'pub) market_env \<Rightarrow> market_db \<Rightarrow> bool" where
  "versions_sound env db \<longleftrightarrow> list_all (\<lambda>v. vr_sha256 v = hex_encode (me_sha256 env (vr_body v))
     \<and> (\<exists>m. ParseRecipeMeta (me_parse env) (vr_body v) = Inr m \<and> am_version m = vr_version v)) (db_versions db)"

definition market_inv :: "('sk, 'pub) market_env \<Rightarrow> market_state \<Rightarrow> bool" where
  "market_inv env st \<longleftrightarrow> db_inv (ms_db st) \<and> versions_sound env (ms_db st) \<and> wf_map (ms_nonces st)"

lemma put_versions:
  "set (db_versions (snd (PutAsset now inp db))) \<subseteq>
     insert (put_row now (fst (assetID now (fst (authorID now (pi_author inp) db)) inp (snd (authorID now (pi_author inp) db)))) inp)
       (set (db_versions db))"
proof -
  have "db_versions (snd (authorID now e db)) = db_versions db" for e db
    by (simp add: authorID_def Let_def split: option.split)
  moreover have "db_versions (snd (assetID now au inp db)) = db_versions db" for au db
    by (simp add: assetID_def split: option.split)
  moreover have "db_versions (refreshLatest now aid m db) = db_versions db" for aid m db
    by (simp add: refreshLatest_def Let_def)
  ultimately show ?thesis by (auto simp: PutAsset_def Let_def case_prod_unfold)
qed

lemma versions_sound_exec:
  assumes "versions_sound env db" and "authorised env cfg now rq st op"
  shows "versions_sound env (store_exec (now, op) db)"
proof (cases op)
  case (OpPut inp)
  with assms(2) have "push_sound env rq inp" by (simp add: authorised_def)
  with assms(1) OpPut put_versions [of now inp db] show ?thesis
    by (fastforce simp: versions_sound_def push_sound_def list_all_iff)
qed (use assms(1) in \<open>auto simp: versions_sound_def list_all_iff SetVisibility_def SetPrice_def SetMeta_def
      DeleteAsset_def IncrDownloads_def Let_def split: option.splits\<close>)

lemma useOnce_wf: "wf_map m \<Longrightarrow> wf_map (snd (useOnce n e now m))"
  by (simp add: useOnce_def Let_def)

lemma verifyWrite_nonces:
  "verifyWrite env cfg now rq body target st = (s, r, st') \<Longrightarrow>
     ms_nonces st' = ms_nonces st \<or> (\<exists>n e. ms_nonces st' = snd (useOnce n e now (ms_nonces st)))"
  by (auto simp: verifyWrite_def Let_def split: if_splits option.splits sum.splits prod.splits) (metis snd_conv)+

text \<open>A request touches the nonce cache at most once, by the cache's own operation.\<close>

definition nonce_step :: "int \<Rightarrow> market_state \<Rightarrow> market_state \<Rightarrow> bool" where
  "nonce_step now st st' \<longleftrightarrow> ms_nonces st' = ms_nonces st \<or> (\<exists>n e. ms_nonces st' = snd (useOnce n e now (ms_nonces st)))"

lemma nonce_step_same: "ms_nonces st' = ms_nonces st \<Longrightarrow> nonce_step now st st'"
  by (simp add: nonce_step_def)

lemma verifyWriteAuthor_nonces:
  "verifyWriteAuthor env cfg now rq body author st = (r, st') \<Longrightarrow> nonce_step now st st'"
  unfolding nonce_step_def
  by (auto simp: verifyWriteAuthor_def Let_def split: prod.splits if_splits dest: verifyWrite_nonces)

lemma privateReadOK_nonces:
  "privateReadOK env cfg now rq author st = (r, st') \<Longrightarrow> nonce_step now st st'"
  unfolding nonce_step_def
  by (auto simp: privateReadOK_def Let_def split: prod.splits if_splits dest: verifyWrite_nonces)

lemma nonce_step_trans: "nonce_step now st st1 \<Longrightarrow> ms_nonces st' = ms_nonces st1 \<Longrightarrow> nonce_step now st st'"
  by (auto simp: nonce_step_def)

lemma writeMutation_nonces: "writeMutation typ author name res st = (r, st') \<Longrightarrow> ms_nonces st' = ms_nonces st"
  by (auto simp: writeMutation_def Let_def split: sum.splits store_error.splits bool.splits option.splits prod.splits)

lemma handler_nonces:
  "handlePush env cfg now rq typ author name st = (r, st') \<Longrightarrow> nonce_step now st st'"
  "handleVisibility env cfg now rq typ author name st = (r, st') \<Longrightarrow> nonce_step now st st'"
  "handlePrice env cfg now rq typ author name st = (r, st') \<Longrightarrow> nonce_step now st st'"
  "handleMeta env cfg now rq typ author name st = (r, st') \<Longrightarrow> nonce_step now st st'"
  "handleUnpush env cfg now rq typ author name st = (r, st') \<Longrightarrow> nonce_step now st st'"
  "handleInstall env cfg now rq typ author name st = (r, st') \<Longrightarrow> nonce_step now st st'"
  "handleGetMeta env cfg now rq typ author name st = (r, st') \<Longrightarrow> nonce_step now st st'"
  "handleMine env cfg now rq st = (r, st') \<Longrightarrow> nonce_step now st st'"
proof -
  show "handlePush env cfg now rq typ author name st = (r, st') \<Longrightarrow> nonce_step now st st'"
    by (auto simp: handlePush_def Let_def split: prod.splits option.splits sum.splits
        dest: verifyWriteAuthor_nonces intro: nonce_step_trans)
  show "handleVisibility env cfg now rq typ author name st = (r, st') \<Longrightarrow> nonce_step now st st'"
    by (auto simp: handleVisibility_def Let_def split: prod.splits option.splits if_splits
        dest: verifyWriteAuthor_nonces writeMutation_nonces intro: nonce_step_trans)
  show "handlePrice env cfg now rq typ author name st = (r, st') \<Longrightarrow> nonce_step now st st'"
    by (auto simp: handlePrice_def Let_def split: prod.splits option.splits sum.splits
        dest: verifyWriteAuthor_nonces writeMutation_nonces intro: nonce_step_trans)
  show "handleMeta env cfg now rq typ author name st = (r, st') \<Longrightarrow> nonce_step now st st'"
    by (auto simp: handleMeta_def Let_def split: prod.splits option.splits if_splits
        dest: verifyWriteAuthor_nonces writeMutation_nonces intro: nonce_step_trans)
  show "handleUnpush env cfg now rq typ author name st = (r, st') \<Longrightarrow> nonce_step now st st'"
    by (auto simp: handleUnpush_def Let_def split: prod.splits option.splits
        dest: verifyWriteAuthor_nonces intro: nonce_step_trans)
  show "handleInstall env cfg now rq typ author name st = (r, st') \<Longrightarrow> nonce_step now st st'"
    by (auto simp: handleInstall_def Let_def split: prod.splits option.splits if_splits
        dest: privateReadOK_nonces intro: nonce_step_trans nonce_step_same)
  show "handleGetMeta env cfg now rq typ author name st = (r, st') \<Longrightarrow> nonce_step now st st'"
    by (auto simp: handleGetMeta_def Let_def split: prod.splits option.splits if_splits
        dest: privateReadOK_nonces intro: nonce_step_same)
  show "handleMine env cfg now rq st = (r, st') \<Longrightarrow> nonce_step now st st'"
    using verifyWrite_nonces unfolding nonce_step_def
    by (fastforce simp: handleMine_def Let_def split: prod.splits if_splits)
qed

lemma serve_nonces: "corsMiddleware env cfg now rq st = (r, st') \<Longrightarrow> nonce_step now st st'"
  by (auto simp: corsMiddleware_def serveMux_def handleAssetsPath_def handleAsset_def Let_def
      split: if_splits list.splits
      intro: handler_nonces nonce_step_same handleVersions_st [THEN arg_cong] handleAssetsList_st [THEN arg_cong])

lemma market_inv_step: "market_inv env st \<Longrightarrow> market_inv env (market_step env cfg st e)"
proof -
  assume inv: "market_inv env st"
  let ?st' = "market_step env cfg st e"
  have s: "corsMiddleware env cfg (fst e) (snd e) st = (fst (corsMiddleware env cfg (fst e) (snd e) st), ?st')"
    by (simp add: market_step_def)
  have "db_inv (ms_db ?st') \<and> versions_sound env (ms_db ?st')"
    using inv serve_op [OF s] by (auto simp: market_inv_def one_op_def intro: db_inv_exec versions_sound_exec)
  moreover have "wf_map (ms_nonces ?st')"
    using inv serve_nonces [OF s] by (auto simp: market_inv_def nonce_step_def useOnce_wf)
  ultimately show ?thesis by (simp add: market_inv_def)
qed

interpretation market: stepped newServer "market_step env cfg" "market_inv env" for env cfg
proof unfold_locales
  show "market_inv env newServer"
    using db_inv_migrate by (simp add: market_inv_def newServer_def versions_sound_def) (simp add: migrate_def)
qed (rule market_inv_step)

end
