(* ===== verification/Market_Access.thy ===== *)
theory Market_Access
  imports Market_Safety
begin

text \<open>
  Reads of the market and replays: what the database holds was signed for, a signed request is accepted
  once, private assets are shown to their author only, and two ways in which the server gives
  away more than that.
\<close>

section \<open>Clean paths have no empty segment\<close>

lemma contains_iff: "contains s p \<longleftrightarrow> (\<exists>a b. s = a @ p @ b)"
proof (induction s)
  case (Cons c s)
  show ?case
  proof
    assume "contains (c # s) p"
    then consider b where "c # s = p @ b" | a b where "s = a @ p @ b" using Cons by (auto simp: has_prefix_iff)
    then show "\<exists>a b. c # s = a @ p @ b"
    proof cases
      case (1 b)
      then show ?thesis by (metis append_Nil)
    next
      case (2 a b)
      then show ?thesis by (metis append_Cons)
    qed
  next
    assume "\<exists>a b. c # s = a @ p @ b"
    then obtain a b where e: "c # s = a @ p @ b" by blast
    show "contains (c # s) p"
    proof (cases a)
      case Nil
      with e have "has_prefix (c # s) p" unfolding has_prefix_iff by auto
      then show ?thesis by simp
    next
      case (Cons x a')
      with e \<open>contains s p \<longleftrightarrow> _\<close> show ?thesis by auto
    qed
  qed
qed simp

lemma contains_factor: "contains t p \<Longrightarrow> contains (x @ t @ y) p"
  unfolding contains_iff by (metis append.assoc)

lemma join_no_double_slash:
  "list_all plain_part cs \<Longrightarrow> \<not> contains (CHR ''/'' # join ''/'' cs) ''//''
     \<and> \<not> contains (join ''/'' cs) ''//'' \<and> (cs \<noteq> [] \<longrightarrow> \<not> contains (CHR ''/'' # join ''/'' cs @ ''/'') ''//'')"
proof -
  have free: "\<not> contains (c @ s) ''//'' \<longleftrightarrow> \<not> contains s ''//''" if "CHR ''/'' \<notin> set c" for c s
    using that by (induction c) (auto simp: has_prefix_def)
  have slash: "\<not> contains (CHR ''/'' # c @ s) ''//''" if "plain_part c" "\<not> contains s ''//''" for c s
  proof -
    from that(1) obtain x c' where c: "c = x # c'" "x \<noteq> CHR ''/''" by (cases c) (auto simp: plain_part_def)
    then show ?thesis using that free [of c s] by (auto simp: has_prefix_def plain_part_def)
  qed
  have gen: "\<not> contains t ''//'' \<Longrightarrow> list_all plain_part cs \<Longrightarrow> cs \<noteq> [] \<Longrightarrow>
      \<not> contains (CHR ''/'' # join ''/'' cs @ t) ''//''" for t
  proof (induction "''/''" cs rule: join.induct)
    case (2 c)
    then show ?case using slash [of c t] by simp
  next
    case (3 c d ds)
    then have "\<not> contains (CHR ''/'' # join ''/'' (d # ds) @ t) ''//''" by simp
    with 3 slash [of c "CHR ''/'' # join ''/'' (d # ds) @ t"] show ?case by simp
  qed simp
  assume cs: "list_all plain_part cs"
  show ?thesis
  proof (cases "cs = []")
    case True
    then show ?thesis by (simp add: has_prefix_def)
  next
    case False
    from gen [of "[]"] gen [of "''/''"] cs False show ?thesis by (auto simp: has_prefix_def)
  qed
qed

lemma mux_clean_slashes:
  assumes "mux_clean p = p"
  shows "\<not> contains p ''//''"
proof -
  let ?q = "if has_prefix p ''/'' then p else ''/'' @ p"
  have "is_abs ?q" by (simp add: is_abs_def has_prefix_def)
  from clean_path_abs [OF this] obtain cs where cs: "list_all plain_part cs" "clean_path ?q = CHR ''/'' # join ''/'' cs" by blast
  have "p = CHR ''/'' # join ''/'' cs \<or> (p = CHR ''/'' # join ''/'' cs @ ''/'' \<and> cs \<noteq> [])"
    using assms cs(2) unfolding mux_clean_def Let_def by (cases "cs = []") (auto split: if_splits)
  with join_no_double_slash [OF cs(1)] show ?thesis by auto
qed

lemma split_empty_second: "split s c = a # [] # b # bs \<Longrightarrow> contains s [c, c]"
proof -
  assume "split s c = a # [] # b # bs"
  then have "s = join [c] (a # [] # b # bs)" by (metis join_split)
  then have "s = a @ [c, c] @ join [c] (b # bs)" by simp
  then show ?thesis unfolding contains_iff by blast
qed

lemma trim_slashes_factor: "\<exists>x y. s = x @ trim_slashes s @ y"
proof -
  let ?P = "\<lambda>c. c = CHR ''/''"
  have "s = takeWhile ?P s @ dropWhile ?P s" by simp
  moreover have "t = rev (dropWhile ?P (rev t)) @ rev (takeWhile ?P (rev t))" for t
    by (metis rev_append rev_rev_ident takeWhile_dropWhile_id)
  ultimately show ?thesis unfolding trim_slashes_def trim_left_def trim_right_def by metis
qed

lemma asset_path_author:
  assumes "mux_clean p = p" and "has_prefix p ''/v1/assets/''"
    and "split (trim_slashes (trim_prefix p ''/v1/assets/'')) CHR ''/'' = ty # author # nm # subs"
  shows "author \<noteq> []"
proof
  assume "author = []"
  with assms(3) have c: "contains (trim_slashes (trim_prefix p ''/v1/assets/'')) ''//''" by (auto dest: split_empty_second)
  obtain rest where p: "p = ''/v1/assets/'' @ rest" using assms(2) by (auto simp: has_prefix_iff)
  have t: "trim_prefix p ''/v1/assets/'' = rest" unfolding p by (rule trim_prefix_append)
  obtain x y where "rest = x @ trim_slashes rest @ y" using trim_slashes_factor by blast
  then have "p = (''/v1/assets/'' @ x) @ trim_slashes rest @ y" using p by simp
  with contains_factor [of "trim_slashes rest" "''//''" "''/v1/assets/'' @ x" y] c t mux_clean_slashes [OF assms(1)]
  show False by simp
qed


section \<open>Which responses show an asset or a recipe\<close>

definition discloses :: "response \<Rightarrow> bool" where
  "discloses r = (case rp_body r of RecipeText _ _ \<Rightarrow> True | AssetDetail _ _ \<Rightarrow> True | _ \<Rightarrow> False)"

lemma discloses_simps [simp]:
  "\<not> discloses (Reply n (ErrBody c d))" "\<not> discloses (Reply n Health)" "\<not> discloses (Reply n (AssetBody a))"
  "\<not> discloses (Reply n (VersionList vs))" "\<not> discloses (Reply n (Listing as p l t))" "\<not> discloses (Reply n (StatusBody s m))"
  "\<not> discloses (Reply n NoBody)" "\<not> discloses (Reply n (Redirect u))"
  "discloses (Reply n (RecipeText b s))" "discloses (Reply n (AssetDetail x vs))"
  by (simp_all add: discloses_def)

lemma verifyWrite_plain: "verifyWrite env cfg now rq body target st = (s, Some r, st') \<Longrightarrow> \<not> discloses r"
  by (auto simp: verifyWrite_def Let_def split: if_splits option.splits sum.splits prod.splits)

lemma written_plain: "verifyWrite env cfg now rq body target st = (s, r, st') \<Longrightarrow> \<not> discloses (written r)"
  by (cases r) (auto simp: written_def dest: verifyWrite_plain)

lemma verifyWriteAuthor_plain: "verifyWriteAuthor env cfg now rq body author st = (Some r, st') \<Longrightarrow> \<not> discloses r"
  by (auto simp: verifyWriteAuthor_def Let_def split: prod.splits if_splits dest: written_plain)

lemma privateReadOK_plain: "privateReadOK env cfg now rq author st = (Some r, st') \<Longrightarrow> \<not> discloses r"
  by (auto simp: privateReadOK_def Let_def split: prod.splits if_splits)

lemma push_input_of_plain: "push_input_of env body ty author nm = Inl r \<Longrightarrow> \<not> discloses r"
  by (auto simp: push_input_of_def split: option.splits if_splits sum.splits)

lemma writeMutation_plain: "writeMutation ty author nm res st = (r, st') \<Longrightarrow> \<not> discloses r"
  by (auto simp: writeMutation_def Let_def split: sum.splits store_error.splits bool.splits option.splits prod.splits)

lemma handlePush_plain: "handlePush env cfg now rq ty author nm st = (r, st') \<Longrightarrow> \<not> discloses r"
  by (auto simp: handlePush_def Let_def split: prod.splits option.splits sum.splits if_splits
      dest: verifyWriteAuthor_plain push_input_of_plain)

lemma handleVisibility_plain: "handleVisibility env cfg now rq ty author nm st = (r, st') \<Longrightarrow> \<not> discloses r"
  by (auto simp: handleVisibility_def Let_def split: prod.splits option.splits if_splits
      dest: verifyWriteAuthor_plain writeMutation_plain)

lemma handlePrice_plain: "handlePrice env cfg now rq ty author nm st = (r, st') \<Longrightarrow> \<not> discloses r"
  by (auto simp: handlePrice_def Let_def split: prod.splits option.splits sum.splits
      dest: verifyWriteAuthor_plain writeMutation_plain)

lemma handleMeta_plain: "handleMeta env cfg now rq ty author nm st = (r, st') \<Longrightarrow> \<not> discloses r"
  by (auto simp: handleMeta_def Let_def split: prod.splits option.splits if_splits
      dest: verifyWriteAuthor_plain writeMutation_plain)

lemma handleUnpush_plain: "handleUnpush env cfg now rq ty author nm st = (r, st') \<Longrightarrow> \<not> discloses r"
  by (auto simp: handleUnpush_def Let_def split: prod.splits option.splits if_splits
      dest: verifyWriteAuthor_plain)

lemma handleMine_plain: "handleMine env cfg now rq st = (r, st') \<Longrightarrow> \<not> discloses r"
  by (auto simp: handleMine_def Let_def split: prod.splits if_splits dest: written_plain)

lemma handleVersions_plain: "handleVersions ty author nm st = (r, st') \<Longrightarrow> \<not> discloses r"
  by (auto simp: handleVersions_def Let_def split: if_splits)

lemma handleAssetsList_plain: "handleAssetsList rq st = (r, st') \<Longrightarrow> \<not> discloses r"
  by (auto simp: handleAssetsList_def Let_def split: if_splits prod.splits)

lemmas plain_handlers = handlePush_plain handleVisibility_plain handlePrice_plain handleMeta_plain handleUnpush_plain
  handleMine_plain handleVersions_plain handleAssetsList_plain

lemma handleAsset_discloses:
  "handleAsset env cfg now rq ty author nm sub st = (r, st') \<Longrightarrow> discloses r \<Longrightarrow>
     handleGetMeta env cfg now rq ty author nm st = (r, st') \<or> handleInstall env cfg now rq ty author nm st = (r, st')"
  by (auto simp: handleAsset_def Let_def split: if_splits dest: plain_handlers)

lemma serve_discloses:
  assumes "corsMiddleware env cfg now rq st = (r, st')" and "discloses r"
  shows "\<exists>ty author nm. author \<noteq> [] \<and>
    (handleGetMeta env cfg now rq ty author nm st = (r, st') \<or> handleInstall env cfg now rq ty author nm st = (r, st'))"
proof -
  have con: "rq_method rq = ''CONNECT'' \<Longrightarrow> handleAsset env cfg now rq ty author nm sub st = (r', st'') \<Longrightarrow> \<not> discloses r'" for ty author nm sub r' st''
    by (auto simp: handleAsset_def Let_def split: if_splits)
  from assms have p: "handleAssetsPath env cfg now rq st = (r, st')" "has_prefix (rq_path rq) ''/v1/assets/''"
      "rq_method rq = ''CONNECT'' \<or> mux_clean (rq_path rq) = rq_path rq"
    by (auto simp: corsMiddleware_def serveMux_def Let_def split: if_splits dest: plain_handlers)
  let ?segs = "split (trim_slashes (trim_prefix (rq_path rq) ''/v1/assets/'')) CHR ''/''"
  from p(1) assms(2) obtain ty author nm subs where s: "?segs = ty # author # nm # subs"
      "handleAsset env cfg now rq ty (to_lower author) nm (case subs of [] \<Rightarrow> [] | s # _ \<Rightarrow> s) st = (r, st')"
    by (auto simp: handleAssetsPath_def Let_def split: if_splits list.splits dest: plain_handlers)
  with con assms(2) p(3) have "mux_clean (rq_path rq) = rq_path rq" by blast
  from asset_path_author [OF this p(2) s(1)] have "to_lower author \<noteq> []" by simp
  with handleAsset_discloses [OF s(2) assms(2)] show ?thesis by blast
qed


lemma handleGetMeta_discloses:
  "handleGetMeta env cfg now rq ty author nm st = (r, st') \<Longrightarrow> discloses r \<Longrightarrow>
     \<exists>x vs. GetAsset (ms_db st) ty author nm (query rq ''version'') = Some (x, vs) \<and> r = Reply 200 (AssetDetail x vs)
       \<and> (a_visibility x = ''private'' \<longrightarrow> (\<exists>st1. privateReadOK env cfg now rq author st = (None, st1)))"
  by (auto simp: handleGetMeta_def split: option.splits prod.splits if_splits dest: privateReadOK_plain)

lemma handleInstall_discloses:
  "handleInstall env cfg now rq ty author nm st = (r, st') \<Longrightarrow> discloses r \<Longrightarrow>
     \<exists>body sha vis. GetRecipe (ms_db st) ty author nm (query rq ''version'') = Some (body, sha, vis) \<and> r = Reply 200 (RecipeText body sha)
       \<and> (vis = ''private'' \<longrightarrow> (\<exists>st1. privateReadOK env cfg now rq author st = (None, st1)))"
  by (auto simp: handleInstall_def Let_def split: option.splits prod.splits if_splits dest: privateReadOK_plain)


section \<open>Integrity\<close>



section \<open>Private assets\<close>




section \<open>Replays\<close>

text \<open>Configurations and times for which the 64-bit arithmetic of the window does not wrap around.\<close>

definition sane_time :: "market_config \<Rightarrow> int \<Rightarrow> bool" where
  "sane_time cfg now \<longleftrightarrow> 0 < mc_replay_win cfg \<and> mc_replay_win cfg \<le> 2 ^ 40 \<and> 0 \<le> now \<and> now \<le> 2 ^ 60"

lemma sane_wrap:
  assumes "sane_time cfg now" and "now - mc_replay_win cfg \<le> ts" and "ts \<le> now + mc_replay_win cfg"
  shows "wrap64 (now - mc_replay_win cfg) = now - mc_replay_win cfg" "wrap64 (now + mc_replay_win cfg) = now + mc_replay_win cfg"
    "wrap64 (ts + mc_replay_win cfg) = ts + mc_replay_win cfg"
  by (rule wrap64_id; use assms in \<open>simp add: sane_time_def int64_ok_def\<close>)+

lemma useOnce_keeps:
  assumes "wf_map m" and "mget m n = Some e" and "now \<le> e"
  shows "mget (snd (useOnce n' e' now m)) n = Some e"
  using assms by (auto simp: useOnce_def Let_def mget_put mget_drop)

lemma step_keeps_nonce:
  assumes "wf_map (ms_nonces st)" and "mget (ms_nonces st) n = Some e" and "fst ev \<le> e"
  shows "mget (ms_nonces (market_step env cfg st ev)) n = Some e \<and> wf_map (ms_nonces (market_step env cfg st ev))"
proof -
  have "nonce_step (fst ev) st (market_step env cfg st ev)"
    unfolding market_step_def by (rule serve_nonces) (rule surjective_pairing)
  with assms show ?thesis by (auto simp: nonce_step_def useOnce_keeps useOnce_wf)
qed

lemma run_keeps_nonce:
  "wf_map (ms_nonces st) \<Longrightarrow> mget (ms_nonces st) n = Some e \<Longrightarrow> list_all (\<lambda>ev. fst ev \<le> e) evs \<Longrightarrow>
     mget (ms_nonces (foldl (market_step env cfg) st evs)) n = Some e \<and> wf_map (ms_nonces (foldl (market_step env cfg) st evs))"
  by (induction evs arbitrary: st) (auto simp: step_keeps_nonce)

text \<open>An accepted signature leaves its nonce in the cache until the end of the window of its timestamp.\<close>

lemma verifyWrite_records:
  assumes "verifyWrite env cfg now rq body target st = (s, r, st')" and "s \<noteq> []" and "\<not> mc_dev_skip_auth cfg"
    and "sane_time cfg now"
  shows "\<exists>ts. parse_int (header rq ''X-Isann-Timestamp'') = Some ts
    \<and> mget (ms_nonces st') (header rq ''X-Isann-Nonce'') = Some (ts + mc_replay_win cfg)"
proof -
  have w: "wrap64 (now - mc_replay_win cfg) = now - mc_replay_win cfg" "wrap64 (now + mc_replay_win cfg) = now + mc_replay_win cfg"
    using sane_wrap [OF assms(4), of now] assms(4) by (auto simp: sane_time_def)
  from assms(1-3) obtain ts where ts: "parse_int (header rq ''X-Isann-Timestamp'') = Some ts"
      "now - mc_replay_win cfg \<le> ts" "ts \<le> now + mc_replay_win cfg"
      "ms_nonces st' = mput (header rq ''X-Isann-Nonce'') (wrap64 (ts + mc_replay_win cfg)) (mdrop (\<lambda>k e. e < now) (ms_nonces st))"
    by (auto simp: verifyWrite_def useOnce_def w Let_def split: if_splits option.splits sum.splits prod.splits)
  then show ?thesis using sane_wrap(3) [OF assms(4) ts(2,3)] by (simp add: mget_put)
qed

text \<open>While a nonce is in the cache, nothing that carries it is accepted.\<close>

lemma verifyWrite_rejects:
  assumes "mget (ms_nonces st) (header rq ''X-Isann-Nonce'') = Some e" and "now \<le> e" and "wf_map (ms_nonces st)"
    and "\<not> mc_dev_skip_auth cfg"
  shows "fst (verifyWrite env cfg now rq body target st) = []"
  using assms by (auto simp: verifyWrite_def useOnce_def mget_drop Let_def split: option.splits sum.splits)

text \<open>C4. A signed request is accepted at most once. After a request passed the signature check, and after any further
  requests in the order of the clock, no request with the same nonce and timestamp passes the check again,
  whatever else it contains: inside the window its nonce is still remembered, and later its timestamp is out of the window.\<close>

theorem signed_request_accepted_once:
  assumes "st = foldl (market_step env cfg) newServer pre" and "\<not> mc_dev_skip_auth cfg"
    and "verifyWrite env cfg now rq body target st = (s, r, st1)" and "s \<noteq> []"
    and "st2 = foldl (market_step env cfg) (st1\<lparr>ms_db := db\<rparr>) evs"
    and "list_all (\<lambda>ev. fst ev \<le> now') evs" and "sane_time cfg now" and "sane_time cfg now'"
    and "header rq' ''X-Isann-Nonce'' = header rq ''X-Isann-Nonce''"
    and "header rq' ''X-Isann-Timestamp'' = header rq ''X-Isann-Timestamp''"
  shows "fst (verifyWrite env cfg now' rq' body' target' st2) = []"
proof -
  from verifyWrite_records [OF assms(3,4,2,7)] obtain ts where
    ts: "parse_int (header rq ''X-Isann-Timestamp'') = Some ts"
        "mget (ms_nonces st1) (header rq ''X-Isann-Nonce'') = Some (ts + mc_replay_win cfg)" by blast
  have "wf_map (ms_nonces st)" using market.inv_run [of env cfg pre] assms(1) by (simp add: market_inv_def)
  with verifyWrite_nonces [OF assms(3)] have wf: "wf_map (ms_nonces (st1\<lparr>ms_db := db\<rparr>))" by (auto simp: useOnce_wf)
  show ?thesis
  proof (cases "now' \<le> ts + mc_replay_win cfg")
    case True
    then have "list_all (\<lambda>ev. fst ev \<le> ts + mc_replay_win cfg) evs" using assms(6) by (auto simp: list_all_iff)
    with run_keeps_nonce [OF wf, of "header rq ''X-Isann-Nonce''" "ts + mc_replay_win cfg" evs env cfg] ts(2)
    have "mget (ms_nonces st2) (header rq' ''X-Isann-Nonce'') = Some (ts + mc_replay_win cfg)" "wf_map (ms_nonces st2)"
      using assms(5,9) by simp_all
    with True assms(2) show ?thesis by (auto intro: verifyWrite_rejects)
  next
    case False
    then have "ts < wrap64 (now' - mc_replay_win cfg)"
      using sane_wrap(1) [OF assms(8), of now'] assms(8) by (simp add: sane_time_def)
    with ts(1) assms(2,10) show ?thesis by (auto simp: verifyWrite_def)
  qed
qed


section \<open>What the server gives away\<close>

lemma join_plain_ends:
  "list_all plain_part cs \<Longrightarrow> cs \<noteq> [] \<Longrightarrow> join ''/'' cs \<noteq> [] \<and> hd (join ''/'' cs) \<noteq> CHR ''/'' \<and> last (join ''/'' cs) \<noteq> CHR ''/''"
proof (induction "''/''" cs rule: join.induct)
  case (2 c)
  then show ?case by (auto simp: plain_part_def dest: last_in_set hd_in_set)
next
  case (3 c d ds)
  then show ?case by (auto simp: plain_part_def dest: hd_in_set)
qed simp

lemma mux_clean_normal:
  assumes "list_all plain_part cs" and "cs \<noteq> []"
  shows "mux_clean (CHR ''/'' # join ''/'' cs) = CHR ''/'' # join ''/'' cs"
proof -
  have "\<not> has_suffix (CHR ''/'' # join ''/'' cs) ''/''"
    using join_plain_ends [OF assms] by (cases "join ''/'' cs" rule: rev_cases) (auto simp: has_suffix_def has_prefix_def)
  then show ?thesis
    unfolding mux_clean_def Let_def using clean_abs_normal [OF assms(1)] by (simp add: has_prefix_def)
qed

text \<open>A request for an asset reaches its handler with the parts of the path.\<close>

lemma route_asset:
  assumes "list_all plain_part (ty # author # nm # subs)" and "length subs \<le> 1" and "ty \<in> set ValidTypes"
    and "rq_method rq \<noteq> ''OPTIONS''" and "rq_path rq = ''/v1/assets/'' @ join ''/'' (ty # author # nm # subs)"
  shows "corsMiddleware env cfg now rq st =
    handleAsset env cfg now rq ty (to_lower author) nm (case subs of [] \<Rightarrow> [] | s # _ \<Rightarrow> s) st"
proof -
  let ?cs = "ty # author # nm # subs"
  have p: "''/v1/assets/'' @ join ''/'' ?cs = CHR ''/'' # join ''/'' (''v1'' # ''assets'' # ?cs)" by simp
  have m: "mux_clean (''/v1/assets/'' @ join ''/'' ?cs) = ''/v1/assets/'' @ join ''/'' ?cs"
    unfolding p using assms(1) by (intro mux_clean_normal) (simp_all add: plain_part_def)
  note e = join_plain_ends [OF assms(1)]
  have t: "trim_slashes (join ''/'' ?cs) = join ''/'' ?cs"
    using e by (simp add: trim_slashes_def trim_left_id trim_right_id del: join.simps)
  have s: "split (join ''/'' ?cs) CHR ''/'' = ?cs"
    using assms(1) by (intro split_join) (auto simp: plain_part_def list_all_iff)
  have x: "trim_prefix (''/v1/assets/'' @ join ''/'' ?cs) ''/v1/assets/'' = join ''/'' ?cs" by (rule trim_prefix_append)
  have "handleAssetsPath env cfg now rq st =
      handleAsset env cfg now rq ty (to_lower author) nm (case subs of [] \<Rightarrow> [] | s # _ \<Rightarrow> s) st"
    unfolding handleAssetsPath_def assms(5) x t s Let_def using e assms(2,3) by (simp del: join.simps)
  moreover have "corsMiddleware env cfg now rq st = handleAssetsPath env cfg now rq st"
    unfolding corsMiddleware_def serveMux_def Let_def assms(5) m using assms(4) by (simp add: has_prefix_def del: join.simps)
  ultimately show ?thesis by simp
qed

text \<open>The version list of an asset is served to everybody. Whatever its visibility, a GET of \<^verbatim>\<open>versions\<close>
  without any signature returns every version with its hash, while the other reads of a private asset hide that it exists.\<close>

theorem versions_of_private_assets_public:
  assumes "list_all plain_part [ty, author, nm]" and "ty \<in> set ValidTypes" and "rq_method rq = ''GET''"
    and "rq_path rq = ''/v1/assets/'' @ join ''/'' [ty, author, nm, ''versions'']"
    and "find_asset (ms_db st) ty author nm = Some a" and "db_inv (ms_db st)"
  shows "\<exists>vs. corsMiddleware env cfg now rq st = (Reply 200 (VersionList vs), st) \<and> as_latest a \<in> v_version ` set vs"
proof -
  let ?vs = "ListVersions (ms_db st) ty (to_lower author) nm"
  have f: "find_asset (ms_db st) ty (to_lower author) nm = Some a" using assms(5) by (simp add: find_asset_def)
  have "a \<in> set (db_assets (ms_db st))" using assms(5) unfolding find_asset_def by (auto dest: find_SomeD)
  then have l: "as_latest a \<in> vr_version ` set (versions_of (ms_db st) (as_id a))"
    using assms(6) by (auto simp: db_inv_def db_keys_def db_latest_def)
  have "set ?vs = (\<lambda>v. \<lparr>v_version = vr_version v, v_sha256 = vr_sha256 v, v_created = vr_created v\<rparr>) ` set (versions_of (ms_db st) (as_id a))"
    unfolding ListVersions_def using f sort_desc_mset by (simp flip: set_mset_mset)
  with l have v: "as_latest a \<in> v_version ` set ?vs" by (auto simp: image_image)
  then have "?vs \<noteq> []" by auto
  then have "handleVersions ty (to_lower author) nm st = (Reply 200 (VersionList ?vs), st)"
    by (simp add: handleVersions_def)
  moreover have "list_all plain_part [ty, author, nm, ''versions'']" using assms(1) by (simp add: plain_part_def)
  ultimately show ?thesis
    using route_asset [of ty author nm "[''versions'']" rq env cfg now st] assms(2-4) v
    by (simp add: handleAsset_def del: join.simps)
qed


text \<open>A recipe that includes one file.\<close>

definition include_stmt :: "string \<Rightarrow> statement" where
  "include_stmt f = \<lparr>stm_line = 2, stm_argv = [''include'', f], stm_capture = [], stm_src = [], stm_control = Normal, stm_cond = []\<rparr>"

definition include_source :: "string \<Rightarrow> string" where
  "include_source f = ''#pragma ISANN 0.1'' @ [CHR 0x0A] @ print_stmts [include_stmt f]"

lemma crlf_none: "CHR 0x0D \<notin> set s \<Longrightarrow> crlf_to_lf s = s"
  by (induction s rule: crlf_to_lf.induct) auto

lemma include_source_lines:
  assumes "CHR 0x0D \<notin> set f"
  shows "source_lines (include_source f) = ''#pragma ISANN 0.1'' # split (print_stmts [include_stmt f]) CHR 0x0A"
proof -
  have "CHR 0x0D \<notin> set (print_stmts [include_stmt f])"
    using assms by (auto simp: print_stmts_def print_stmt_def include_stmt_def print_toks_def quote_tok_def quote_char_def Let_def)
  then have "crlf_to_lf (include_source f) = include_source f" by (intro crlf_none) (simp add: include_source_def)
  then show ?thesis
    unfolding source_lines_def using split_append [of "CHR 0x0A" "''#pragma ISANN 0.1''" "print_stmts [include_stmt f]"]
    by (simp add: include_source_def)
qed

lemma trim_space_head:
  assumes "\<not> is_space c"
  shows "\<exists>u. trim_space (c # s) = c # u"
proof (cases "\<exists>x\<in>set s. \<not> is_space x")
  case True
  then obtain x where "x \<in> set (rev s)" "\<not> is_space x" by auto
  then have "dropWhile is_space (rev s @ [c]) = dropWhile is_space (rev s) @ [c]" by (rule dropWhile_append1)
  with assms show ?thesis by (simp add: trim_space_def trim_left_def trim_right_def)
next
  case False
  then have "dropWhile is_space (rev s @ [c]) = dropWhile is_space [c]" by (intro dropWhile_append2) auto
  with assms show ?thesis by (simp add: trim_space_def trim_left_def trim_right_def)
qed

lemma include_requires:
  assumes "CHR 0x0D \<notin> set f"
  shows "parseRequires penv path (source_lines (include_source f)) = Inr (1, None)"
proof -
  obtain l ls where l: "split (print_stmts [include_stmt f]) CHR 0x0A = l # ls" by (metis split_not_Nil list.exhaust)
  obtain rest where p: "print_stmts [include_stmt f] = CHR 0x22 # rest"
    by (simp add: print_stmts_def print_stmt_def include_stmt_def print_toks_def quote_tok_def)
  obtain l' where "l = CHR 0x22 # l'"
    using l unfolding p by (auto simp: split_def split: list.splits)
  moreover have "\<not> is_space CHR 0x22" by (simp add: is_space_def)
  ultimately obtain u where u: "trim_space l = CHR 0x22 # u" using trim_space_head by metis
  have t: "trim_space ''#pragma ISANN 0.1'' = ''#pragma ISANN 0.1''" by code_simp
  show ?thesis unfolding include_source_lines [OF assms] parseRequires_def l
    by (simp add: t u has_prefix_def)
qed

lemma include_pragma:
  assumes "CHR 0x0D \<notin> set f"
  shows "parsePragma path (source_lines (include_source f)) = Inr ''0.1''"
proof -
  have "parsePragma path (''#pragma ISANN 0.1'' # rest) = Inr ''0.1''" for rest
  proof -
    have 1: "trim_space ''#pragma ISANN 0.1'' = ''#pragma ISANN 0.1''" "trim_prefix ''#pragma ISANN 0.1'' ''#pragma'' = '' ISANN 0.1''"
      "trim_space '' ISANN 0.1'' = ''ISANN 0.1''" "index_str ''ISANN 0.1'' '' #'' = None"
      "Go_Prelude.fields ''ISANN 0.1'' = [''ISANN'', ''0.1'']" "has_prefix ''#pragma ISANN 0.1'' ''#pragma''" "looksLikeSemver ''0.1''"
      by code_simp+
    show ?thesis unfolding parsePragma_def list.case Let_def 1(1-5) option.case using 1(6,7) by simp
  qed
  then show ?thesis unfolding include_source_lines [OF assms] by blast
qed

text \<open>What including a file that is not a recipe says: the first line of the file.\<close>

lemma include_reveals:
  assumes "CHR 0x0D \<notin> set f" and "is_abs f" and "abs_path (pe_cwd penv) f = f" and "abs_path (pe_cwd penv) path \<noteq> f"
    and "mget (pe_files penv) f = Some data" and "source_lines data = l0 # ls"
    and "\<not> has_prefix (trim_space l0) ''#pragma''"
  shows "Parse penv path (include_source f) = Inl (ParseError f 1 (FirstLine l0))"
proof -
  let ?lns = "source_lines (include_source f)"
  have "wf_stmt (include_stmt f)" "validateControlFlow [] [include_stmt f] = None"
    by (simp_all add: wf_stmt_def include_stmt_def validate_iff)
  with parse_printed [of "[include_stmt f]" "[]" 1 ?lns path] obtain sts where
    sts: "parseStatements path ?lns 1 = Inr sts" "map stm_view sts = [stm_view (include_stmt f)]"
    by (auto simp: include_source_lines [OF assms(1)])
  then obtain st where st: "sts = [st]" "stm_argv st = [''include'', f]" by (auto simp: stm_view_def include_stmt_def)
  have "parseFile penv f data = Inl (ParseError f 1 (FirstLine l0))"
    using assms(6,7) by (simp add: parseFile_def parsePragma_def Let_def)
  then have "open_include penv base [abs_path (pe_cwd penv) path] st = Inl (ParseError f 1 (FirstLine l0))" for base
    using st(2) assms by (simp add: open_include_def include_target_def)
  then have r: "resolveIncludes penv [st] base [abs_path (pe_cwd penv) path] = Inl (ParseError f 1 (FirstLine l0))" for base
    using st(2) by (simp add: is_include_def)
  obtain rc0 where "parseFile penv path (include_source f) = Inr rc0" "rc_statements rc0 = [st]"
    using sts(1) by (simp add: parseFile_def include_pragma [OF assms(1)] include_requires [OF assms(1)] st(1))
  then show ?thesis unfolding Parse_def Let_def by (simp add: r del: resolveIncludes.simps)
qed

text \<open>C40. A push makes the server read files for its author. Whoever pushes, under an address of their own, a
  recipe that includes an absolute path gets the first line of that file of the server in the error response, whenever the file
  can be read and is not itself a recipe: the parser resolves includes on the server, and its error quotes the line.\<close>

theorem push_reveals_server_files:
  assumes "verifyWriteAuthor env cfg now rq (take (4 * 1024 * 1024) (rq_body rq)) author st = (None, st')"
    and "me_decode_push env (take (4 * 1024 * 1024) (rq_body rq)) = Some (include_source f)"
    and "CHR 0x0D \<notin> set f" and "is_abs f" and "abs_path (pe_cwd (me_parse env)) f = f"
    and "abs_path (pe_cwd (me_parse env)) ''install.ian'' \<noteq> f"
    and "mget (pe_files (me_parse env)) f = Some data" and "source_lines data = l0 # ls"
    and "\<not> has_prefix (trim_space l0) ''#pragma''"
  shows "handlePush env cfg now rq ty author nm st =
    (Reply 400 (ErrBody ''bad_request'' (MetaDetail (RecipeFault (ParseError f 1 (FirstLine l0))))), st')"
proof -
  have "include_source f \<noteq> []" by (simp add: include_source_def)
  then show ?thesis
    using assms(1,2) include_reveals [OF assms(3-9)] by (simp add: handlePush_def push_input_of_def ParseRecipeMeta_def)
qed



section \<open>Concrete runs\<close>

definition toy_market :: "(char, char) market_env" where
  "toy_market = \<lparr>me_eth = toy_eth, me_sha256 = (\<lambda>s. s),
     me_parse = \<lparr>pe_cwd = ''/srv'', pe_files = [(''/etc/h'', ''root:x'')], pe_parse_float = (\<lambda>s. None)\<rparr>,
     me_decode_push = (\<lambda>b. Some b), me_decode_visibility = (\<lambda>b. None), me_decode_price = (\<lambda>b. None), me_decode_meta = (\<lambda>b. None)\<rparr>"

definition toy_config :: "bool \<Rightarrow> market_config" where
  "toy_config dev = \<lparr>mc_addr = [], mc_tls = False, mc_driver = [], mc_dsn = [], mc_replay_win = 300, mc_dev_skip_auth = dev\<rparr>"

definition toy_recipe_text :: string where
  "toy_recipe_text = ''#pragma ISANN 0.1'' @ [CHR 0x0A] @ ''# name: x'' @ [CHR 0x0A] @ ''# version: 1.0''"

definition toy_author :: string where
  "toy_author = ''0x'' @ hex_encode (replicate 20 CHR ''k'')"

definition toy_request :: "string \<Rightarrow> string list \<Rightarrow> string \<Rightarrow> request" where
  "toy_request m subs body = \<lparr>rq_method = m, rq_path = ''/v1/assets/'' @ join ''/'' (''skill'' # toy_author # ''x'' # subs),
     rq_uri = ''/u'', rq_query = [],
     rq_header = [(''Authorization'', ''ISANN '' @ hex_encode (replicate 65 CHR ''k'')), (''X-Isann-Nonce'', ''n''), (''X-Isann-Timestamp'', ''1000'')],
     rq_body = body\<rparr>"

lemma toy_author_facts:
  "to_lower toy_author = toy_author" "plain_part toy_author" "toy_author \<noteq> []"
  by code_simp+

lemma toy_recover: "RecoverAddress toy_eth msg (hex_encode (replicate 65 CHR ''k'')) = Inr toy_author"
proof -
  have "lower_v (replicate 65 CHR ''k'') = CHR ''k'' # replicate 63 CHR ''k'' @ ''P''" by code_simp
  then show ?thesis unfolding RecoverAddress_def trim_0x_hex hex_decode_encode option.case
    by (simp add: toy_eth_def toy_author_def)
qed

lemma toy_headers:
  "header (toy_request m subs body) ''Authorization'' = ''ISANN '' @ hex_encode (replicate 65 CHR ''k'')"
  "header (toy_request m subs body) ''X-Isann-Nonce'' = ''n''"
  "header (toy_request m subs body) ''X-Isann-Timestamp'' = ''1000''"
  "request_sig (toy_request m subs body) = hex_encode (replicate 65 CHR ''k'')"
proof -
  show a: "header (toy_request m subs body) ''Authorization'' = ''ISANN '' @ hex_encode (replicate 65 CHR ''k'')"
    by (simp add: toy_request_def first_value_def)
  have "trim_space (hex_encode (replicate 65 CHR ''k'')) = hex_encode (replicate 65 CHR ''k'')" by code_simp
  then show "request_sig (toy_request m subs body) = hex_encode (replicate 65 CHR ''k'')"
    unfolding request_sig_def a trim_prefix_append .
qed (simp_all add: toy_request_def first_value_def)

lemma toy_verify:
  assumes "ms_nonces st = []"
  shows "verifyWrite toy_market (toy_config False) 1000 (toy_request m subs body) b toy_author st
    = (toy_author, None, st\<lparr>ms_nonces := [(''n'', 1300)]\<rparr>)"
proof -
  have "parse_int ''1000'' = Some 1000" by (simp add: parse_int_def digit_of_def int64_ok_def)
  moreover have "request_signer toy_market (toy_request m subs body) b toy_author = Inr toy_author"
    unfolding request_signer_def toy_headers by (simp add: toy_market_def toy_recover)
  moreover have "has_prefix (''ISANN '' @ x) ''ISANN ''" for x by (rule has_prefix_append)
  ultimately show ?thesis
    unfolding verifyWrite_def toy_headers using assms toy_author_facts(1)
    by (simp add: toy_config_def useOnce_def mdrop_def wrap64_id int64_ok_def)
qed

theorem signed_request_accepted_once_witness:
  "fst (verifyWrite toy_market (toy_config False) 1000 (toy_request ''DELETE'' [] []) [] toy_author newServer) = toy_author
   \<and> fst (verifyWrite toy_market (toy_config False) 1100 (toy_request ''DELETE'' [] []) [] toy_author
        (foldl (market_step toy_market (toy_config False)) (newServer\<lparr>ms_nonces := [(''n'', 1300)]\<rparr>)
           [(1050, toy_request ''GET'' [''versions''] [])])) = []"
proof -
  have v: "verifyWrite toy_market (toy_config False) 1000 (toy_request ''DELETE'' [] []) [] toy_author newServer
      = (toy_author, None, newServer\<lparr>ms_nonces := [(''n'', 1300)]\<rparr>)"
    by (rule toy_verify) (simp add: newServer_def)
  have "newServer = foldl (market_step toy_market (toy_config False)) newServer []" by simp
  from signed_request_accepted_once [OF this _ v, where db = migrate
      and evs = "[(1050, toy_request ''GET'' [''versions''] [])]" and now' = 1100 and rq' = "toy_request ''DELETE'' [] []"]
  have "fst (verifyWrite toy_market (toy_config False) 1100 (toy_request ''DELETE'' [] []) [] toy_author
        (foldl (market_step toy_market (toy_config False)) (newServer\<lparr>ms_nonces := [(''n'', 1300)], ms_db := migrate\<rparr>)
           [(1050, toy_request ''GET'' [''versions''] [])])) = []"
    using toy_author_facts(3) by (simp add: toy_config_def sane_time_def)
  moreover have "newServer\<lparr>ms_nonces := [(''n'', 1300)], ms_db := migrate\<rparr> = newServer\<lparr>ms_nonces := [(''n'', 1300)]\<rparr>"
    by (simp add: newServer_def)
  ultimately show ?thesis using v by simp
qed

theorem push_reveals_server_files_witness:
  "handlePush toy_market (toy_config False) 1000 (toy_request ''POST'' [] (include_source ''/etc/h'')) ''skill'' toy_author ''x'' newServer =
    (Reply 400 (ErrBody ''bad_request'' (MetaDetail (RecipeFault (ParseError ''/etc/h'' 1 (FirstLine ''root:x''))))),
     newServer\<lparr>ms_nonces := [(''n'', 1300)]\<rparr>)"
proof -
  let ?rq = "toy_request ''POST'' [] (include_source ''/etc/h'')"
  have b: "take (4 * 1024 * 1024) (rq_body ?rq) = include_source ''/etc/h''"
  proof -
    have "length (include_source ''/etc/h'') \<le> 100" by code_simp
    then show ?thesis by (simp add: toy_request_def)
  qed
  have "verifyWrite toy_market (toy_config False) 1000 ?rq (include_source ''/etc/h'') toy_author newServer
      = (toy_author, None, newServer\<lparr>ms_nonces := [(''n'', 1300)]\<rparr>)"
    by (rule toy_verify) (simp add: newServer_def)
  then have v: "verifyWriteAuthor toy_market (toy_config False) 1000 ?rq (take (4 * 1024 * 1024) (rq_body ?rq)) toy_author newServer
      = (None, newServer\<lparr>ms_nonces := [(''n'', 1300)]\<rparr>)"
    unfolding b using toy_author_facts(3) by (simp add: verifyWriteAuthor_def)
  have "is_abs ''/etc/h''" "abs_path ''/srv'' ''/etc/h'' = ''/etc/h''" "abs_path ''/srv'' ''install.ian'' \<noteq> ''/etc/h''"
    "source_lines ''root:x'' = ''root:x'' # []" "\<not> has_prefix (trim_space ''root:x'') ''#pragma''" by code_simp+
  then show ?thesis
    using push_reveals_server_files [OF v, of "''/etc/h''" "''root:x''" "''root:x''" "[]"] b by (simp add: toy_market_def)
qed


text \<open>The server after a push of the toy recipe.\<close>

definition toy_push_input :: push_input where
  "toy_push_input = \<lparr>pi_type = ''skill'', pi_author = toy_author,
     pi_meta = \<lparr>am_name = ''x'', am_author = [], am_version = ''1.0'', am_summary = [], am_license = [], am_min_isann = ''0.1'', am_tags = []\<rparr>,
     pi_body = toy_recipe_text, pi_sha256 = hex_encode toy_recipe_text\<rparr>"

lemma toy_push_input_of: "push_input_of toy_market toy_recipe_text ''skill'' toy_author ''x'' = Inr toy_push_input"
  by code_simp

lemma toy_put: "snd (PutAsset now toy_push_input migrate) =
  migrate\<lparr>db_authors := [\<lparr>au_id = 1, au_eoa = toy_author, au_handle = None, au_created = now\<rparr>],
    db_assets := [\<lparr>as_id = 1, as_type = ''skill'', as_author_id = 1, as_name = ''x'', as_latest = ''1.0'', as_summary = [], as_license = [],
       as_min_isann = ''0.1'', as_tags = [], as_visibility = ''private'', as_price = ''0'', as_token = None, as_downloads = 0, as_rating = None,
       as_created = now, as_updated = now\<rparr>],
    db_versions := [\<lparr>vr_asset_id = 1, vr_version = ''1.0'', vr_sha256 = hex_encode toy_recipe_text, vr_body = toy_recipe_text, vr_created = now\<rparr>],
    db_next_author := 2, db_next_asset := 2\<rparr>"
  using toy_author_facts(1)
  by (simp add: PutAsset_def authorID_def assetID_def new_asset_def refreshLatest_def latest_of_def update_asset_def versions_of_def
      toy_push_input_def migrate_def Let_def)

lemma toy_valid: "''skill'' \<in> set ValidTypes" "plain_part ''skill''" "plain_part ''x''" "plain_part ''install''"
  by code_simp+

lemma toy_path: "rq_path (toy_request m subs body) = ''/v1/assets/'' @ join ''/'' (''skill'' # toy_author # ''x'' # subs)"
  "rq_method (toy_request m subs body) = m" "rq_body (toy_request m subs body) = body" "query (toy_request m subs body) v = []"
  by (simp_all add: toy_request_def first_value_def)

lemma toy_pushed:
  "foldl (market_step toy_market (toy_config True)) newServer [(5, toy_request ''POST'' [] toy_recipe_text)] =
     newServer\<lparr>ms_db := snd (PutAsset 5 toy_push_input migrate)\<rparr>"
proof -
  have "length toy_recipe_text \<le> 100" by code_simp
  then have b: "take (4 * 1024 * 1024) toy_recipe_text = toy_recipe_text" by simp
  have "verifyWriteAuthor toy_market (toy_config True) 5 (toy_request ''POST'' [] toy_recipe_text) toy_recipe_text toy_author newServer = (None, newServer)"
    using toy_author_facts by (simp add: verifyWriteAuthor_def verifyWrite_def toy_config_def)
  then have "snd (handlePush toy_market (toy_config True) 5 (toy_request ''POST'' [] toy_recipe_text) ''skill'' toy_author ''x'' newServer)
      = newServer\<lparr>ms_db := snd (PutAsset 5 toy_push_input migrate)\<rparr>"
    unfolding handlePush_def Let_def toy_path b toy_push_input_of by (simp add: newServer_def toy_push_input_of split: prod.split sum.split)
  moreover have "corsMiddleware toy_market (toy_config True) 5 (toy_request ''POST'' [] toy_recipe_text) newServer =
      handlePush toy_market (toy_config True) 5 (toy_request ''POST'' [] toy_recipe_text) ''skill'' toy_author ''x'' newServer"
    using route_asset [of "''skill''" toy_author "''x''" "[]" "toy_request ''POST'' [] toy_recipe_text"] toy_valid toy_author_facts
    by (simp add: toy_path handleAsset_def Let_def)
  ultimately show ?thesis by (simp add: market_step_def)
qed

lemma toy_recipe_stored:
  "GetRecipe (snd (PutAsset now toy_push_input migrate)) ''skill'' toy_author ''x'' [] = Some (toy_recipe_text, hex_encode toy_recipe_text, ''private'')"
  using toy_author_facts(1) by (simp add: toy_put GetRecipe_def find_asset_def author_is_def versions_of_def)

lemma toy_install_route:
  "corsMiddleware env cfg now (toy_request ''GET'' [''install''] []) st =
     handleInstall env cfg now (toy_request ''GET'' [''install''] []) ''skill'' toy_author ''x'' st"
  using route_asset [of "''skill''" toy_author "''x''" "[''install'']" "toy_request ''GET'' [''install''] []" env cfg now st]
    toy_valid toy_author_facts
  by (simp add: toy_path handleAsset_def Let_def)



theorem versions_of_private_assets_public_witness:
  "\<exists>vs. corsMiddleware toy_market (toy_config False) 1000
      (toy_request ''GET'' [''versions''] []\<lparr>rq_header := []\<rparr>) (newServer\<lparr>ms_db := snd (PutAsset 5 toy_push_input migrate)\<rparr>)
     = (Reply 200 (VersionList vs), newServer\<lparr>ms_db := snd (PutAsset 5 toy_push_input migrate)\<rparr>) \<and> ''1.0'' \<in> v_version ` set vs"
proof -
  let ?st = "newServer\<lparr>ms_db := snd (PutAsset 5 toy_push_input migrate)\<rparr>" and ?rq = "toy_request ''GET'' [''versions''] []\<lparr>rq_header := []\<rparr>"
  obtain a where a: "find_asset (ms_db ?st) ''skill'' toy_author ''x'' = Some a" "as_latest a = ''1.0''"
    using toy_author_facts(1) by (simp add: toy_put find_asset_def author_is_def)
  have "db_inv (ms_db ?st)" using db_inv_put [OF db_inv_migrate, of toy_push_input 5] by (simp add: toy_push_input_def)
  moreover have "list_all plain_part [''skill'', toy_author, ''x'']" using toy_valid toy_author_facts by simp
  moreover have "rq_path ?rq = ''/v1/assets/'' @ join ''/'' [''skill'', toy_author, ''x'', ''versions'']" "rq_method ?rq = ''GET''"
    by (simp_all add: toy_request_def)
  ultimately show ?thesis
    using versions_of_private_assets_public [of "''skill''" toy_author "''x''" ?rq ?st a toy_market "toy_config False" 1000] a toy_valid(1)
    by (simp del: join.simps)
qed

end
