(* ===== verification/Go_FS.thy ===== *)
theory Go_FS
  imports Go_Path "HOL-Library.List_Lexorder" "HOL-Library.Char_ord"
begin

text \<open>
  The part of Go's \<^verbatim>\<open>os\<close> package that the logger, the configuration files and the archive
  extraction use, on a file system of directories and regular files without links. A file is
  known by its absolute path in normal form; every call resolves its argument in the working
  directory. \<open>fs_denied\<close> are the paths on which a call that changes them fails for want of
  permission.
\<close>

section \<open>The file system\<close>

datatype fs_error = NotExist | Permission | IsDirectory | NotDirectory

record fs =
  fs_cwd :: string
  fs_dirs :: "string list"
  fs_files :: "(string, string) gomap"
  fs_denied :: "string list"

definition fs_key :: "fs \<Rightarrow> string \<Rightarrow> string" where [go_defs]:
  "fs_key F p = abs_path (fs_cwd F) p"

definition is_dir_key :: "fs \<Rightarrow> string \<Rightarrow> bool" where [go_defs]:
  "is_dir_key F k \<longleftrightarrow> k = ''/'' \<or> k \<in> set (fs_dirs F)"

definition os_ReadFile :: "fs \<Rightarrow> string \<Rightarrow> fs_error + string" where [go_defs]:
  "os_ReadFile F p =
     (let k = fs_key F p in
      if is_dir_key F k then Inl IsDirectory
      else case mget (fs_files F) k of None \<Rightarrow> Inl NotExist | Some d \<Rightarrow> Inr d)"

definition os_Exists :: "fs \<Rightarrow> string \<Rightarrow> bool" where [go_defs]:
  "os_Exists F p \<longleftrightarrow> is_dir_key F (fs_key F p) \<or> mget (fs_files F) (fs_key F p) \<noteq> None"

text \<open>\<^verbatim>\<open>os.OpenFile\<close> with \<^verbatim>\<open>O_CREATE\<close>: the key of the opened file; \<open>trunc\<close> is \<^verbatim>\<open>O_TRUNC\<close>.\<close>

definition os_Create :: "bool \<Rightarrow> fs \<Rightarrow> string \<Rightarrow> fs_error + (string \<times> fs)" where [go_defs]:
  "os_Create trunc F p =
     (let k = fs_key F p in
      if is_dir_key F k then Inl IsDirectory
      else if k \<in> set (fs_denied F) then Inl Permission
      else if \<not> is_dir_key F (dir_path k) then Inl NotExist
      else Inr (k, case mget (fs_files F) k of
                     Some d \<Rightarrow> if trunc then F\<lparr>fs_files := mput k [] (fs_files F)\<rparr> else F
                   | None \<Rightarrow> F\<lparr>fs_files := mput k [] (fs_files F)\<rparr>))"

definition file_append :: "string \<Rightarrow> string \<Rightarrow> fs \<Rightarrow> fs" where [go_defs]:
  "file_append k data F =
     F\<lparr>fs_files := mput k (case mget (fs_files F) k of None \<Rightarrow> data | Some d \<Rightarrow> d @ data) (fs_files F)\<rparr>"

definition os_WriteFile :: "fs \<Rightarrow> string \<Rightarrow> string \<Rightarrow> fs_error + fs" where [go_defs]:
  "os_WriteFile F p data =
     (case os_Create True F p of Inl e \<Rightarrow> Inl e | Inr (k, F') \<Rightarrow> Inr (file_append k data F'))"

text \<open>\<^verbatim>\<open>os.Rename\<close> of a regular file: an existing target file is replaced.\<close>

definition os_Rename :: "fs \<Rightarrow> string \<Rightarrow> string \<Rightarrow> fs_error + fs" where [go_defs]:
  "os_Rename F p q =
     (let k = fs_key F p; k' = fs_key F q in
      case mget (fs_files F) k of None \<Rightarrow> Inl NotExist
      | Some d \<Rightarrow>
          if is_dir_key F k' then Inl IsDirectory
          else if k \<in> set (fs_denied F) \<or> k' \<in> set (fs_denied F) then Inl Permission
          else if \<not> is_dir_key F (dir_path k') then Inl NotExist
          else Inr (F\<lparr>fs_files := mput k' d (mdel k (fs_files F))\<rparr>))"

definition os_Remove :: "fs \<Rightarrow> string \<Rightarrow> fs_error + fs" where [go_defs]:
  "os_Remove F p =
     (let k = fs_key F p in
      if k \<in> set (fs_denied F) then Inl Permission
      else if mget (fs_files F) k = None then Inl NotExist
      else Inr (F\<lparr>fs_files := mdel k (fs_files F)\<rparr>))"

text \<open>
  \<^verbatim>\<open>os.MkdirAll\<close>: the missing directories on the way are made one after the other; the ones made
  before an error stay.
\<close>

definition ancestors :: "string \<Rightarrow> string list" where [go_defs]:
  "ancestors k = (let cs = clean_parts True k in map (\<lambda>i. CHR ''/'' # join ''/'' (take (Suc i) cs)) [0..<length cs])"

fun mkdirs :: "string list \<Rightarrow> fs \<Rightarrow> fs_error option \<times> fs" where
  "mkdirs [] F = (None, F)"
| "mkdirs (k # ks) F =
     (if is_dir_key F k then mkdirs ks F
      else if mget (fs_files F) k \<noteq> None then (Some NotDirectory, F)
      else if k \<in> set (fs_denied F) then (Some Permission, F)
      else mkdirs ks (F\<lparr>fs_dirs := fs_dirs F @ [k]\<rparr>))"

definition os_MkdirAll :: "fs \<Rightarrow> string \<Rightarrow> fs_error option \<times> fs" where [go_defs]:
  "os_MkdirAll F p = mkdirs (ancestors (fs_key F p)) F"

text \<open>\<^verbatim>\<open>filepath.Base\<close> and \<^verbatim>\<open>filepath.Ext\<close>.\<close>

definition base_path :: "string \<Rightarrow> string" where [go_defs]:
  "base_path p =
     (if p = [] then ''.''
      else let q = dropWhile (\<lambda>c. c = CHR ''/'') (rev p) in
           if q = [] then ''/'' else rev (takeWhile (\<lambda>c. c \<noteq> CHR ''/'') q))"

definition ext_path :: "string \<Rightarrow> string" where [go_defs]:
  "ext_path p =
     (let r = takeWhile (\<lambda>c. c \<noteq> CHR ''/'') (rev p) in
      case index_byte r CHR ''.'' of None \<Rightarrow> [] | Some i \<Rightarrow> rev (take (Suc i) r))"

text \<open>\<^verbatim>\<open>os.ReadDir\<close>: the entries of a directory sorted by name, each with its kind.\<close>

definition os_ReadDir :: "fs \<Rightarrow> string \<Rightarrow> fs_error + (string \<times> bool) list" where [go_defs]:
  "os_ReadDir F p =
     (let k = fs_key F p in
      if is_dir_key F k then
        Inr (sort_key fst
          (map (\<lambda>d. (base_path d, True)) (filter (\<lambda>d. d \<noteq> k \<and> dir_path d = k) (fs_dirs F))
           @ map (\<lambda>f. (base_path f, False)) (filter (\<lambda>f. dir_path f = k) (mkeys (fs_files F)))))
      else if mget (fs_files F) k \<noteq> None then Inl NotDirectory else Inl NotExist)"


section \<open>Paths of the entries of a directory\<close>

text \<open>A directory by its plain components, and an entry of it.\<close>

definition dir_of :: "string list \<Rightarrow> string" where
  "dir_of cs = CHR ''/'' # join ''/'' cs"

lemma join_snoc: "cs \<noteq> [] \<Longrightarrow> join sep (cs @ [c]) = join sep cs @ sep @ c"
  by (induction sep cs rule: join.induct) auto

lemma dir_of_snoc: "cs \<noteq> [] \<Longrightarrow> dir_of (cs @ [n]) = dir_of cs @ ''/'' @ n"
  by (simp add: dir_of_def join_snoc)

lemma clean_dir_of: "list_all plain_part cs \<Longrightarrow> clean_path (dir_of cs) = dir_of cs"
  by (simp add: dir_of_def clean_abs_normal)

lemma is_abs_dir_of [simp]: "is_abs (dir_of cs)"
  by (simp add: dir_of_def is_abs_def has_prefix_def)

lemma abs_dir_of [simp]: "list_all plain_part cs \<Longrightarrow> abs_path cwd (dir_of cs) = dir_of cs"
  by (simp add: abs_path_def clean_dir_of)

lemma rev_dropWhile_slash:
  "CHR ''/'' \<notin> set n \<Longrightarrow> rev (dropWhile (\<lambda>c. c \<noteq> CHR ''/'') (rev (p @ CHR ''/'' # n))) = p @ ''/''"
  by (subst rev_append, subst rev.simps, subst append_assoc, subst dropWhile_append2) auto

lemma clean_trailing:
  assumes "list_all plain_part cs"
  shows "clean_path (dir_of cs @ ''/'') = dir_of cs"
proof -
  have s: "split (a @ ''/'') CHR ''/'' = split a CHR ''/'' @ [[]]" for a
    unfolding split_def by (induction a) (auto split: list.splits)
  have "clean_parts True (dir_of cs @ ''/'') = clean_parts True (dir_of cs)"
    by (simp add: clean_parts_def s clean_step_def)
  then have "clean_path (dir_of cs @ ''/'') = clean_path (dir_of cs)"
    by (simp add: clean_path_def is_abs_def has_prefix_def dir_of_def)
  then show ?thesis using assms clean_dir_of by simp
qed

lemma dir_path_entry:
  assumes "list_all plain_part cs" "cs \<noteq> []" "plain_part n"
  shows "dir_path (dir_of cs @ ''/'' @ n) = dir_of cs"
  using assms rev_dropWhile_slash [of n "dir_of cs"] clean_trailing
  by (simp add: dir_path_def plain_part_def)

lemma base_path_entry:
  assumes "plain_part n"
  shows "base_path (d @ ''/'' @ n) = n"
proof -
  obtain x xs where n: "rev n = x # xs" "x \<noteq> CHR ''/''" "CHR ''/'' \<notin> set xs"
    using assms set_rev [of n] by (cases "rev n") (auto simp: plain_part_def simp del: set_rev)
  then have "takeWhile (\<lambda>c. c \<noteq> CHR ''/'') (rev n @ CHR ''/'' # rev d) = rev n"
    by (subst takeWhile_append2) auto
  then show ?thesis using n by (simp add: base_path_def)
qed

lemma dir_of_inj:
  assumes "dir_of cs = dir_of ds" "list_all plain_part cs" "list_all plain_part ds"
  shows "cs = ds"
proof -
  have "join ''/'' cs = join ''/'' ds" using assms(1) by (simp add: dir_of_def)
  moreover have "join ''/'' xs \<noteq> []" if "list_all plain_part xs" "xs \<noteq> []" for xs
    using that by (cases xs; cases "tl xs") (auto simp: plain_part_def)
  moreover have "split (join ''/'' xs) CHR ''/'' = xs" if "list_all plain_part xs" "xs \<noteq> []" for xs
    using that by (intro split_join) (auto simp: list_all_iff plain_part_def)
  ultimately show ?thesis using assms(2,3) by (metis join.simps(1))
qed

text \<open>The entry \<open>n\<close> of a directory other than the root.\<close>

definition entry :: "string list \<Rightarrow> string \<Rightarrow> string" where
  "entry cs n = dir_of cs @ ''/'' @ n"

lemma entry_eq: "cs \<noteq> [] \<Longrightarrow> entry cs n = dir_of (cs @ [n])"
  by (simp add: entry_def dir_of_snoc)

lemma entry_inj [simp]: "entry cs n = entry cs m \<longleftrightarrow> n = m"
  by (simp add: entry_def)

lemma key_entry:
  "list_all plain_part cs \<Longrightarrow> cs \<noteq> [] \<Longrightarrow> plain_part n \<Longrightarrow> abs_path cwd (entry cs n) = entry cs n"
  by (simp add: entry_eq)

definition normal_key :: "string \<Rightarrow> bool" where
  "normal_key k \<longleftrightarrow> (\<exists>cs. list_all plain_part cs \<and> cs \<noteq> [] \<and> k = dir_of cs)"

lemma normal_key_entry: "list_all plain_part cs \<Longrightarrow> cs \<noteq> [] \<Longrightarrow> plain_part n \<Longrightarrow> normal_key (entry cs n)"
  unfolding normal_key_def by (intro exI [of _ "cs @ [n]"]) (simp add: entry_eq)

lemma dir_path_top: "plain_part n \<Longrightarrow> dir_path (dir_of [n]) = ''/''"
  using rev_dropWhile_slash [of n "[]"]
  by (simp add: dir_path_def dir_of_def plain_part_def clean_path_def is_abs_def has_prefix_def
      clean_parts_def clean_step_def split_def)

lemma dir_path_entry_iff:
  assumes "normal_key k" "list_all plain_part cs" "cs \<noteq> []"
  shows "dir_path k = dir_of cs \<longleftrightarrow> (\<exists>n. plain_part n \<and> k = entry cs n)"
proof
  assume d: "dir_path k = dir_of cs"
  from assms(1) obtain ds n where k: "list_all plain_part (ds @ [n])" "k = dir_of (ds @ [n])"
    unfolding normal_key_def by (metis rev_exhaust)
  have "ds \<noteq> []"
  proof
    assume "ds = []"
    with d k have "dir_of [] = dir_of cs" by (simp add: dir_path_top) (simp add: dir_of_def)
    then show False using dir_of_inj [of "[]" cs] assms by simp
  qed
  then have "dir_path k = dir_of ds" using k dir_path_entry [of ds n] by (simp add: dir_of_snoc)
  then show "\<exists>n. plain_part n \<and> k = entry cs n"
    using d k dir_of_inj [of ds cs] assms(2) \<open>ds \<noteq> []\<close> by (auto simp: entry_eq)
qed (use assms dir_path_entry in \<open>auto simp: entry_def\<close>)


section \<open>Joining a path to a directory\<close>

lemma split_slash_append: "split (a @ CHR ''/'' # b) CHR ''/'' = split a CHR ''/'' @ split b CHR ''/''"
proof -
  have "split_at (\<lambda>x. x = CHR ''/'') (a @ CHR ''/'' # b) = split_at (\<lambda>x. x = CHR ''/'') a @ split_at (\<lambda>x. x = CHR ''/'') b"
    by (induction a) (auto split: list.splits)
  then show ?thesis by (simp add: split_def)
qed

lemma clean_step_kept:
  assumes "\<forall>x\<in>set acc. x \<noteq> [] \<and> x \<noteq> ''.''"
  shows "\<forall>x\<in>set (clean_step r acc c). x \<noteq> [] \<and> x \<noteq> ''.''"
  using assms by (cases acc) (simp_all add: clean_step_def)

text \<open>Cleaning a relative path first makes no difference for the path below a directory.\<close>

lemma clean_fold_twice:
  "foldl (clean_step True) acc (rev (foldl (clean_step False) [] xs)) = foldl (clean_step True) acc xs
   \<and> (\<forall>x\<in>set (foldl (clean_step False) [] xs). x \<noteq> [] \<and> x \<noteq> ''.'')"
proof (induction xs rule: rev_induct)
  case (snoc x xs)
  let ?R = "foldl (clean_step False) [] xs"
  have kept: "\<forall>y\<in>set (clean_step False ?R x). y \<noteq> [] \<and> y \<noteq> ''.''" using snoc clean_step_kept by blast
  have "foldl (clean_step True) acc (rev (clean_step False ?R x)) = clean_step True (foldl (clean_step True) acc (rev ?R)) x"
  proof (cases "x = ''..''")
    case True
    show ?thesis
    proof (cases ?R)
      case (Cons y ys)
      with snoc have "y \<noteq> []" "y \<noteq> ''.''" by auto
      with True Cons show ?thesis by (simp add: clean_step_def)
    qed (simp add: True clean_step_def)
  qed (auto simp: clean_step_def)
  with snoc kept show ?case by simp
qed simp

lemma fold_join_parts:
  assumes "\<forall>x\<in>set ps. CHR ''/'' \<notin> set x"
  shows "foldl (clean_step r) acc (split (join ''/'' ps) CHR ''/'') = foldl (clean_step r) acc ps"
proof (cases "ps = []")
  case False
  then show ?thesis using assms split_join [of ps "CHR ''/''"] by simp
qed (simp add: split_def clean_step_def)

lemma fold_no_slash:
  "\<forall>x\<in>set acc \<union> set xs. CHR ''/'' \<notin> set x \<Longrightarrow> \<forall>x\<in>set (foldl (clean_step r) acc xs). CHR ''/'' \<notin> set x"
proof (induction xs arbitrary: acc)
  case (Cons x xs)
  have "\<forall>y\<in>set (clean_step r acc x). CHR ''/'' \<notin> set y"
    using Cons.prems by (auto simp: clean_step_def split: list.splits)
  then show ?case using Cons.IH [of "clean_step r acc x"] Cons.prems by auto
qed simp

lemma dir_of_parts: "is_abs p \<Longrightarrow> clean_path p = dir_of (rev (foldl (clean_step True) [] (split p CHR ''/'')))"
  by (simp add: clean_path_def dir_of_def clean_parts_def)

lemma split_dir_of:
  assumes "list_all plain_part cs"
  shows "foldl (clean_step True) [] (split (dir_of cs) CHR ''/'') = rev cs"
proof -
  have "split (dir_of cs) CHR ''/'' = [] # split (join ''/'' cs) CHR ''/''"
    using split_append [of "CHR ''/''" "[]"] by (simp add: dir_of_def)
  moreover have "foldl (clean_step True) [] (split (join ''/'' cs) CHR ''/'') = foldl (clean_step True) [] cs"
    using assms by (intro fold_join_parts) (auto simp: list_all_iff plain_part_def)
  ultimately show ?thesis using assms by (simp add: clean_step_def clean_plain_fold)
qed

lemma abs_parts:
  assumes "is_abs p" "clean_path p = dir_of cs" "list_all plain_part cs"
  shows "foldl (clean_step True) [] (split p CHR ''/'') = rev cs"
proof -
  have "dir_of (clean_parts True p) = dir_of cs" using dir_of_parts [OF assms(1)] assms(2) by (simp add: clean_parts_def)
  then have "clean_parts True p = cs" using dir_of_inj clean_parts_plain assms(3) by blast
  then show ?thesis by (auto simp: clean_parts_def)
qed

lemma joined_abs: "is_abs p \<Longrightarrow> is_abs (p @ ''/'' @ q)" "is_abs p \<Longrightarrow> p \<noteq> []"
  by (auto simp: is_abs_def has_prefix_iff has_prefix_def)

text \<open>A relative path, cleaned before or after it is resolved.\<close>

lemma clean_relative:
  assumes "\<not> is_abs q"
  shows "\<not> is_abs (clean_path q)"
    "foldl (clean_step True) acc (split (clean_path q) CHR ''/'') = foldl (clean_step True) acc (split q CHR ''/'')"
proof -
  define ps where "ps = rev (foldl (clean_step False) [] (split q CHR ''/''))"
  have ps: "\<forall>x\<in>set ps. CHR ''/'' \<notin> set x" "\<forall>x\<in>set ps. x \<noteq> []"
    using fold_no_slash [of "[]" "split q CHR ''/''" False] split_pieces clean_fold_twice [of "[]" "split q CHR ''/''"]
    by (auto simp: ps_def)
  have cq: "clean_path q = (if join ''/'' ps = [] then ''.'' else join ''/'' ps)"
    using assms by (simp add: clean_path_def clean_parts_def ps_def Let_def)
  have "\<not> has_prefix (join ''/'' ps) ''/''"
    using ps by (cases ps; cases "hd ps"; cases "tl ps") (auto simp: has_prefix_def)
  then show "\<not> is_abs (clean_path q)" by (simp add: cq is_abs_def has_prefix_def)
  have "foldl (clean_step True) acc (split (clean_path q) CHR ''/'') = foldl (clean_step True) acc (split (join ''/'' ps) CHR ''/'')"
    by (simp add: cq split_def clean_step_def)
  also have "\<dots> = foldl (clean_step True) acc ps" by (rule fold_join_parts [OF ps(1)])
  finally show "foldl (clean_step True) acc (split (clean_path q) CHR ''/'') = foldl (clean_step True) acc (split q CHR ''/'')"
    using clean_fold_twice by (simp add: ps_def)
qed

lemma relative_parts:
  assumes "is_abs cwd" "\<not> is_abs p" "acc = foldl (clean_step True) [] (split cwd CHR ''/'')"
  shows "abs_path cwd p = dir_of (rev (foldl (clean_step True) acc (split p CHR ''/'')))"
    "list_all plain_part (rev (foldl (clean_step True) acc (split p CHR ''/'')))"
  using assms(2) joined_abs [OF assms(1)] dir_of_parts [OF joined_abs(1) [OF assms(1)], of p] clean_parts_plain [of "cwd @ ''/'' @ p"]
  by (simp_all add: abs_path_def join_path_def assms(3) split_slash_append clean_parts_def)

lemma key_join:
  assumes cwd: "is_abs cwd" and dir: "dir \<noteq> []" "abs_path cwd dir = dir_of cs" and cs: "list_all plain_part cs"
  shows "abs_path cwd (join_path dir name) = dir_of (rev (foldl (clean_step True) (rev cs) (split name CHR ''/'')))"
proof (cases "is_abs dir")
  case True
  have parts: "foldl (clean_step True) [] (split dir CHR ''/'') = rev cs"
    using True dir(2) cs by (intro abs_parts) (simp_all add: abs_path_def)
  then have "join_path dir name = dir_of (rev (foldl (clean_step True) (rev cs) (split name CHR ''/'')))"
    using dir_of_parts [OF joined_abs(1) [OF True], of name] dir(1) by (simp add: join_path_def split_slash_append)
  moreover have "list_all plain_part (rev (foldl (clean_step True) (rev cs) (split name CHR ''/'')))"
    using clean_parts_plain [of "dir @ ''/'' @ name"] parts by (simp add: clean_parts_def split_slash_append)
  ultimately show ?thesis by simp
next
  case False
  let ?q = "dir @ ''/'' @ name" and ?acc = "foldl (clean_step True) [] (split cwd CHR ''/'')"
  have nabs: "\<not> is_abs ?q" using False dir(1) by (cases dir) (auto simp: is_abs_def has_prefix_def)
  note rel = relative_parts [OF cwd _ refl]
  have rcs: "foldl (clean_step True) ?acc (split dir CHR ''/'') = rev cs"
    using rel [OF False] dir(2) dir_of_inj [OF _ _ cs] by (metis rev_rev_ident)
  have "abs_path cwd (clean_path ?q) = dir_of (rev (foldl (clean_step True) ?acc (split ?q CHR ''/'')))"
    using rel(1) [OF clean_relative(1) [OF nabs]] clean_relative(2) [OF nabs] by simp
  then show ?thesis using rcs dir(1) by (simp add: join_path_def split_slash_append)
qed

lemma key_join_plain:
  assumes "is_abs cwd" "dir \<noteq> []" "abs_path cwd dir = dir_of cs" "list_all plain_part cs" "plain_part n"
  shows "abs_path cwd (join_path dir n) = dir_of (cs @ [n])"
  using key_join [OF assms(1-4), of n] assms(5)
  by (simp add: split_none plain_part_def clean_step_def)

section \<open>Reading and writing files\<close>

lemma read_written:
  assumes "os_WriteFile F p d = Inr F'"
  shows "os_ReadFile F' p = Inr d"
  using assms
  by (auto simp: os_WriteFile_def os_Create_def os_ReadFile_def file_append_def fs_key_def is_dir_key_def mget_put Let_def
      split: if_splits option.splits)

lemma written_other:
  assumes "os_WriteFile F p d = Inr F'" "fs_key F q \<noteq> fs_key F p"
  shows "os_ReadFile F' q = os_ReadFile F q"
  using assms
  by (auto simp: os_WriteFile_def os_Create_def os_ReadFile_def file_append_def fs_key_def is_dir_key_def mget_put Let_def
      split: if_splits option.splits)

text \<open>
  \<^verbatim>\<open>bufio.Scanner\<close> by lines with a buffer of \<open>cap\<close> bytes: a final empty line does not count, a carriage
  return before the newline is dropped, and a line that does not fit ends the scan.
\<close>

definition drop_cr :: "string \<Rightarrow> string" where [go_defs]:
  "drop_cr l = (if l \<noteq> [] \<and> last l = CHR 0x0D then butlast l else l)"

definition scan_lines :: "nat \<Rightarrow> string \<Rightarrow> string list" where [go_defs]:
  "scan_lines cap s =
     (let raw = split s CHR 0x0A;
          ls = (if last raw = [] then butlast raw else raw)
      in map drop_cr (takeWhile (\<lambda>l. length l < cap) ls))"

end
