(* ===== verification/Cert_Gen.thy ===== *)
theory Cert_Gen
  imports Go_FS
begin

text \<open>
  Self-signed certificates on demand, \<^verbatim>\<open>pkg/certgen/certgen.go\<close>. The random key and serial number are
  arguments, \<^const>\<open>None\<close> when the generator fails; the encodings of a certificate, a key and a PEM block are
  parameters.
\<close>

record 'k cert_ops =
  co_cert :: "'k \<Rightarrow> nat \<Rightarrow> string option"
  co_key :: "'k \<Rightarrow> string option"
  co_pem :: "string \<Rightarrow> string \<Rightarrow> string"

datatype cert_error = KeyFailed | SerialFailed | CertFailed | MarshalFailed | MkdirFailed fs_error | OpenFailed fs_error

definition fileExists :: "fs \<Rightarrow> string \<Rightarrow> bool" where
  "fileExists F p \<longleftrightarrow> p \<noteq> [] \<and> (case os_ReadFile F p of Inl _ \<Rightarrow> False | Inr d \<Rightarrow> d \<noteq> [])"

definition writePEM :: "('k, 'z) cert_ops_scheme \<Rightarrow> string \<Rightarrow> string \<Rightarrow> string \<Rightarrow> fs \<Rightarrow> cert_error option \<times> fs" where
  "writePEM co path kind der F =
     (let dir = dir_path path;
          (r, F1) = (if dir \<noteq> ''.'' \<and> dir \<noteq> [] then os_MkdirAll F dir else (None, F))
      in case r of Some e \<Rightarrow> (Some (MkdirFailed e), F1)
         | None \<Rightarrow> (case os_WriteFile F1 path (co_pem co kind der) of
                      Inl e \<Rightarrow> (Some (OpenFailed e), F1) | Inr F2 \<Rightarrow> (None, F2)))"

definition EnsureSelfSigned ::
  "('k, 'z) cert_ops_scheme \<Rightarrow> 'k option \<Rightarrow> nat option \<Rightarrow> string \<Rightarrow> string \<Rightarrow> fs \<Rightarrow> cert_error option \<times> fs" where
  "EnsureSelfSigned co priv serial certPath keyPath F =
     (if fileExists F certPath \<and> fileExists F keyPath then (None, F)
      else case priv of None \<Rightarrow> (Some KeyFailed, F)
      | Some k \<Rightarrow> (case serial of None \<Rightarrow> (Some SerialFailed, F)
        | Some n \<Rightarrow> (case co_cert co k n of None \<Rightarrow> (Some CertFailed, F)
          | Some der \<Rightarrow> (case writePEM co certPath ''CERTIFICATE'' der F of
              (Some e, F1) \<Rightarrow> (Some e, F1)
            | (None, F1) \<Rightarrow> (case co_key co k of None \<Rightarrow> (Some MarshalFailed, F1)
              | Some kd \<Rightarrow> writePEM co keyPath ''EC PRIVATE KEY'' kd F1)))))"

lemma mkdirs_read:
  "mkdirs ks F = (r, F') \<Longrightarrow> fs_files F' = fs_files F \<and> fs_cwd F' = fs_cwd F
     \<and> (mget (fs_files F) k \<noteq> None \<longrightarrow> is_dir_key F' k = is_dir_key F k)"
proof (induction ks arbitrary: F)
  case (Cons j ks)
  show ?case
  proof (cases "is_dir_key F j \<or> mget (fs_files F) j \<noteq> None \<or> j \<in> set (fs_denied F)")
    case True
    then show ?thesis using Cons by (auto split: if_splits)
  next
    case False
    with Cons.prems have "mkdirs ks (F\<lparr>fs_dirs := fs_dirs F @ [j]\<rparr>) = (r, F')" by simp
    from Cons.IH [OF this] False show ?thesis by (auto simp: is_dir_key_def)
  qed
qed simp

lemma writePEM_effect:
  assumes "writePEM co p kind der F = (None, F')"
  shows "os_ReadFile F' p = Inr (co_pem co kind der)" "fs_cwd F' = fs_cwd F"
    "fs_key F q \<noteq> fs_key F p \<Longrightarrow> os_ReadFile F q = Inr d \<Longrightarrow> os_ReadFile F' q = Inr d"
proof -
  obtain r F1 where 1: "(if dir_path p \<noteq> ''.'' \<and> dir_path p \<noteq> [] then os_MkdirAll F (dir_path p) else (None, F)) = (r, F1)"
    by fastforce
  then have 2: "os_WriteFile F1 p (co_pem co kind der) = Inr F'"
    using assms by (auto simp: writePEM_def Let_def split: option.splits sum.splits)
  have m: "fs_files F1 = fs_files F \<and> fs_cwd F1 = fs_cwd F \<and> (mget (fs_files F) k \<noteq> None \<longrightarrow> is_dir_key F1 k = is_dir_key F k)" for k
    using 1 mkdirs_read [of _ F r F1 k] by (auto simp: os_MkdirAll_def split: if_splits)
  show "os_ReadFile F' p = Inr (co_pem co kind der)" by (rule read_written [OF 2])
  show "fs_cwd F' = fs_cwd F" using m 2
    by (auto simp: os_WriteFile_def os_Create_def file_append_def Let_def split: if_splits option.splits)
  assume q: "fs_key F q \<noteq> fs_key F p" "os_ReadFile F q = Inr d"
  then have "os_ReadFile F1 q = Inr d"
    using m [of "fs_key F q"] by (auto simp: os_ReadFile_def fs_key_def Let_def split: if_splits option.splits)
  then show "os_ReadFile F' q = Inr d" using written_other [OF 2, of q] q(1) m by (simp add: fs_key_def)
qed

text \<open>When the certificate is ensured, both files are there; a new certificate comes with the key it was made
  for, and running again, with any randomness, changes nothing.
\<close>

theorem certificate_pair_stable:
  assumes "EnsureSelfSigned co priv serial certPath keyPath F = (None, F')" "certPath \<noteq> []" "keyPath \<noteq> []"
    "fs_key F certPath \<noteq> fs_key F keyPath" "\<forall>kind der. co_pem co kind der \<noteq> []"
  shows "(F' = F \<or> (\<exists>k n cd kd. priv = Some k \<and> serial = Some n \<and> co_cert co k n = Some cd \<and> co_key co k = Some kd
           \<and> os_ReadFile F' certPath = Inr (co_pem co ''CERTIFICATE'' cd) \<and> os_ReadFile F' keyPath = Inr (co_pem co ''EC PRIVATE KEY'' kd)))
    \<and> EnsureSelfSigned co priv' serial' certPath keyPath F' = (None, F')"
proof (cases "fileExists F certPath \<and> fileExists F keyPath")
  case True
  with assms(1) show ?thesis by (simp add: EnsureSelfSigned_def)
next
  case False
  with assms(1) obtain k n cd kd F1 where 1: "priv = Some k" "serial = Some n" "co_cert co k n = Some cd" "co_key co k = Some kd"
    "writePEM co certPath ''CERTIFICATE'' cd F = (None, F1)" "writePEM co keyPath ''EC PRIVATE KEY'' kd F1 = (None, F')"
    by (auto simp: EnsureSelfSigned_def split: option.splits prod.splits)
  note w = writePEM_effect [OF 1(5)] writePEM_effect [OF 1(6)]
  have "os_ReadFile F' certPath = Inr (co_pem co ''CERTIFICATE'' cd)"
    using w(6) [OF _ w(1)] assms(4) w(2) by (simp add: fs_key_def)
  with w(4) 1 assms(2,3,5) show ?thesis by (simp add: EnsureSelfSigned_def fileExists_def)
qed

definition toy_certs :: "string cert_ops" where
  "toy_certs = \<lparr>co_cert = (\<lambda>k n. Some k), co_key = Some, co_pem = (\<lambda>k d. CHR ''-'' # d)\<rparr>"

definition empty_fs :: fs where
  "empty_fs = \<lparr>fs_cwd = ''/'', fs_dirs = [], fs_files = [], fs_denied = []\<rparr>"

theorem certificate_pair_stable_witness:
  "fst (EnsureSelfSigned toy_certs None None ''/c'' ''/k''
     (snd (EnsureSelfSigned toy_certs (Some ''p'') (Some 5) ''/c'' ''/k'' empty_fs))) = None"
proof -
  have "fst (EnsureSelfSigned toy_certs (Some ''p'') (Some 5) ''/c'' ''/k'' empty_fs) = None" by code_simp
  then obtain F' where r: "EnsureSelfSigned toy_certs (Some ''p'') (Some 5) ''/c'' ''/k'' empty_fs = (None, F')"
    by (metis prod.collapse)
  have k: "fs_key empty_fs ''/c'' \<noteq> fs_key empty_fs ''/k''" by code_simp
  have "EnsureSelfSigned toy_certs None None ''/c'' ''/k'' F' = (None, F')"
    using certificate_pair_stable [OF r _ _ k, of None None] by (simp add: toy_certs_def)
  then show ?thesis by (simp add: r)
qed

end
