(* ===== verification/Log_Ring.thy ===== *)
theory Log_Ring
  imports Go_Prelude "HOL-Library.Sublist"
begin

text \<open>
  The in-memory log of \<^verbatim>\<open>pkg/glog/ringbuffer.go\<close>: a circular buffer of recent lines with
  subscriber channels, which the admin endpoints read. The buffer and the list of subscribers
  are guarded by two different locks, so \<^verbatim>\<open>Write\<close> and \<^verbatim>\<open>Unsubscribe\<close> are two critical sections
  each; the step relation \<open>ring_step\<close> interleaves them. A call that would panic in Go (an index or a
  modulus out of range, a negative length, a channel closed twice, a send on a closed channel)
  is \<^const>\<open>None\<close>.
\<close>

section \<open>The buffer\<close>

record chan =
  ch_buf :: "string list"
  ch_closed :: bool

text \<open>A channel is named by its position in the list of all channels made so far.\<close>

record ring_buffer =
  rb_lines :: "string list"
  rb_pos :: nat
  rb_count :: nat
  rb_subs :: "nat list"
  rb_chans :: "chan list"

definition NewRingBuffer :: "int \<Rightarrow> ring_buffer option" where
  "NewRingBuffer capacity =
     (if capacity < 0 then None
      else Some \<lparr>rb_lines = replicate (nat capacity) [], rb_pos = 0, rb_count = 0,
                 rb_subs = [], rb_chans = []\<rparr>)"

text \<open>\<^verbatim>\<open>Write\<close>: the section under \<^verbatim>\<open>mu\<close>, then the one under \<^verbatim>\<open>subsMu\<close>.\<close>

definition write_line :: "string \<Rightarrow> ring_buffer \<Rightarrow> ring_buffer option" where
  "write_line line b =
     (let n = length (rb_lines b) in
      if rb_pos b < n then
        Some (b\<lparr>rb_lines := (rb_lines b)[rb_pos b := line],
                rb_pos := (rb_pos b + 1) mod n,
                rb_count := (if rb_count b < n then rb_count b + 1 else rb_count b)\<rparr>)
      else None)"

definition chan_cap :: nat where "chan_cap = 64"

text \<open>A send that gives up when the buffer of the channel is full.\<close>

definition try_send :: "string \<Rightarrow> nat \<Rightarrow> chan list \<Rightarrow> chan list option" where
  "try_send line c cs =
     (if length cs \<le> c \<or> ch_closed (cs ! c) then None
      else Some (if length (ch_buf (cs ! c)) < chan_cap
                 then cs[c := (cs ! c)\<lparr>ch_buf := ch_buf (cs ! c) @ [line]\<rparr>] else cs))"

fun send_all :: "string \<Rightarrow> nat list \<Rightarrow> chan list \<Rightarrow> chan list option" where
  "send_all line [] cs = Some cs"
| "send_all line (c # subs) cs =
     (case try_send line c cs of None \<Rightarrow> None | Some cs' \<Rightarrow> send_all line subs cs')"

definition publish :: "string \<Rightarrow> ring_buffer \<Rightarrow> ring_buffer option" where
  "publish line b =
     (case send_all line (rb_subs b) (rb_chans b) of None \<Rightarrow> None
      | Some cs \<Rightarrow> Some (b\<lparr>rb_chans := cs\<rparr>))"

definition Write :: "string \<Rightarrow> ring_buffer \<Rightarrow> (nat \<times> ring_buffer) option" where
  "Write p b =
     (case write_line p b of None \<Rightarrow> None
      | Some b1 \<Rightarrow> (case publish p b1 of None \<Rightarrow> None | Some b2 \<Rightarrow> Some (length p, b2)))"

definition Recent :: "int \<Rightarrow> ring_buffer \<Rightarrow> string list option" where
  "Recent n b =
     (let m = (if n > int (rb_count b) then int (rb_count b) else n); cap = length (rb_lines b) in
      if m < 0 \<or> cap = 0 then None
      else let start = (rb_pos b + cap - nat m) mod cap in
           Some (map (\<lambda>i. rb_lines b ! ((start + i) mod cap)) [0..<nat m]))"

definition Subscribe :: "ring_buffer \<Rightarrow> nat \<times> ring_buffer" where
  "Subscribe b =
     (let c = length (rb_chans b) in
      (c, b\<lparr>rb_chans := rb_chans b @ [\<lparr>ch_buf = [], ch_closed = False\<rparr>], rb_subs := rb_subs b @ [c]\<rparr>))"

text \<open>\<^verbatim>\<open>Unsubscribe\<close>: the first occurrence leaves the list under the lock, then the channel is closed.\<close>

definition remove_sub :: "nat \<Rightarrow> ring_buffer \<Rightarrow> ring_buffer" where
  "remove_sub c b = b\<lparr>rb_subs := remove1 c (rb_subs b)\<rparr>"

definition close_chan :: "nat \<Rightarrow> ring_buffer \<Rightarrow> ring_buffer option" where
  "close_chan c b =
     (if length (rb_chans b) \<le> c \<or> ch_closed (rb_chans b ! c) then None
      else Some (b\<lparr>rb_chans := (rb_chans b)[c := (rb_chans b ! c)\<lparr>ch_closed := True\<rparr>]\<rparr>))"

definition Unsubscribe :: "nat \<Rightarrow> ring_buffer \<Rightarrow> ring_buffer option" where
  "Unsubscribe c b = close_chan c (remove_sub c b)"

text \<open>A receive by the holder of the channel, as in \<^verbatim>\<open>HandleAdminLogsStream\<close>.\<close>

definition receive :: "nat \<Rightarrow> ring_buffer \<Rightarrow> (string \<times> ring_buffer) option" where
  "receive c b =
     (if length (rb_chans b) \<le> c then None
      else case ch_buf (rb_chans b ! c) of [] \<Rightarrow> None
           | line # rest \<Rightarrow> Some (line, b\<lparr>rb_chans := (rb_chans b)[c := (rb_chans b ! c)\<lparr>ch_buf := rest\<rparr>]\<rparr>))"


section \<open>Goroutines on one buffer\<close>

text \<open>
  The state of a run: the buffer, the lines appended so far, the lines published so far, the
  lines of writers between their two sections, the channels held by subscribers, the channels
  of subscribers between the two sections of \<^verbatim>\<open>Unsubscribe\<close>, and what each channel's holder has
  received. Every component but the buffer is a ghost of the run.
\<close>

record ring_run =
  rr_buf :: ring_buffer
  rr_hist :: "string list"
  rr_out :: "string list"
  rr_writing :: "string list"
  rr_held :: "nat list"
  rr_closing :: "nat list"
  rr_got :: "nat \<Rightarrow> string list"

inductive ring_step :: "ring_run \<Rightarrow> ring_run \<Rightarrow> bool" where
  append: "write_line p (rr_buf s) = Some b
    \<Longrightarrow> ring_step s (s\<lparr>rr_buf := b, rr_hist := rr_hist s @ [p], rr_writing := p # rr_writing s\<rparr>)"
| publish: "p \<in> set (rr_writing s) \<Longrightarrow> publish p (rr_buf s) = Some b
    \<Longrightarrow> ring_step s (s\<lparr>rr_buf := b, rr_out := rr_out s @ [p], rr_writing := remove1 p (rr_writing s)\<rparr>)"
| subscribe: "Subscribe (rr_buf s) = (c, b)
    \<Longrightarrow> ring_step s (s\<lparr>rr_buf := b, rr_held := c # rr_held s\<rparr>)"
| leave: "c \<in> set (rr_held s)
    \<Longrightarrow> ring_step s (s\<lparr>rr_buf := remove_sub c (rr_buf s), rr_held := remove1 c (rr_held s),
                       rr_closing := c # rr_closing s\<rparr>)"
| close: "c \<in> set (rr_closing s) \<Longrightarrow> close_chan c (rr_buf s) = Some b
    \<Longrightarrow> ring_step s (s\<lparr>rr_buf := b, rr_closing := remove1 c (rr_closing s)\<rparr>)"
| receive: "c \<in> set (rr_held s) \<Longrightarrow> receive c (rr_buf s) = Some (line, b)
    \<Longrightarrow> ring_step s (s\<lparr>rr_buf := b, rr_got := (rr_got s)(c := rr_got s c @ [line])\<rparr>)"

definition ring_start :: "ring_buffer \<Rightarrow> ring_run" where
  "ring_start b = \<lparr>rr_buf = b, rr_hist = [], rr_out = [], rr_writing = [], rr_held = [], rr_closing = [],
                   rr_got = (\<lambda>_. [])\<rparr>"


section \<open>The lines of the buffer\<close>

text \<open>The buffer of capacity \<open>cap\<close> after the lines \<open>hist\<close>.\<close>

definition holds_recent :: "nat \<Rightarrow> string list \<Rightarrow> ring_buffer \<Rightarrow> bool" where
  "holds_recent cap hist b \<longleftrightarrow>
     length (rb_lines b) = cap \<and> rb_pos b = length hist mod cap \<and> rb_count b = min (length hist) cap
     \<and> (\<forall>j. j < length hist \<and> length hist \<le> j + cap \<longrightarrow> rb_lines b ! (j mod cap) = hist ! j)"

lemma holds_recent_new: "0 < cap \<Longrightarrow> NewRingBuffer (int cap) = Some b \<Longrightarrow> holds_recent cap [] b"
  by (auto simp: NewRingBuffer_def holds_recent_def)

lemma mod_neq_window: "j < h \<Longrightarrow> h < j + cap \<Longrightarrow> j mod cap \<noteq> h mod (cap :: nat)"
proof
  assume "j < h" "h < j + cap" "j mod cap = h mod cap"
  then have "cap dvd h - j" by (metis less_or_eq_imp_le mod_eq_dvd_iff_nat)
  with \<open>j < h\<close> \<open>h < j + cap\<close> show False using dvd_imp_le [of cap "h - j"] by linarith
qed

lemma write_line_holds:
  assumes "holds_recent cap hist b" "0 < cap"
  shows "\<exists>b'. write_line p b = Some b' \<and> holds_recent cap (hist @ [p]) b'
              \<and> rb_subs b' = rb_subs b \<and> rb_chans b' = rb_chans b"
proof -
  have pos: "rb_pos b < cap" and len: "length (rb_lines b) = cap"
    and p: "rb_pos b = length hist mod cap" and cnt: "rb_count b = min (length hist) cap"
    and lines: "\<And>j. j < length hist \<Longrightarrow> length hist \<le> j + cap \<Longrightarrow> rb_lines b ! (j mod cap) = hist ! j"
    using assms by (auto simp: holds_recent_def)
  have "(rb_lines b)[length hist mod cap := p] ! (j mod cap) = (hist @ [p]) ! j"
    if "j < Suc (length hist)" "Suc (length hist) \<le> j + cap" for j
  proof (cases "j = length hist")
    case True
    then show ?thesis using assms(2) len by simp
  next
    case False
    with that have "j < length hist" "length hist < j + cap" by simp_all
    then show ?thesis using lines [of j] mod_neq_window [of j "length hist" cap] by (simp add: nth_append)
  qed
  then show ?thesis using pos len p cnt
    by (auto simp: write_line_def holds_recent_def Let_def mod_Suc)
qed

text \<open>What \<^verbatim>\<open>Recent\<close> reads: the last lines, at most as many as the capacity.\<close>

definition last_lines :: "nat \<Rightarrow> 'a list \<Rightarrow> 'a list" where
  "last_lines n xs = drop (length xs - n) xs"

lemma Recent_last:
  assumes h: "holds_recent cap hist b" and cap: "0 < cap"
  shows "Recent (int n) b = Some (last_lines (min n cap) hist)"
proof -
  define m where "m = min n (min (length hist) cap)"
  define l where "l = length hist"
  have b: "length (rb_lines b) = cap" "rb_pos b = l mod cap" "rb_count b = min l cap"
    and lines: "\<And>j. j < l \<Longrightarrow> l \<le> j + cap \<Longrightarrow> rb_lines b ! (j mod cap) = hist ! j"
    using h by (auto simp: holds_recent_def l_def)
  have m: "m \<le> l" "m \<le> cap" "(if int n > int (min l cap) then int (min l cap) else int n) = int m"
    by (auto simp: m_def l_def)
  have idx: "(((l mod cap + cap - m) mod cap) + i) mod cap = (l - m + i) mod cap" for i
  proof -
    have "(l mod cap + (cap - m)) mod cap = (l + (cap - m)) mod cap" by (simp add: mod_add_left_eq)
    also have "l + (cap - m) = (l - m) + cap" using m by simp
    finally have "(l mod cap + cap - m) mod cap = (l - m) mod cap" using m(2) by simp
    then show ?thesis by (metis mod_add_left_eq)
  qed
  have "rb_lines b ! ((((l mod cap + cap - m) mod cap) + i) mod cap) = hist ! (l - m + i)" if "i < m" for i
    unfolding idx using that m by (intro lines) auto
  then have "map (\<lambda>i. rb_lines b ! ((((l mod cap + cap - m) mod cap) + i) mod cap)) [0..<m]
           = map (\<lambda>i. hist ! (l - m + i)) [0..<m]" by simp
  also have "\<dots> = drop (l - m) hist" using m(1) by (intro nth_equalityI) (auto simp: l_def)
  also have "\<dots> = last_lines (min n cap) hist"
    by (auto simp: last_lines_def m_def l_def min_def)
  finally show ?thesis using cap unfolding Recent_def Let_def b m(3) by simp
qed


section \<open>The subscribers\<close>

definition open_chan :: "ring_buffer \<Rightarrow> nat \<Rightarrow> bool" where
  "open_chan b c \<longleftrightarrow> c < length (rb_chans b) \<and> \<not> ch_closed (rb_chans b ! c)"

text \<open>
  Every channel in the list is held and open, a channel that is being closed is still open and
  no longer in the list, and what went through a channel is a subsequence of what was published.
\<close>

definition subs_ok :: "ring_run \<Rightarrow> bool" where
  "subs_ok s \<longleftrightarrow>
     set (rb_subs (rr_buf s)) \<subseteq> set (rr_held s)
     \<and> distinct (rb_subs (rr_buf s)) \<and> distinct (rr_held s @ rr_closing s)
     \<and> (\<forall>c \<in> set (rr_held s) \<union> set (rr_closing s). open_chan (rr_buf s) c)
     \<and> (\<forall>c < length (rb_chans (rr_buf s)).
          subseq (rr_got s c @ ch_buf (rb_chans (rr_buf s) ! c)) (rr_out s)
          \<and> length (ch_buf (rb_chans (rr_buf s) ! c)) \<le> chan_cap)
     \<and> (\<forall>c \<ge> length (rb_chans (rr_buf s)). rr_got s c = [])"

lemma try_send_open:
  assumes "c < length cs" "\<not> ch_closed (cs ! c)"
  shows "\<exists>cs'. try_send line c cs = Some cs' \<and> length cs' = length cs
           \<and> (\<forall>d. ch_closed (cs' ! d) = ch_closed (cs ! d))
           \<and> (\<forall>d < length cs. ch_buf (cs' ! d) = ch_buf (cs ! d)
                \<or> d = c \<and> ch_buf (cs' ! d) = ch_buf (cs ! d) @ [line] \<and> length (ch_buf (cs ! d)) < chan_cap)"
proof -
  have "ch_closed (cs[c := (cs ! c)\<lparr>ch_buf := x\<rparr>] ! d) = ch_closed (cs ! d)" for d x
    using assms by (cases "d = c") auto
  then show ?thesis using assms by (auto simp: try_send_def nth_list_update)
qed

lemma send_all_open:
  assumes "distinct subs" "\<forall>c\<in>set subs. c < length cs \<and> \<not> ch_closed (cs ! c)"
  shows "\<exists>cs'. send_all line subs cs = Some cs' \<and> length cs' = length cs
           \<and> (\<forall>d. ch_closed (cs' ! d) = ch_closed (cs ! d))
           \<and> (\<forall>d < length cs. ch_buf (cs' ! d) = ch_buf (cs ! d)
                \<or> d \<in> set subs \<and> ch_buf (cs' ! d) = ch_buf (cs ! d) @ [line] \<and> length (ch_buf (cs ! d)) < chan_cap)"
  using assms
proof (induction subs arbitrary: cs)
  case (Cons c subs)
  from Cons.prems have "c < length cs" "\<not> ch_closed (cs ! c)" by auto
  then obtain cs1 where 1: "try_send line c cs = Some cs1" "length cs1 = length cs"
      "\<forall>d. ch_closed (cs1 ! d) = ch_closed (cs ! d)"
      "\<forall>d < length cs. ch_buf (cs1 ! d) = ch_buf (cs ! d)
         \<or> d = c \<and> ch_buf (cs1 ! d) = ch_buf (cs ! d) @ [line] \<and> length (ch_buf (cs ! d)) < chan_cap"
    using try_send_open by blast
  have "\<forall>c\<in>set subs. c < length cs1 \<and> \<not> ch_closed (cs1 ! c)" "distinct subs" "c \<notin> set subs"
    using Cons.prems 1 by auto
  then obtain cs2 where 2: "send_all line subs cs1 = Some cs2" "length cs2 = length cs1"
      "\<forall>d. ch_closed (cs2 ! d) = ch_closed (cs1 ! d)"
      "\<forall>d < length cs1. ch_buf (cs2 ! d) = ch_buf (cs1 ! d)
         \<or> d \<in> set subs \<and> ch_buf (cs2 ! d) = ch_buf (cs1 ! d) @ [line] \<and> length (ch_buf (cs1 ! d)) < chan_cap"
    using Cons.IH by blast
  show ?case
  proof (intro exI [of _ cs2] conjI allI impI)
    fix d assume "d < length cs"
    with 1(2) 1(4) [rule_format, of d] 2(4) [rule_format, of d] \<open>c \<notin> set subs\<close>
    show "ch_buf (cs2 ! d) = ch_buf (cs ! d)
        \<or> d \<in> set (c # subs) \<and> ch_buf (cs2 ! d) = ch_buf (cs ! d) @ [line] \<and> length (ch_buf (cs ! d)) < chan_cap"
      by auto
  qed (use 1 2 in simp_all)
qed simp

lemma publish_ok:
  assumes "subs_ok s"
  shows "\<exists>b. publish p (rr_buf s) = Some b"
    and "publish p (rr_buf s) = Some b \<Longrightarrow> rb_lines b = rb_lines (rr_buf s) \<and> rb_pos b = rb_pos (rr_buf s)
           \<and> rb_count b = rb_count (rr_buf s)
           \<and> subs_ok (s\<lparr>rr_buf := b, rr_out := rr_out s @ [p], rr_writing := w\<rparr>)"
proof -
  have "\<forall>c\<in>set (rb_subs (rr_buf s)). c < length (rb_chans (rr_buf s)) \<and> \<not> ch_closed (rb_chans (rr_buf s) ! c)"
    using assms by (auto simp: subs_ok_def open_chan_def)
  then obtain cs where cs: "send_all p (rb_subs (rr_buf s)) (rb_chans (rr_buf s)) = Some cs"
      "length cs = length (rb_chans (rr_buf s))"
      "\<forall>d. ch_closed (cs ! d) = ch_closed (rb_chans (rr_buf s) ! d)"
      "\<forall>d < length (rb_chans (rr_buf s)). ch_buf (cs ! d) = ch_buf (rb_chans (rr_buf s) ! d)
         \<or> d \<in> set (rb_subs (rr_buf s)) \<and> ch_buf (cs ! d) = ch_buf (rb_chans (rr_buf s) ! d) @ [p]
           \<and> length (ch_buf (rb_chans (rr_buf s) ! d)) < chan_cap"
    using assms send_all_open [of "rb_subs (rr_buf s)" "rb_chans (rr_buf s)" p] by (auto simp: subs_ok_def)
  then have pub: "publish p (rr_buf s) = Some ((rr_buf s)\<lparr>rb_chans := cs\<rparr>)" by (simp add: publish_def)
  show "\<exists>b. publish p (rr_buf s) = Some b" using pub by simp
  have sub: "subseq (rr_got s c @ ch_buf (cs ! c)) (rr_out s @ [p]) \<and> length (ch_buf (cs ! c)) \<le> chan_cap"
    if "c < length cs" for c
  proof -
    have "subseq (rr_got s c @ ch_buf (rb_chans (rr_buf s) ! c)) (rr_out s)"
      and "length (ch_buf (rb_chans (rr_buf s) ! c)) \<le> chan_cap"
      using assms that cs(2) by (auto simp: subs_ok_def)
    with cs(2) cs(4) [rule_format, of c] that show ?thesis
      by (auto simp flip: append_assoc intro: list_emb_append_mono)
  qed
  show "publish p (rr_buf s) = Some b \<Longrightarrow> rb_lines b = rb_lines (rr_buf s) \<and> rb_pos b = rb_pos (rr_buf s)
           \<and> rb_count b = rb_count (rr_buf s)
           \<and> subs_ok (s\<lparr>rr_buf := b, rr_out := rr_out s @ [p], rr_writing := w\<rparr>)"
    using assms pub sub cs(2,3) by (auto simp: subs_ok_def open_chan_def)
qed

lemma close_ok:
  assumes "subs_ok s" "c \<in> set (rr_closing s)"
  shows "\<exists>b. close_chan c (rr_buf s) = Some b"
    and "close_chan c (rr_buf s) = Some b \<Longrightarrow> rb_lines b = rb_lines (rr_buf s) \<and> rb_pos b = rb_pos (rr_buf s)
           \<and> rb_count b = rb_count (rr_buf s)
           \<and> subs_ok (s\<lparr>rr_buf := b, rr_closing := remove1 c (rr_closing s)\<rparr>)"
proof -
  have o: "open_chan (rr_buf s) c" using assms by (auto simp: subs_ok_def)
  then show "\<exists>b. close_chan c (rr_buf s) = Some b" by (simp add: close_chan_def open_chan_def)
  assume b: "close_chan c (rr_buf s) = Some b"
  have nin: "c \<notin> set (rr_held s)" "distinct (rr_closing s)" using assms by (auto simp: subs_ok_def)
  show "rb_lines b = rb_lines (rr_buf s) \<and> rb_pos b = rb_pos (rr_buf s)
           \<and> rb_count b = rb_count (rr_buf s)
           \<and> subs_ok (s\<lparr>rr_buf := b, rr_closing := remove1 c (rr_closing s)\<rparr>)"
    using assms o b nin
    by (auto simp: subs_ok_def close_chan_def open_chan_def nth_list_update split: if_splits)
qed

lemma subs_ok_subscribe:
  assumes "subs_ok s" "Subscribe (rr_buf s) = (c, b)"
  shows "subs_ok (s\<lparr>rr_buf := b, rr_held := c # rr_held s\<rparr>)"
proof -
  have "c = length (rb_chans (rr_buf s))" using assms(2) by (simp add: Subscribe_def Let_def)
  moreover have "c \<notin> set (rr_held s) \<union> set (rr_closing s) \<union> set (rb_subs (rr_buf s))"
    using assms(1) calculation by (auto simp: subs_ok_def open_chan_def)
  ultimately show ?thesis using assms
    by (auto simp: subs_ok_def Subscribe_def open_chan_def Let_def nth_append less_Suc_eq)
qed

lemma subs_ok_leave:
  assumes "subs_ok s" "c \<in> set (rr_held s)"
  shows "subs_ok (s\<lparr>rr_buf := remove_sub c (rr_buf s), rr_held := remove1 c (rr_held s),
                    rr_closing := c # rr_closing s\<rparr>)"
  using assms by (auto simp: subs_ok_def remove_sub_def open_chan_def)

lemma subs_ok_receive:
  assumes "subs_ok s" "receive c (rr_buf s) = Some (line, b)"
  shows "subs_ok (s\<lparr>rr_buf := b, rr_got := (rr_got s)(c := rr_got s c @ [line])\<rparr>)"
proof -
  obtain rest where c: "c < length (rb_chans (rr_buf s))" "ch_buf (rb_chans (rr_buf s) ! c) = line # rest"
    and b: "b = (rr_buf s)\<lparr>rb_chans := (rb_chans (rr_buf s))[c := (rb_chans (rr_buf s) ! c)\<lparr>ch_buf := rest\<rparr>]\<rparr>"
    using assms(2) by (auto simp: receive_def split: if_splits list.splits)
  have "open_chan b d = open_chan (rr_buf s) d" for d
    using c(1) b by (cases "d = c") (auto simp: open_chan_def)
  moreover have "subseq (((rr_got s)(c := rr_got s c @ [line])) d @ ch_buf (rb_chans b ! d)) (rr_out s)
      \<and> length (ch_buf (rb_chans b ! d)) \<le> chan_cap" if "d < length (rb_chans (rr_buf s))" for d
    using assms(1) c b that unfolding subs_ok_def by (cases "d = c") force+
  ultimately show ?thesis using assms(1) c(1) b unfolding subs_ok_def by simp
qed

lemma subs_ok_start: "NewRingBuffer cap = Some b \<Longrightarrow> subs_ok (ring_start b)"
  by (auto simp: subs_ok_def ring_start_def NewRingBuffer_def split: if_splits)

definition ring_inv :: "nat \<Rightarrow> ring_run \<Rightarrow> bool" where
  "ring_inv cap s \<longleftrightarrow> holds_recent cap (rr_hist s) (rr_buf s) \<and> subs_ok s"

lemma holds_recent_same:
  "rb_lines b' = rb_lines b \<Longrightarrow> rb_pos b' = rb_pos b \<Longrightarrow> rb_count b' = rb_count b
   \<Longrightarrow> holds_recent cap hist b' = holds_recent cap hist b"
  by (simp add: holds_recent_def)

lemma ring_inv_step: "ring_step s t \<Longrightarrow> 0 < cap \<Longrightarrow> ring_inv cap s \<Longrightarrow> ring_inv cap t"
proof (induction rule: ring_step.induct)
  case (append p s b)
  then show ?case using write_line_holds [of cap "rr_hist s" "rr_buf s" p]
    by (auto simp: ring_inv_def subs_ok_def open_chan_def)
next
  case (publish p s b)
  then show ?case using publish_ok(2) [of s p b "remove1 p (rr_writing s)"]
    by (auto simp: ring_inv_def holds_recent_def)
next
  case (subscribe s c b)
  then show ?case using subs_ok_subscribe [of s c b]
    by (auto simp: ring_inv_def Subscribe_def Let_def holds_recent_def)
next
  case (leave c s)
  then show ?case using subs_ok_leave [of s c] by (auto simp: ring_inv_def remove_sub_def holds_recent_def)
next
  case (close c s b)
  then show ?case using close_ok(2) [of s c b] by (auto simp: ring_inv_def holds_recent_def)
next
  case (receive c s line b)
  then show ?case using subs_ok_receive [of s c line b]
    by (auto simp: ring_inv_def receive_def holds_recent_def split: if_splits list.splits)
qed

lemma ring_inv_run:
  assumes "NewRingBuffer (int cap) = Some b" "0 < cap" "ring_step\<^sup>*\<^sup>* (ring_start b) s"
  shows "ring_inv cap s"
  using assms(3)
proof (induction rule: rtranclp_induct)
  case base
  show ?case using assms subs_ok_start holds_recent_new by (auto simp: ring_inv_def ring_start_def)
next
  case (step s t)
  then show ?case using assms(2) ring_inv_step by blast
qed


section \<open>Properties\<close>

text \<open>C28. However writers, subscribers and readers interleave on a buffer of positive capacity, a read
  of the last \<open>n\<close> lines returns the last \<open>n\<close> lines written so far, at most as many as the
  capacity: the circular buffer implements the list of recent lines.\<close>

theorem recent_refines_history:
  assumes "NewRingBuffer (int cap) = Some b" "0 < cap" "ring_step\<^sup>*\<^sup>* (ring_start b) s"
  shows "Recent (int n) (rr_buf s) = Some (last_lines (min n cap) (rr_hist s))"
  using ring_inv_run [OF assms] Recent_last assms(2) by (simp add: ring_inv_def)

theorem recent_refines_history_witness:
  "\<exists>b s. NewRingBuffer 2 = Some b \<and> ring_step\<^sup>*\<^sup>* (ring_start b) s \<and> rr_hist s = [''a'', ''b'', ''c'']
     \<and> Recent 5 (rr_buf s) = Some [''b'', ''c'']"
proof -
  define b where "b = the (NewRingBuffer 2)"
  have b: "NewRingBuffer (int 2) = Some b" by (simp add: b_def NewRingBuffer_def)
  define s1 where "s1 = (ring_start b)\<lparr>rr_buf := the (write_line ''a'' b), rr_hist := [''a''], rr_writing := [''a'']\<rparr>"
  define s2 where "s2 = s1\<lparr>rr_buf := the (write_line ''b'' (rr_buf s1)), rr_hist := [''a'', ''b''], rr_writing := [''b'', ''a'']\<rparr>"
  define s3 where "s3 = s2\<lparr>rr_buf := the (write_line ''c'' (rr_buf s2)), rr_hist := [''a'', ''b'', ''c''], rr_writing := [''c'', ''b'', ''a'']\<rparr>"
  note defs = b_def NewRingBuffer_def write_line_def ring_start_def Let_def numeral_2_eq_2
  have "ring_step (ring_start b) s1"
    using ring_step.append [of "''a''" "ring_start b" "rr_buf s1"] by (simp add: s1_def defs)
  moreover have "ring_step s1 s2"
    using ring_step.append [of "''b''" s1 "rr_buf s2"] by (simp add: s2_def s1_def defs)
  moreover have "ring_step s2 s3"
    using ring_step.append [of "''c''" s2 "rr_buf s3"] by (simp add: s3_def s2_def s1_def defs)
  ultimately have r: "ring_step\<^sup>*\<^sup>* (ring_start b) s3" by (meson rtranclp.rtrancl_into_rtrancl rtranclp.rtrancl_refl)
  show ?thesis
    using b r recent_refines_history [OF b _ r, of 5]
    by (intro exI [of _ b] exI [of _ s3]) (simp add: s3_def last_lines_def numeral_2_eq_2)
qed

text \<open>In every such interleaving a writer and a leaving subscriber always complete: a send never
  meets a closed channel and no channel is closed twice. What a subscriber has received is a
  subsequence, in order, of the lines published.\<close>

theorem ring_never_panics:
  assumes "NewRingBuffer (int cap) = Some b" "0 < cap" "ring_step\<^sup>*\<^sup>* (ring_start b) s"
  shows "(\<exists>b'. Write p (rr_buf s) = Some (length p, b'))
       \<and> (\<forall>p. \<exists>b'. publish p (rr_buf s) = Some b')
       \<and> (\<forall>c\<in>set (rr_held s). \<exists>b'. Unsubscribe c (rr_buf s) = Some b')
       \<and> (\<forall>c\<in>set (rr_closing s). \<exists>b'. close_chan c (rr_buf s) = Some b')
       \<and> (\<forall>c. subseq (rr_got s c) (rr_out s))"
proof -
  from ring_inv_run [OF assms] have inv: "holds_recent cap (rr_hist s) (rr_buf s)" "subs_ok s"
    by (auto simp: ring_inv_def)
  obtain b1 where b1: "write_line p (rr_buf s) = Some b1" "rb_subs b1 = rb_subs (rr_buf s)"
      "rb_chans b1 = rb_chans (rr_buf s)"
    using write_line_holds [OF inv(1) assms(2)] by blast
  then have "publish p b1 \<noteq> None" using publish_ok(1) [OF inv(2), of p] by (auto simp: publish_def split: option.splits)
  with b1 have "\<exists>b'. Write p (rr_buf s) = Some (length p, b')" by (auto simp: Write_def)
  moreover have "\<exists>b'. Unsubscribe c (rr_buf s) = Some b'" if "c \<in> set (rr_held s)" for c
  proof -
    have "open_chan (rr_buf s) c" using inv(2) that by (simp add: subs_ok_def)
    then show ?thesis by (simp add: open_chan_def Unsubscribe_def close_chan_def remove_sub_def)
  qed
  moreover have "subseq (rr_got s c) (rr_out s)" for c
  proof (cases "c < length (rb_chans (rr_buf s))")
    case True
    then have "subseq (rr_got s c @ ch_buf (rb_chans (rr_buf s) ! c)) (rr_out s)"
      using inv(2) by (simp add: subs_ok_def)
    then show ?thesis by (meson prefixI prefix_imp_subseq subseq_order.order_trans)
  next
    case False
    then show ?thesis using inv(2) by (simp add: subs_ok_def)
  qed
  ultimately show ?thesis using publish_ok(1) [OF inv(2)] close_ok(1) [OF inv(2)] by blast
qed

theorem ring_never_panics_witness:
  "\<exists>b s. NewRingBuffer 2 = Some b \<and> ring_step\<^sup>*\<^sup>* (ring_start b) s \<and> rr_held s = [0]
     \<and> (\<exists>b'. Unsubscribe 0 (rr_buf s) = Some b')"
proof -
  define b where "b = the (NewRingBuffer 2)"
  have b: "NewRingBuffer (int 2) = Some b" by (simp add: b_def NewRingBuffer_def)
  define s where "s = (ring_start b)\<lparr>rr_buf := snd (Subscribe b), rr_held := [0]\<rparr>"
  have "ring_step (ring_start b) s"
    using ring_step.subscribe [of "ring_start b" 0 "rr_buf s"]
    by (simp add: s_def b_def NewRingBuffer_def Subscribe_def ring_start_def)
  then have r: "ring_step\<^sup>*\<^sup>* (ring_start b) s" by blast
  show ?thesis
    using b r ring_never_panics [OF b _ r] by (intro exI [of _ b] exI [of _ s]) (simp add: s_def)
qed

end
