(* ===== verification/Log_Files.thy ===== *)
theory Log_Files
  imports Go_FS Log_Ring "HOL-Library.Multiset"
begin

text \<open>
  The rest of \<^verbatim>\<open>pkg/glog\<close>: the daily rotation of log files (\<^verbatim>\<open>rotate.go\<close>), the structured event log
  (\<^verbatim>\<open>events.go\<close>) and the category filter and output targets of the logger (\<^verbatim>\<open>glog.go\<close>). The date of
  a call is an argument, formatted as the code does; the file system is the one of \<open>Go_FS\<close>.
\<close>

section \<open>Daily rotation\<close>

text \<open>\<open>rw_file\<close> is the open log file, by its key; errors of the log's own file calls are ignored by the code.\<close>

record rotate_writer =
  rw_file :: "string option"
  rw_base :: string
  rw_date :: string
  rw_max :: int

definition NewDailyRotateWriter :: "string \<Rightarrow> string \<Rightarrow> int \<Rightarrow> fs \<Rightarrow> rotate_writer \<times> fs" where
  "NewDailyRotateWriter today basePath maxFiles F =
     (let n = (if maxFiles \<le> 0 then 10 else maxFiles);
          dir = dir_path basePath;
          F1 = (if dir \<noteq> [] \<and> dir \<noteq> ''.'' then snd (os_MkdirAll F dir) else F);
          w = \<lparr>rw_file = None, rw_base = basePath, rw_date = today, rw_max = n\<rparr>
      in case os_Create False F1 basePath of
           Inl _ \<Rightarrow> (w, F1)
         | Inr (k, F2) \<Rightarrow> (w\<lparr>rw_file := Some k\<rparr>, F2))"

definition rotated_entry :: "string \<Rightarrow> string \<Rightarrow> string \<Rightarrow> string \<times> bool \<Rightarrow> bool" where
  "rotated_entry active pre suf e \<longleftrightarrow>
     \<not> snd e \<and> fst e \<noteq> active \<and> has_prefix (fst e) pre \<and> has_suffix (fst e) suf"

fun remove_files :: "string \<Rightarrow> string list \<Rightarrow> fs \<Rightarrow> fs" where
  "remove_files dir [] F = F"
| "remove_files dir (n # ns) F =
     remove_files dir ns (case os_Remove F (join_path dir n) of Inl _ \<Rightarrow> F | Inr F' \<Rightarrow> F')"

definition cleanup :: "rotate_writer \<Rightarrow> string \<Rightarrow> string \<Rightarrow> fs \<Rightarrow> fs" where
  "cleanup w base ext F =
     (let dir = (if dir_path base = [] then ''.'' else dir_path base) in
      case os_ReadDir F dir of Inl _ \<Rightarrow> F
      | Inr entries \<Rightarrow>
          let rotated = map fst (filter (rotated_entry (base_path (rw_base w)) (base_path base @ ''.'') ext) entries) in
          if int (length rotated) \<le> rw_max w then F
          else remove_files dir (take (nat (int (length rotated) - rw_max w)) (sort rotated)) F)"

definition rotated_name :: "string \<Rightarrow> string \<Rightarrow> string \<Rightarrow> string" where
  "rotated_name base date ext = base @ ''.'' @ date @ ext"

definition rotate_file :: "string \<Rightarrow> rotate_writer \<Rightarrow> fs \<Rightarrow> rotate_writer \<times> fs" where
  "rotate_file today w F =
     (let ext = ext_path (rw_base w);
          base = trim_suffix (rw_base w) ext;
          F1 = (case os_Rename F (rw_base w) (rotated_name base (rw_date w) ext) of Inl _ \<Rightarrow> F | Inr F' \<Rightarrow> F');
          (h, F2) = (case os_Create False F1 (rw_base w) of Inl _ \<Rightarrow> (None, F1) | Inr (k, F') \<Rightarrow> (Some k, F'));
          w' = w\<lparr>rw_file := h, rw_date := today\<rparr>
      in (w', cleanup w' base ext F2))"

definition rotate_write :: "string \<Rightarrow> string \<Rightarrow> rotate_writer \<Rightarrow> fs \<Rightarrow> rotate_writer \<times> fs" where
  "rotate_write today p w F =
     (let (w1, F1) = (if today \<noteq> rw_date w then rotate_file today w F else (w, F)) in
      case rw_file w1 of None \<Rightarrow> (w1, F1) | Some k \<Rightarrow> (w1, file_append k p F1))"


section \<open>Structured events\<close>

text \<open>
  \<open>marshal\<close> is \<^verbatim>\<open>json.Marshal\<close> of a field's value, \<open>quote\<close> that of a string; the fields are in the
  order in which the range statement visits the map.
\<close>

record event_config =
  ec_enabled :: bool
  ec_file :: string
  ec_rotate :: string
  ec_max :: int

datatype event_sink = Rotating rotate_writer | Plain string | NoSink

record event_writer =
  ew_enabled :: bool
  ew_sink :: event_sink
  ew_buf :: "ring_buffer option"
  ew_service :: string

definition eventBufferCap :: int where "eventBufferCap = 500"

definition NewEventWriter :: "string \<Rightarrow> event_config \<Rightarrow> string \<Rightarrow> fs \<Rightarrow> event_writer \<times> fs" where
  "NewEventWriter today cfg service F =
     (if \<not> ec_enabled cfg \<or> ec_file cfg = [] \<or> service = []
      then (\<lparr>ew_enabled = False, ew_sink = NoSink, ew_buf = None, ew_service = []\<rparr>, F)
      else
        let n = (if ec_max cfg \<le> 0 then 14 else ec_max cfg);
            dir = dir_path (ec_file cfg);
            F1 = (if dir \<noteq> [] \<and> dir \<noteq> ''.'' then snd (os_MkdirAll F dir) else F);
            (sink, F2) =
              (if ec_rotate cfg = ''daily''
               then (case NewDailyRotateWriter today (ec_file cfg) n F1 of (w, F') \<Rightarrow> (Rotating w, F'))
               else case os_Create False F1 (ec_file cfg) of Inl _ \<Rightarrow> (NoSink, F1) | Inr (k, F') \<Rightarrow> (Plain k, F'))
        in (\<lparr>ew_enabled = True, ew_sink = sink, ew_buf = NewRingBuffer eventBufferCap, ew_service = service\<rparr>, F2))"

definition writeKV :: "(string \<Rightarrow> string) \<Rightarrow> string \<Rightarrow> string \<Rightarrow> string" where
  "writeKV quote k v = quote k @ '':'' @ quote v"

definition reserved_field :: "string \<Rightarrow> bool" where
  "reserved_field k \<longleftrightarrow> k = ''ts'' \<or> k = ''event'' \<or> k = ''service''"

text \<open>One turn of the range loop: the comma is written before the value is encoded.\<close>

definition event_field :: "(string \<Rightarrow> string) \<Rightarrow> ('v \<Rightarrow> string option) \<Rightarrow> string \<times> 'v \<Rightarrow> string" where
  "event_field quote marshal kv =
     (if reserved_field (fst kv) then []
      else '','' @ (case marshal (snd kv) of None \<Rightarrow> [] | Some v \<Rightarrow> quote (fst kv) @ '':'' @ v))"

definition event_line :: "(string \<Rightarrow> string) \<Rightarrow> ('v \<Rightarrow> string option) \<Rightarrow> string \<Rightarrow> string \<Rightarrow> string \<Rightarrow> (string \<times> 'v) list \<Rightarrow> string" where
  "event_line quote marshal ts event service flds =
     ''{'' @ writeKV quote ''ts'' ts @ '','' @ writeKV quote ''event'' event @ '','' @ writeKV quote ''service'' service
     @ concat (map (event_field quote marshal) flds) @ ''}'' @ [CHR 0x0A]"

definition sink_write :: "string \<Rightarrow> string \<Rightarrow> event_sink \<Rightarrow> fs \<Rightarrow> event_sink \<times> fs" where
  "sink_write today line sink F =
     (case sink of NoSink \<Rightarrow> (NoSink, F)
      | Plain k \<Rightarrow> (Plain k, file_append k line F)
      | Rotating w \<Rightarrow> (case rotate_write today line w F of (w', F') \<Rightarrow> (Rotating w', F')))"

definition Emit :: "(string \<Rightarrow> string) \<Rightarrow> ('v \<Rightarrow> string option) \<Rightarrow> string \<Rightarrow> string \<Rightarrow> string \<Rightarrow> (string \<times> 'v) list
    \<Rightarrow> event_writer \<Rightarrow> fs \<Rightarrow> (event_writer \<times> fs) option" where
  "Emit quote marshal today ts event flds w F =
     (if \<not> ew_enabled w then Some (w, F)
      else
        let line = event_line quote marshal ts event (ew_service w) flds;
            (sink, F1) = sink_write today line (ew_sink w) F;
            w1 = w\<lparr>ew_sink := sink\<rparr>
        in case ew_buf w of None \<Rightarrow> Some (w1, F1)
           | Some b \<Rightarrow> (case Write (trim_right (\<lambda>c. c = CHR 0x0A) line) b of None \<Rightarrow> None
                        | Some (_, b') \<Rightarrow> Some (w1\<lparr>ew_buf := Some b'\<rparr>, F1)))"

definition Tail :: "int \<Rightarrow> event_writer \<Rightarrow> string list option" where
  "Tail n w = (if \<not> ew_enabled w then Some [] else case ew_buf w of None \<Rightarrow> Some [] | Some b \<Rightarrow> Recent n b)"


section \<open>The logger\<close>

definition allCategories :: "string list" where
  "allCategories = [''lifecycle'', ''connection'', ''request'', ''error'', ''debug'']"

record log_config =
  lc_output :: string
  lc_file :: string
  lc_rotate :: string
  lc_max :: int
  lc_categories :: "string list"

datatype log_target = ToRing | ToConsole | ToFile event_sink

record logger =
  lg_enabled :: "string list"
  lg_targets :: "log_target list"
  lg_buf :: ring_buffer

definition New_logger :: "string \<Rightarrow> log_config \<Rightarrow> fs \<Rightarrow> logger \<times> fs" where
  "New_logger today cfg F =
     (let enabled = (if lc_categories cfg = [] then allCategories else lc_categories cfg);
          (sink, F1) =
            (if lc_file cfg = [] then (NoSink, F)
             else if lc_rotate cfg = ''daily'' then
               (case NewDailyRotateWriter today (lc_file cfg) (if lc_max cfg \<le> 0 then 10 else lc_max cfg) F of
                  (w, F') \<Rightarrow> (Rotating w, F'))
             else case os_Create False F (lc_file cfg) of Inl _ \<Rightarrow> (NoSink, F) | Inr (k, F') \<Rightarrow> (Plain k, F'));
          file_target = (if sink = NoSink then [] else [ToFile sink]);
          targets = ToRing # (if lc_output cfg = ''both'' then ToConsole # file_target
                              else if lc_output cfg = ''file'' then file_target
                              else if lc_output cfg = ''disabled'' then []
                              else [ToConsole])
      in (\<lparr>lg_enabled = enabled, lg_targets = targets, lg_buf = the (NewRingBuffer 1000)\<rparr>, F1))"

text \<open>
  \<^verbatim>\<open>io.MultiWriter\<close> stops at the first writer that fails; of the targets only the console can,
  which \<open>console\<close> decides. The result carries what the console printed.
\<close>

fun multi_write :: "(string \<Rightarrow> bool) \<Rightarrow> string \<Rightarrow> string \<Rightarrow> log_target list \<Rightarrow> ring_buffer \<times> fs \<times> string list
    \<Rightarrow> (log_target list \<times> ring_buffer \<times> fs \<times> string list) option" where
  "multi_write console today line [] (b, F, out) = Some ([], b, F, out)"
| "multi_write console today line (t # ts) (b, F, out) =
     (case t of
        ToRing \<Rightarrow> (case Write line b of None \<Rightarrow> None
                   | Some (_, b') \<Rightarrow> map_option (\<lambda>(ts', r). (t # ts', r)) (multi_write console today line ts (b', F, out)))
      | ToConsole \<Rightarrow>
          if console line
          then map_option (\<lambda>(ts', r). (t # ts', r)) (multi_write console today line ts (b, F, out @ [line]))
          else Some (t # ts, b, F, out)
      | ToFile s \<Rightarrow>
          (case sink_write today line s F of (s', F') \<Rightarrow>
             map_option (\<lambda>(ts', r). (ToFile s' # ts', r)) (multi_write console today line ts (b, F', out))))"

text \<open>\<^verbatim>\<open>Log\<close>: \<open>line\<close> is the message as \<^verbatim>\<open>log.Printf\<close> formats it.\<close>

definition Log :: "(string \<Rightarrow> bool) \<Rightarrow> string \<Rightarrow> string \<Rightarrow> string \<Rightarrow> logger \<times> fs \<times> string list \<Rightarrow> (logger \<times> fs \<times> string list) option" where
  "Log console today cat line st =
     (case st of (l, F, out) \<Rightarrow>
        if cat \<in> set (lg_enabled l) then
          (case multi_write console today line (lg_targets l) (lg_buf l, F, out) of None \<Rightarrow> None
           | Some (ts, b, F', out') \<Rightarrow> Some (l\<lparr>lg_targets := ts, lg_buf := b\<rparr>, F', out'))
        else Some (l, F, out))"


section \<open>Names of rotated files\<close>

definition wf_log :: "string list \<Rightarrow> string \<Rightarrow> string \<Rightarrow> bool" where
  "wf_log cs stem ext \<longleftrightarrow> list_all plain_part cs \<and> cs \<noteq> [] \<and> plain_part stem
     \<and> (\<exists>e. ext = CHR ''.'' # e \<and> CHR ''.'' \<notin> set e \<and> CHR ''/'' \<notin> set e)"

definition rot_name :: "string \<Rightarrow> string \<Rightarrow> string \<Rightarrow> bool" where
  "rot_name stem ext n \<longleftrightarrow> n \<noteq> stem @ ext \<and> has_prefix n (stem @ ''.'') \<and> has_suffix n ext"

definition day_name :: "string \<Rightarrow> string \<Rightarrow> string \<Rightarrow> string" where
  "day_name stem ext d = rotated_name stem d ext"

lemma has_suffix_append [simp]: "has_suffix (a @ b) b"
  by (simp add: has_suffix_def)

lemma trim_suffix_append [simp]: "trim_suffix (a @ b) b = a"
  by (simp add: trim_suffix_def)

lemma wf_log_plain: "wf_log cs stem ext \<Longrightarrow> plain_part (stem @ ext)"
  by (auto simp: wf_log_def plain_part_def append_eq_Cons_conv)

lemma ext_path_log: "wf_log cs stem ext \<Longrightarrow> ext_path (entry cs (stem @ ext)) = ext"
proof -
  assume "wf_log cs stem ext"
  then obtain e where e: "ext = CHR ''.'' # e" "CHR ''.'' \<notin> set e" "CHR ''/'' \<notin> set e" "CHR ''/'' \<notin> set stem"
    by (auto simp: wf_log_def plain_part_def)
  have "takeWhile (\<lambda>c. c \<noteq> CHR ''/'') (rev (entry cs (stem @ ext))) = rev e @ CHR ''.'' # rev stem"
  proof -
    have "rev (entry cs (stem @ ext)) = (rev e @ CHR ''.'' # rev stem) @ CHR ''/'' # rev (dir_of cs)"
      using e by (simp add: entry_def)
    moreover have "takeWhile (\<lambda>c. c \<noteq> CHR ''/'') ((rev e @ CHR ''.'' # rev stem) @ CHR ''/'' # rev (dir_of cs))
        = (rev e @ CHR ''.'' # rev stem) @ takeWhile (\<lambda>c. c \<noteq> CHR ''/'') (CHR ''/'' # rev (dir_of cs))"
      using e by (intro takeWhile_append2) auto
    ultimately show ?thesis by simp
  qed
  then show ?thesis using e by (simp add: ext_path_def index_byte_append)
qed

lemma day_name_plain: "wf_log cs stem ext \<Longrightarrow> CHR ''/'' \<notin> set d \<Longrightarrow> plain_part (day_name stem ext d)"
  by (auto simp: wf_log_def plain_part_def day_name_def rotated_name_def append_eq_Cons_conv)

lemma day_name_rot: "wf_log cs stem ext \<Longrightarrow> rot_name stem ext (day_name stem ext d)"
proof -
  have "has_suffix (x @ ext) ext" for x by simp
  from this [of "stem @ ''.'' @ d"] show ?thesis
    using has_prefix_append [of "stem @ ''.''" "d @ ext"]
    by (simp add: rot_name_def day_name_def rotated_name_def)
qed

lemma day_name_inj [simp]: "day_name stem ext d = day_name stem ext d' \<longleftrightarrow> d = d'"
  by (simp add: day_name_def rotated_name_def)

lemma day_name_less:
  assumes "length d = length d'" "d < d'"
  shows "day_name stem ext d < day_name stem ext d'"
proof -
  have "(d @ ext, d' @ ext) \<in> lexord {(u, v). u < v}"
    using assms by (intro lexord_sufI) (auto simp: list_less_def)
  then have "((stem @ ''.'') @ d @ ext, (stem @ ''.'') @ d' @ ext) \<in> lexord {(u, v). u < v}"
    by (rule lexord_append_leftI)
  then show ?thesis by (simp add: list_less_def day_name_def rotated_name_def)
qed

text \<open>Dates in the form of the code are compared as text: of equal length, ascending.\<close>

definition dates_ok :: "string list \<Rightarrow> bool" where
  "dates_ok ds \<longleftrightarrow> sorted_wrt (<) ds \<and> (\<exists>l. \<forall>d\<in>set ds. CHR ''/'' \<notin> set d \<and> length d = l)"

lemma day_names_sorted: "dates_ok ds \<Longrightarrow> sorted_wrt (<) (map (day_name stem ext) ds)"
proof -
  assume ds: "dates_ok ds"
  then have "sorted_wrt (<) ds" by (simp add: dates_ok_def)
  moreover have "day_name stem ext x < day_name stem ext y" if "x \<in> set ds" "y \<in> set ds" "x < y" for x y
    using ds that by (intro day_name_less) (auto simp: dates_ok_def)
  ultimately show ?thesis unfolding sorted_wrt_map by (rule sorted_wrt_mono_rel [rotated])
qed


section \<open>The directory of the log\<close>

definition fs_ok :: "string list \<Rightarrow> string \<Rightarrow> string \<Rightarrow> fs \<Rightarrow> bool" where
  "fs_ok cs stem ext F \<longleftrightarrow> wf_map (fs_files F) \<and> (\<forall>k. mget (fs_files F) k \<noteq> None \<longrightarrow> normal_key k)
     \<and> is_dir_key F (dir_of cs) \<and> fs_denied F = []
     \<and> (\<forall>n. n = stem @ ext \<or> rot_name stem ext n \<longrightarrow> \<not> is_dir_key F (entry cs n))"

text \<open>The files directly in the directory of the log.\<close>

definition files_in :: "string list \<Rightarrow> fs \<Rightarrow> string list" where
  "files_in cs F = filter (\<lambda>f. dir_path f = dir_of cs) (mkeys (fs_files F))"

lemma files_in_iff:
  assumes "wf_log cs stem ext" "fs_ok cs stem ext F"
  shows "k \<in> set (files_in cs F) \<longleftrightarrow> mget (fs_files F) k \<noteq> None \<and> (\<exists>n. plain_part n \<and> k = entry cs n)"
proof -
  have cs: "list_all plain_part cs" "cs \<noteq> []" using assms(1) by (auto simp: wf_log_def)
  have "k \<in> set (mkeys (fs_files F)) \<longleftrightarrow> mget (fs_files F) k \<noteq> None" by (simp add: map_of_eq_None_iff)
  moreover have "mget (fs_files F) k \<noteq> None \<Longrightarrow> normal_key k" using assms(2) by (simp add: fs_ok_def)
  ultimately show ?thesis using dir_path_entry_iff [OF _ cs, of k] by (simp add: files_in_def) blast
qed

lemma base_entry: "plain_part n \<Longrightarrow> base_path (entry cs n) = n"
  using base_path_entry [of n "dir_of cs"] by (simp add: entry_def)

lemma files_in_distinct:
  assumes "wf_log cs stem ext" "fs_ok cs stem ext F"
  shows "distinct (map base_path (files_in cs F))"
proof -
  have "distinct (files_in cs F)" using assms(2) by (simp add: files_in_def fs_ok_def wf_map_def)
  moreover have "inj_on base_path (set (files_in cs F))" using files_in_iff [OF assms] base_entry by (auto intro!: inj_onI)
  ultimately show ?thesis by (simp add: distinct_map)
qed

lemma rotated_mset:
  assumes "wf_log cs stem ext" "fs_ok cs stem ext F"
  obtains es where "os_ReadDir F (dir_of cs) = Inr es"
    "mset (map fst (filter (rotated_entry (stem @ ext) (stem @ ''.'') ext) es)) = mset (filter (rot_name stem ext) (map base_path (files_in cs F)))"
proof -
  let ?P = "rotated_entry (stem @ ext) (stem @ ''.'') ext" and ?files = "map (\<lambda>f. (base_path f, False)) (files_in cs F)"
  define dirs where "dirs = map (\<lambda>d. (base_path d, True)) (filter (\<lambda>d. d \<noteq> dir_of cs \<and> dir_path d = dir_of cs) (fs_dirs F))"
  define es where "es = sort_key fst (dirs @ ?files)"
  have "fs_key F (dir_of cs) = dir_of cs" using assms(1) by (simp add: fs_key_def wf_log_def)
  then have es: "os_ReadDir F (dir_of cs) = Inr es"
    using assms(2) by (simp add: os_ReadDir_def fs_ok_def es_def dirs_def files_in_def Let_def)
  have "filter ?P dirs = []" by (auto simp: dirs_def rotated_entry_def filter_empty_conv)
  then have "filter_mset ?P (mset dirs) = {#}" by (metis mset.simps(1) mset_filter)
  then have "mset (filter ?P es) = mset (filter ?P ?files)" by (simp add: es_def mset_filter)
  also have "filter ?P ?files = map (\<lambda>n. (n, False)) (filter (rot_name stem ext) (map base_path (files_in cs F)))"
    by (simp add: filter_map comp_def rotated_entry_def rot_name_def)
  finally have "image_mset fst (mset (filter ?P es)) =
      image_mset fst (mset (map (\<lambda>n. (n, False)) (filter (rot_name stem ext) (map base_path (files_in cs F)))))" by simp
  then have "mset (map fst (filter ?P es)) = mset (filter (rot_name stem ext) (map base_path (files_in cs F)))"
    by (simp flip: mset_map) (simp add: comp_def)
  then show ?thesis by (rule that [OF es])
qed

text \<open>The rotated files of a directory, as the code lists and sorts them.\<close>

lemma listed_rotated:
  assumes log: "wf_log cs stem ext" and F: "fs_ok cs stem ext F"
    and files: "\<And>n. plain_part n \<Longrightarrow> rot_name stem ext n \<Longrightarrow>
                  mget (fs_files F) (entry cs n) \<noteq> None \<longleftrightarrow> n \<in> set names"
    and names: "sorted_wrt (<) names" "\<And>n. n \<in> set names \<Longrightarrow> plain_part n \<and> rot_name stem ext n"
  shows "\<exists>es. os_ReadDir F (dir_of cs) = Inr es
           \<and> sort (map fst (filter (rotated_entry (stem @ ext) (stem @ ''.'') ext) es)) = names
           \<and> length (filter (rotated_entry (stem @ ext) (stem @ ''.'') ext) es) = length names"
proof -
  let ?P = "rotated_entry (stem @ ext) (stem @ ''.'') ext" and ?here = "files_in cs F"
  note mem = files_in_iff [OF log F]
  obtain es where es: "os_ReadDir F (dir_of cs) = Inr es"
    "mset (map fst (filter ?P es)) = mset (filter (rot_name stem ext) (map base_path ?here))" by (rule rotated_mset [OF log F])
  define xs where "xs = map fst (filter ?P es)"
  have dist: "distinct xs" and set_xs: "set xs = set (filter (rot_name stem ext) (map base_path ?here))"
    using es(2) files_in_distinct [OF log F] unfolding xs_def
    by (metis distinct_filter mset_eq_imp_distinct_iff, metis set_mset_mset)
  have "set xs = set names"
  proof (intro set_eqI iffI)
    fix n assume "n \<in> set xs"
    then obtain k where k: "k \<in> set ?here" "n = base_path k" "rot_name stem ext n" using set_xs by auto
    then have "plain_part n" "mget (fs_files F) (entry cs n) \<noteq> None" using mem [of k] base_entry by auto
    then show "n \<in> set names" using files [of n] k(3) by simp
  next
    fix n assume "n \<in> set names"
    then have n: "mget (fs_files F) (entry cs n) \<noteq> None" "plain_part n" "rot_name stem ext n"
      using files [of n] names(2) [of n] by auto
    then have "n \<in> base_path ` set ?here" using mem base_entry by (metis imageI)
    then show "n \<in> set xs" using set_xs n(3) by simp
  qed
  moreover have "sorted names" "distinct names" using names(1) by (simp_all add: strict_sorted_iff)
  ultimately have "sort xs = names" using dist
    by (intro sorted_distinct_set_unique) simp_all
  moreover from this have "length xs = length names" by (metis length_sort)
  ultimately show ?thesis using es by (auto simp: xs_def)
qed

lemma remove_files_get:
  assumes "list_all plain_part cs" "cs \<noteq> []" "list_all plain_part ns" "fs_denied F = []" "wf_map (fs_files F)"
  shows "mget (fs_files (remove_files (dir_of cs) ns F)) k =
           (if k \<in> entry cs ` set ns then None else mget (fs_files F) k)
       \<and> wf_map (fs_files (remove_files (dir_of cs) ns F))
       \<and> fs_dirs (remove_files (dir_of cs) ns F) = fs_dirs F
       \<and> fs_denied (remove_files (dir_of cs) ns F) = []"
  using assms(3-5)
proof (induction ns arbitrary: F)
  case (Cons n ns)
  then have n: "plain_part n" "list_all plain_part ns" by simp_all
  have j: "fs_key F (join_path (dir_of cs) n) = entry cs n"
  proof -
    have "dir_of cs \<noteq> []" by (simp add: dir_of_def)
    then have "join_path (dir_of cs) n = clean_path (entry cs n)" by (simp add: join_path_def entry_def)
    also have "\<dots> = entry cs n"
      using assms(1,2) n(1) clean_dir_of [of "cs @ [n]"] by (simp add: entry_eq)
    finally show ?thesis using key_entry [OF assms(1,2) n(1)] by (simp add: fs_key_def)
  qed
  define F1 where "F1 = (case os_Remove F (join_path (dir_of cs) n) of Inl _ \<Rightarrow> F | Inr F' \<Rightarrow> F')"
  have F1: "fs_files F1 = mdel (entry cs n) (fs_files F)" "fs_dirs F1 = fs_dirs F" "fs_denied F1 = []"
    using Cons.prems(2) by (auto simp: F1_def os_Remove_def j Let_def delete_id map_of_eq_None_iff)
  have wf: "wf_map (fs_files F1)" using F1 Cons.prems(3) by simp
  show ?case
    using Cons.IH [OF n(2) F1(3) wf] F1 by (auto simp: mget_del simp flip: F1_def)
qed simp

text \<open>After the cleanup exactly the newest rotated files are left, and no other file has changed.\<close>

lemma cleanup_keeps_newest:
  assumes log: "wf_log cs stem ext" and F: "fs_ok cs stem ext F"
    and w: "rw_base w = entry cs (stem @ ext)" "0 < rw_max w"
    and files: "\<And>n. plain_part n \<Longrightarrow> rot_name stem ext n \<Longrightarrow>
                  mget (fs_files F) (entry cs n) \<noteq> None \<longleftrightarrow> n \<in> set names"
    and names: "sorted_wrt (<) names" "\<And>n. n \<in> set names \<Longrightarrow> plain_part n \<and> rot_name stem ext n"
  defines "F' \<equiv> cleanup w (entry cs stem) ext F"
    and "old \<equiv> take (length names - nat (rw_max w)) names"
  shows "mget (fs_files F') k = (if k \<in> entry cs ` set old then None else mget (fs_files F) k)"
    and "fs_ok cs stem ext F'"
proof -
  have cs: "list_all plain_part cs" "cs \<noteq> []" "plain_part stem" using log by (auto simp: wf_log_def)
  have d: "dir_path (entry cs stem) = dir_of cs" "base_path (entry cs stem) = stem"
    "base_path (rw_base w) = stem @ ext" "dir_of cs \<noteq> []"
    using cs dir_path_entry base_path_entry [of stem "dir_of cs"] base_path_entry [of "stem @ ext" "dir_of cs"]
      wf_log_plain [OF log]
    by (simp_all add: entry_def w dir_of_def)
  obtain es where es: "os_ReadDir F (dir_of cs) = Inr es"
      "sort (map fst (filter (rotated_entry (stem @ ext) (stem @ ''.'') ext) es)) = names"
      "length (filter (rotated_entry (stem @ ext) (stem @ ''.'') ext) es) = length names"
    using listed_rotated [OF log F files names] by blast
  have len: "nat (int (length names) - rw_max w) = length names - nat (rw_max w)" using w(2) by linarith
  have F': "F' = (if int (length names) \<le> rw_max w then F else remove_files (dir_of cs) old F)"
    using d es by (simp add: F'_def cleanup_def Let_def old_def len)
  have "list_all plain_part old" using names(2) by (auto simp: old_def list_all_iff dest: in_set_takeD)
  note rem = remove_files_get [OF cs(1,2) this, of F]
  have nil: "old = []" if "int (length names) \<le> rw_max w" using that by (simp add: old_def)
  show "mget (fs_files F') k = (if k \<in> entry cs ` set old then None else mget (fs_files F) k)"
    using rem F nil by (auto simp: F' fs_ok_def)
  show "fs_ok cs stem ext F'"
    using rem F nil by (auto simp: F' fs_ok_def is_dir_key_def)
qed


section \<open>The log by day\<close>

text \<open>
  The abstract log is the list of days with what was written on each, oldest first; the last
  one is the current day. The directory holds the current day under the name of the log and the
  last \<open>rw_max\<close> days before under their dated names.
\<close>

type_synonym day_log = "(string \<times> string) list"

definition day_write :: "string \<Rightarrow> string \<Rightarrow> day_log \<Rightarrow> day_log" where
  "day_write today p days =
     (if today = fst (last days) then butlast days @ [(today, snd (last days) @ p)] else days @ [(today, p)])"

definition day_files :: "string \<Rightarrow> string \<Rightarrow> day_log \<Rightarrow> (string \<times> string) list" where
  "day_files stem ext ds = map (\<lambda>(d, c). (day_name stem ext d, c)) ds"

definition log_rel :: "string list \<Rightarrow> string \<Rightarrow> string \<Rightarrow> rotate_writer \<times> fs \<Rightarrow> day_log \<Rightarrow> bool" where
  "log_rel cs stem ext st days \<longleftrightarrow>
     (case st of (w, F) \<Rightarrow>
       wf_log cs stem ext \<and> fs_ok cs stem ext F
       \<and> rw_base w = entry cs (stem @ ext) \<and> rw_file w = Some (entry cs (stem @ ext)) \<and> 0 < rw_max w
       \<and> days \<noteq> [] \<and> rw_date w = fst (last days) \<and> dates_ok (map fst days)
       \<and> mget (fs_files F) (entry cs (stem @ ext)) = Some (snd (last days))
       \<and> (\<forall>n. plain_part n \<longrightarrow> rot_name stem ext n \<longrightarrow>
             mget (fs_files F) (entry cs n) = map_of (day_files stem ext (last_lines (nat (rw_max w)) (butlast days))) n))"

lemma last_lines_snoc: "last_lines m (xs @ [x]) = last_lines m (last_lines m xs @ [x])"
  by (cases "length xs \<le> m") (auto simp: last_lines_def Suc_diff_le)

lemma map_of_drop:
  "distinct (map fst xs) \<Longrightarrow> map_of (drop k xs) n = (if n \<in> set (take k (map fst xs)) then None else map_of xs n)"
proof (induction xs arbitrary: k)
  case (Cons x xs)
  then show ?case
  proof (cases k)
    case (Suc j)
    then show ?thesis using Cons by (auto simp: map_of_eq_None_iff dest: in_set_takeD)
  qed simp
qed simp

lemma fst_day_files: "map fst (day_files stem ext ds) = map (day_name stem ext) (map fst ds)"
  by (auto simp: day_files_def)

lemma dates_ok_last:
  assumes "dates_ok (map fst (xs @ ys))"
  shows "dates_ok (map fst (last_lines m xs @ ys))"
proof -
  have "last_lines m xs @ ys = drop (length xs - m) (xs @ ys)" by (simp add: last_lines_def)
  moreover have "dates_ok (drop k ds)" if "dates_ok ds" for k ds
    using that by (auto simp: dates_ok_def intro: sorted_wrt_drop dest: in_set_dropD)
  ultimately show ?thesis using assms by (simp only: drop_map [symmetric])
qed

lemma same_day_step:
  assumes "log_rel cs stem ext (w, F) days" "today = rw_date w"
  shows "log_rel cs stem ext (rotate_write today p w F) (day_write today p days)"
proof -
  have "dates_ok (map fst (butlast days) @ [fst (last days)])"
    using assms(1) by (cases days rule: rev_cases) (simp_all add: log_rel_def)
  with assms show ?thesis
  by (auto simp: log_rel_def rotate_write_def day_write_def file_append_def mget_put fs_ok_def
      is_dir_key_def rot_name_def split: if_splits)
qed

text \<open>A write on a later day files the current day under its date before it starts the new one.\<close>

lemma rename_ok:
  assumes log: "wf_log cs stem ext" and F: "fs_ok cs stem ext F" and d: "CHR ''/'' \<notin> set d"
    and c: "mget (fs_files F) (entry cs (stem @ ext)) = Some c"
  shows "\<exists>F1. os_Rename F (entry cs (stem @ ext)) (rotated_name (entry cs stem) d ext) = Inr F1
      \<and> fs_files F1 = mput (entry cs (day_name stem ext d)) c (mdel (entry cs (stem @ ext)) (fs_files F))
      \<and> fs_dirs F1 = fs_dirs F \<and> fs_denied F1 = []"
proof -
  have cs: "list_all plain_part cs" "cs \<noteq> []" using log by (auto simp: wf_log_def)
  have n: "plain_part (day_name stem ext d)" using log d by (rule day_name_plain)
  have r: "rotated_name (entry cs stem) d ext = entry cs (day_name stem ext d)"
    by (simp add: rotated_name_def entry_def day_name_def)
  have "dir_path (entry cs (day_name stem ext d)) = dir_of cs"
    using dir_path_entry [OF cs n] by (simp add: entry_def)
  then show ?thesis
    using F c day_name_rot [OF log, of d] key_entry [OF cs n] key_entry [OF cs wf_log_plain [OF log]]
    by (auto simp: os_Rename_def r fs_key_def Let_def fs_ok_def)
qed

lemma create_ok:
  assumes log: "wf_log cs stem ext" and F: "fs_ok cs stem ext F"
    and c: "mget (fs_files F) (entry cs (stem @ ext)) = None"
  shows "os_Create False F (entry cs (stem @ ext)) =
           Inr (entry cs (stem @ ext), F\<lparr>fs_files := mput (entry cs (stem @ ext)) [] (fs_files F)\<rparr>)"
proof -
  have cs: "list_all plain_part cs" "cs \<noteq> []" using log by (auto simp: wf_log_def)
  note n = wf_log_plain [OF log]
  show ?thesis
    using F c key_entry [OF cs n] dir_path_entry [OF cs n]
    by (auto simp: os_Create_def fs_key_def Let_def fs_ok_def) (simp_all add: entry_def)
qed

lemma fs_ok_put:
  assumes "fs_ok cs stem ext F" "normal_key k" "fs_files F' = mput k v (fs_files F)"
    "fs_dirs F' = fs_dirs F" "fs_denied F' = []"
  shows "fs_ok cs stem ext F'"
  using assms by (auto simp: fs_ok_def mget_put is_dir_key_def)

text \<open>The files after the rename and the opening of the new file.\<close>

lemma reopened_files:
  assumes log: "wf_log cs stem ext" and F: "fs_ok cs stem ext F" and d: "CHR ''/'' \<notin> set d"
    and c: "mget (fs_files F) (entry cs (stem @ ext)) = Some c"
  shows "\<exists>F1 F2. os_Rename F (entry cs (stem @ ext)) (rotated_name (entry cs stem) d ext) = Inr F1
     \<and> os_Create False F1 (entry cs (stem @ ext)) = Inr (entry cs (stem @ ext), F2) \<and> fs_ok cs stem ext F2
     \<and> (\<forall>n. mget (fs_files F2) (entry cs n) =
          (if n = stem @ ext then Some [] else if n = day_name stem ext d then Some c else mget (fs_files F) (entry cs n)))"
proof -
  have cs: "list_all plain_part cs" "cs \<noteq> []" using log by (auto simp: wf_log_def)
  obtain F1 where F1: "os_Rename F (entry cs (stem @ ext)) (rotated_name (entry cs stem) d ext) = Inr F1"
      "fs_files F1 = mput (entry cs (day_name stem ext d)) c (mdel (entry cs (stem @ ext)) (fs_files F))"
      "fs_dirs F1 = fs_dirs F" "fs_denied F1 = []"
    using rename_ok [OF log F d c] by blast
  have neq: "day_name stem ext d \<noteq> stem @ ext" using day_name_rot [OF log] by (auto simp: rot_name_def)
  have ok1: "fs_ok cs stem ext F1"
    using F F1 normal_key_entry [OF cs day_name_plain [OF log d]]
    by (auto simp: fs_ok_def mget_put mget_del is_dir_key_def split: if_splits)
  define F2 where "F2 = F1\<lparr>fs_files := mput (entry cs (stem @ ext)) [] (fs_files F1)\<rparr>"
  have F2: "os_Create False F1 (entry cs (stem @ ext)) = Inr (entry cs (stem @ ext), F2)"
    unfolding F2_def using neq F1(2) by (intro create_ok [OF log ok1]) (simp add: mget_put mget_del)
  have "fs_ok cs stem ext F2"
    using fs_ok_put [OF ok1 normal_key_entry [OF cs wf_log_plain [OF log]], of F2] F1(4) by (simp add: F2_def)
  moreover have "mget (fs_files F2) (entry cs n) =
      (if n = stem @ ext then Some [] else if n = day_name stem ext d then Some c else mget (fs_files F) (entry cs n))" for n
    using neq by (simp add: F2_def F1(2) mget_put mget_del)
  ultimately show ?thesis using F1(1) F2 by blast
qed

text \<open>Adding the current day to the dated files.\<close>

lemma dated_files_add:
  assumes "distinct (map (day_name stem ext) (map fst ds @ [d]))" "rot_name stem ext n"
  shows "(if n = stem @ ext then Some [] else if n = day_name stem ext d then Some c
          else map_of (day_files stem ext ds) n) = map_of (day_files stem ext (ds @ [(d, c)])) n"
proof -
  have "map_of (day_files stem ext ds) (day_name stem ext d) = None"
    using assms(1) by (force simp: map_of_eq_None_iff day_files_def)
  then show ?thesis using assms(2) by (auto simp: day_files_def rot_name_def map_add_def split: option.splits)
qed

lemma kept_days:
  assumes "distinct (map fst (day_files stem ext (last_lines m older @ [(d, c)])))"
  shows "map_of (day_files stem ext (last_lines m (older @ [(d, c)]))) n =
     (if n \<in> set (take (length (last_lines m older @ [(d, c)]) - m) (map fst (day_files stem ext (last_lines m older @ [(d, c)])))) then None
      else map_of (day_files stem ext (last_lines m older @ [(d, c)])) n)"
proof -
  let ?kept = "last_lines m older @ [(d, c)]"
  have "day_files stem ext (last_lines m (older @ [(d, c)])) = drop (length ?kept - m) (day_files stem ext ?kept)"
    by (subst last_lines_snoc) (simp only: last_lines_def day_files_def drop_map)
  then show ?thesis using map_of_drop [OF assms] by simp
qed

lemma rotate_file_days:
  assumes rel: "log_rel cs stem ext (w, F) (older @ [(d, c)])" and dates: "dates_ok (map fst older @ [d])"
  shows "\<exists>F3. rotate_file today w F = (w\<lparr>rw_file := Some (entry cs (stem @ ext)), rw_date := today\<rparr>, F3)
     \<and> fs_ok cs stem ext F3 \<and> mget (fs_files F3) (entry cs (stem @ ext)) = Some []
     \<and> (\<forall>n. plain_part n \<longrightarrow> rot_name stem ext n \<longrightarrow> mget (fs_files F3) (entry cs n)
            = map_of (day_files stem ext (last_lines (nat (rw_max w)) (older @ [(d, c)]))) n)"
proof -
  define m kept w' where "m = nat (rw_max w)" and "kept = last_lines m older @ [(d, c)]"
    and "w' = w\<lparr>rw_file := Some (entry cs (stem @ ext)), rw_date := today\<rparr>"
  define names where "names = map (day_name stem ext) (map fst kept)"
  have log: "wf_log cs stem ext" and F: "fs_ok cs stem ext F" and base: "rw_base w = entry cs (stem @ ext)"
    and w': "rw_base w' = entry cs (stem @ ext)" "0 < rw_max w'" and date: "rw_date w = d"
    and cur: "mget (fs_files F) (entry cs (stem @ ext)) = Some c"
    and old: "\<And>n. plain_part n \<Longrightarrow> rot_name stem ext n \<Longrightarrow>
                mget (fs_files F) (entry cs n) = map_of (day_files stem ext (last_lines m older)) n"
    using rel by (simp_all add: log_rel_def m_def w'_def)
  have d: "CHR ''/'' \<notin> set d" using dates by (auto simp: dates_ok_def)
  obtain F1 F2 where F12: "os_Rename F (entry cs (stem @ ext)) (rotated_name (entry cs stem) d ext) = Inr F1"
      "os_Create False F1 (entry cs (stem @ ext)) = Inr (entry cs (stem @ ext), F2)" "fs_ok cs stem ext F2"
    and files2: "\<And>n. mget (fs_files F2) (entry cs n) =
          (if n = stem @ ext then Some [] else if n = day_name stem ext d then Some c else mget (fs_files F) (entry cs n))"
    using reopened_files [OF log F d cur] by blast
  have dk: "dates_ok (map fst kept)" using dates_ok_last [of older "[(d, c)]" m] dates by (simp add: kept_def)
  have names: "sorted_wrt (<) names" "distinct names" and nfst: "map fst (day_files stem ext kept) = names"
    using day_names_sorted [OF dk] by (simp_all only: names_def fst_day_files) (simp add: strict_sorted_iff)
  have rot: "plain_part n \<and> rot_name stem ext n" if "n \<in> set names" for n
    using that dk day_name_plain [OF log] day_name_rot [OF log] by (auto simp: names_def dates_ok_def)
  have get2: "mget (fs_files F2) (entry cs n) = map_of (day_files stem ext kept) n"
    if "plain_part n" "rot_name stem ext n" for n
    unfolding files2 old [OF that] kept_def
    by (rule dated_files_add) (use that names(2) in \<open>simp_all add: names_def kept_def\<close>)
  have mem2: "mget (fs_files F2) (entry cs n) \<noteq> None \<longleftrightarrow> n \<in> set names"
    if "plain_part n" "rot_name stem ext n" for n
    using get2 [OF that] by (simp add: map_of_eq_None_iff flip: nfst)
  note clean = cleanup_keeps_newest [OF log F12(3) w' mem2 names(1) rot]
  have "trim_suffix (entry cs (stem @ ext)) ext = entry cs stem"
    using trim_suffix_append [of "entry cs stem" ext] by (simp add: entry_def)
  then have r: "rotate_file today w F = (w', cleanup w' (entry cs stem) ext F2)"
    using F12 ext_path_log [OF log] by (simp add: rotate_file_def base date w'_def Let_def)
  have "map_of (day_files stem ext (last_lines m (older @ [(d, c)]))) n =
      (if n \<in> set (take (length names - m) names) then None else map_of (day_files stem ext kept) n)" for n
    using kept_days [of stem ext m older d c n] names(2) nfst by (simp add: names_def kept_def [symmetric])
  moreover have "stem @ ext \<notin> set names" using rot by (auto simp: rot_name_def)
  ultimately show ?thesis
    using r clean get2 files2 [of "stem @ ext"] by (auto simp: w'_def m_def dest: in_set_takeD)
qed

lemma next_day_step:
  assumes rel: "log_rel cs stem ext (w, F) days" and later: "dates_ok (map fst days @ [today])"
  shows "log_rel cs stem ext (rotate_write today p w F) (day_write today p days)"
proof -
  obtain older d c where days: "days = older @ [(d, c)]"
    using rel by (cases days rule: rev_cases) (auto simp: log_rel_def)
  from later have d: "dates_ok (map fst older @ [d])" "rw_date w = d" "today \<noteq> d"
    using rel by (auto simp: days log_rel_def dates_ok_def sorted_wrt_append)
  from rotate_file_days [OF rel [unfolded days] d(1), of today] obtain F3 where
    F3: "rotate_file today w F = (w\<lparr>rw_file := Some (entry cs (stem @ ext)), rw_date := today\<rparr>, F3)"
      "fs_ok cs stem ext F3" "mget (fs_files F3) (entry cs (stem @ ext)) = Some []"
      "\<forall>n. plain_part n \<longrightarrow> rot_name stem ext n \<longrightarrow> mget (fs_files F3) (entry cs n)
            = map_of (day_files stem ext (last_lines (nat (rw_max w)) days)) n"
    unfolding days by blast
  have key: "normal_key (entry cs (stem @ ext))" using F3(2,3) by (simp add: fs_ok_def)
  define F4 where "F4 = file_append (entry cs (stem @ ext)) p F3"
  have F4: "fs_ok cs stem ext F4"
    by (rule fs_ok_put [OF F3(2) key, of _ p]) (use F3(2,3) in \<open>simp_all add: F4_def file_append_def fs_ok_def\<close>)
  have get4: "mget (fs_files F4) (entry cs n) = (if n = stem @ ext then Some p else mget (fs_files F3) (entry cs n))" for n
    using F3(3) by (simp add: F4_def file_append_def mget_put)
  have "rotate_write today p w F = (w\<lparr>rw_file := Some (entry cs (stem @ ext)), rw_date := today\<rparr>, F4)"
    using d F3(1) by (simp add: rotate_write_def F4_def)
  moreover have "day_write today p days = days @ [(today, p)]" using d by (simp add: day_write_def days)
  ultimately show ?thesis
    using rel later F3(4) F4 get4 by (simp add: log_rel_def rot_name_def)
qed

text \<open>A new writer on a directory without rotated files.\<close>

lemma new_writer_rel:
  assumes log: "wf_log cs stem ext" and F: "fs_ok cs stem ext F"
    and fresh: "\<And>n. rot_name stem ext n \<Longrightarrow> mget (fs_files F) (entry cs n) = None"
    and dirs: "snd (os_MkdirAll F (dir_of cs)) = F" and today: "CHR ''/'' \<notin> set today"
  shows "log_rel cs stem ext (NewDailyRotateWriter today (entry cs (stem @ ext)) n F)
           [(today, case mget (fs_files F) (entry cs (stem @ ext)) of None \<Rightarrow> [] | Some c \<Rightarrow> c)]"
proof -
  have cs: "list_all plain_part cs" "cs \<noteq> []" using log by (auto simp: wf_log_def)
  note name = wf_log_plain [OF log]
  have d: "dir_path (entry cs (stem @ ext)) = dir_of cs" "dir_of cs \<noteq> []" "dir_of cs \<noteq> ''.''"
    using dir_path_entry [OF cs name] by (simp_all add: entry_def dir_of_def)
  define F' where "F' = (case mget (fs_files F) (entry cs (stem @ ext)) of
      None \<Rightarrow> F\<lparr>fs_files := mput (entry cs (stem @ ext)) [] (fs_files F)\<rparr> | Some c \<Rightarrow> F)"
  have create: "os_Create False F (entry cs (stem @ ext)) = Inr (entry cs (stem @ ext), F')"
    using F d key_entry [OF cs name] by (auto simp: os_Create_def F'_def fs_ok_def fs_key_def Let_def split: option.splits)
  have "fs_ok cs stem ext F'"
    using F fs_ok_put [OF F normal_key_entry [OF cs name], of F' "[]"] by (auto simp: F'_def fs_ok_def split: option.splits)
  moreover have "mget (fs_files F') (entry cs (stem @ ext)) =
      Some (case mget (fs_files F) (entry cs (stem @ ext)) of None \<Rightarrow> [] | Some c \<Rightarrow> c)"
    by (auto simp: F'_def mget_put split: option.splits)
  moreover have "mget (fs_files F') (entry cs n) = None" if "rot_name stem ext n" for n
    using that fresh [of n] by (auto simp: F'_def mget_put rot_name_def split: option.splits)
  ultimately show ?thesis
    using log today by (simp add: log_rel_def NewDailyRotateWriter_def d dirs create dates_ok_def day_files_def last_lines_def)
qed


section \<open>Properties\<close>

definition log_writes :: "(string \<times> string) list \<Rightarrow> rotate_writer \<times> fs \<Rightarrow> rotate_writer \<times> fs" where
  "log_writes ps st = foldl (\<lambda>(w, F) (today, p). rotate_write today p w F) st ps"

lemma log_writes_rel:
  assumes "log_rel cs stem ext st days"
    "sorted_wrt (\<le>) (map fst days @ map fst ps)" "\<forall>d\<in>set (map fst days @ map fst ps). CHR ''/'' \<notin> set d \<and> length d = l"
  shows "log_rel cs stem ext (log_writes ps st) (foldl (\<lambda>ds (today, p). day_write today p ds) days ps)"
  using assms
proof (induction ps arbitrary: st days)
  case (Cons tp ps)
  obtain today p w F where tp: "tp = (today, p)" "st = (w, F)" by (cases tp; cases st)
  have days: "days \<noteq> []" "rw_date w = fst (last days)" "dates_ok (map fst days)"
    using Cons.prems(1) by (simp_all add: log_rel_def tp)
  have same: "today = fst (last days) \<or> dates_ok (map fst days @ [today])"
  proof -
    have "\<forall>d\<in>set (map fst days). d \<le> today" using Cons.prems(2) by (auto simp: tp sorted_wrt_append)
    moreover have "\<forall>d\<in>set (map fst days). d \<le> fst (last days)"
      using days by (cases days rule: rev_cases) (auto simp: dates_ok_def sorted_wrt_append)
    moreover have "fst (last days) \<le> today" using calculation(1) days(1) by simp
    ultimately show ?thesis using days(3) Cons.prems(3)
      by (auto simp: tp dates_ok_def sorted_wrt_append intro!: le_neq_trans exI [of _ l])
  qed
  have rel: "log_rel cs stem ext (rotate_write today p w F) (day_write today p days)"
    using same same_day_step [of cs stem ext w F days today p] next_day_step [of cs stem ext w F days today p]
      Cons.prems(1) days(2) by (auto simp: tp)
  have "set (map fst (day_write today p days)) \<subseteq> insert today (set (map fst days))"
    by (auto simp: day_write_def dest: in_set_butlastD)
  moreover have "sorted_wrt (\<le>) (map fst (day_write today p days) @ map fst ps)"
    using Cons.prems(2) days(1) by (cases days rule: rev_cases) (auto simp: day_write_def tp sorted_wrt_append)
  ultimately have "log_rel cs stem ext (log_writes ps (rotate_write today p w F))
      (foldl (\<lambda>ds (today, p). day_write today p ds) (day_write today p days) ps)"
    using Cons.prems(3) by (intro Cons.IH [OF rel]) (auto simp: tp)
  then show ?case by (simp add: log_writes_def tp)
qed (simp add: log_writes_def)

lemma day_write_content: "days \<noteq> [] \<Longrightarrow> concat (map snd (day_write d p days)) = concat (map snd days) @ p"
  by (cases days rule: rev_cases) (auto simp: day_write_def)

lemma days_content:
  "days \<noteq> [] \<Longrightarrow> concat (map snd (foldl (\<lambda>ds (today, p). day_write today p ds) days ps))
     = concat (map snd days) @ concat (map snd ps)"
proof (induction ps arbitrary: days)
  case (Cons tp ps)
  have "day_write (fst tp) (snd tp) days \<noteq> []" by (simp add: day_write_def)
  from Cons.IH [OF this] Cons.prems show ?case by (cases tp) (simp add: day_write_content)
qed simp

text \<open>C17. A log with daily rotation on a directory without older rotated files implements a log by day:
  after any sequence of writes whose dates do not go back, the active file holds exactly what was
  written on the last day, the dated files are exactly those of the last \<open>maxFiles\<close> days before
  with their exact content, and the days together hold every byte written, in order.\<close>

theorem daily_log_refines:
  assumes "wf_log cs stem ext" "fs_ok cs stem ext F" "os_MkdirAll F (dir_of cs) = (None, F)"
    "\<And>n. rot_name stem ext n \<Longrightarrow> mget (fs_files F) (entry cs n) = None"
    "mget (fs_files F) (entry cs (stem @ ext)) = Some c0"
    "sorted_wrt (\<le>) (today # map fst ps)" "\<forall>d\<in>set (today # map fst ps). CHR ''/'' \<notin> set d \<and> length d = l"
    "log_writes ps (NewDailyRotateWriter today (entry cs (stem @ ext)) maxFiles F) = (w, F')"
    "days = foldl (\<lambda>ds (d, p). day_write d p ds) [(today, c0)] ps"
  shows "mget (fs_files F') (entry cs (stem @ ext)) = Some (snd (last days))
       \<and> (\<forall>n. plain_part n \<longrightarrow> rot_name stem ext n \<longrightarrow> mget (fs_files F') (entry cs n)
             = map_of (day_files stem ext (last_lines (nat (if maxFiles \<le> 0 then 10 else maxFiles)) (butlast days))) n)
       \<and> concat (map snd days) = c0 @ concat (map snd ps)"
proof -
  let ?st = "NewDailyRotateWriter today (entry cs (stem @ ext)) maxFiles F"
  have "log_rel cs stem ext ?st [(today, c0)]"
    using new_writer_rel [OF assms(1,2,4), of today maxFiles] assms(3,5,7) by simp
  then have rel: "log_rel cs stem ext (w, F') days"
    using log_writes_rel [of cs stem ext ?st "[(today, c0)]" ps l] assms(6-9) by simp
  have max: "rw_max (fst (log_writes ps st)) = rw_max (fst st)" for st
    unfolding log_writes_def
    by (induction ps arbitrary: st)
      (auto simp: rotate_write_def rotate_file_def Let_def split: prod.splits option.splits sum.splits if_splits)
  have "rw_max w = (if maxFiles \<le> 0 then 10 else maxFiles)"
    using max [of ?st] assms(8)
    by (auto simp: NewDailyRotateWriter_def Let_def split: sum.splits)
  then show ?thesis using rel days_content [of "[(today, c0)]" ps] assms(9) by (simp add: log_rel_def)
qed

definition toy_logs :: fs where
  "toy_logs = \<lparr>fs_cwd = ''/'', fs_dirs = [''/logs''], fs_files = [(''/logs/a.log'', ''0'')], fs_denied = []\<rparr>"

theorem daily_log_refines_witness:
  "mget (fs_files (snd (log_writes [(''2026-01-01'', ''1''), (''2026-01-02'', ''2''), (''2026-01-03'', ''3'')]
     (NewDailyRotateWriter ''2026-01-01'' ''/logs/a.log'' 1 toy_logs)))) ''/logs/a.log'' = Some ''3''"
proof -
  have e: "entry [''logs''] n = ''/logs/'' @ n" for n by (simp add: entry_def dir_of_def)
  have 1: "wf_log [''logs''] ''a'' ''.log''" by (simp add: wf_log_def plain_part_def)
  have 2: "fs_ok [''logs''] ''a'' ''.log'' toy_logs"
    unfolding fs_ok_def
    by (auto simp: toy_logs_def is_dir_key_def e dir_of_def wf_map_def normal_key_def plain_part_def
        intro!: exI [of _ "[''logs'', ''a.log'']"])
  have 3: "os_MkdirAll toy_logs (dir_of [''logs'']) = (None, toy_logs)" by code_simp
  have 4: "mget (fs_files toy_logs) (entry [''logs''] n) = None" if "rot_name ''a'' ''.log'' n" for n
    using that by (auto simp: toy_logs_def e rot_name_def)
  define ps where "ps = [(''2026-01-01'', ''1''), (''2026-01-02'', ''2''), (''2026-01-03'', ''3'')]"
  have 5: "mget (fs_files toy_logs) (entry [''logs''] (''a'' @ ''.log'')) = Some ''0''" by (simp add: toy_logs_def e)
  have 6: "sorted_wrt (\<le>) (''2026-01-01'' # map fst ps)" unfolding ps_def by code_simp
  have 7: "\<forall>d\<in>set (''2026-01-01'' # map fst ps). CHR ''/'' \<notin> set d \<and> length d = 10" by (simp add: ps_def)
  have 8: "foldl (\<lambda>ds (d, p). day_write d p ds) [(''2026-01-01'', ''0'')] ps
      = [(''2026-01-01'', ''01''), (''2026-01-02'', ''2''), (''2026-01-03'', ''3'')]"
    by (simp add: ps_def day_write_def)
  obtain w F' where 9: "log_writes ps (NewDailyRotateWriter ''2026-01-01'' (entry [''logs''] (''a'' @ ''.log'')) 1 toy_logs) = (w, F')"
    by fastforce
  from daily_log_refines [OF 1 2 3 4 5 6 7 9 8 [symmetric]] 9 show ?thesis by (simp add: e ps_def)
qed

text \<open>The event log: what is emitted can be read back with \<^verbatim>\<open>Tail\<close>.\<close>

lemma emit_recent:
  assumes "ew_enabled w" "ew_buf w = Some b" "rb_subs b = []" "holds_recent 500 hist b"
  shows "\<exists>w' F' b'. Emit quote marshal today ts ev flds w F = Some (w', F') \<and> ew_enabled w' \<and> ew_buf w' = Some b'
     \<and> ew_service w' = ew_service w \<and> rb_subs b' = []
     \<and> holds_recent 500 (hist @ [trim_right (\<lambda>c. c = CHR 0x0A) (event_line quote marshal ts ev (ew_service w) flds)]) b'"
proof -
  let ?line = "trim_right (\<lambda>c. c = CHR 0x0A) (event_line quote marshal ts ev (ew_service w) flds)"
  obtain b' where b': "write_line ?line b = Some b'" "holds_recent 500 (hist @ [?line]) b'"
      "rb_subs b' = rb_subs b" "rb_chans b' = rb_chans b"
    using write_line_holds [OF assms(4), of ?line] by auto
  then have "Write ?line b = Some (length ?line, b')"
    using assms(3) by (simp add: Write_def publish_def)
  then show ?thesis using assms(1-3) b' by (auto simp: Emit_def split: prod.splits)
qed

definition emit_run :: "(string \<Rightarrow> string) \<Rightarrow> ('v \<Rightarrow> string option) \<Rightarrow> (string \<times> string \<times> string \<times> (string \<times> 'v) list) list
    \<Rightarrow> event_writer \<times> fs \<Rightarrow> (event_writer \<times> fs) option" where
  "emit_run quote marshal evs st =
     foldl (\<lambda>r (today, ts, ev, flds). case r of None \<Rightarrow> None | Some (w, F) \<Rightarrow> Emit quote marshal today ts ev flds w F)
       (Some st) evs"

text \<open>An enabled event writer never fails, and its tail is the last lines emitted, at most five
  hundred, without their newline.\<close>

theorem emitted_events_in_tail:
  assumes "NewEventWriter today cfg service F = (w, F0)" "ec_enabled cfg" "ec_file cfg \<noteq> []" "service \<noteq> []"
  shows "\<exists>w' F'. emit_run quote marshal evs (w, F0) = Some (w', F')
     \<and> Tail (int n) w' = Some (last_lines (min n 500)
          (map (\<lambda>(_, ts, ev, flds). trim_right (\<lambda>c. c = CHR 0x0A) (event_line quote marshal ts ev service flds)) evs))"
proof -
  let ?l = "\<lambda>(_, ts, ev, flds). trim_right (\<lambda>c. c = CHR 0x0A) (event_line quote marshal ts ev service flds)"
  have "\<exists>w' F' b'. emit_run quote marshal evs (w, F0) = Some (w', F') \<and> ew_enabled w' \<and> ew_buf w' = Some b'
      \<and> ew_service w' = service \<and> rb_subs b' = [] \<and> holds_recent 500 (map ?l evs) b'" (is "?R evs")
  proof (induction evs rule: rev_induct)
    case Nil
    obtain b where b: "NewRingBuffer (int 500) = Some b" "rb_subs b = []" by (simp add: NewRingBuffer_def)
    have "ew_enabled w" "ew_buf w = Some b" "ew_service w = service"
      using assms b by (auto simp: NewEventWriter_def eventBufferCap_def Let_def split: prod.splits)
    with b holds_recent_new [of 500 b] show ?case by (simp add: emit_run_def)
  next
    case (snoc e evs)
    then obtain w1 F1 b1 where 1: "emit_run quote marshal evs (w, F0) = Some (w1, F1)" "ew_enabled w1"
        "ew_buf w1 = Some b1" "ew_service w1 = service" "rb_subs b1 = []" "holds_recent 500 (map ?l evs) b1"
      by blast
    obtain d ts ev flds where e: "e = (d, ts, ev, flds)" by (cases e)
    show ?case using emit_recent [OF 1(2,3,5,6), of quote marshal d ts ev flds F1] 1 by (simp add: emit_run_def e)
  qed
  then obtain w' F' b' where "emit_run quote marshal evs (w, F0) = Some (w', F')" "ew_enabled w'" "ew_buf w' = Some b'"
      "holds_recent 500 (map ?l evs) b'" by blast
  then show ?thesis using Recent_last [of 500 "map ?l evs" b' n] by (simp add: Tail_def)
qed

theorem emitted_events_in_tail_witness:
  "\<exists>w' F'. emit_run (\<lambda>s. ''q'' @ s) (\<lambda>v. Some v) [(''d'', ''t'', ''e'', [(''k'', ''v'')])]
        (NewEventWriter ''d'' \<lparr>ec_enabled = True, ec_file = ''/logs/e'', ec_rotate = [], ec_max = 0\<rparr> ''s'' toy_logs) = Some (w', F')
     \<and> Tail 3 w' = Some [''{qts:qt,qevent:qe,qservice:qs,qk:v}'']"
proof -
  obtain w F0 where n: "NewEventWriter ''d'' \<lparr>ec_enabled = True, ec_file = ''/logs/e'', ec_rotate = [], ec_max = 0\<rparr> ''s'' toy_logs = (w, F0)"
    by fastforce
  from emitted_events_in_tail [OF n, of "\<lambda>s. ''q'' @ s" "\<lambda>v. Some v" "[(''d'', ''t'', ''e'', [(''k'', ''v'')])]" 3]
  show ?thesis
    by (simp add: n last_lines_def event_line_def writeKV_def event_field_def reserved_field_def trim_right_def)
qed

text \<open>A field whose value cannot be encoded leaves its comma behind: the line is not JSON.\<close>

theorem event_dangling_comma:
  assumes "marshal v = None" "\<not> reserved_field k"
  shows "event_line quote marshal ts ev service [(k, v)]
       = ''{'' @ writeKV quote ''ts'' ts @ '','' @ writeKV quote ''event'' ev @ '','' @ writeKV quote ''service'' service
         @ '',}'' @ [CHR 0x0A]"
  using assms by (simp add: event_line_def event_field_def)

end
