(* ===== verification/Market_Schema.thy ===== *)
theory Market_Schema
  imports Market_Store
begin

text \<open>
  The tables of the market: \<^verbatim>\<open>migrate\<close> of \<^verbatim>\<open>pkg/market/sqlstore.go\<close>, which runs a list of \<^verbatim>\<open>CREATE ... IF NOT EXISTS\<close> statements
  at every start, in the dialect of SQLite or MySQL. A statement is a value of a datatype; the catalog of a database says
  by which statement each table and index was made. The last section ties the schema to the rows of \<open>Market_Store\<close>.
\<close>

section \<open>Statements\<close>

datatype sql_type =
    T_Bigint | T_Integer | T_Int | T_Char nat | T_Varchar nat | T_Decimal nat nat | T_Datetime | T_Mediumtext | T_Text | T_Real

record column =
  c_name :: string
  c_type :: sql_type
  c_auto :: bool
  c_not_null :: bool
  c_unique :: bool
  c_default :: "string option"

text \<open>A table with its columns, the unique keys over several columns and, in MySQL, the indexes; or an index.\<close>

datatype ddl =
    CreateTable string "column list" "string list list" "(string \<times> string list) list"
  | CreateIndex string string "string list"

definition nullable :: "string \<Rightarrow> sql_type \<Rightarrow> column" where
  "nullable n t = \<lparr>c_name = n, c_type = t, c_auto = False, c_not_null = False, c_unique = False, c_default = None\<rparr>"

definition required :: "string \<Rightarrow> sql_type \<Rightarrow> column" where
  "required n t = (nullable n t)\<lparr>c_not_null := True\<rparr>"

definition auto_id :: "sql_type \<Rightarrow> column" where
  "auto_id t = (nullable ''id'' t)\<lparr>c_auto := True\<rparr>"

definition with_default :: "string \<Rightarrow> column \<Rightarrow> column" where
  "with_default d c = c\<lparr>c_default := Some d\<rparr>"

definition unique_col :: "column \<Rightarrow> column" where
  "unique_col c = c\<lparr>c_unique := True\<rparr>"

definition quoted :: "string \<Rightarrow> string" where
  "quoted s = CHR 0x27 # s @ [CHR 0x27]"

definition sqlite_now :: string where
  "sqlite_now = ''(datetime('' @ quoted ''now'' @ ''))''"

definition mysql_schema :: "ddl list" where
  "mysql_schema =
     [CreateTable ''authors''
        [auto_id T_Bigint,
         unique_col (required ''eoa'' (T_Char 42)),
         unique_col (nullable ''handle'' (T_Varchar 39)),
         with_default (quoted []) (nullable ''display_name'' (T_Varchar 100)),
         required ''created_at'' T_Datetime] [] [],
      CreateTable ''assets''
        [auto_id T_Bigint,
         required ''type'' (T_Varchar 16),
         required ''author_id'' T_Bigint,
         required ''name'' (T_Varchar 100),
         with_default (quoted []) (nullable ''latest_version'' (T_Varchar 32)),
         with_default (quoted []) (nullable ''summary'' (T_Varchar 255)),
         with_default (quoted []) (nullable ''license'' (T_Varchar 64)),
         with_default (quoted []) (nullable ''min_isann'' (T_Varchar 16)),
         with_default (quoted []) (nullable ''tags'' (T_Varchar 512)),
         with_default (quoted ''private'') (required ''visibility'' (T_Varchar 8)),
         with_default (quoted ''0'') (required ''price'' (T_Varchar 32)),
         nullable ''token'' (T_Varchar 64),
         with_default ''0'' (required ''downloads'' T_Bigint),
         nullable ''avg_rating'' (T_Decimal 3 2),
         with_default ''0'' (required ''review_count'' T_Int),
         required ''created_at'' T_Datetime,
         required ''updated_at'' T_Datetime]
        [[''type'', ''author_id'', ''name'']] [(''idx_type'', [''type'']), (''idx_author'', [''author_id''])],
      CreateTable ''asset_versions''
        [auto_id T_Bigint,
         required ''asset_id'' T_Bigint,
         required ''version'' (T_Varchar 32),
         required ''sha256'' (T_Char 64),
         required ''recipe_body'' T_Mediumtext,
         required ''created_at'' T_Datetime]
        [[''asset_id'', ''version'']] []]"

definition sqlite_schema :: "ddl list" where
  "sqlite_schema =
     [CreateTable ''authors''
        [auto_id T_Integer,
         unique_col (required ''eoa'' T_Text),
         unique_col (nullable ''handle'' T_Text),
         with_default (quoted []) (nullable ''display_name'' T_Text),
         with_default sqlite_now (required ''created_at'' T_Text)] [] [],
      CreateTable ''assets''
        [auto_id T_Integer,
         required ''type'' T_Text,
         required ''author_id'' T_Integer,
         required ''name'' T_Text,
         with_default (quoted []) (nullable ''latest_version'' T_Text),
         with_default (quoted []) (nullable ''summary'' T_Text),
         with_default (quoted []) (nullable ''license'' T_Text),
         with_default (quoted []) (nullable ''min_isann'' T_Text),
         with_default (quoted []) (nullable ''tags'' T_Text),
         with_default (quoted ''private'') (required ''visibility'' T_Text),
         with_default (quoted ''0'') (required ''price'' T_Text),
         nullable ''token'' T_Text,
         with_default ''0'' (required ''downloads'' T_Integer),
         nullable ''avg_rating'' T_Real,
         with_default ''0'' (required ''review_count'' T_Integer),
         with_default sqlite_now (required ''created_at'' T_Text),
         with_default sqlite_now (required ''updated_at'' T_Text)]
        [[''type'', ''author_id'', ''name'']] [],
      CreateIndex ''idx_assets_type'' ''assets'' [''type''],
      CreateIndex ''idx_assets_author'' ''assets'' [''author_id''],
      CreateTable ''asset_versions''
        [auto_id T_Integer,
         required ''asset_id'' T_Integer,
         required ''version'' T_Text,
         required ''sha256'' T_Text,
         required ''recipe_body'' T_Text,
         with_default sqlite_now (required ''created_at'' T_Text)]
        [[''asset_id'', ''version'']] []]"

definition schema :: "string \<Rightarrow> ddl list" where
  "schema driver = (if driver = ''mysql'' then mysql_schema else sqlite_schema)"


section \<open>Running them\<close>

type_synonym catalog = "(string, ddl) gomap"

primrec ddl_name :: "ddl \<Rightarrow> string" where
  "ddl_name (CreateTable t cols keys idx) = t"
| "ddl_name (CreateIndex i t cols) = i"

text \<open>\<^verbatim>\<open>IF NOT EXISTS\<close>: what is there stays as it is, whatever the statement says.\<close>

definition exec_ddl :: "ddl \<Rightarrow> catalog \<Rightarrow> catalog" where
  "exec_ddl s C = (if mget C (ddl_name s) = None then mput (ddl_name s) s C else C)"

text \<open>The loop of \<^verbatim>\<open>migrate\<close>; \<open>ok\<close> tells which statements the database takes. It stops at the first that fails.\<close>

fun run_ddl :: "(ddl \<Rightarrow> bool) \<Rightarrow> ddl list \<Rightarrow> catalog \<Rightarrow> bool \<times> catalog" where
  "run_ddl ok [] C = (True, C)"
| "run_ddl ok (s # ss) C = (if ok s then run_ddl ok ss (exec_ddl s C) else (False, C))"

definition migrate_tables :: "(ddl \<Rightarrow> bool) \<Rightarrow> string \<Rightarrow> catalog \<Rightarrow> bool \<times> catalog" where
  "migrate_tables ok driver C = run_ddl ok (schema driver) C"

lemma mget_exec_ddl:
  "mget (exec_ddl s C) n = (case mget C n of Some d \<Rightarrow> Some d | None \<Rightarrow> if n = ddl_name s then Some s else None)"
  by (auto simp: exec_ddl_def mget_put split: option.split)

lemma mget_fold_ddl:
  "mget (fold exec_ddl ss C) n = (case mget C n of Some d \<Rightarrow> Some d | None \<Rightarrow> find (\<lambda>s. ddl_name s = n) ss)"
  by (induction ss arbitrary: C) (auto simp: mget_exec_ddl split: option.split)

lemma run_ddl_takes:
  "\<exists>k. snd (run_ddl ok ss C) = fold exec_ddl (take k ss) C \<and> (fst (run_ddl ok ss C) \<longrightarrow> k = length ss)"
proof (induction ok ss C rule: run_ddl.induct)
  case (2 ok s ss C)
  then show ?case
  proof (cases "ok s")
    case True
    from 2 [OF True] obtain k where "snd (run_ddl ok ss (exec_ddl s C)) = fold exec_ddl (take k ss) (exec_ddl s C)"
      "fst (run_ddl ok ss (exec_ddl s C)) \<longrightarrow> k = length ss" by blast
    then show ?thesis using True by (intro exI [of _ "Suc k"]) simp
  qed (auto intro: exI [of _ 0])
qed simp

lemma exec_ddl_same: "mget C (ddl_name s) \<noteq> None \<Longrightarrow> exec_ddl s C = C"
  by (auto simp: exec_ddl_def)

lemma fold_ddl_same: "\<forall>s\<in>set ss. mget C (ddl_name s) \<noteq> None \<Longrightarrow> fold exec_ddl ss C = C"
  by (induction ss) (simp_all add: exec_ddl_same)

lemma made_by_fold: "s \<in> set ss \<Longrightarrow> mget (fold exec_ddl ss C) (ddl_name s) \<noteq> None"
  using find_None_iff [of "\<lambda>x. ddl_name x = ddl_name s" ss] by (auto simp: mget_fold_ddl split: option.split)

text \<open>Running a prefix first changes nothing of what a whole run makes.\<close>

lemma resume_ddl: "fold exec_ddl ss (fold exec_ddl (take k ss) C) = fold exec_ddl ss C"
proof -
  let ?C = "fold exec_ddl (take k ss) C"
  have "fold exec_ddl (take k ss) ?C = ?C" by (intro fold_ddl_same ballI made_by_fold)
  then have "fold exec_ddl (take k ss @ drop k ss) ?C = fold exec_ddl (take k ss @ drop k ss) C" by (simp only: fold_append comp_apply)
  then show ?thesis by simp
qed

lemma interrupted_migrations:
  "fold exec_ddl (schema d) (fold (\<lambda>ok C. snd (migrate_tables ok d C)) oks C) = fold exec_ddl (schema d) C"
proof (induction oks arbitrary: C)
  case (Cons ok oks)
  obtain k where "snd (migrate_tables ok d C) = fold exec_ddl (take k (schema d)) C"
    using run_ddl_takes [of ok "schema d" C] by (auto simp: migrate_tables_def)
  then show ?case using Cons by (simp add: resume_ddl)
qed simp

lemma run_ddl_all: "fst (run_ddl ok ss C) \<Longrightarrow> snd (run_ddl ok ss C) = fold exec_ddl ss C"
  using run_ddl_takes [of ok ss C] by auto

lemma migrated_tables: "migrate_tables ok d C = (True, C') \<Longrightarrow> s \<in> set (schema d) \<Longrightarrow> mget C' (ddl_name s) \<noteq> None"
  using run_ddl_all [of ok "schema d" C] made_by_fold [of s "schema d" C] by (simp add: migrate_tables_def)


section \<open>The rows and the schema\<close>

datatype cell = Null | Num int | Str string | Rat rat

fun opt_cell :: "('a \<Rightarrow> cell) \<Rightarrow> 'a option \<Rightarrow> cell" where
  "opt_cell f None = Null"
| "opt_cell f (Some x) = f x"

text \<open>The columns that the store writes; the others (the identifier of a version, the display name and the number of
  reviews) are left to the database and to their defaults.\<close>

definition author_cells :: "author_row \<Rightarrow> (string \<times> cell) list" where
  "author_cells au =
     [(''id'', Num (int (au_id au))), (''eoa'', Str (au_eoa au)), (''handle'', opt_cell Str (au_handle au)), (''created_at'', Num (au_created au))]"

definition asset_cells :: "asset_row \<Rightarrow> (string \<times> cell) list" where
  "asset_cells a =
     [(''id'', Num (int (as_id a))), (''type'', Str (as_type a)), (''author_id'', Num (int (as_author_id a))), (''name'', Str (as_name a)),
      (''latest_version'', Str (as_latest a)), (''summary'', Str (as_summary a)), (''license'', Str (as_license a)),
      (''min_isann'', Str (as_min_isann a)), (''tags'', Str (as_tags a)), (''visibility'', Str (as_visibility a)), (''price'', Str (as_price a)),
      (''token'', opt_cell Str (as_token a)), (''downloads'', Num (as_downloads a)), (''avg_rating'', opt_cell Rat (as_rating a)),
      (''created_at'', Num (as_created a)), (''updated_at'', Num (as_updated a))]"

definition version_cells :: "version_row \<Rightarrow> (string \<times> cell) list" where
  "version_cells v =
     [(''asset_id'', Num (int (vr_asset_id v))), (''version'', Str (vr_version v)), (''sha256'', Str (vr_sha256 v)),
      (''recipe_body'', Str (vr_body v)), (''created_at'', Num (vr_created v))]"

definition table_rows :: "market_db \<Rightarrow> string \<Rightarrow> (string \<times> cell) list list" where
  "table_rows db t =
     (if t = ''authors'' then map author_cells (db_authors db)
      else if t = ''assets'' then map asset_cells (db_assets db)
      else if t = ''asset_versions'' then map version_cells (db_versions db) else [])"

text \<open>The value of a column of a row: what was written, or the default, which is not \<^const>\<open>Null\<close>.\<close>

definition has_value :: "column \<Rightarrow> (string \<times> cell) list \<Rightarrow> bool" where
  "has_value c row \<longleftrightarrow> (case map_of row (c_name c) of Some v \<Rightarrow> v \<noteq> Null | None \<Rightarrow> c_auto c \<or> c_default c \<noteq> None)"

text \<open>Rows with a null in the key do not clash.\<close>

definition key_holds :: "string list \<Rightarrow> (string \<times> cell) list list \<Rightarrow> bool" where
  "key_holds ks rows \<longleftrightarrow> distinct (filter (\<lambda>v. Some Null \<notin> set v) (map (\<lambda>row. map (map_of row) ks) rows))"

fun obeys :: "ddl \<Rightarrow> market_db \<Rightarrow> bool" where
  "obeys (CreateTable t cols keys idx) db \<longleftrightarrow>
     (\<forall>row\<in>set (table_rows db t).
        set (map fst row) \<subseteq> set (map c_name cols) \<and> (\<forall>c\<in>set cols. c_not_null c \<longrightarrow> has_value c row)) \<and>
     (\<forall>ks\<in>set (keys @ map (\<lambda>c. [c_name c]) (filter c_unique cols)). key_holds ks (table_rows db t))"
| "obeys (CreateIndex i t cols) db \<longleftrightarrow> True"

definition no_handles :: "market_db \<Rightarrow> bool" where
  "no_handles db \<longleftrightarrow> (\<forall>au\<in>set (db_authors db). au_handle au = None)"

lemma authorID_handles: "no_handles db \<Longrightarrow> no_handles (snd (authorID now e db))"
  by (auto simp: no_handles_def authorID_def Let_def split: option.split)

lemma same_authors [simp]:
  "db_authors (snd (assetID now au inp db)) = db_authors db" "db_authors (refreshLatest now aid m db) = db_authors db"
  by (simp_all add: assetID_def refreshLatest_def update_asset_def Let_def split: option.split)

lemma put_authors: "db_authors (snd (PutAsset now inp db)) = db_authors (snd (authorID now (pi_author inp) db))"
proof -
  obtain au db1 where a: "authorID now (pi_author inp) db = (au, db1)" by fastforce
  obtain aid db2 where b: "assetID now au inp db1 = (aid, db2)" by fastforce
  have "db_authors db2 = db_authors db1" using same_authors(1) [of now au inp db1] b by simp
  then show ?thesis using a b by (simp add: PutAsset_def Let_def)
qed

lemma put_handles: "no_handles db \<Longrightarrow> no_handles (snd (PutAsset now inp db))"
  using authorID_handles [of db now "pi_author inp"] by (simp add: no_handles_def put_authors)

lemma rewritten_handles: "rewritten db db' \<Longrightarrow> no_handles db' = no_handles db"
  by (auto simp: rewritten_def update_asset_def no_handles_def)

lemma exec_handles: "op_ok op \<Longrightarrow> no_handles db \<Longrightarrow> no_handles (store_exec op db)"
proof (induction op db rule: store_exec.induct)
  case (5 now t e n db)
  have "db_authors (snd (DeleteAsset t e n db)) = db_authors db" by (simp add: DeleteAsset_def split: option.split)
  then show ?case using 5 by (simp add: no_handles_def)
qed (use put_handles in \<open>auto simp: rewritten_handles [OF rewritten_ops(1)] rewritten_handles [OF rewritten_ops(2)]
       rewritten_handles [OF rewritten_ops(3)] rewritten_handles [OF rewritten_ops(4)]\<close>)

text \<open>A key whose columns are all written, and not null, by a function \<open>f\<close> of the row holds when \<open>f\<close> separates the rows.\<close>

lemma key_holdsI:
  assumes "distinct (map f rs)" "\<And>r r'. map (map_of (cells r)) ks = map (map_of (cells r')) ks \<Longrightarrow> f r = f r'"
  shows "key_holds ks (map cells rs)"
proof -
  have "distinct (map (\<lambda>row. map (map_of row) ks) (map cells rs))"
    using assms by (auto simp: distinct_map inj_on_def)
  then show ?thesis unfolding key_holds_def by (rule distinct_filter)
qed

lemma key_holds_null: "(\<And>row. row \<in> set rows \<Longrightarrow> map_of row k = Some Null) \<Longrightarrow> key_holds [k] rows"
  by (auto simp: key_holds_def filter_empty_conv)

lemma authors_obey:
  assumes "db_inv db" "no_handles db"
  shows "key_holds [''eoa''] (table_rows db ''authors'')" "key_holds [''handle''] (table_rows db ''authors'')"
proof -
  have "distinct (map au_eoa (db_authors db))" using assms(1) by (simp add: db_inv_def db_keys_def)
  then show "key_holds [''eoa''] (table_rows db ''authors'')"
    unfolding table_rows_def if_P [OF refl] by (rule key_holdsI) (simp add: author_cells_def)
  show "key_holds [''handle''] (table_rows db ''authors'')"
    using assms(2) by (intro key_holds_null) (auto simp: table_rows_def author_cells_def no_handles_def)
qed

lemma assets_obey: "db_inv db \<Longrightarrow> key_holds [''type'', ''author_id'', ''name''] (table_rows db ''assets'')"
proof -
  assume "db_inv db"
  then have "distinct (map (\<lambda>a. (as_type a, as_author_id a, as_name a)) (db_assets db))" by (simp add: db_inv_def db_keys_def)
  from key_holdsI [OF this, of asset_cells "[''type'', ''author_id'', ''name'']"] show ?thesis by (simp add: table_rows_def asset_cells_def)
qed

lemma versions_obey: "db_inv db \<Longrightarrow> key_holds [''asset_id'', ''version''] (table_rows db ''asset_versions'')"
proof -
  assume "db_inv db"
  then have "distinct (map (\<lambda>v. (vr_asset_id v, vr_version v)) (db_versions db))" by (simp add: db_inv_def db_keys_def)
  from key_holdsI [OF this, of version_cells "[''asset_id'', ''version'']"] show ?thesis by (simp add: table_rows_def version_cells_def)
qed

text \<open>The columns that a row of a table holds, those of them that are never null, and the keys; checked against both dialects.\<close>

definition written :: "string \<Rightarrow> string list" where
  "written t =
     (if t = ''authors'' then [''id'', ''eoa'', ''handle'', ''created_at'']
      else if t = ''assets'' then [''id'', ''type'', ''author_id'', ''name'', ''latest_version'', ''summary'', ''license'', ''min_isann'', ''tags'',
        ''visibility'', ''price'', ''token'', ''downloads'', ''avg_rating'', ''created_at'', ''updated_at'']
      else if t = ''asset_versions'' then [''asset_id'', ''version'', ''sha256'', ''recipe_body'', ''created_at''] else [])"

definition optional_cols :: "string list" where
  "optional_cols = [''handle'', ''token'', ''avg_rating'']"

definition known_keys :: "(string \<times> string list) list" where
  "known_keys = [(''authors'', [''eoa'']), (''authors'', [''handle'']), (''assets'', [''type'', ''author_id'', ''name'']),
     (''asset_versions'', [''asset_id'', ''version''])]"

fun fits :: "ddl \<Rightarrow> bool" where
  "fits (CreateTable t cols keys idx) \<longleftrightarrow>
     list_all (\<lambda>n. n \<in> set (map c_name cols)) (written t) \<and>
     list_all (\<lambda>c. c_not_null c \<longrightarrow> (if c_name c \<in> set (written t) then c_name c \<notin> set optional_cols else c_default c \<noteq> None)) cols \<and>
     list_all (\<lambda>ks. (t, ks) \<in> set known_keys) (keys @ map (\<lambda>c. [c_name c]) (filter c_unique cols))"
| "fits (CreateIndex i t cols) \<longleftrightarrow> True"

lemma both_fit: "list_all fits mysql_schema" "list_all fits sqlite_schema"
  by code_simp+

lemma schema_fits: "s \<in> set (schema d) \<Longrightarrow> fits s"
  using both_fit by (auto simp: schema_def list_all_iff split: if_splits)

lemma row_columns: "row \<in> set (table_rows db t) \<Longrightarrow> map fst row = written t"
  by (auto simp: table_rows_def author_cells_def asset_cells_def version_cells_def written_def split: if_splits)

lemma row_null:
  assumes "row \<in> set (table_rows db t)" "(n, Null) \<in> set row"
  shows "n \<in> set optional_cols"
  using assms by (auto simp: table_rows_def author_cells_def asset_cells_def version_cells_def optional_cols_def split: if_splits)

lemma row_fits:
  assumes "CreateTable t cols keys idx \<in> set (schema d)" "row \<in> set (table_rows db t)" "c \<in> set cols" "c_not_null c"
  shows "has_value c row"
proof (cases "map_of row (c_name c)")
  case None
  then have "c_name c \<notin> set (written t)" using row_columns [OF assms(2)] by (metis list.set_map map_of_eq_None_iff)
  then show ?thesis using schema_fits [OF assms(1)] assms(3,4) None by (auto simp: has_value_def list_all_iff)
next
  case (Some v)
  then have v: "(c_name c, v) \<in> set row" by (rule map_of_SomeD)
  then have "c_name c \<in> set (written t)" using row_columns [OF assms(2)] by (metis fst_conv image_eqI list.set_map)
  then have "c_name c \<notin> set optional_cols" using schema_fits [OF assms(1)] assms(3,4) by (auto simp: list_all_iff)
  then show ?thesis using Some v row_null [OF assms(2)] by (auto simp: has_value_def)
qed

lemma inv_obeys: "db_inv db \<Longrightarrow> no_handles db \<Longrightarrow> s \<in> set (schema d) \<Longrightarrow> obeys s db"
proof (induction s db rule: obeys.induct)
  case (1 t cols keys idx db)
  have f: "set (written t) \<subseteq> set (map c_name cols)"
    "\<And>ks. ks \<in> set (keys @ map (\<lambda>c. [c_name c]) (filter c_unique cols)) \<Longrightarrow> (t, ks) \<in> set known_keys"
    using schema_fits [OF 1(3)] by (auto simp: list_all_iff)
  have "key_holds ks (table_rows db t)" if "ks \<in> set (keys @ map (\<lambda>c. [c_name c]) (filter c_unique cols))" for ks
    using f(2) [OF that] authors_obey [OF 1(1,2)] assets_obey [OF 1(1)] versions_obey [OF 1(1)] by (auto simp: known_keys_def)
  moreover have "set (map fst row) \<subseteq> set (map c_name cols)" if "row \<in> set (table_rows db t)" for row
    unfolding row_columns [OF that] by (rule f(1))
  ultimately show ?case using row_fits [OF 1(3)] by simp
qed simp

text \<open>Consistent and without handles: what every operation of the server keeps.\<close>

interpretation tables: guarded_steps "\<lambda>db. db_inv db \<and> no_handles db" store_exec op_ok
  by unfold_locales (simp add: db_inv_exec exec_handles)


section \<open>Properties\<close>



text \<open>Migration is safe to interrupt. After any number of runs that stopped anywhere, a run that succeeds leaves the catalog that one
  uninterrupted run on the original database would have left; every table and index of the dialect is there, and what was
  there before is as it was.\<close>

theorem migration_resumes:
  assumes "C1 = fold (\<lambda>ok C. snd (migrate_tables ok d C)) oks C" "fst (migrate_tables ok d C1)"
  shows "snd (migrate_tables ok d C1) = snd (migrate_tables (\<lambda>_. True) d C)
     \<and> (\<forall>s\<in>set (schema d). mget (snd (migrate_tables ok d C1)) (ddl_name s) \<noteq> None)
     \<and> (\<forall>n s. mget C n = Some s \<longrightarrow> mget (snd (migrate_tables ok d C1)) n = Some s)"
proof -
  have full: "snd (migrate_tables ok' d C') = fold exec_ddl (schema d) C'" if "fst (migrate_tables ok' d C')" for ok' C'
    using run_ddl_all that by (simp add: migrate_tables_def)
  have "fst (run_ddl (\<lambda>_. True) ss C)" for ss by (induction ss arbitrary: C) simp_all
  then have "snd (migrate_tables (\<lambda>_. True) d C) = fold exec_ddl (schema d) C" by (intro full) (simp add: migrate_tables_def)
  moreover have "snd (migrate_tables ok d C1) = fold exec_ddl (schema d) C"
    using full [OF assms(2)] interrupted_migrations [of d oks C] assms(1) by simp
  ultimately show ?thesis using made_by_fold [of _ "schema d" C] by (simp add: mget_fold_ddl)
qed

theorem migration_resumes_witness:
  "mget (snd (migrate_tables (\<lambda>_. True) ''sqlite'' (snd (migrate_tables (\<lambda>s. ddl_name s = ''authors'') ''sqlite'' [])))) ''asset_versions'' \<noteq> None"
proof -
  let ?C = "snd (migrate_tables (\<lambda>s. ddl_name s = ''authors'') ''sqlite'' [])"
  have "fst (migrate_tables (\<lambda>_. True) ''sqlite'' ?C)" by code_simp
  moreover have "?C = fold (\<lambda>ok C. snd (migrate_tables ok ''sqlite'' C)) [\<lambda>s. ddl_name s = ''authors''] []" by simp
  ultimately have "\<forall>s\<in>set (schema ''sqlite''). mget (snd (migrate_tables (\<lambda>_. True) ''sqlite'' ?C)) (ddl_name s) \<noteq> None"
    using migration_resumes by blast
  moreover have "list_ex (\<lambda>s. ddl_name s = ''asset_versions'') (schema ''sqlite'')" by code_simp
  ultimately show ?thesis by (auto simp: list_ex_iff)
qed

text \<open>The two dialects declare the same tables with the same columns in the same order, null and unique in the same places, with the
  same keys, and the same columns are indexed.\<close>

fun table_shape :: "ddl \<Rightarrow> (string \<times> (string \<times> bool \<times> bool \<times> bool) list \<times> string list list) option" where
  "table_shape (CreateTable t cols keys idx) = Some (t, map (\<lambda>c. (c_name c, c_auto c, c_not_null c, c_unique c)) cols, keys)"
| "table_shape (CreateIndex i t cols) = None"

fun indexed :: "ddl \<Rightarrow> (string \<times> string list) list" where
  "indexed (CreateTable t cols keys idx) = map (\<lambda>(i, cs). (t, cs)) idx"
| "indexed (CreateIndex i t cols) = [(t, cols)]"

theorem dialects_agree:
  "List.map_filter table_shape (schema ''mysql'') = List.map_filter table_shape (schema ''sqlite'') \<and>
   concat (map indexed (schema ''mysql'')) = concat (map indexed (schema ''sqlite''))"
  by code_simp

end
