(* ===== verification/Server_Boot.thy ===== *)
theory Server_Boot
  imports RV_Registry Cert_Gen Log_Files Market_Server Market_Schema
begin

text \<open>
  How the two servers start: \<^verbatim>\<open>cmd/rendezvous/main.go\<close> with \<^verbatim>\<open>Server.Run\<close> of the rendezvous server, and \<^verbatim>\<open>cmd/market/main.go\<close> with
  \<^verbatim>\<open>LoadConfig\<close>, \<^verbatim>\<open>NewStore\<close> and \<^verbatim>\<open>Server.Run\<close> of the market. A start reads the configuration, opens the log, makes a
  certificate when TLS is on, loads the admission file, and ends with the listeners it opens or with the error that
  \<^verbatim>\<open>log.Fatalf\<close> prints; the file system it leaves is returned. The JSON decoders, the database and the random numbers of the
  certificate are arguments.
\<close>

section \<open>Listeners\<close>

record tls_config =
  tls_enabled :: bool
  tls_cert :: string
  tls_key :: string

datatype listener = HTTPS string string string | HTTP string

datatype boot_error =
    ReadConfig fs_error | ParseConfig | CertError cert_error | AuthError | NoUnifiedAddr
  | UnsupportedDriver string | OpenStore string | MigrateStore

text \<open>Reading a configuration file; no path gives the zero configuration.\<close>

definition read_config :: "(string \<Rightarrow> 'c option) \<Rightarrow> string \<Rightarrow> fs \<Rightarrow> boot_error + 'c" where
  "read_config parse path F =
     (case os_ReadFile F path of Inl e \<Rightarrow> Inl (ReadConfig e)
      | Inr data \<Rightarrow> (case parse data of None \<Rightarrow> Inl ParseConfig | Some c \<Rightarrow> Inr c))"


section \<open>Rendezvous\<close>

record rv_file =
  rf_rv :: rv_config
  rf_tls :: tls_config
  rf_rest :: string

record rv_boot =
  rb_settings :: rv_settings
  rb_unified :: string
  rb_rest :: "listener option"
  rb_state :: rv_state

definition zero_intervals :: role_intervals where
  "zero_intervals = \<lparr>ri_station = 0, ri_control = 0, ri_provider = 0, ri_broker = 0\<rparr>"

definition zero_file :: rv_file where
  "zero_file = \<lparr>rf_rv = \<lparr>cf_unified_addr = [], cf_proxy_purge_sec = 0, cf_ping = zero_intervals, cf_register = zero_intervals,
      cf_holepunch = \<lparr>PrePunchCount = 0, PrePunchIntervalMs = 0, PreDialWaitMs = 0, ReplyBurstCount = 0, ReplyBurstIntervalMs = 0\<rparr>\<rparr>,
     rf_tls = \<lparr>tls_enabled = False, tls_cert = [], tls_key = []\<rparr>, rf_rest = []\<rparr>"

text \<open>The log block of the file is ignored.\<close>

definition rv_log :: log_config where
  "rv_log = \<lparr>lc_output = ''both'', lc_file = ''logs/rendezvous.log'', lc_rotate = ''daily'', lc_max = 14, lc_categories = []\<rparr>"

text \<open>Where \<^verbatim>\<open>LoadRVAuth\<close> finds the admission file.\<close>

definition auth_source :: "(string \<Rightarrow> rv_auth_file option) \<Rightarrow> string \<Rightarrow> fs \<Rightarrow> auth_json" where
  "auth_source parse configPath F =
     (if configPath = [] then NoConfigPath
      else case os_ReadFile F (join_path (dir_path configPath) ''auth.json'') of
        Inl e \<Rightarrow> if e = NotExist then FileMissing else ReadFails
      | Inr data \<Rightarrow> (case parse data of None \<Rightarrow> ParseFails | Some f \<Rightarrow> Parsed f))"

text \<open>The listeners that \<^verbatim>\<open>Run\<close> opens: the REST API when it has an address, and TCP and UDP on the unified address.\<close>

definition rest_listener :: "tls_config \<Rightarrow> string \<Rightarrow> listener option" where
  "rest_listener tls addr =
     (if addr = [] then None
      else if tls_enabled tls \<and> tls_cert tls \<noteq> [] \<and> tls_key tls \<noteq> [] then Some (HTTPS addr (tls_cert tls) (tls_key tls))
      else Some (HTTP addr))"

definition rv_Run :: "rv_settings \<Rightarrow> tls_config \<Rightarrow> string \<Rightarrow> string \<Rightarrow> boot_error + rv_boot" where
  "rv_Run S tls unified rest =
     (if unified = [] then Inl NoUnifiedAddr
      else Inr \<lparr>rb_settings = S, rb_unified = unified, rb_rest = rest_listener tls rest, rb_state = RV_Registry.NewServer\<rparr>)"

definition ensure_cert :: "'k cert_ops \<Rightarrow> 'k option \<Rightarrow> nat option \<Rightarrow> tls_config \<Rightarrow> fs \<Rightarrow> cert_error option \<times> fs" where
  "ensure_cert co priv serial tls F =
     (if tls_enabled tls then EnsureSelfSigned co priv serial (tls_cert tls) (tls_key tls) F else (None, F))"

definition rv_main ::
  "(string \<Rightarrow> rv_file option) \<Rightarrow> (string \<Rightarrow> rv_auth_file option) \<Rightarrow> 'k cert_ops \<Rightarrow> 'k option \<Rightarrow> nat option \<Rightarrow> string \<Rightarrow> string
     \<Rightarrow> fs \<Rightarrow> (boot_error + rv_boot) \<times> fs" where
  "rv_main parse parse_auth co priv serial today configPath F =
     (case (if configPath = [] then Inr zero_file else read_config parse configPath F) of
        Inl e \<Rightarrow> (Inl e, F)
      | Inr cfg \<Rightarrow>
          (case ensure_cert co priv serial (rf_tls cfg) (snd (New_logger today rv_log F)) of
             (Some e, F1) \<Rightarrow> (Inl (CertError e), F1)
           | (None, F1) \<Rightarrow>
               (case configure (rf_rv cfg) (auth_source parse_auth configPath F1) of
                  None \<Rightarrow> (Inl AuthError, F1)
                | Some (unified, S) \<Rightarrow> (rv_Run S (rf_tls cfg) unified (rf_rest cfg), F1))))"


section \<open>Market\<close>

record market_file =
  mf_config :: market_config
  mf_tls :: tls_config

text \<open>\<^verbatim>\<open>LoadConfig\<close>: the defaults, and the directory of a SQLite file, whose creation may fail unnoticed.\<close>

definition market_LoadConfig :: "(string \<Rightarrow> market_file option) \<Rightarrow> string \<Rightarrow> fs \<Rightarrow> (boot_error + market_file) \<times> fs" where
  "market_LoadConfig parse path F =
     (case read_config parse path F of Inl e \<Rightarrow> (Inl e, F)
      | Inr f \<Rightarrow>
          let cfg = applyDefaults (mf_config f); dir = dir_path (mc_dsn cfg) in
          (Inr (f\<lparr>mf_config := cfg\<rparr>),
           if mc_driver cfg = ''sqlite'' \<and> dir \<noteq> ''.'' \<and> dir \<noteq> [] then snd (os_MkdirAll F dir) else F))"

text \<open>\<^verbatim>\<open>NewStore\<close>: \<open>sql_open\<close> tells whether a driver opens a data source, \<open>sql_ok\<close> which statements the database takes. The result
  is the dialect, and the catalog the migration leaves, also when it fails.\<close>

definition NewStore ::
  "(string \<Rightarrow> string \<Rightarrow> bool) \<Rightarrow> (ddl \<Rightarrow> bool) \<Rightarrow> string \<Rightarrow> string \<Rightarrow> catalog \<Rightarrow> (boot_error + string) \<times> catalog" where
  "NewStore sql_open sql_ok driver dsn C =
     (if driver \<noteq> ''sqlite'' \<and> driver \<noteq> [] \<and> driver \<noteq> ''mysql'' then (Inl (UnsupportedDriver driver), C)
      else
        let (dialect, source) = (if driver = ''mysql'' then (driver, dsn) else (''sqlite'', dsn @ ''?_journal=WAL&_busy_timeout=5000'')) in
        if \<not> sql_open dialect source then (Inl (OpenStore dialect), C)
        else (case migrate_tables sql_ok dialect C of
            (False, C') \<Rightarrow> (Inl MigrateStore, C') | (True, C') \<Rightarrow> (Inr dialect, C')))"

definition now_expr :: "string \<Rightarrow> string" where
  "now_expr dialect = (if dialect = ''mysql'' then ''UTC_TIMESTAMP()'' else ''datetime('' @ [CHR 0x27] @ ''now'' @ [CHR 0x27] @ '')'')"

definition market_log :: log_config where
  "market_log = \<lparr>lc_output = ''file'', lc_file = ''logs/market.log'', lc_rotate = ''daily'', lc_max = 14, lc_categories = []\<rparr>"

record market_boot =
  mb_config :: market_config
  mb_dialect :: string
  mb_listener :: listener

definition market_Run :: "'k cert_ops \<Rightarrow> 'k option \<Rightarrow> nat option \<Rightarrow> market_file \<Rightarrow> fs \<Rightarrow> (boot_error + listener) \<times> fs" where
  "market_Run co priv serial f F =
     (if tls_enabled (mf_tls f) then
        (case EnsureSelfSigned co priv serial (tls_cert (mf_tls f)) (tls_key (mf_tls f)) F of
           (Some e, F1) \<Rightarrow> (Inl (CertError e), F1)
         | (None, F1) \<Rightarrow> (Inr (HTTPS (mc_addr (mf_config f)) (tls_cert (mf_tls f)) (tls_key (mf_tls f))), F1))
      else (Inr (HTTP (mc_addr (mf_config f))), F))"

definition market_main ::
  "(string \<Rightarrow> market_file option) \<Rightarrow> (string \<Rightarrow> string \<Rightarrow> bool) \<Rightarrow> (ddl \<Rightarrow> bool) \<Rightarrow> 'k cert_ops \<Rightarrow> 'k option \<Rightarrow> nat option
     \<Rightarrow> string \<Rightarrow> string \<Rightarrow> fs \<Rightarrow> catalog \<Rightarrow> (boot_error + market_boot) \<times> fs \<times> catalog" where
  "market_main parse sql_open sql_ok co priv serial today configPath F C =
     (case market_LoadConfig parse configPath F of
        (Inl e, F1) \<Rightarrow> (Inl e, F1, C)
      | (Inr f, F1) \<Rightarrow>
          let F2 = snd (New_logger today market_log F1); cfg = mf_config f in
          (case NewStore sql_open sql_ok (mc_driver cfg) (mc_dsn cfg) C of
             (Inl e, C1) \<Rightarrow> (Inl e, F2, C1)
           | (Inr dialect, C1) \<Rightarrow>
               (case market_Run co priv serial f F2 of
                  (Inl e, F3) \<Rightarrow> (Inl e, F3, C1)
                | (Inr l, F3) \<Rightarrow> (Inr \<lparr>mb_config = cfg, mb_dialect = dialect, mb_listener = l\<rparr>, F3, C1))))"


section \<open>What a start leaves\<close>

text \<open>\<open>grown F F'\<close>: directories are only added, and the working directory is the same.\<close>

definition grown :: "fs \<Rightarrow> fs \<Rightarrow> bool" where
  "grown F F' \<longleftrightarrow> fs_cwd F' = fs_cwd F \<and> set (fs_dirs F) \<subseteq> set (fs_dirs F')"

definition cwd_ok :: "fs \<Rightarrow> bool" where
  "cwd_ok F \<longleftrightarrow> is_dir_key F (fs_key F [])"

lemma grown_refl [simp]: "grown F F"
  by (simp add: grown_def)

lemma grown_trans: "grown F F1 \<Longrightarrow> grown F1 F2 \<Longrightarrow> grown F F2"
  by (auto simp: grown_def)

lemma cwd_ok_grown: "grown F F' \<Longrightarrow> cwd_ok F \<Longrightarrow> cwd_ok F'"
  by (auto simp: grown_def cwd_ok_def is_dir_key_def fs_key_def)

lemma grown_mkdirs: "mkdirs ks F = (r, F') \<Longrightarrow> grown F F'"
proof (induction ks arbitrary: F)
  case (Cons k ks)
  show ?case
  proof (cases "is_dir_key F k \<or> mget (fs_files F) k \<noteq> None \<or> k \<in> set (fs_denied F)")
    case True
    then show ?thesis using Cons by (auto split: if_splits)
  next
    case False
    then have "mkdirs ks (F\<lparr>fs_dirs := fs_dirs F @ [k]\<rparr>) = (r, F')" using Cons.prems by simp
    from Cons.IH [OF this] show ?thesis by (auto simp: grown_def)
  qed
qed simp

lemma grown_mkdir: "grown F (snd (os_MkdirAll F p))"
  using grown_mkdirs [of "ancestors (fs_key F p)" F] by (cases "os_MkdirAll F p") (simp add: os_MkdirAll_def)

lemma grown_create: "os_Create t F p = Inr (k, F') \<Longrightarrow> grown F F'"
  by (auto simp: os_Create_def grown_def Let_def split: if_splits option.splits)

lemma grown_append [simp]: "grown F (file_append k d F) = True"
  by (simp add: grown_def file_append_def)

lemma grown_logger: "grown F (snd (New_logger today cfg F))"
proof -
  have r: "grown F (snd (NewDailyRotateWriter today p n F))" for p n
    using grown_mkdir [of F "dir_path p"] grown_create grown_trans
    by (auto simp: NewDailyRotateWriter_def Let_def split: sum.split)
  then show ?thesis using grown_create
    by (auto simp: New_logger_def Let_def case_prod_beta split: sum.split)
qed

lemma writePEM_grown:
  assumes "writePEM co p kind der F = (None, F')" "cwd_ok F"
  shows "grown F F' \<and> p \<noteq> []"
proof -
  obtain r F1 where 1: "(if dir_path p \<noteq> ''.'' \<and> dir_path p \<noteq> [] then os_MkdirAll F (dir_path p) else (None, F)) = (r, F1)"
    by fastforce
  then have g: "grown F F1" using grown_mkdir [of F "dir_path p"] by (auto split: if_splits)
  from 1 obtain k F2 where 2: "os_Create True F1 p = Inr (k, F2)" "F' = file_append k (co_pem co kind der) F2"
    using assms(1) by (auto simp: writePEM_def Let_def os_WriteFile_def split: option.splits sum.splits)
  have "p \<noteq> []" using cwd_ok_grown [OF g assms(2)] 2(1) by (auto simp: os_Create_def cwd_ok_def Let_def)
  moreover have "grown F F'" using grown_trans [OF g] grown_create [OF 2(1)] 2(2) by (simp add: grown_def file_append_def)
  ultimately show ?thesis by simp
qed

lemma ensured_files:
  assumes "EnsureSelfSigned co priv serial c k F = (None, F')" "cwd_ok F" "\<forall>kind der. co_pem co kind der \<noteq> []"
  shows "fileExists F' c \<and> fileExists F' k"
proof (cases "fileExists F c \<and> fileExists F k")
  case True
  with assms(1) show ?thesis by (simp add: EnsureSelfSigned_def)
next
  case False
  with assms(1) obtain cd kd F1 where
    1: "writePEM co c ''CERTIFICATE'' cd F = (None, F1)" "writePEM co k ''EC PRIVATE KEY'' kd F1 = (None, F')"
    by (auto simp: EnsureSelfSigned_def split: option.splits prod.splits)
  note w = writePEM_effect [OF 1(1)] writePEM_effect [OF 1(2)]
  have p: "c \<noteq> []" "k \<noteq> []" using writePEM_grown [OF 1(1) assms(2)] writePEM_grown [OF 1(2)] cwd_ok_grown assms(2) by blast+
  have "\<exists>d. os_ReadFile F' c = Inr d \<and> d \<noteq> []"
  proof (cases "fs_key F1 c = fs_key F1 k")
    case True
    then have "os_ReadFile F' c = os_ReadFile F' k" using w(5) by (simp add: os_ReadFile_def fs_key_def)
    then show ?thesis using w(4) assms(3) by auto
  qed (use w(1,6) assms(3) in auto)
  then show ?thesis using p w(4) assms(3) by (auto simp: fileExists_def)
qed

lemma fileExists_named: "fileExists F p \<Longrightarrow> p \<noteq> []"
  by (simp add: fileExists_def)

lemma auth_loaded:
  "LoadRVAuth src = (mode, issuers, None) \<Longrightarrow> mode \<in> {''public'', ''protected''} \<and> (mode = ''protected'' \<longrightarrow> issuers \<noteq> [])"
  by (auto simp: LoadRVAuth_def Let_def split: auth_json.splits if_splits prod.splits option.splits)

lemma configured:
  assumes "configure cfg src = Some (unified, S)"
  shows "unified \<noteq> []" "s_mode S \<in> {''public'', ''protected''}" "s_mode S = ''protected'' \<Longrightarrow> s_issuers S \<noteq> []"
  using assms auth_loaded [of src "s_mode S" "s_issuers S"]
  by (auto simp: configure_def split: prod.splits option.splits if_splits)


section \<open>Properties\<close>

text \<open>C18. A rendezvous server that starts is configured safely. It listens on an address, its mode is public or protected, a protected one has an
  issuer, and the registry is empty; when the configuration turns TLS on, the certificate and key are there, non-empty,
  and the REST API, if it is served at all, is served over HTTPS with them, never in the clear.\<close>

theorem rendezvous_boot_safe:
  assumes "rv_main parse parse_auth co priv serial today configPath F = (Inr b, F')" "cwd_ok F" "\<forall>kind der. co_pem co kind der \<noteq> []"
  shows "\<exists>cfg. (if configPath = [] then cfg = zero_file else \<exists>data. os_ReadFile F configPath = Inr data \<and> parse data = Some cfg) \<and>
     rb_unified b \<noteq> [] \<and> s_mode (rb_settings b) \<in> {''public'', ''protected''} \<and>
     (s_mode (rb_settings b) = ''protected'' \<longrightarrow> s_issuers (rb_settings b) \<noteq> []) \<and> rb_state b = RV_Registry.NewServer \<and>
     (let tls = rf_tls cfg in tls_enabled tls \<longrightarrow>
        fileExists F' (tls_cert tls) \<and> fileExists F' (tls_key tls) \<and>
        rb_rest b = (if rf_rest cfg = [] then None else Some (HTTPS (rf_rest cfg) (tls_cert tls) (tls_key tls))))"
proof -
  let ?F1 = "snd (New_logger today rv_log F)"
  obtain cfg unified S where 1: "(if configPath = [] then Inr zero_file else read_config parse configPath F) = Inr cfg"
    "ensure_cert co priv serial (rf_tls cfg) ?F1 = (None, F')"
    "configure (rf_rv cfg) (auth_source parse_auth configPath F') = Some (unified, S)" "rv_Run S (rf_tls cfg) unified (rf_rest cfg) = Inr b"
    using assms(1) by (auto simp: rv_main_def split: sum.splits prod.splits option.splits)
  have c: "if configPath = [] then cfg = zero_file else \<exists>data. os_ReadFile F configPath = Inr data \<and> parse data = Some cfg"
    using 1(1) by (auto simp: read_config_def split: if_splits sum.splits option.splits)
  have b: "b = \<lparr>rb_settings = S, rb_unified = unified, rb_rest = rest_listener (rf_tls cfg) (rf_rest cfg), rb_state = RV_Registry.NewServer\<rparr>"
    using 1(4) by (auto simp: rv_Run_def split: if_splits)
  have t: "fileExists F' (tls_cert (rf_tls cfg)) \<and> fileExists F' (tls_key (rf_tls cfg))" if "tls_enabled (rf_tls cfg)"
    using ensured_files [OF _ cwd_ok_grown [OF grown_logger assms(2)] assms(3)] 1(2) that by (simp add: ensure_cert_def)
  then have r: "rest_listener (rf_tls cfg) (rf_rest cfg) =
      (if rf_rest cfg = [] then None else Some (HTTPS (rf_rest cfg) (tls_cert (rf_tls cfg)) (tls_key (rf_tls cfg))))"
    if "tls_enabled (rf_tls cfg)"
    using that by (auto simp: rest_listener_def dest!: fileExists_named)
  show ?thesis using c configured [OF 1(3)] t r by (intro exI [of _ cfg]) (simp add: b Let_def)
qed


definition toy_tls :: tls_config where
  "toy_tls = \<lparr>tls_enabled = True, tls_cert = ''/c'', tls_key = ''/k''\<rparr>"

definition toy_boot_fs :: fs where
  "toy_boot_fs = \<lparr>fs_cwd = ''/'', fs_dirs = [], fs_files = [(''/rv.json'', ''x'')], fs_denied = []\<rparr>"

definition toy_rv_main :: "(boot_error + rv_boot) \<times> fs" where
  "toy_rv_main = rv_main (\<lambda>_. Some (zero_file\<lparr>rf_tls := toy_tls, rf_rest := '':9000''\<rparr>)) (\<lambda>_. None) toy_certs (Some ''p'') (Some 5)
     ''2026-01-01'' ''/rv.json'' toy_boot_fs"

theorem rendezvous_boot_safe_witness:
  "\<exists>b F'. toy_rv_main = (Inr b, F') \<and> rb_rest b = Some (HTTPS '':9000'' ''/c'' ''/k'') \<and> fileExists F' ''/c''"
proof -
  have "case fst toy_rv_main of Inl _ \<Rightarrow> False | Inr _ \<Rightarrow> True" by code_simp
  then obtain b F' where b: "toy_rv_main = (Inr b, F')" by (metis sum.case_eq_if sum.collapse(2) prod.collapse)
  have 1: "cwd_ok toy_boot_fs" by code_simp
  have 2: "\<forall>kind der. co_pem toy_certs kind der \<noteq> []" by (simp add: toy_certs_def)
  have "os_ReadFile toy_boot_fs ''/rv.json'' = Inr ''x''" by code_simp
  with rendezvous_boot_safe [OF b [unfolded toy_rv_main_def] 1 2] b show ?thesis
    by (auto simp: Let_def toy_tls_def zero_file_def)
qed

text \<open>A market that starts is complete: its address is set, its replay window is positive, its database is one of the two it
  knows and has every table and index of that dialect, also after earlier starts that failed half way, and with TLS on it serves HTTPS only, with a certificate and key that are there.\<close>

theorem market_boot_complete:
  assumes "market_main parse sql_open sql_ok co priv serial today configPath F C = (Inr b, F', C')" "cwd_ok F"
    "\<forall>kind der. co_pem co kind der \<noteq> []"
  shows "\<exists>data f. os_ReadFile F configPath = Inr data \<and> parse data = Some f \<and> mb_config b = applyDefaults (mf_config f) \<and>
     mc_addr (mb_config b) \<noteq> [] \<and> 0 < mc_replay_win (mb_config b) \<and> mb_dialect b = mc_driver (mb_config b) \<and>
     mb_dialect b \<in> {''sqlite'', ''mysql''} \<and> (\<forall>s\<in>set (schema (mb_dialect b)). mget C' (ddl_name s) \<noteq> None) \<and>
     (if tls_enabled (mf_tls f)
      then mb_listener b = HTTPS (mc_addr (mb_config b)) (tls_cert (mf_tls f)) (tls_key (mf_tls f)) \<and>
           fileExists F' (tls_cert (mf_tls f)) \<and> fileExists F' (tls_key (mf_tls f))
      else mb_listener b = HTTP (mc_addr (mb_config b)))"
proof -
  obtain f0 F1 where l: "market_LoadConfig parse configPath F = (Inr f0, F1)"
    using assms(1) by (auto simp: market_main_def split: sum.splits prod.splits)
  let ?F2 = "snd (New_logger today market_log F1)"
  obtain dialect l where 1: "NewStore sql_open sql_ok (mc_driver (mf_config f0)) (mc_dsn (mf_config f0)) C = (Inr dialect, C')"
    "market_Run co priv serial f0 ?F2 = (Inr l, F')" "b = \<lparr>mb_config = mf_config f0, mb_dialect = dialect, mb_listener = l\<rparr>"
    using assms(1) l by (auto simp: market_main_def Let_def split: sum.splits prod.splits)
  obtain data f where f: "os_ReadFile F configPath = Inr data" "parse data = Some f" "f0 = f\<lparr>mf_config := applyDefaults (mf_config f)\<rparr>" "grown F F1"
    using l grown_mkdir [of F] by (auto simp: market_LoadConfig_def read_config_def Let_def split: sum.splits option.splits if_splits)
  have d: "mc_addr (mf_config f0) \<noteq> []" "0 < mc_replay_win (mf_config f0)" "mc_driver (mf_config f0) \<noteq> []"
    using f(3) by (auto simp: applyDefaults_def Let_def)
  have s: "dialect = mc_driver (mf_config f0)" "dialect \<in> {''sqlite'', ''mysql''}" "migrate_tables sql_ok dialect C = (True, C')"
    using 1(1) d(3) by (auto simp: NewStore_def Let_def split: if_splits prod.splits bool.splits)
  have "cwd_ok ?F2" using cwd_ok_grown [OF grown_trans [OF f(4) grown_logger] assms(2)] .
  then have "if tls_enabled (mf_tls f)
      then l = HTTPS (mc_addr (mf_config f0)) (tls_cert (mf_tls f)) (tls_key (mf_tls f)) \<and>
           fileExists F' (tls_cert (mf_tls f)) \<and> fileExists F' (tls_key (mf_tls f))
      else l = HTTP (mc_addr (mf_config f0))"
    using 1(2) f(3) ensured_files [OF _ _ assms(3), of priv serial _ _ ?F2]
    by (auto simp: market_Run_def split: prod.splits option.splits)
  then show ?thesis using f d s(1,2) migrated_tables [OF s(3)] 1(3) by auto
qed

definition toy_market_file :: market_file where
  "toy_market_file = \<lparr>mf_config = \<lparr>mc_addr = [], mc_tls = True, mc_driver = [], mc_dsn = ''/data/m.db'', mc_replay_win = 0, mc_dev_skip_auth = False\<rparr>,
     mf_tls = toy_tls\<rparr>"

definition toy_market_main :: "(boot_error + market_boot) \<times> fs \<times> catalog" where
  "toy_market_main = market_main (\<lambda>_. Some toy_market_file) (\<lambda>_ _. True) (\<lambda>_. True) toy_certs (Some ''p'') (Some 5) ''2026-01-01'' ''/rv.json'' toy_boot_fs []"

theorem market_boot_complete_witness:
  "\<exists>b F' C'. toy_market_main = (Inr b, F', C') \<and> mb_listener b = HTTPS '':8820'' ''/c'' ''/k'' \<and> mc_replay_win (mb_config b) = 300 \<and> mb_dialect b = ''sqlite''"
proof -
  have "case fst toy_market_main of Inl _ \<Rightarrow> False | Inr _ \<Rightarrow> True" by code_simp
  then obtain b F' C' where b: "toy_market_main = (Inr b, F', C')" by (metis sum.case_eq_if sum.collapse(2) prod.collapse)
  have 1: "cwd_ok toy_boot_fs" by code_simp
  have 2: "\<forall>kind der. co_pem toy_certs kind der \<noteq> []" by (simp add: toy_certs_def)
  from market_boot_complete [OF b [unfolded toy_market_main_def] 1 2]
  have "mb_listener b = HTTPS '':8820'' ''/c'' ''/k'' \<and> mc_replay_win (mb_config b) = 300 \<and> mb_dialect b = ''sqlite''"
    by (auto simp: toy_market_file_def toy_tls_def applyDefaults_def)
  then show ?thesis using b by blast
qed

end
