(* ===== verification/Log_Console.thy ===== *)
theory Log_Console
  imports Wire_Codec Log_Files
begin

text \<open>
  The console of the logger. On Windows \<^verbatim>\<open>pkg/glog/console_windows.go\<close> puts a writer in front of it that turns a bare
  newline into carriage return and newline; elsewhere \<^verbatim>\<open>console_other.go\<close> leaves it alone. What is below is any byte sink, an
  interface with the contract of \<^verbatim>\<open>io.Writer\<close>.
\<close>

section \<open>The writer\<close>

text \<open>The loop over the bytes of one \<^verbatim>\<open>Write\<close>; \<open>prev\<close> is \<^verbatim>\<open>p[i-1]\<close>, none at the start.\<close>

fun crlf_bytes :: "char option \<Rightarrow> string \<Rightarrow> string" where
  "crlf_bytes prev [] = []"
| "crlf_bytes prev (b # p) = (if b = CHR 0x0A \<and> prev \<noteq> Some CHR 0x0D then [CHR 0x0D] else []) @ b # crlf_bytes (Some b) p"

definition crlf_Write :: "('w \<Rightarrow> string \<Rightarrow> bool \<times> 'w) \<Rightarrow> string \<Rightarrow> 'w \<Rightarrow> (nat \<times> bool) \<times> 'w" where
  "crlf_Write put p w =
     (case put w (crlf_bytes None p) of (False, w') \<Rightarrow> ((0, False), w') | (True, w') \<Rightarrow> ((length p, True), w'))"

definition plain_Write :: "('w \<Rightarrow> string \<Rightarrow> bool \<times> 'w) \<Rightarrow> string \<Rightarrow> 'w \<Rightarrow> (nat \<times> bool) \<times> 'w" where
  "plain_Write put p w = (case put w p of (False, w') \<Rightarrow> ((0, False), w') | (True, w') \<Rightarrow> ((length p, True), w'))"

definition wrapConsole :: "string \<Rightarrow> ('w \<Rightarrow> string \<Rightarrow> bool \<times> 'w) \<Rightarrow> string \<Rightarrow> 'w \<Rightarrow> (nat \<times> bool) \<times> 'w" where
  "wrapConsole goos = (if goos = ''windows'' then crlf_Write else plain_Write)"


section \<open>Text with carriage returns\<close>

definition last_byte :: "char option \<Rightarrow> string \<Rightarrow> char option" where
  "last_byte prev p = (if p = [] then prev else Some (last p))"

lemma last_byte_simps [simp]: "last_byte prev [] = prev" "last_byte prev (b # p) = last_byte (Some b) p"
  by (simp_all add: last_byte_def)

lemma crlf_append: "crlf_bytes prev (p @ q) = crlf_bytes prev p @ crlf_bytes (last_byte prev p) q"
  by (induction prev p rule: crlf_bytes.induct) simp_all

text \<open>Only the carriage return before a newline matters.\<close>

lemma crlf_prev: "(prev = Some CHR 0x0D \<longleftrightarrow> prev' = Some CHR 0x0D) \<or> p = [] \<or> hd p \<noteq> CHR 0x0A \<Longrightarrow> crlf_bytes prev p = crlf_bytes prev' p"
  by (cases p) auto

fun all_crlf :: "char option \<Rightarrow> string \<Rightarrow> bool" where
  "all_crlf prev [] \<longleftrightarrow> True"
| "all_crlf prev (b # p) \<longleftrightarrow> (b = CHR 0x0A \<longrightarrow> prev = Some CHR 0x0D) \<and> all_crlf (Some b) p"

lemma all_crlf_crlf: "all_crlf prev (crlf_bytes prev p)"
  by (induction prev p rule: crlf_bytes.induct) auto

lemma crlf_all_crlf: "all_crlf prev p \<Longrightarrow> crlf_bytes prev p = p"
  by (induction prev p rule: all_crlf.induct) auto

definition no_cr :: "string \<Rightarrow> string" where
  "no_cr p = filter (\<lambda>c. c \<noteq> CHR 0x0D) p"

lemma no_cr_crlf: "no_cr (crlf_bytes prev p) = no_cr p"
  by (induction prev p rule: crlf_bytes.induct) (auto simp: no_cr_def)


section \<open>Byte sinks\<close>

text \<open>A write takes all bytes, in order, or none.\<close>

locale byte_sink =
  fixes put :: "'w \<Rightarrow> string \<Rightarrow> bool \<times> 'w" and out :: "'w \<Rightarrow> string"
  assumes write_ok: "put w p = (True, w') \<Longrightarrow> out w' = out w @ p"
    and write_failed: "put w p = (False, w') \<Longrightarrow> out w' = out w"
begin

lemma plain_effect:
  "plain_Write put p w = ((n, ok), w') \<Longrightarrow> n = (if ok then length p else 0) \<and> out w' = out w @ (if ok then p else [])"
  using write_ok [of w p] write_failed [of w p] by (auto simp: plain_Write_def split: prod.splits bool.splits)

lemma crlf_effect:
  "crlf_Write put p w = ((n, ok), w') \<Longrightarrow>
     n = (if ok then length p else 0) \<and> out w' = out w @ (if ok then crlf_bytes None p else [])"
  using write_ok [of w "crlf_bytes None p"] write_failed [of w "crlf_bytes None p"]
  by (auto simp: crlf_Write_def split: prod.splits bool.splits)

end

text \<open>The lines written one after the other, while the sink takes them.\<close>

fun write_lines :: "(string \<Rightarrow> 'w \<Rightarrow> (nat \<times> bool) \<times> 'w) \<Rightarrow> string list \<Rightarrow> 'w \<Rightarrow> nat list \<times> 'w" where
  "write_lines wr [] w = ([], w)"
| "write_lines wr (l # ls) w =
     (case wr l w of ((n, ok), w') \<Rightarrow> (case write_lines wr ls w' of (ns, w'') \<Rightarrow> (n # ns, w'')))"

context byte_sink
begin

text \<open>Complete lines: the sink gets what one conversion of the lines it took would give.\<close>

lemma crlf_lines:
  assumes "\<forall>l\<in>set ls. l \<noteq> [] \<and> last l = CHR 0x0A"
  shows "\<exists>taken. set taken \<subseteq> set ls \<and> subseq taken ls \<and> out (snd (write_lines (crlf_Write put) ls w)) = out w @ crlf_bytes None (concat taken)
           \<and> sum_list (fst (write_lines (crlf_Write put) ls w)) = length (concat taken)"
  using assms
proof (induction ls arbitrary: w)
  case (Cons l ls)
  obtain n ok w' where 1: "crlf_Write put l w = ((n, ok), w')" by (metis surj_pair)
  obtain taken where t: "set taken \<subseteq> set ls" "subseq taken ls"
    "out (snd (write_lines (crlf_Write put) ls w')) = out w' @ crlf_bytes None (concat taken)"
    "sum_list (fst (write_lines (crlf_Write put) ls w')) = length (concat taken)"
    using Cons by (meson list.set_intros(2))
  let ?taken = "if ok then l # taken else taken"
  have "last_byte None l = Some CHR 0x0A" using Cons.prems by (simp add: last_byte_def)
  then have "crlf_bytes None (l @ concat taken) = crlf_bytes None l @ crlf_bytes None (concat taken)"
    by (simp add: crlf_append crlf_prev [of "Some CHR 0x0A" None])
  then have "out (snd (write_lines (crlf_Write put) (l # ls) w)) = out w @ crlf_bytes None (concat ?taken)
      \<and> sum_list (fst (write_lines (crlf_Write put) (l # ls) w)) = length (concat ?taken)"
    using crlf_effect [OF 1] t(3,4) by (auto simp: 1 case_prod_beta)
  moreover have "subseq ?taken (l # ls)" "set ?taken \<subseteq> set (l # ls)" using t(1,2) by auto
  ultimately show ?case by blast
qed simp

end

interpretation stream: byte_sink do_write w_out
  by unfold_locales (auto simp: do_write_def split: option.splits nat.splits)


lemma subseq_concat_le: "subseq xs ys \<Longrightarrow> length (concat xs) \<le> length (concat ys)"
  by (induction rule: list_emb.induct) simp_all

lemma subseq_concat_eq:
  "subseq xs ys \<Longrightarrow> \<forall>y\<in>set ys. y \<noteq> [] \<Longrightarrow> length (concat xs) = length (concat ys) \<Longrightarrow> xs = ys"
proof (induction rule: list_emb.induct)
  case (list_emb_Nil ys)
  then show ?case by (cases ys) simp_all
next
  case (list_emb_Cons xs ys y)
  then show ?case using subseq_concat_le [of xs ys] by simp
qed simp


section \<open>Properties\<close>

text \<open>The Windows console shows the log. Whichever lines the terminal takes (the others fail and are dropped whole), it has received
  those lines with every newline preceded by a carriage return and nothing else changed, and the byte counts reported are those of
  the text that was logged, not of the text that was sent; converting twice changes nothing.\<close>

theorem windows_console_lines:
  assumes "\<forall>l\<in>set ls. l \<noteq> [] \<and> last l = CHR 0x0A" "write_lines (wrapConsole ''windows'' do_write) ls \<lparr>w_out = [], w_left = k\<rparr> = (ns, w)"
  shows "\<exists>taken. subseq taken ls \<and> (k = None \<longrightarrow> taken = ls) \<and> w_out w = crlf_bytes None (concat taken) \<and> all_crlf None (w_out w)
     \<and> no_cr (w_out w) = no_cr (concat taken) \<and> sum_list ns = length (concat taken) \<and> crlf_bytes None (w_out w) = w_out w"
proof -
  let ?w = "\<lparr>w_out = [], w_left = k\<rparr>"
  obtain taken where t: "subseq taken ls" "w_out w = crlf_bytes None (concat taken)" "sum_list ns = length (concat taken)"
    using stream.crlf_lines [OF assms(1), of ?w] assms(2) by (auto simp: wrapConsole_def)
  have all: "sum_list ns = length (concat ls)" if "k = None"
  proof -
    have "w_left w = None \<Longrightarrow> fst (write_lines (crlf_Write do_write) ls w) = map length ls" for w
      by (induction ls arbitrary: w) (simp_all add: crlf_Write_def do_write_def case_prod_beta)
    from this [of ?w] that assms(2) show ?thesis by (simp add: wrapConsole_def length_concat)
  qed
  have "taken = ls" if "k = None"
    using subseq_concat_eq [OF t(1)] all [OF that] t(3) assms(1) by simp
  then show ?thesis using t all_crlf_crlf [of None "concat taken"] crlf_all_crlf no_cr_crlf [of None "concat taken"] by auto
qed


theorem windows_console_lines_witness:
  "w_out (snd (write_lines (wrapConsole ''windows'' do_write) [''a'' @ [CHR 0x0A], ''b'' @ [CHR 0x0D, CHR 0x0A]] \<lparr>w_out = [], w_left = None\<rparr>))
   = ''a'' @ [CHR 0x0D, CHR 0x0A] @ ''b'' @ [CHR 0x0D, CHR 0x0A]"
proof -
  let ?ls = "[''a'' @ [CHR 0x0A], ''b'' @ [CHR 0x0D, CHR 0x0A]]"
  obtain ns w where w: "write_lines (wrapConsole ''windows'' do_write) ?ls \<lparr>w_out = [], w_left = None\<rparr> = (ns, w)" by fastforce
  have "\<forall>l\<in>set ?ls. l \<noteq> [] \<and> last l = CHR 0x0A" by simp
  from windows_console_lines [OF this w] have "w_out w = crlf_bytes None (concat ?ls)" by metis
  then show ?thesis unfolding w by simp
qed

text \<open>A carriage return and its newline that come in two writes get a second carriage return: the writer forgets the last byte of the
  write before.\<close>

theorem split_crlf_doubled:
  "snd (write_lines (wrapConsole ''windows'' do_write) [p @ [CHR 0x0D], [CHR 0x0A]] \<lparr>w_out = [], w_left = None\<rparr>)
   = \<lparr>w_out = crlf_bytes None p @ [CHR 0x0D, CHR 0x0D, CHR 0x0A], w_left = None\<rparr>"
  by (simp add: wrapConsole_def crlf_Write_def do_write_def crlf_append)

text \<open>On other systems the console gets the text unchanged.\<close>

theorem other_console_unchanged:
  assumes "goos \<noteq> ''windows''"
  shows "w_out (snd (write_lines (wrapConsole goos do_write) ls \<lparr>w_out = [], w_left = None\<rparr>)) = concat ls"
proof -
  have "w_left w = None \<Longrightarrow> w_out (snd (write_lines (plain_Write do_write) ls w)) = w_out w @ concat ls" for w
    by (induction ls arbitrary: w) (simp_all add: plain_Write_def do_write_def case_prod_beta)
  then show ?thesis using assms by (simp add: wrapConsole_def)
qed

theorem other_console_unchanged_witness:
  "w_out (snd (write_lines (wrapConsole ''linux'' do_write) [''a'', [CHR 0x0A]] \<lparr>w_out = [], w_left = None\<rparr>)) = ''a'' @ [CHR 0x0A]"
  using other_console_unchanged [of "''linux''" "[''a'', [CHR 0x0A]]"] by simp

end
