(* ===== verification/Tunnel_Session.thy ===== *)
theory Tunnel_Session
  imports Go_Prelude
begin

text \<open>
  The session tokens of \<^verbatim>\<open>pkg/tunnel/session.go\<close>: a session with its lifetime, and the cache that
  finds it by token and by node. Cached entries are never changed after they are stored, so the
  maps hold their values. The clock reading of a call is an argument.
\<close>

section \<open>Sessions\<close>

definition SessionTTL :: duration where "SessionTTL = 24 * 3600 * second_ns"
definition SessionGrace :: duration where "SessionGrace = 5 * 60 * second_ns"
definition SessionRenewBefore :: duration where "SessionRenewBefore = 30 * 60 * second_ns"

record session =
  ss_token :: string
  ss_key :: string
  ss_issued :: time
  ss_expires :: time
  ss_heartbeat :: duration

text \<open>The random token and key are arguments; \<^const>\<open>None\<close> is a failing source of randomness.\<close>

definition NewSession :: "string \<Rightarrow> string option \<Rightarrow> time \<Rightarrow> session option" where
  "NewSession tok key now =
     (case key of None \<Rightarrow> None
      | Some k \<Rightarrow> Some \<lparr>ss_token = tok, ss_key = k, ss_issued = now, ss_expires = now + SessionTTL, ss_heartbeat = 0\<rparr>)"

definition IsExpired :: "time \<Rightarrow> session option \<Rightarrow> bool" where
  "IsExpired now s = (case s of None \<Rightarrow> True | Some s \<Rightarrow> ss_expires s + SessionGrace < now)"

definition NeedsRenew :: "time \<Rightarrow> session option \<Rightarrow> bool" where
  "NeedsRenew now s = (case s of None \<Rightarrow> True | Some s \<Rightarrow> ss_expires s - SessionRenewBefore < now)"


section \<open>The cache\<close>

record session_entry =
  se_node :: string
  se_sess :: session

record session_cache =
  sc_by_token :: "(string, session_entry) gomap"
  sc_by_node :: "(string, session_entry) gomap"
  sc_replaced :: "(string, time) gomap"

definition NewSessionCache :: session_cache where
  "NewSessionCache = \<lparr>sc_by_token = [], sc_by_node = [], sc_replaced = []\<rparr>"

definition Put_session :: "time \<Rightarrow> string \<Rightarrow> session \<Rightarrow> session_cache \<Rightarrow> session_cache" where
  "Put_session now nodeID sess c =
     (let e = \<lparr>se_node = nodeID, se_sess = sess\<rparr>;
          c1 = (case mget (sc_by_node c) nodeID of None \<Rightarrow> c
                | Some old \<Rightarrow> c\<lparr>sc_replaced := mput (ss_token (se_sess old)) (now + SessionGrace) (sc_replaced c)\<rparr>)
      in c1\<lparr>sc_by_node := mput nodeID e (sc_by_node c1), sc_by_token := mput (ss_token sess) e (sc_by_token c1)\<rparr>)"

definition LookupByToken :: "time \<Rightarrow> string \<Rightarrow> session_cache \<Rightarrow> session_entry option" where
  "LookupByToken now tok c =
     (case mget (sc_by_token c) tok of
        None \<Rightarrow> None
      | Some e \<Rightarrow>
          if \<not> IsExpired now (Some (se_sess e)) then Some e
          else (case mget (sc_replaced c) tok of None \<Rightarrow> None | Some t \<Rightarrow> if now < t then Some e else None))"

definition LookupByNodeID :: "time \<Rightarrow> string \<Rightarrow> session_cache \<Rightarrow> session_entry option" where
  "LookupByNodeID now nodeID c =
     (case mget (sc_by_node c) nodeID of None \<Rightarrow> None
      | Some e \<Rightarrow> if \<not> IsExpired now (Some (se_sess e)) then Some e else None)"

definition Prune :: "time \<Rightarrow> session_cache \<Rightarrow> session_cache" where
  "Prune now c =
     \<lparr>sc_by_token = mdrop (\<lambda>_ e. IsExpired now (Some (se_sess e))) (sc_by_token c),
      sc_by_node = mdrop (\<lambda>_ e. IsExpired now (Some (se_sess e))) (sc_by_node c),
      sc_replaced = mdrop (\<lambda>_ t. t < now) (sc_replaced c)\<rparr>"

datatype cache_op = CPut time string session | CPrune time

definition cache_step :: "session_cache \<Rightarrow> cache_op \<Rightarrow> session_cache" where
  "cache_step c op = (case op of CPut now i s \<Rightarrow> Put_session now i s c | CPrune now \<Rightarrow> Prune now c)"


lemma cache_step_simps [simp]:
  "cache_step c (CPut now i s) = Put_session now i s c" "cache_step c (CPrune now) = Prune now c"
  by (simp_all add: cache_step_def)


section \<open>Invariant\<close>

text \<open>Entries are stored under their own token and node.\<close>

definition cache_inv :: "session_cache \<Rightarrow> bool" where
  "cache_inv c \<longleftrightarrow> wf_map (sc_by_token c) \<and> wf_map (sc_by_node c) \<and> wf_map (sc_replaced c)
     \<and> (\<forall>k e. mget (sc_by_token c) k = Some e \<longrightarrow> ss_token (se_sess e) = k)
     \<and> (\<forall>i e. mget (sc_by_node c) i = Some e \<longrightarrow> se_node e = i)"

lemma cache_inv_start: "cache_inv NewSessionCache"
  by (simp add: cache_inv_def NewSessionCache_def)

lemma cache_inv_put: "cache_inv c \<Longrightarrow> cache_inv (Put_session now i s c)"
  by (simp add: cache_inv_def Put_session_def mget_put Let_def split: option.split)

lemma cache_inv_prune: "cache_inv c \<Longrightarrow> cache_inv (Prune now c)"
  by (auto simp: cache_inv_def Prune_def mget_drop split: option.splits if_splits)

lemma cache_inv_step: "cache_inv c \<Longrightarrow> cache_inv (cache_step c op)"
  by (simp add: cache_step_def cache_inv_put cache_inv_prune split: cache_op.split)

interpretation sessions: stepped NewSessionCache cache_step cache_inv
  by unfold_locales (use cache_inv_start cache_inv_step in auto)

lemma put_by_token: "mget (sc_by_token (Put_session now i s c)) k
    = (if k = ss_token s then Some \<lparr>se_node = i, se_sess = s\<rparr> else mget (sc_by_token c) k)"
  by (simp add: Put_session_def Let_def mget_put split: option.split)

lemma put_by_node: "mget (sc_by_node (Put_session now i s c)) k
    = (if k = i then Some \<lparr>se_node = i, se_sess = s\<rparr> else mget (sc_by_node c) k)"
  by (simp add: Put_session_def Let_def mget_put split: option.split)

lemma prune_by_token: "wf_map (sc_by_token c) \<Longrightarrow> mget (sc_by_token (Prune now c)) k = (case mget (sc_by_token c) k of
    None \<Rightarrow> None | Some e \<Rightarrow> if IsExpired now (Some (se_sess e)) then None else Some e)"
  by (simp add: Prune_def mget_drop)

text \<open>An operation that neither stores the token or node again nor prunes after the expiry.\<close>

definition harmless :: "string \<Rightarrow> session \<Rightarrow> cache_op \<Rightarrow> bool" where
  "harmless i s op \<longleftrightarrow>
     (case op of CPut _ j s' \<Rightarrow> ss_token s' \<noteq> ss_token s | CPrune now \<Rightarrow> now \<le> ss_expires s + SessionGrace)"

lemma token_kept:
  assumes "cache_inv c" "mget (sc_by_token c) (ss_token s) = Some \<lparr>se_node = i, se_sess = s\<rparr>" "list_all (harmless i s) ops"
  shows "mget (sc_by_token (foldl cache_step c ops)) (ss_token s) = Some \<lparr>se_node = i, se_sess = s\<rparr>"
  using assms
proof (induction ops arbitrary: c)
  case (Cons op ops)
  have "mget (sc_by_token (cache_step c op)) (ss_token s) = Some \<lparr>se_node = i, se_sess = s\<rparr>"
  proof (cases op)
    case (CPut t j s')
    then show ?thesis using Cons.prems by (auto simp: put_by_token harmless_def)
  next
    case (CPrune t)
    moreover have "wf_map (sc_by_token c)" using Cons.prems(1) by (simp add: cache_inv_def)
    ultimately show ?thesis using Cons.prems
      by (simp add: prune_by_token IsExpired_def harmless_def)
  qed
  then show ?case using Cons.IH [of "cache_step c op"] Cons.prems cache_inv_step by simp
qed simp

lemma found_was_put:
  "mget (sc_by_token (foldl cache_step NewSessionCache ops)) k = Some e \<Longrightarrow> \<exists>t. CPut t (se_node e) (se_sess e) \<in> set ops"
proof (induction ops rule: rev_induct)
  case (snoc op ops)
  have inv: "cache_inv (foldl cache_step NewSessionCache ops)" by (rule sessions.inv_run)
  show ?case
  proof (cases op)
    case (CPut t j s)
    then show ?thesis using snoc by (auto simp: put_by_token split: if_splits)
  next
    case (CPrune t)
    moreover have "wf_map (sc_by_token (foldl cache_step NewSessionCache ops))" using inv by (simp add: cache_inv_def)
    ultimately show ?thesis using snoc
      by (auto simp: prune_by_token split: option.splits if_splits)
  qed
qed (simp add: NewSessionCache_def)


section \<open>Properties\<close>

text \<open>A session is found by its token until five minutes after its expiry, whatever is stored for
  other tokens and however often the cache is pruned, and what a lookup finds was stored under
  that token.\<close>

theorem session_found_until_expiry:
  assumes "list_all (harmless i s) ys" "now \<le> ss_expires s + SessionGrace"
    "c = foldl cache_step NewSessionCache (xs @ [CPut t i s] @ ys)"
  shows "LookupByToken now (ss_token s) c = Some \<lparr>se_node = i, se_sess = s\<rparr>
       \<and> (\<forall>now' k e. LookupByToken now' k c = Some e \<longrightarrow>
            ss_token (se_sess e) = k \<and> (\<exists>t'. CPut t' (se_node e) (se_sess e) \<in> set (xs @ [CPut t i s] @ ys)))"
proof -
  define c1 where "c1 = Put_session t i s (foldl cache_step NewSessionCache xs)"
  have "cache_inv c1" unfolding c1_def by (intro cache_inv_put sessions.inv_run)
  moreover have "mget (sc_by_token c1) (ss_token s) = Some \<lparr>se_node = i, se_sess = s\<rparr>"
    by (simp add: c1_def put_by_token)
  ultimately have "mget (sc_by_token c) (ss_token s) = Some \<lparr>se_node = i, se_sess = s\<rparr>"
    using token_kept assms(1,3) by (simp add: c1_def)
  moreover have "ss_token (se_sess e) = k \<and> (\<exists>t'. CPut t' (se_node e) (se_sess e) \<in> set (xs @ [CPut t i s] @ ys))"
    if "LookupByToken now' k c = Some e" for now' k e
  proof -
    have "mget (sc_by_token c) k = Some e"
      using that by (auto simp: LookupByToken_def split: option.splits if_splits)
    moreover have "cache_inv c" unfolding assms(3) by (rule sessions.inv_run)
    ultimately show ?thesis using found_was_put [of "xs @ [CPut t i s] @ ys" k e] assms(3) by (auto simp: cache_inv_def)
  qed
  ultimately show ?thesis using assms(2) by (auto simp: LookupByToken_def IsExpired_def)
qed

definition toy_session :: "string \<Rightarrow> time \<Rightarrow> session" where
  "toy_session tok now = \<lparr>ss_token = tok, ss_key = ''k'', ss_issued = now, ss_expires = now + SessionTTL, ss_heartbeat = 0\<rparr>"

theorem session_found_until_expiry_witness:
  "LookupByToken 7 ''a'' (foldl cache_step NewSessionCache [CPut 0 ''n'' (toy_session ''a'' 0), CPrune 3,
     CPut 5 ''m'' (toy_session ''b'' 5)]) = Some \<lparr>se_node = ''n'', se_sess = toy_session ''a'' 0\<rparr>"
  using session_found_until_expiry [OF _ _ refl, of "''n''" "toy_session ''a'' 0" "[CPrune 3, CPut 5 ''m'' (toy_session ''b'' 5)]" 7 "[]" 0]
  by (simp add: toy_session_def harmless_def SessionTTL_def SessionGrace_def second_ns_def)

text \<open>A token that was replaced by a newer session of its node stays valid for the rest of its own
  lifetime, not only for the grace period.\<close>

theorem rotated_token_outlives_grace:
  assumes "ss_token s \<noteq> ss_token s'" "t' + SessionGrace < now" "now \<le> ss_expires s + SessionGrace"
  shows "LookupByToken now (ss_token s) (Put_session t' i s' (Put_session t i s NewSessionCache))
       = Some \<lparr>se_node = i, se_sess = s\<rparr>"
  using assms by (simp add: LookupByToken_def put_by_token IsExpired_def)

end
