(* ===== verification/Tunnel_Config.thy ===== *)
theory Tunnel_Config
  imports Go_FS
begin

text \<open>
  The configuration of a node, \<^verbatim>\<open>pkg/tunnel/config.go\<close>, \<^verbatim>\<open>runtime.go\<close> and \<^verbatim>\<open>base.go\<close>: finding the root
  directory, the outbound gateway, the authentication and main configuration files, the writable
  runtime override and what a node derives from them at its start. The JSON encodings of the
  configuration structures are arguments.
\<close>

section \<open>The root directory\<close>

record iann_config =
  ia_version :: string
  ia_instance_id :: string
  ia_conf :: string
  ia_packages :: string
  ia_models :: string
  ia_outputs :: string
  ia_logs :: string

datatype config_error =
    RootNotFound string | ParseFailed | ReadFailed fs_error | NoPath | MkdirFailed fs_error | WriteFailed fs_error
  | EncodeFailed

definition root_file :: string where "root_file = ''isann.config.json''"

fun find_root_loop :: "(string \<Rightarrow> iann_config option) \<Rightarrow> fs \<Rightarrow> string \<Rightarrow> nat \<Rightarrow> string \<Rightarrow> config_error + string \<times> iann_config" where
  "find_root_loop decode F start 0 dir = Inl (RootNotFound start)"
| "find_root_loop decode F start (Suc n) dir =
     (case os_ReadFile F (join_path dir root_file) of
        Inr data \<Rightarrow> (case decode data of None \<Rightarrow> Inl ParseFailed | Some cfg \<Rightarrow> Inr (dir, cfg))
      | Inl _ \<Rightarrow> if dir_path dir = dir then Inl (RootNotFound start) else find_root_loop decode F start n (dir_path dir))"

definition FindRoot :: "(string \<Rightarrow> iann_config option) \<Rightarrow> fs \<Rightarrow> string \<Rightarrow> config_error + string \<times> iann_config" where
  "FindRoot decode F startDir = find_root_loop decode F startDir 12 (abs_path (fs_cwd F) startDir)"

definition ResolvePath :: "string \<Rightarrow> string \<Rightarrow> string \<Rightarrow> string" where
  "ResolvePath root override def_path =
     (let p = (if override = [] then def_path else override) in if is_abs p then p else join_path root p)"


section \<open>Modes and timeouts\<close>

definition NormalizeMode :: "string \<Rightarrow> string" where
  "NormalizeMode m =
     (if m = ''client'' \<or> m = ''broker'' then ''control''
      else if m = ''server'' \<or> m = ''provider'' then ''station'' else m)"

record timeout_config =
  tc_provider_sec :: int
  tc_connect_sec :: int
  tc_stale_sec :: int

text \<open>A product of a duration wraps around at 64 bits.\<close>

definition Provider_timeout :: "timeout_config \<Rightarrow> duration" where
  "Provider_timeout t = (if tc_provider_sec t \<le> 0 then 180 * second_ns else wrap64 (tc_provider_sec t * second_ns))"

definition Connect_timeout :: "timeout_config \<Rightarrow> duration" where
  "Connect_timeout t = (if tc_connect_sec t \<le> 0 then 20 * second_ns else wrap64 (tc_connect_sec t * second_ns))"

definition StaleDetect_timeout :: "timeout_config \<Rightarrow> duration" where
  "StaleDetect_timeout t =
     (if tc_stale_sec t = 0 then 5 * second_ns else if tc_stale_sec t < 0 then 0 else wrap64 (tc_stale_sec t * second_ns))"


section \<open>The outbound gateway\<close>

record gateway_config =
  gw_node_bridge :: string
  gw_rv_control :: string
  gw_rendezvous :: string
  gw_gate :: string

text \<open>The parts before and after the last colon; no colon leaves the second part empty.\<close>

definition last_colon :: "string \<Rightarrow> (string \<times> string) option" where
  "last_colon s =
     (case index_byte (rev s) CHR '':'' of None \<Rightarrow> None
      | Some i \<Rightarrow> Some (rev (drop (Suc i) (rev s)), rev (take i (rev s))))"

definition host_or_local :: "string \<Rightarrow> string" where
  "host_or_local raw =
     (let host = (case last_colon raw of None \<Rightarrow> raw | Some (h, _) \<Rightarrow> h) in if host = [] then ''127.0.0.1'' else host)"

definition strip_http :: "string \<Rightarrow> string" where
  "strip_http s = trim_prefix (trim_prefix s ''https://'') ''http://''"

definition URL :: "gateway_config \<Rightarrow> string" where
  "URL g =
     (if gw_node_bridge g \<noteq> [] then
        let raw = strip_http (gw_node_bridge g);
            port = (case last_colon raw of None \<Rightarrow> [] | Some (_, p) \<Rightarrow> p);
            port = (if port = ''19100'' then ''8443'' else port);
            port = (if port = [] then ''8443'' else port)
        in ''http://'' @ host_or_local raw @ '':'' @ port
      else if gw_rv_control g \<noteq> [] then
        ''http://'' @ host_or_local (trim_prefix (gw_rv_control g) ''tcp://'') @ '':8443''
      else ''http://127.0.0.1:8443'')"

definition ControlHostPort :: "gateway_config \<Rightarrow> string" where
  "ControlHostPort g =
     (if gw_rv_control g \<noteq> [] then trim_prefix (gw_rv_control g) ''tcp://''
      else if gw_node_bridge g \<noteq> [] then host_or_local (strip_http (gw_node_bridge g)) @ '':19100''
      else ''127.0.0.1:19100'')"

definition RendezvousHostPort :: "gateway_config \<Rightarrow> string" where
  "RendezvousHostPort g = strip_http (gw_rendezvous g)"


section \<open>The authentication file\<close>

record auth_config =
  ac_mode :: string
  ac_owner :: string
  ac_issuer :: string
  ac_admins :: "string list"
  ac_users :: "string list"
  ac_revoked :: "string list"
  ac_file :: string

definition zero_auth :: auth_config where
  "zero_auth = \<lparr>ac_mode = [], ac_owner = [], ac_issuer = [], ac_admins = [], ac_users = [], ac_revoked = [], ac_file = []\<rparr>"

definition LoadAuthConfig :: "(string \<Rightarrow> auth_config option) \<Rightarrow> fs \<Rightarrow> string \<Rightarrow> config_error + auth_config" where
  "LoadAuthConfig decode F mainConfigPath =
     (let path = join_path (dir_path mainConfigPath) ''auth.json'' in
      case os_ReadFile F path of
        Inl NotExist \<Rightarrow> Inr (zero_auth\<lparr>ac_mode := ''public'', ac_file := path\<rparr>)
      | Inl e \<Rightarrow> Inl (ReadFailed e)
      | Inr data \<Rightarrow>
          (case decode data of None \<Rightarrow> Inl ParseFailed
           | Some ac \<Rightarrow> Inr (ac\<lparr>ac_file := path, ac_mode := (if ac_mode ac = ''open'' then ''public'' else ac_mode ac)\<rparr>)))"

text \<open>Writing an encoded structure to its file, as the three save functions do.\<close>

definition save_file :: "string \<Rightarrow> string option \<Rightarrow> fs \<Rightarrow> config_error option \<times> fs" where
  "save_file path data F =
     (if path = [] then (Some NoPath, F)
      else case os_MkdirAll F (dir_path path) of
             (Some e, F1) \<Rightarrow> (Some (MkdirFailed e), F1)
           | (None, F1) \<Rightarrow>
               (case data of None \<Rightarrow> (Some EncodeFailed, F1)
                | Some d \<Rightarrow> (case os_WriteFile F1 path d of Inl e \<Rightarrow> (Some (WriteFailed e), F1) | Inr F2 \<Rightarrow> (None, F2))))"

definition SaveAuthConfig :: "(auth_config \<Rightarrow> string option) \<Rightarrow> auth_config \<Rightarrow> fs \<Rightarrow> config_error option \<times> fs" where
  "SaveAuthConfig encode ac F = save_file (ac_file ac) (encode ac) F"

definition IsPublic :: "auth_config \<Rightarrow> bool" where
  "IsPublic ac \<longleftrightarrow> ac_mode ac = ''public'' \<or> ac_mode ac = ''open'' \<or> ac_mode ac = []"


section \<open>The main configuration and the runtime override\<close>

text \<open>The service entries, the log, queue and database blocks are not looked at by this code.\<close>

record 'x config =
  cf_mode :: string
  cf_listen_addr :: string
  cf_gateway :: gateway_config
  cf_tls_enabled :: bool
  cf_tls_cert :: string
  cf_tls_key :: string
  cf_timeout :: timeout_config
  cf_home_dir :: string
  cf_emblem :: string
  cf_log_file :: string
  cf_cards :: "(string, bool) gomap option"
  cf_api_features :: "(string, bool) gomap option"
  cf_file :: string
  cf_other :: 'x

record runtime_override =
  ro_cards :: "(string, bool) gomap option"
  ro_api_features :: "(string, bool) gomap option"

definition runtimePath :: "string \<Rightarrow> 'x config \<Rightarrow> string" where
  "runtimePath env cfg =
     (if env \<noteq> [] then env
      else if cf_file cfg \<noteq> [] then join_path (dir_path (cf_file cfg)) ''broker-runtime.json''
      else ''broker-runtime.json'')"

definition LoadRuntime :: "(string \<Rightarrow> runtime_override option) \<Rightarrow> string \<Rightarrow> fs \<Rightarrow> 'x config \<Rightarrow> config_error + runtime_override" where
  "LoadRuntime decode env F cfg =
     (case os_ReadFile F (runtimePath env cfg) of
        Inl NotExist \<Rightarrow> Inr \<lparr>ro_cards = None, ro_api_features = None\<rparr>
      | Inl e \<Rightarrow> Inl (ReadFailed e)
      | Inr data \<Rightarrow> (case decode data of None \<Rightarrow> Inl ParseFailed | Some r \<Rightarrow> Inr r))"

definition SaveRuntime :: "(runtime_override \<Rightarrow> string option) \<Rightarrow> string \<Rightarrow> 'x config \<Rightarrow> runtime_override \<Rightarrow> fs \<Rightarrow> config_error option \<times> fs" where
  "SaveRuntime encode env cfg r F = save_file (runtimePath env cfg) (encode r) F"

definition ApplyRuntime :: "runtime_override \<Rightarrow> 'x config \<Rightarrow> 'x config" where
  "ApplyRuntime r cfg =
     cfg\<lparr>cf_cards := (if ro_cards r \<noteq> None then ro_cards r else cf_cards cfg),
         cf_api_features := (if ro_api_features r \<noteq> None then ro_api_features r else cf_api_features cfg)\<rparr>"

definition LoadConfig :: "(string \<Rightarrow> 'x config option) \<Rightarrow> (string \<Rightarrow> runtime_override option) \<Rightarrow> string \<Rightarrow> fs \<Rightarrow> string \<Rightarrow> config_error + 'x config" where
  "LoadConfig decode decode_rt env F path =
     (case os_ReadFile F path of
        Inl e \<Rightarrow> Inl (ReadFailed e)
      | Inr data \<Rightarrow>
          (case decode data of None \<Rightarrow> Inl ParseFailed
           | Some c0 \<Rightarrow>
               let c1 = c0\<lparr>cf_file := path, cf_mode := NormalizeMode (cf_mode c0)\<rparr> in
               Inr (case LoadRuntime decode_rt env F c1 of Inl _ \<Rightarrow> c1 | Inr r \<Rightarrow> ApplyRuntime r c1)))"

definition SaveConfig :: "('x config \<Rightarrow> string option) \<Rightarrow> 'x config \<Rightarrow> fs \<Rightarrow> config_error option \<times> fs" where
  "SaveConfig encode cfg F = save_file (cf_file cfg) (encode cfg) F"


section \<open>The start of a node\<close>

record 'x base =
  ba_cfg :: "'x config"
  ba_auth :: auth_config
  ba_root :: string
  ba_iann :: iann_config
  ba_packages :: string
  ba_models :: string
  ba_outputs :: string
  ba_logs :: string
  ba_log_file :: string
  ba_address :: string

text \<open>
  \<open>cwd\<close> is the working directory if it is known, \<open>identity\<close> the address derived from the hardware;
  without an identity the process ends, which is \<^const>\<open>None\<close>.
\<close>

definition NewBase ::
  "(string \<Rightarrow> auth_config option) \<Rightarrow> ('x config \<Rightarrow> string option) \<Rightarrow> string option \<Rightarrow> string option \<Rightarrow> 'x config
    \<Rightarrow> string \<Rightarrow> iann_config option \<Rightarrow> fs \<Rightarrow> ('x base \<times> fs) option" where
  "NewBase decode_auth encode cwd identity cfg root0 iann0 F =
     (let iann = (case iann0 of None \<Rightarrow> \<lparr>ia_version = ''1.0'', ia_instance_id = [], ia_conf = [], ia_packages = [],
                                        ia_models = [], ia_outputs = [], ia_logs = []\<rparr> | Some i \<Rightarrow> i);
          root = (if root0 = [] then (case cwd of None \<Rightarrow> [] | Some d \<Rightarrow> d) else root0);
          packages = ResolvePath root (ia_packages iann) ''packages'';
          models = ResolvePath root (ia_models iann) (join_path packages ''models'');
          outputs = ResolvePath root (ia_outputs iann) ''outputs'';
          logs = ResolvePath root (ia_logs iann) ''logs''
      in case identity of None \<Rightarrow> None
         | Some addr \<Rightarrow>
             let auth = (if cf_file cfg \<noteq> []
                         then (case LoadAuthConfig decode_auth F (cf_file cfg) of
                                 Inl _ \<Rightarrow> zero_auth\<lparr>ac_mode := ''public''\<rparr> | Inr ac \<Rightarrow> ac)
                         else zero_auth\<lparr>ac_mode := ''public''\<rparr>);
                 (cfg1, F1) =
                   (if cf_emblem cfg \<noteq> [] \<and> cf_home_dir cfg \<noteq> []
                       \<and> \<not> os_Exists F (join_path (cf_home_dir cfg) (cf_emblem cfg))
                    then let c = cfg\<lparr>cf_emblem := []\<rparr> in
                         (c, if cf_file c \<noteq> [] then snd (SaveConfig encode c F) else F)
                    else (cfg, F));
                 log = ''logs/'' @ cf_mode cfg1 @ ''.log'';
                 log = (if root \<noteq> [] then join_path root log else log)
             in Some (\<lparr>ba_cfg = cfg1, ba_auth = auth, ba_root = root, ba_iann = iann, ba_packages = packages,
                       ba_models = models, ba_outputs = outputs, ba_logs = logs, ba_log_file = log,
                       ba_address = addr\<rparr>, F1))"


section \<open>Walking up to the root\<close>

text \<open>The configuration file of a directory given by its components.\<close>

definition root_at :: "fs \<Rightarrow> string list \<Rightarrow> string option" where
  "root_at F cs = (case os_ReadFile F (join_path (dir_of cs) root_file) of Inl _ \<Rightarrow> None | Inr d \<Rightarrow> Some d)"

lemma dir_path_root: "dir_path (dir_of []) = dir_of []"
  by (simp add: dir_path_def dir_of_def clean_path_def is_abs_def has_prefix_def clean_parts_def clean_step_def split_def)

lemma dir_path_parent: "list_all plain_part (cs @ [n]) \<Longrightarrow> dir_path (dir_of (cs @ [n])) = dir_of cs"
proof (cases "cs = []")
  case True
  assume "list_all plain_part (cs @ [n])"
  then show ?thesis using dir_path_top [of n] by (simp add: True) (simp add: dir_of_def)
qed (use dir_path_entry [of cs n] in \<open>simp add: dir_of_snoc\<close>)

text \<open>The first \<open>k\<close> components of \<open>cs\<close> are the nearest root, at fewer than \<open>n\<close> steps.\<close>

definition nearest :: "(string \<Rightarrow> iann_config option) \<Rightarrow> fs \<Rightarrow> string \<Rightarrow> iann_config \<Rightarrow> nat \<Rightarrow> string list \<Rightarrow> nat \<Rightarrow> bool" where
  "nearest decode F d cfg n cs k \<longleftrightarrow> length cs - k < n \<and> d = dir_of (take k cs)
     \<and> (\<exists>data. root_at F (take k cs) = Some data \<and> decode data = Some cfg)
     \<and> (\<forall>j. k < j \<and> j \<le> length cs \<longrightarrow> root_at F (take j cs) = None)"

lemma nearest_here:
  assumes "root_at F cs = Some data"
  shows "(\<exists>k \<le> length cs. nearest decode F d cfg (Suc n) cs k) \<longleftrightarrow> d = dir_of cs \<and> decode data = Some cfg"
proof
  assume "\<exists>k \<le> length cs. nearest decode F d cfg (Suc n) cs k"
  then obtain k where k: "k \<le> length cs" "nearest decode F d cfg (Suc n) cs k" by blast
  then have "k = length cs" using assms
    unfolding nearest_def by (metis le_neq_implies_less order_refl option.distinct(1) take_all)
  with k(2) assms show "d = dir_of cs \<and> decode data = Some cfg" by (simp add: nearest_def)
next
  assume "d = dir_of cs \<and> decode data = Some cfg"
  with assms show "\<exists>k \<le> length cs. nearest decode F d cfg (Suc n) cs k" by (intro exI [of _ "length cs"]) (simp add: nearest_def)
qed

lemma nearest_parent:
  assumes "root_at F (cs @ [x]) = None"
  shows "(\<exists>k \<le> length (cs @ [x]). nearest decode F d cfg (Suc n) (cs @ [x]) k) \<longleftrightarrow> (\<exists>k \<le> length cs. nearest decode F d cfg n cs k)"
proof -
  have "nearest decode F d cfg (Suc n) (cs @ [x]) k \<longleftrightarrow> nearest decode F d cfg n cs k" if "k \<le> length cs" for k
    using that assms by (auto simp: nearest_def Suc_diff_le le_Suc_eq)
  moreover have "\<not> nearest decode F d cfg (Suc n) (cs @ [x]) (Suc (length cs))" using assms by (simp add: nearest_def)
  ultimately show ?thesis by (auto simp: le_Suc_eq)
qed

lemma find_root_loop_iff:
  assumes "list_all plain_part cs"
  shows "find_root_loop decode F start n (dir_of cs) = Inr (d, cfg) \<longleftrightarrow> (\<exists>k \<le> length cs. nearest decode F d cfg n cs k)"
  using assms
proof (induction n arbitrary: cs)
  case (Suc n)
  show ?case
  proof (cases "root_at F cs")
    case (Some data)
    then have "os_ReadFile F (join_path (dir_of cs) root_file) = Inr data" by (auto simp: root_at_def split: sum.splits)
    then show ?thesis unfolding nearest_here [OF Some] by (auto split: option.splits)
  next
    case None
    then obtain e where r: "os_ReadFile F (join_path (dir_of cs) root_file) = Inl e" by (auto simp: root_at_def split: sum.splits)
    show ?thesis
    proof (cases cs rule: rev_cases)
      case Nil
      then show ?thesis using None r by (simp add: dir_path_root nearest_def)
    next
      case (snoc ds x)
      have "dir_of ds \<noteq> dir_of cs" using dir_of_inj [of ds cs] Suc.prems snoc by auto
      then have "find_root_loop decode F start (Suc n) (dir_of cs) = find_root_loop decode F start n (dir_of ds)"
        using r dir_path_parent [of ds x] Suc.prems snoc by simp
      then show ?thesis using Suc.IH [of ds] Suc.prems None unfolding snoc nearest_parent [OF None [unfolded snoc]] by simp
    qed
  qed
qed (simp add: nearest_def)


section \<open>Properties\<close>

text \<open>The root directory is the nearest directory, among the start directory and its eleven next
  ancestors, that has a readable anchor file; the search ends, fails if there is none, and does
  not skip a nearer anchor it cannot parse.\<close>

theorem find_root_nearest:
  assumes "abs_path (fs_cwd F) startDir = dir_of cs" "list_all plain_part cs"
  shows "FindRoot decode F startDir = Inr (d, cfg) \<longleftrightarrow>
     (\<exists>k \<le> length cs. length cs - k < 12 \<and> d = dir_of (take k cs)
        \<and> (\<exists>data. root_at F (take k cs) = Some data \<and> decode data = Some cfg)
        \<and> (\<forall>j. k < j \<and> j \<le> length cs \<longrightarrow> root_at F (take j cs) = None))"
  unfolding FindRoot_def assms(1) by (rule find_root_loop_iff [OF assms(2), unfolded nearest_def])

definition toy_iann :: iann_config where
  "toy_iann = \<lparr>ia_version = ''1.0'', ia_instance_id = [], ia_conf = [], ia_packages = [], ia_models = [],
     ia_outputs = [], ia_logs = []\<rparr>"

definition toy_tree :: fs where
  "toy_tree = \<lparr>fs_cwd = ''/'', fs_dirs = [''/a'', ''/a/b''], fs_files = [(''/a/isann.config.json'', ''{}'')], fs_denied = []\<rparr>"

theorem find_root_nearest_witness: "FindRoot (\<lambda>_. Some toy_iann) toy_tree ''/a/b'' = Inr (''/a'', toy_iann)"
proof -
  have 1: "abs_path (fs_cwd toy_tree) ''/a/b'' = dir_of [''a'', ''b'']" by code_simp
  have 2: "list_all plain_part [''a'', ''b'']" by (simp add: plain_part_def)
  have 3: "root_at toy_tree [''a''] = Some ''{}''" "root_at toy_tree [''a'', ''b''] = None" by code_simp+
  have "\<forall>j. 1 < j \<and> j \<le> length [''a'', ''b''] \<longrightarrow> root_at toy_tree (take j [''a'', ''b'']) = None"
  proof (intro allI impI)
    fix j :: nat assume "1 < j \<and> j \<le> length [''a'', ''b'']"
    then have "j = 2" by simp
    then show "root_at toy_tree (take j [''a'', ''b'']) = None" using 3(2) by simp
  qed
  then show ?thesis unfolding find_root_nearest [OF 1 2]
    using 3(1) by (intro exI [of _ 1]) (auto simp: dir_of_def)
qed

text \<open>A configuration that was saved is read back as it was, with its mode normalised and the cards
  and features of the runtime override, if there are any, on top.\<close>

theorem config_roundtrip:
  assumes "SaveConfig encode cfg F = (None, F')" "encode cfg = Some data" "decode data = Some (cfg\<lparr>cf_file := []\<rparr>)"
    "LoadRuntime decode_rt env F' (cfg\<lparr>cf_mode := NormalizeMode (cf_mode cfg)\<rparr>) = Inr r"
  shows "LoadConfig decode decode_rt env F' (cf_file cfg) = Inr (ApplyRuntime r (cfg\<lparr>cf_mode := NormalizeMode (cf_mode cfg)\<rparr>))
       \<and> NormalizeMode (NormalizeMode (cf_mode cfg)) = NormalizeMode (cf_mode cfg)"
proof -
  obtain F1 where "os_WriteFile F1 (cf_file cfg) data = Inr F'"
    using assms(1,2) by (auto simp: SaveConfig_def save_file_def split: if_splits prod.splits option.splits sum.splits)
  then have "os_ReadFile F' (cf_file cfg) = Inr data" by (rule read_written)
  then show ?thesis using assms(3,4) by (simp add: LoadConfig_def NormalizeMode_def)
qed

definition toy_config :: "unit config" where
  "toy_config = \<lparr>cf_mode = ''broker'', cf_listen_addr = [],
     cf_gateway = \<lparr>gw_node_bridge = [], gw_rv_control = [], gw_rendezvous = [], gw_gate = []\<rparr>,
     cf_tls_enabled = False, cf_tls_cert = [], cf_tls_key = [],
     cf_timeout = \<lparr>tc_provider_sec = 0, tc_connect_sec = 0, tc_stale_sec = 0\<rparr>, cf_home_dir = [], cf_emblem = [],
     cf_log_file = [], cf_cards = None, cf_api_features = None, cf_file = ''/a/c.json'', cf_other = ()\<rparr>"

theorem config_roundtrip_witness:
  "\<exists>F'. SaveConfig (\<lambda>_. Some ''x'') toy_config toy_tree = (None, F')
     \<and> LoadConfig (\<lambda>_. Some (toy_config\<lparr>cf_file := []\<rparr>)) (\<lambda>_. None) [] F' ''/a/c.json''
         = Inr (toy_config\<lparr>cf_mode := ''control''\<rparr>)"
proof -
  define F' where "F' = snd (SaveConfig (\<lambda>_. Some ''x'') toy_config toy_tree)"
  have 1: "SaveConfig (\<lambda>_. Some ''x'') toy_config toy_tree = (None, F')" unfolding F'_def by code_simp
  have 2: "LoadRuntime (\<lambda>_. None) [] F' (toy_config\<lparr>cf_mode := NormalizeMode (cf_mode toy_config)\<rparr>)
      = Inr \<lparr>ro_cards = None, ro_api_features = None\<rparr>" unfolding F'_def by code_simp
  from config_roundtrip [OF 1 refl refl 2] 1 show ?thesis
    by (simp add: ApplyRuntime_def toy_config_def NormalizeMode_def)
qed

lemma last_colon_port: "last_colon s = Some (h, p) \<Longrightarrow> CHR '':'' \<notin> set p"
  using index_byte_SomeD [of "rev s" "CHR '':''"] by (auto simp: last_colon_def split: option.splits)

text \<open>The HTTP base address of the gateway is always a host and a port, and never the port of the
  control listener, whatever is configured.\<close>

theorem gateway_url_form:
  "\<exists>host port. URL g = ''http://'' @ host @ '':'' @ port \<and> host \<noteq> [] \<and> port \<noteq> [] \<and> port \<noteq> ''19100''
     \<and> CHR '':'' \<notin> set port"
proof -
  have host: "host_or_local raw \<noteq> []" for raw by (simp add: host_or_local_def Let_def)
  define raw where "raw = strip_http (gw_node_bridge g)"
  define port where "port = (case last_colon raw of None \<Rightarrow> [] | Some (_, p) \<Rightarrow> p)"
  define port' where "port' = (if port = ''19100'' \<or> port = [] then ''8443'' else port)"
  have p: "port' \<noteq> []" "port' \<noteq> ''19100''" "CHR '':'' \<notin> set port'"
    using last_colon_port by (auto simp: port'_def port_def split: option.splits)
  show ?thesis
  proof (cases "gw_node_bridge g = []")
    case False
    then have "URL g = ''http://'' @ host_or_local raw @ '':'' @ port'"
      by (simp add: URL_def Let_def raw_def port_def port'_def)
    then show ?thesis using host p by blast
  next
    case True
    then have "URL g = ''http://'' @ (if gw_rv_control g = [] then ''127.0.0.1''
        else host_or_local (trim_prefix (gw_rv_control g) ''tcp://'')) @ '':'' @ ''8443''"
      by (simp add: URL_def)
    moreover have "(if gw_rv_control g = [] then ''127.0.0.1''
        else host_or_local (trim_prefix (gw_rv_control g) ''tcp://'')) \<noteq> []" using host by simp
    ultimately show ?thesis by (intro exI [of _ "if gw_rv_control g = [] then ''127.0.0.1''
        else host_or_local (trim_prefix (gw_rv_control g) ''tcp://'')"] exI [of _ "''8443''"]) simp
  qed
qed

text \<open>The scheme an operator writes is not kept.\<close>

theorem gateway_url_drops_https:
  "URL \<lparr>gw_node_bridge = ''https://bridge:443'', gw_rv_control = [], gw_rendezvous = [], gw_gate = []\<rparr>
     = ''http://bridge:443''"
  by code_simp

text \<open>A node whose authentication file cannot be read or parsed starts in public mode, without owner
  and administrators: a damaged file opens a protected node.\<close>

theorem auth_fails_open:
  assumes "LoadAuthConfig decode_auth F (cf_file cfg) = Inl e" "cf_file cfg \<noteq> []" "identity = Some addr"
  shows "\<exists>b F'. NewBase decode_auth encode cwd identity cfg root iann F = Some (b, F')
     \<and> IsPublic (ba_auth b) \<and> ac_owner (ba_auth b) = [] \<and> ac_admins (ba_auth b) = []"
  using assms by (simp add: NewBase_def Let_def IsPublic_def zero_auth_def split: prod.split)

theorem auth_fails_open_witness:
  "\<exists>b F'. NewBase (\<lambda>_. None) (\<lambda>_. None) None (Some ''0x1'') toy_config [] None
      (toy_tree\<lparr>fs_files := [(''/a/auth.json'', ''broken'')]\<rparr>) = Some (b, F') \<and> IsPublic (ba_auth b)"
proof -
  have "LoadAuthConfig (\<lambda>_. None) (toy_tree\<lparr>fs_files := [(''/a/auth.json'', ''broken'')]\<rparr>) (cf_file toy_config) = Inl ParseFailed"
    by code_simp
  moreover have "cf_file toy_config \<noteq> []" by (simp add: toy_config_def)
  ultimately show ?thesis using auth_fails_open [OF _ _ refl] by blast
qed

end
