(* ===== verification/Tunnel_Admin.thy ===== *)
theory Tunnel_Admin
  imports Tunnel_Config Log_Ring RV_Data
begin

text \<open>
  The admin endpoints of \<^verbatim>\<open>pkg/tunnel/admin.go\<close>: reading and changing the configuration of a
  running node, the visibility of the UI cards, the recent log lines and the log files on disk.
  The decoding of request bodies is an argument; a reply is a status with its JSON fields. The
  lock around the configuration makes an update one step.
\<close>

section \<open>Requests and replies\<close>

record admin_request =
  aq_method :: string
  aq_query :: "(string, string) gomap"
  aq_body :: string

datatype admin_reply = AEmpty int | AError int string | AObj "(string \<times> json) list" | ALines "string list"
  | AFiles "(string \<times> nat) list"

abbreviation aq_get :: "admin_request \<Rightarrow> string \<Rightarrow> string" where
  "aq_get rq k \<equiv> (case mget (aq_query rq) k of None \<Rightarrow> [] | Some v \<Rightarrow> v)"


section \<open>The configuration\<close>

definition config_view :: "'x base \<Rightarrow> (string \<times> json) list" where
  "config_view b =
     [(''mode'', JStr (cf_mode (ba_cfg b))), (''id'', JStr (ba_address b)), (''listen_addr'', JStr (cf_listen_addr (ba_cfg b))),
      (''node_bridge_addr'', JStr (gw_node_bridge (cf_gateway (ba_cfg b)))),
      (''rv_control_addr'', JStr (gw_rv_control (cf_gateway (ba_cfg b)))),
      (''rendezvous_addr'', JStr (gw_rendezvous (cf_gateway (ba_cfg b)))),
      (''gate_addr'', JStr (gw_gate (cf_gateway (ba_cfg b)))),
      (''auth_mode'', JStr (ac_mode (ba_auth b))), (''auth_owner'', JStr (ac_owner (ba_auth b))),
      (''auth_admins'', JArr (map JStr (ac_admins (ba_auth b)))), (''auth_users'', JArr (map JStr (ac_users (ba_auth b)))),
      (''tls_cert'', JStr (cf_tls_cert (ba_cfg b))), (''tls_key'', JStr (cf_tls_key (ba_cfg b)))]"

text \<open>The non-empty strings of an array; \<^const>\<open>None\<close> if the value is not an array.\<close>

definition json_strings :: "json option \<Rightarrow> string list option" where
  "json_strings v =
     (case v of Some (JArr js) \<Rightarrow>
        Some (concat (map (\<lambda>j. case j of JStr s \<Rightarrow> if s = [] then [] else [s] | _ \<Rightarrow> []) js))
      | _ \<Rightarrow> None)"

text \<open>Assigning a field when the request has it: the type assertion guards every assignment.\<close>

definition assign :: "'v option \<Rightarrow> ('v \<Rightarrow> 'a \<Rightarrow> 'a) \<Rightarrow> 'a \<Rightarrow> 'a" where
  "assign v f a = (case v of None \<Rightarrow> a | Some x \<Rightarrow> f x a)"

definition put_gateway :: "(string, json) gomap \<Rightarrow> gateway_config \<Rightarrow> gateway_config" where
  "put_gateway req g =
     assign (as_string (mget req ''gate_addr'')) (\<lambda>v g. g\<lparr>gw_gate := v\<rparr>)
       (assign (as_string (mget req ''rendezvous_addr'')) (\<lambda>v g. g\<lparr>gw_rendezvous := v\<rparr>)
         (assign (as_string (mget req ''rv_control_addr'')) (\<lambda>v g. g\<lparr>gw_rv_control := v\<rparr>)
           (assign (as_string (mget req ''node_bridge_addr'')) (\<lambda>v g. g\<lparr>gw_node_bridge := v\<rparr>) g)))"

definition put_auth :: "(string, json) gomap \<Rightarrow> auth_config \<Rightarrow> auth_config" where
  "put_auth req a =
     assign (json_strings (mget req ''auth_users'')) (\<lambda>v a. a\<lparr>ac_users := v\<rparr>)
       (assign (json_strings (mget req ''auth_admins'')) (\<lambda>v a. a\<lparr>ac_admins := v\<rparr>)
         (assign (as_string (mget req ''auth_mode'')) (\<lambda>v a. a\<lparr>ac_mode := v\<rparr>)
           (assign (as_string (mget req ''auth_owner'')) (\<lambda>v a. a\<lparr>ac_owner := v\<rparr>) a)))"

definition auth_changed :: "(string, json) gomap \<Rightarrow> bool" where
  "auth_changed req \<longleftrightarrow> as_string (mget req ''auth_owner'') \<noteq> None \<or> as_string (mget req ''auth_mode'') \<noteq> None
     \<or> json_strings (mget req ''auth_admins'') \<noteq> None \<or> json_strings (mget req ''auth_users'') \<noteq> None"

definition put_listen :: "(string, json) gomap \<Rightarrow> 'x config \<times> bool \<Rightarrow> 'x config \<times> bool" where
  "put_listen req = assign (as_string (mget req ''listen_addr''))
     (\<lambda>v (c, r). if v \<noteq> [] \<and> v \<noteq> cf_listen_addr c then (c\<lparr>cf_listen_addr := v\<rparr>, True) else (c, r))"

definition put_cert :: "(string, json) gomap \<Rightarrow> 'x config \<times> bool \<Rightarrow> 'x config \<times> bool" where
  "put_cert req = assign (as_string (mget req ''tls_cert''))
     (\<lambda>v (c, r). if v \<noteq> cf_tls_cert c then (c\<lparr>cf_tls_cert := v\<rparr>, True) else (c, r))"

definition put_key :: "(string, json) gomap \<Rightarrow> 'x config \<times> bool \<Rightarrow> 'x config \<times> bool" where
  "put_key req = assign (as_string (mget req ''tls_key''))
     (\<lambda>v (c, r). if v \<noteq> cf_tls_key c then (c\<lparr>cf_tls_key := v\<rparr>, True) else (c, r))"

definition HandleAdminConfig ::
  "(string \<Rightarrow> (string, json) gomap option) \<Rightarrow> ('x config \<Rightarrow> string option) \<Rightarrow> (auth_config \<Rightarrow> string option)
    \<Rightarrow> admin_request \<Rightarrow> 'x base \<Rightarrow> fs \<Rightarrow> admin_reply \<times> 'x base \<times> fs" where
  "HandleAdminConfig decode encode encode_auth rq b F =
     (if aq_method rq = ''OPTIONS'' then (AEmpty 200, b, F)
      else if aq_method rq = ''GET'' then (AObj (config_view b), b, F)
      else if aq_method rq = ''PUT'' then
        (case decode (aq_body rq) of None \<Rightarrow> (AError 400 ''bad request'', b, F)
         | Some req \<Rightarrow>
             let c1 = (ba_cfg b)\<lparr>cf_gateway := put_gateway req (cf_gateway (ba_cfg b))\<rparr>;
                 auth = put_auth req (ba_auth b);
                 (c2, restart) = put_key req (put_cert req (put_listen req (c1, False)));
                 F1 = (if cf_file c2 \<noteq> [] then snd (SaveConfig encode c2 F) else F);
                 F2 = (if auth_changed req \<and> ac_file auth \<noteq> [] then snd (SaveAuthConfig encode_auth auth F1) else F1)
             in (AObj [(''ok'', JBool True), (''restart_required'', JBool restart)],
                 b\<lparr>ba_cfg := c2, ba_auth := auth\<rparr>, F2))
      else (AError 405 ''method not allowed'', b, F))"


section \<open>The cards\<close>

definition cards_json :: "(string, bool) gomap \<Rightarrow> json" where
  "cards_json cs = JObj (map (\<lambda>(k, v). (k, JObj [(''enabled'', JBool v)])) cs)"

definition HandleCards :: "admin_request \<Rightarrow> 'x base \<Rightarrow> admin_reply" where
  "HandleCards rq b =
     (if aq_method rq = ''OPTIONS'' then AEmpty 204
      else if aq_method rq \<noteq> ''GET'' then AError 405 ''method not allowed''
      else AObj [(''cards'', cards_json (case cf_cards (ba_cfg b) of None \<Rightarrow> [] | Some cs \<Rightarrow> cs))])"

definition HandleAdminCards ::
  "(string \<Rightarrow> (string, bool) gomap option option) \<Rightarrow> (runtime_override \<Rightarrow> string option) \<Rightarrow> string
    \<Rightarrow> admin_request \<Rightarrow> 'x base \<Rightarrow> fs \<Rightarrow> admin_reply \<times> 'x base \<times> fs" where
  "HandleAdminCards decode encode_rt env rq b F =
     (if aq_method rq = ''OPTIONS'' then (AEmpty 200, b, F)
      else if aq_method rq \<noteq> ''PUT'' then (AError 405 ''method not allowed'', b, F)
      else case decode (aq_body rq) of None \<Rightarrow> (AError 400 ''bad json'', b, F)
           | Some cards0 \<Rightarrow>
               let cards = (case cards0 of None \<Rightarrow> [] | Some cs \<Rightarrow> cs);
                   cfg = (ba_cfg b)\<lparr>cf_cards := Some cards\<rparr>;
                   b1 = b\<lparr>ba_cfg := cfg\<rparr>
               in case SaveRuntime encode_rt env cfg \<lparr>ro_cards = cf_cards cfg, ro_api_features = cf_api_features cfg\<rparr> F of
                    (Some _, F1) \<Rightarrow> (AError 500 ''save failed'', b1, F1)
                  | (None, F1) \<Rightarrow> (AObj [(''status'', JStr ''ok''), (''cards'', cards_json cards)], b1, F1))"


section \<open>The logs\<close>

definition HandleAdminLogs :: "admin_request \<Rightarrow> ring_buffer \<Rightarrow> admin_reply option" where
  "HandleAdminLogs rq buf =
     (let v = aq_get rq ''n'';
          n = (if v = [] then 100 else case parse_int v of None \<Rightarrow> 100 | Some p \<Rightarrow> if p > 0 then p else 100)
      in map_option ALines (Recent n buf))"

definition logsDir :: "'x base \<Rightarrow> string" where
  "logsDir b = (if cf_log_file (ba_cfg b) = [] then ''logs'' else dir_path (cf_log_file (ba_cfg b)))"

definition HandleAdminLogFiles :: "admin_request \<Rightarrow> 'x base \<Rightarrow> fs \<Rightarrow> admin_reply" where
  "HandleAdminLogFiles rq b F =
     (if aq_method rq = ''OPTIONS'' then AEmpty 200
      else let dir = logsDir b;
               entries = (case os_ReadDir F dir of Inl _ \<Rightarrow> [] | Inr es \<Rightarrow> es)
           in AFiles (map (\<lambda>(n, _). (n, case mget (fs_files F) (fs_key F (join_path dir n)) of None \<Rightarrow> 0 | Some d \<Rightarrow> length d))
                        (filter (\<lambda>(n, is_dir). \<not> is_dir \<and> has_suffix n ''.log'') entries)))"

text \<open>The tail of a log file, at most 2000 lines; the file is opened only after the guards.\<close>

definition tail_param :: "admin_request \<Rightarrow> nat" where
  "tail_param rq =
     (let v = aq_get rq ''tail'' in
      if v = [] then 200 else case parse_int v of None \<Rightarrow> 200 | Some n \<Rightarrow> if n > 0 then nat (min n 2000) else 200)"

definition HandleAdminLogFile :: "admin_request \<Rightarrow> 'x base \<Rightarrow> fs \<Rightarrow> admin_reply" where
  "HandleAdminLogFile rq b F =
     (if aq_method rq = ''OPTIONS'' then AEmpty 200
      else if aq_get rq ''name'' = [] then AError 400 ''name required''
      else
        let clean = clean_path (aq_get rq ''name'') in
        if contains clean ''..'' \<or> CHR ''/'' \<in> set clean \<or> CHR 0x5C \<in> set clean then AError 400 ''invalid name''
        else
          let dir = logsDir b; full = join_path dir clean in
          if \<not> has_prefix (abs_path (fs_cwd F) full) (abs_path (fs_cwd F) dir) then AError 400 ''invalid name''
          else
            let search = to_lower (aq_get rq ''q'') in
            if \<not> os_Exists F full then AError 404 ''file not found''
            else
              let all_lines = (case os_ReadFile F full of Inl _ \<Rightarrow> [] | Inr d \<Rightarrow> scan_lines 1048576 d);
                  lines = drop (length all_lines - tail_param rq) all_lines
              in ALines (if search = [] then lines else filter (\<lambda>l. contains (to_lower l) search) lines))"

text \<open>One turn of \<^verbatim>\<open>HandleAdminLogsStream\<close>: the event sent for a received line.\<close>

definition sse_event :: "string \<Rightarrow> string" where
  "sse_event line = ''data: '' @ trim_right (\<lambda>c. c = CHR 0x0A) line @ [CHR 0x0A, CHR 0x0A]"

definition stream_turn :: "nat \<Rightarrow> ring_buffer \<Rightarrow> (string \<times> ring_buffer) option" where
  "stream_turn ch buf = map_option (\<lambda>(line, b). (sse_event line, b)) (receive ch buf)"

text \<open>The handler between the lines that others log: \<open>Turn\<close> is a round of its loop, which waits when the channel is empty; at the end of the
  list the client is gone, and the deferred \<^verbatim>\<open>Unsubscribe\<close> runs. \<^const>\<open>None\<close> is a panic.\<close>

datatype stream_event = Logged string | Turn

fun stream_loop :: "nat \<Rightarrow> stream_event list \<Rightarrow> string \<times> ring_buffer \<Rightarrow> (string \<times> ring_buffer) option" where
  "stream_loop ch [] (out, b) = map_option (Pair out) (Unsubscribe ch b)"
| "stream_loop ch (Logged p # es) (out, b) =
     (case Write p b of None \<Rightarrow> None | Some (_, b') \<Rightarrow> stream_loop ch es (out, b'))"
| "stream_loop ch (Turn # es) (out, b) =
     (case stream_turn ch b of None \<Rightarrow> stream_loop ch es (out, b) | Some (ev, b') \<Rightarrow> stream_loop ch es (out @ ev, b'))"

definition HandleAdminLogsStream :: "bool \<Rightarrow> stream_event list \<Rightarrow> ring_buffer \<Rightarrow> (int + string \<times> ring_buffer) option" where
  "HandleAdminLogsStream flusher es buf =
     (if \<not> flusher then Some (Inl 500)
      else case Subscribe buf of (ch, b) \<Rightarrow> map_option Inr (stream_loop ch es ([], b)))"

definition logged_lines :: "stream_event list \<Rightarrow> string list" where
  "logged_lines es = List.map_filter (\<lambda>e. case e of Logged p \<Rightarrow> Some p | Turn \<Rightarrow> None) es"

lemma logged_simps [simp]:
  "logged_lines [] = []" "logged_lines (Logged p # es) = p # logged_lines es" "logged_lines (Turn # es) = logged_lines es"
  by (simp_all add: logged_lines_def List.map_filter_simps)

text \<open>The stream is the only subscriber, of an open channel with the lines \<open>q\<close> waiting.\<close>

definition streaming :: "nat \<Rightarrow> string list \<Rightarrow> ring_buffer \<Rightarrow> bool" where
  "streaming ch q b \<longleftrightarrow> rb_pos b < length (rb_lines b) \<and> rb_subs b = [ch] \<and> ch < length (rb_chans b) \<and>
     rb_chans b ! ch = \<lparr>ch_buf = q, ch_closed = False\<rparr>"

lemma streaming_write:
  assumes "streaming ch q b"
  shows "\<exists>n b' q'. Write p b = Some (n, b') \<and> streaming ch q' b' \<and> (q' = q \<or> q' = q @ [p])"
proof -
  have "0 < length (rb_lines b)" using assms by (auto simp: streaming_def)
  then show ?thesis using assms
    by (auto simp: Write_def write_line_def publish_def try_send_def streaming_def Let_def split: option.splits)
qed

lemma streaming_turn:
  assumes "streaming ch q b"
  shows "case q of [] \<Rightarrow> stream_turn ch b = None
     | l # q' \<Rightarrow> (\<exists>b'. stream_turn ch b = Some (sse_event l, b') \<and> streaming ch q' b')"
  using assms by (auto simp: stream_turn_def receive_def streaming_def split: list.splits)

lemma stream_loop_lines:
  assumes "streaming ch q b"
  shows "\<exists>ls b'. stream_loop ch es (out, b) = Some (out @ concat (map sse_event ls), b') \<and> subseq ls (q @ logged_lines es) \<and>
     rb_subs b' = [] \<and> ch_closed (rb_chans b' ! ch)"
  using assms
proof (induction es arbitrary: q b out)
  case Nil
  then show ?case by (intro exI [of _ "[]"]) (auto simp: streaming_def Unsubscribe_def close_chan_def remove_sub_def)
next
  case (Cons e es)
  show ?case
  proof (cases e)
    case (Logged p)
    obtain n b1 q1 where 1: "Write p b = Some (n, b1)" "streaming ch q1 b1" "q1 = q \<or> q1 = q @ [p]"
      using streaming_write [OF Cons.prems] by blast
    from Cons.IH [OF 1(2), of out] obtain ls b' where 2:
      "stream_loop ch es (out, b1) = Some (out @ concat (map sse_event ls), b')" "subseq ls (q1 @ logged_lines es)"
      "rb_subs b' = []" "ch_closed (rb_chans b' ! ch)" by blast
    have "subseq (q1 @ logged_lines es) (q @ logged_lines (e # es))" using 1(3) Logged by (auto intro: list_emb_append_mono)
    then show ?thesis using 1(1) 2 Logged subseq_order.order_trans by fastforce
  next
    case Turn
    show ?thesis
    proof (cases q)
      case Nil
      then show ?thesis using streaming_turn [OF Cons.prems] Cons.IH [OF Cons.prems, of out] Turn by simp
    next
      case (Cons l q')
      with streaming_turn [OF Cons.prems] obtain b1 where 1: "stream_turn ch b = Some (sse_event l, b1)" "streaming ch q' b1" by auto
      from Cons.IH [OF 1(2), of "out @ sse_event l"] obtain ls b' where
        "stream_loop ch es (out @ sse_event l, b1) = Some ((out @ sse_event l) @ concat (map sse_event ls), b')" "subseq ls (q' @ logged_lines es)"
        "rb_subs b' = []" "ch_closed (rb_chans b' ! ch)" by blast
      then show ?thesis using 1(1) Turn Cons by (intro exI [of _ "l # ls"]) auto
    qed
  qed
qed


section \<open>Properties\<close>

lemma clean_path_nonempty: "clean_path p \<noteq> []"
  by (simp add: clean_path_def Let_def)

lemma logsDir_nonempty: "logsDir b \<noteq> []"
  using clean_path_nonempty by (simp add: logsDir_def dir_path_def)

text \<open>C33. The log endpoint only serves files directly in the log directory: whatever name a request has,
  lines are returned only from a regular file that is an entry of that directory, at most 2000
  of its last lines, and only lines that contain the search text.\<close>

theorem log_file_confined:
  assumes "HandleAdminLogFile rq b F = ALines ls" "ls \<noteq> []"
    "is_abs (fs_cwd F)" "abs_path (fs_cwd F) (logsDir b) = dir_of cs" "list_all plain_part cs"
    "is_dir_key F (dir_of cs)"
  shows "\<exists>n d. plain_part n \<and> n = clean_path (aq_get rq ''name'') \<and> mget (fs_files F) (dir_of (cs @ [n])) = Some d
     \<and> set ls \<subseteq> set (scan_lines 1048576 d) \<and> length ls \<le> 2000
     \<and> (\<forall>l\<in>set ls. contains (to_lower l) (to_lower (aq_get rq ''q'')))"
proof -
  define n where "n = clean_path (aq_get rq ''name'')"
  define full where "full = join_path (logsDir b) n"
  define all_lines where "all_lines = (case os_ReadFile F full of Inl _ \<Rightarrow> [] | Inr d \<Rightarrow> scan_lines 1048576 d)"
  define lines where "lines = drop (length all_lines - tail_param rq) all_lines"
  have guards: "\<not> contains n ''..''" "CHR ''/'' \<notin> set n"
    and ls: "ls = (if to_lower (aq_get rq ''q'') = [] then lines
                   else filter (\<lambda>l. contains (to_lower l) (to_lower (aq_get rq ''q''))) lines)"
    using assms(1)
    by (auto simp: HandleAdminLogFile_def Let_def n_def full_def all_lines_def lines_def split: if_splits)
  have "n \<noteq> []" unfolding n_def by (rule clean_path_nonempty)
  moreover have "n \<noteq> ''..''" using guards(1) by (auto simp: has_prefix_def)
  moreover have "n \<noteq> ''.''"
  proof
    assume dot: "n = ''.''"
    have "fs_key F full = dir_of cs"
      using key_join [OF assms(3) logsDir_nonempty assms(4,5), of n]
      by (simp add: dot full_def fs_key_def split_none clean_step_def)
    then have "lines = []" using assms(6) by (simp add: lines_def all_lines_def os_ReadFile_def)
    then show False using ls assms(2) by simp
  qed
  ultimately have plain: "plain_part n" using guards(2) by (simp add: plain_part_def)
  have key: "fs_key F full = dir_of (cs @ [n])"
    using key_join_plain [OF assms(3) logsDir_nonempty assms(4,5) plain] by (simp add: fs_key_def full_def)
  have "lines \<noteq> []" using ls assms(2) by (auto split: if_splits)
  then obtain d where d: "os_ReadFile F full = Inr d" by (auto simp: lines_def all_lines_def split: sum.splits)
  then have "mget (fs_files F) (dir_of (cs @ [n])) = Some d"
    by (auto simp: os_ReadFile_def key Let_def split: if_splits option.splits)
  moreover have "set lines \<subseteq> set (scan_lines 1048576 d)" by (auto simp: lines_def all_lines_def d dest: in_set_dropD)
  moreover have "length lines \<le> 2000"
    by (auto simp: lines_def tail_param_def Let_def split: option.splits)
  moreover have "length ls \<le> length lines" by (simp add: ls)
  moreover have "contains l []" for l by (cases l) (simp_all add: has_prefix_def)
  ultimately show ?thesis using plain ls by (intro exI [of _ n] exI [of _ d]) (auto simp: n_def)
qed

definition toy_admin :: "unit base" where
  "toy_admin = \<lparr>ba_cfg = toy_config, ba_auth = zero_auth, ba_root = ''/'', ba_iann = toy_iann, ba_packages = [],
     ba_models = [], ba_outputs = [], ba_logs = [], ba_log_file = [], ba_address = []\<rparr>"

theorem log_file_confined_witness:
  "\<exists>d. mget [(''/logs/a.log'', [CHR ''x'', CHR 0x0A, CHR ''y''])] (dir_of [''logs'', ''a.log'']) = Some d \<and> set [''y''] \<subseteq> set (scan_lines 1048576 d)"
proof -
  let ?F = "\<lparr>fs_cwd = ''/'', fs_dirs = [''/logs''], fs_files = [(''/logs/a.log'', [CHR ''x'', CHR 0x0A, CHR ''y''])], fs_denied = []\<rparr>"
  let ?rq = "\<lparr>aq_method = ''GET'', aq_query = [(''name'', ''a.log''), (''q'', ''y'')], aq_body = []\<rparr>"
  have 0: "clean_path ''a.log'' = ''a.log''" "logsDir toy_admin = ''logs''" "join_path ''logs'' ''a.log'' = ''logs/a.log''"
    "abs_path ''/'' ''logs/a.log'' = ''/logs/a.log''" "abs_path ''/'' ''logs'' = ''/logs''" by code_simp+
  have 1: "HandleAdminLogFile ?rq toy_admin ?F = ALines [''y'']"
    by (simp add: HandleAdminLogFile_def 0 Let_def os_Exists_def os_ReadFile_def fs_key_def is_dir_key_def has_prefix_def
        scan_lines_def split_def drop_cr_def tail_param_def to_lower_def lower_char_def)
  have 2: "is_abs (fs_cwd ?F)" "abs_path (fs_cwd ?F) (logsDir toy_admin) = dir_of [''logs'']"
    "list_all plain_part [''logs'']" "is_dir_key ?F (dir_of [''logs''])"
    using 0 by (simp_all add: is_abs_def has_prefix_def dir_of_def plain_part_def is_dir_key_def)
  have "dir_of [''logs'', ''a.log''] = ''/logs/a.log''" by (simp add: dir_of_def)
  with log_file_confined [OF 1 _ 2] show ?thesis by (auto simp: 0)
qed

lemma put_listen_effect:
  "put_listen req (c, r) = (c1, r1) \<Longrightarrow> \<exists>v. c1 = c\<lparr>cf_listen_addr := v\<rparr>
     \<and> r1 = (r \<or> v \<noteq> cf_listen_addr c) \<and> (cf_listen_addr c \<noteq> [] \<longrightarrow> v \<noteq> [])"
  by (auto simp: put_listen_def assign_def split: option.splits if_splits intro!: exI [of _ "cf_listen_addr c1"])

lemma put_cert_effect:
  "put_cert req (c, r) = (c1, r1) \<Longrightarrow> \<exists>v. c1 = c\<lparr>cf_tls_cert := v\<rparr>
     \<and> r1 = (r \<or> v \<noteq> cf_tls_cert c)"
  by (auto simp: put_cert_def assign_def split: option.splits if_splits intro!: exI [of _ "cf_tls_cert c1"])

lemma put_key_effect:
  "put_key req (c, r) = (c1, r1) \<Longrightarrow> \<exists>v. c1 = c\<lparr>cf_tls_key := v\<rparr>
     \<and> r1 = (r \<or> v \<noteq> cf_tls_key c)"
  by (auto simp: put_key_def assign_def split: option.splits if_splits intro!: exI [of _ "cf_tls_key c1"])

lemma put_auth_effect:
  "put_auth req a = a\<lparr>ac_owner := ac_owner (put_auth req a), ac_mode := ac_mode (put_auth req a),
     ac_admins := ac_admins (put_auth req a), ac_users := ac_users (put_auth req a)\<rparr>"
  by (simp add: put_auth_def assign_def split: option.split)

text \<open>An update of the configuration asks for a restart exactly if it changed the listen address or the
  certificate files, changes nothing else than the gateway addresses, those fields and the
  authentication lists, and never removes the listen address.\<close>

theorem config_put_exact:
  assumes "aq_method rq = ''PUT''" "decode (aq_body rq) = Some req"
    "HandleAdminConfig decode encode encode_auth rq b F = (reply, b', F')"
  shows "reply = AObj [(''ok'', JBool True), (''restart_required'', JBool
           ((cf_listen_addr (ba_cfg b'), cf_tls_cert (ba_cfg b'), cf_tls_key (ba_cfg b'))
            \<noteq> (cf_listen_addr (ba_cfg b), cf_tls_cert (ba_cfg b), cf_tls_key (ba_cfg b))))]
       \<and> b' = b\<lparr>ba_cfg := (ba_cfg b)\<lparr>cf_gateway := cf_gateway (ba_cfg b'), cf_listen_addr := cf_listen_addr (ba_cfg b'),
                              cf_tls_cert := cf_tls_cert (ba_cfg b'), cf_tls_key := cf_tls_key (ba_cfg b')\<rparr>,
               ba_auth := (ba_auth b)\<lparr>ac_owner := ac_owner (ba_auth b'), ac_mode := ac_mode (ba_auth b'),
                              ac_admins := ac_admins (ba_auth b'), ac_users := ac_users (ba_auth b')\<rparr>\<rparr>
       \<and> (cf_listen_addr (ba_cfg b) \<noteq> [] \<longrightarrow> cf_listen_addr (ba_cfg b') \<noteq> [])"
proof -
  define c0 where "c0 = (ba_cfg b)\<lparr>cf_gateway := put_gateway req (cf_gateway (ba_cfg b))\<rparr>"
  obtain c1 r1 where 1: "put_listen req (c0, False) = (c1, r1)" by fastforce
  obtain c2 r2 where 2: "put_cert req (c1, r1) = (c2, r2)" by fastforce
  obtain c3 r3 where 3: "put_key req (c2, r2) = (c3, r3)" by fastforce
  have b': "b' = b\<lparr>ba_cfg := c3, ba_auth := put_auth req (ba_auth b)\<rparr>"
    and reply: "reply = AObj [(''ok'', JBool True), (''restart_required'', JBool r3)]"
    using assms by (auto simp: HandleAdminConfig_def Let_def c0_def [symmetric] 1 2 3 simp del: fun_upd_apply)
  obtain v where v: "c1 = c0\<lparr>cf_listen_addr := v\<rparr>" "r1 = (v \<noteq> cf_listen_addr c0)" "cf_listen_addr c0 \<noteq> [] \<longrightarrow> v \<noteq> []"
    using put_listen_effect [OF 1] by auto
  obtain u where u: "c2 = c1\<lparr>cf_tls_cert := u\<rparr>" "r2 = (r1 \<or> u \<noteq> cf_tls_cert c1)" using put_cert_effect [OF 2] by auto
  obtain k where k: "c3 = c2\<lparr>cf_tls_key := k\<rparr>" "r3 = (r2 \<or> k \<noteq> cf_tls_key c2)" using put_key_effect [OF 3] by auto
  have "c3 = (ba_cfg b)\<lparr>cf_gateway := cf_gateway c3, cf_listen_addr := cf_listen_addr c3,
      cf_tls_cert := cf_tls_cert c3, cf_tls_key := cf_tls_key c3\<rparr>"
    by (simp add: k u v c0_def)
  moreover have "r3 = ((cf_listen_addr c3, cf_tls_cert c3, cf_tls_key c3)
      \<noteq> (cf_listen_addr (ba_cfg b), cf_tls_cert (ba_cfg b), cf_tls_key (ba_cfg b)))"
    by (auto simp: k u v c0_def)
  moreover have "cf_listen_addr (ba_cfg b) \<noteq> [] \<longrightarrow> cf_listen_addr c3 \<noteq> []" using v(3) by (simp add: k u v(1) c0_def)
  ultimately show ?thesis using b' reply put_auth_effect [of req "ba_auth b"] by simp
qed


text \<open>The log stream: a client gets complete events of lines that were logged while it was connected, in order and each at most once; when it
  leaves, no subscription is left and its channel is closed, and nothing panics.\<close>

theorem log_stream_in_order:
  assumes "NewRingBuffer capacity = Some b" "0 < capacity"
  shows "\<exists>ls b'. HandleAdminLogsStream True es b = Some (Inr (concat (map sse_event ls), b')) \<and> subseq ls (logged_lines es) \<and>
     rb_subs b' = [] \<and> ch_closed (rb_chans b' ! fst (Subscribe b))"
proof -
  have "streaming (fst (Subscribe b)) [] (snd (Subscribe b))"
    using assms by (auto simp: streaming_def Subscribe_def NewRingBuffer_def Let_def)
  from stream_loop_lines [OF this, of es "[]"] show ?thesis
    by (auto simp: HandleAdminLogsStream_def case_prod_beta)
qed

theorem log_stream_in_order_witness:
  "\<exists>b ls b'. NewRingBuffer 2 = Some b \<and> HandleAdminLogsStream True [Logged ''a'', Turn, Turn, Logged ''b''] b = Some (Inr (concat (map sse_event ls), b')) \<and>
     subseq ls [''a'', ''b'']"
proof -
  obtain b where b: "NewRingBuffer 2 = Some b" by (simp add: NewRingBuffer_def)
  show ?thesis using log_stream_in_order [OF b, of "[Logged ''a'', Turn, Turn, Logged ''b'']"] b by auto
qed

end
