(* ===== verification/Tunnel_Metrics.thy ===== *)
theory Tunnel_Metrics
  imports Go_FS
begin

text \<open>
  The metrics parser of \<^verbatim>\<open>pkg/tunnel/prometheus.go\<close>, which turns the text exposition of an engine
  into one number per metric name: sums over the label sets for counters, histograms and
  summaries, the last value otherwise. Floating point numbers are a parameter: their parser,
  addition and zero.
\<close>

section \<open>Parsing\<close>

record 'f floats =
  fl_parse :: "string \<Rightarrow> 'f option"
  fl_add :: "'f \<Rightarrow> 'f \<Rightarrow> 'f"
  fl_zero :: 'f

text \<open>The walk through the labels: what follows the closing brace, if there is one.\<close>

fun skip_labels :: "bool \<Rightarrow> bool \<Rightarrow> string \<Rightarrow> string option" where
  "skip_labels inQuote escape [] = None"
| "skip_labels inQuote escape (c # cs) =
     (if escape then skip_labels inQuote False cs
      else if c = CHR 0x5C \<and> inQuote then skip_labels inQuote True cs
      else if c = CHR 0x22 then skip_labels (\<not> inQuote) False cs
      else if c = CHR ''}'' \<and> \<not> inQuote then Some cs
      else skip_labels inQuote False cs)"

definition name_end :: "char \<Rightarrow> bool" where
  "name_end c \<longleftrightarrow> c = CHR ''{'' \<or> c = CHR '' '' \<or> c = CHR 0x09"

definition splitNameAndRest :: "string \<Rightarrow> string \<times> string" where
  "splitNameAndRest line =
     (let name = takeWhile (\<lambda>c. \<not> name_end c) line; rest = dropWhile (\<lambda>c. \<not> name_end c) line in
      case rest of
        c # cs \<Rightarrow> if c = CHR ''{'' then (name, case skip_labels False False cs of None \<Rightarrow> rest | Some r \<Rightarrow> r) else (name, rest)
      | [] \<Rightarrow> (name, rest))"

text \<open>Histogram and summary suffixes use the type of the metric they belong to.\<close>

definition kind_key :: "string \<Rightarrow> string" where
  "kind_key name =
     (if has_suffix name ''_bucket'' then trim_suffix name ''_bucket''
      else if has_suffix name ''_sum'' then trim_suffix name ''_sum''
      else if has_suffix name ''_count'' then trim_suffix name ''_count'' else name)"

definition kind_of :: "(string, string) gomap \<Rightarrow> string \<Rightarrow> string" where
  "kind_of types name =
     (let k = (case mget types (kind_key name) of None \<Rightarrow> [] | Some k \<Rightarrow> k) in
      if k = [] then (case mget types name of None \<Rightarrow> [] | Some k \<Rightarrow> k) else k)"

definition summed_kind :: "string \<Rightarrow> bool" where
  "summed_kind k \<longleftrightarrow> k = ''counter'' \<or> k = ''histogram'' \<or> k = ''summary''"

definition add_sample :: "'f floats \<Rightarrow> (string, string) gomap \<Rightarrow> string \<Rightarrow> 'f \<Rightarrow> (string, 'f) gomap \<Rightarrow> (string, 'f) gomap" where
  "add_sample fl types name v out =
     (if summed_kind (kind_of types name)
      then mput name (fl_add fl (case mget out name of None \<Rightarrow> fl_zero fl | Some x \<Rightarrow> x) v) out
      else mput name v out)"

definition prom_line ::
  "'f floats \<Rightarrow> (string, string) gomap \<times> (string, 'f) gomap \<Rightarrow> string \<Rightarrow> (string, string) gomap \<times> (string, 'f) gomap" where
  "prom_line fl st raw =
     (case st of (types, out) \<Rightarrow>
        let line = trim_space raw in
        case line of [] \<Rightarrow> (types, out)
        | c # _ \<Rightarrow>
            if c = CHR ''#'' then
              (let parts = Go_Prelude.fields line in
               if 4 \<le> length parts \<and> parts ! 1 = ''TYPE'' then (mput (parts ! 2) (parts ! 3) types, out) else (types, out))
            else
              (case splitNameAndRest line of (name, rest0) \<Rightarrow>
                 let rest = trim_space rest0 in
                 if name = [] \<or> rest = [] then (types, out)
                 else case fl_parse fl (hd (Go_Prelude.fields rest)) of None \<Rightarrow> (types, out)
                      | Some v \<Rightarrow> (types, add_sample fl types name v out)))"

definition prom_cap :: nat where "prom_cap = 8 * 1024 * 1024"

definition ParsePrometheus :: "'f floats \<Rightarrow> string \<Rightarrow> (string, 'f) gomap" where
  "ParsePrometheus fl text = snd (foldl (prom_line fl) ([], []) (scan_lines prom_cap text))"


section \<open>Writing an exposition\<close>

definition escape_char :: "char \<Rightarrow> string" where
  "escape_char c = (if c = CHR 0x5C then [CHR 0x5C, CHR 0x5C] else if c = CHR 0x22 then [CHR 0x5C, CHR 0x22]
                    else if c = CHR 0x0A then [CHR 0x5C, CHR ''n''] else [c])"

definition label_text :: "string \<times> string \<Rightarrow> string" where
  "label_text kv = fst kv @ CHR ''='' # CHR 0x22 # concat (map escape_char (snd kv)) @ [CHR 0x22]"

definition sample_line :: "string \<Rightarrow> (string \<times> string) list \<Rightarrow> string \<Rightarrow> string" where
  "sample_line name labels v = name @ CHR ''{'' # join '','' (map label_text labels) @ CHR ''}'' # CHR '' '' # v"

lemma skip_escaped: "skip_labels True False (concat (map escape_char v) @ CHR 0x22 # r) = skip_labels False False r"
  by (induction v) (auto simp: escape_char_def)

definition label_key_ok :: "string \<Rightarrow> bool" where
  "label_key_ok k \<longleftrightarrow> CHR 0x22 \<notin> set k \<and> CHR ''}'' \<notin> set k \<and> CHR 0x0A \<notin> set k"

lemma skip_key: "label_key_ok k \<Longrightarrow> skip_labels False False (k @ r) = skip_labels False False r"
  by (induction k) (auto simp: label_key_ok_def)

lemma skip_label: "label_key_ok (fst kv) \<Longrightarrow> skip_labels False False (label_text kv @ r) = skip_labels False False r"
  by (simp add: label_text_def skip_key skip_escaped)

lemma skip_all_labels:
  "\<forall>kv\<in>set ls. label_key_ok (fst kv) \<Longrightarrow> skip_labels False False (join '','' (map label_text ls) @ CHR ''}'' # r) = Some r"
proof (induction ls)
  case (Cons kv ls)
  then show ?case by (cases ls) (simp_all add: skip_label)
qed simp

text \<open>A name, labels and a value that the format allows.\<close>

definition sample_ok :: "string \<Rightarrow> (string \<times> string) list \<Rightarrow> string \<Rightarrow> bool" where
  "sample_ok name labels v \<longleftrightarrow> name \<noteq> [] \<and> hd name \<noteq> CHR ''#'' \<and> (\<forall>c\<in>set name. \<not> name_end c \<and> \<not> is_space c)
     \<and> (\<forall>kv\<in>set labels. label_key_ok (fst kv)) \<and> v \<noteq> [] \<and> (\<forall>c\<in>set v. \<not> is_space c)"

lemma split_sample:
  assumes "sample_ok name labels v"
  shows "splitNameAndRest (sample_line name labels v) = (name, CHR '' '' # v)"
proof -
  have n: "\<forall>c\<in>set name. \<not> name_end c" using assms by (simp add: sample_ok_def)
  have e: "name_end CHR ''{''" by (simp add: name_end_def)
  have "takeWhile (\<lambda>c. \<not> name_end c) (name @ CHR ''{'' # r) = name" "dropWhile (\<lambda>c. \<not> name_end c) (name @ CHR ''{'' # r) = CHR ''{'' # r" for r
    using n e by (simp_all add: takeWhile_append2 dropWhile_append2)
  then show ?thesis
    using assms skip_all_labels by (simp add: splitNameAndRest_def sample_line_def sample_ok_def)
qed

lemma trim_sample:
  assumes "sample_ok name labels v"
  shows "trim_space (sample_line name labels v) = sample_line name labels v"
proof -
  obtain c cs where n: "name = c # cs" "\<not> is_space c" using assms by (cases name) (auto simp: sample_ok_def)
  have v: "v \<noteq> []" "\<not> is_space (last v)" using assms by (auto simp: sample_ok_def)
  have "sample_line name labels v \<noteq> []" "hd (sample_line name labels v) = c" "last (sample_line name labels v) = last v"
    using n v by (simp_all add: sample_line_def)
  then show ?thesis using n(2) v(2) by (simp add: trim_space_def trim_left_id trim_right_id)
qed

lemma prom_sample:
  assumes "sample_ok name labels v" "fl_parse fl v = Some x"
  shows "prom_line fl (types, out) (sample_line name labels v) = (types, add_sample fl types name x out)"
proof -
  obtain c cs where n: "name = c # cs" "c \<noteq> CHR ''#''" using assms by (cases name) (auto simp: sample_ok_def)
  then obtain t where t: "sample_line name labels v = c # t" by (simp add: sample_line_def)
  have v: "trim_space (CHR '' '' # v) = v" "v \<noteq> []" "Go_Prelude.fields v = [v]"
  proof -
    have nsp: "\<forall>c\<in>set v. \<not> is_space c" and ne: "v \<noteq> []" using assms by (auto simp: sample_ok_def)
    have "is_space CHR '' ''" by (simp add: is_space_def)
    then have "trim_space (CHR '' '' # v) = trim_space v" by (simp add: trim_space_def trim_left_def)
    then show "trim_space (CHR '' '' # v) = v" using trim_space_id [OF nsp] by simp
    show "v \<noteq> []" by (rule ne)
    show "Go_Prelude.fields v = [v]" using split_at_none [OF nsp] ne by (simp add: Go_Prelude.fields_def)
  qed
  have "name \<noteq> []" using n(1) by simp
  then show ?thesis
    using assms(2) n(2) v split_sample [OF assms(1)] trim_sample [OF assms(1)]
    by (simp add: prom_line_def Let_def t)
qed

definition type_line :: "string \<times> string \<Rightarrow> string" where
  "type_line nk = ''# TYPE '' @ fst nk @ CHR '' '' # snd nk"

definition word_ok :: "string \<Rightarrow> bool" where
  "word_ok w \<longleftrightarrow> w \<noteq> [] \<and> (\<forall>c\<in>set w. \<not> is_space c)"

lemma prom_type:
  assumes "word_ok (fst nk)" "word_ok (snd nk)"
  shows "prom_line fl (types, out) (type_line nk) = (mput (fst nk) (snd nk) types, out)"
proof -
  have k: "snd nk \<noteq> []" "\<not> is_space (last (snd nk))" "\<forall>c\<in>set (snd nk). \<not> is_space c" "fst nk \<noteq> []"
      "\<forall>c\<in>set (fst nk). \<not> is_space c" using assms by (auto simp: word_ok_def)
  have sp: "is_space CHR '' ''" "\<not> is_space CHR ''#''" by (simp_all add: is_space_def)
  have trim: "trim_space (type_line nk) = type_line nk"
    using k sp by (simp add: trim_space_def trim_left_id trim_right_id type_line_def)
  have "split_at is_space (type_line nk) = [''#'', ''TYPE'', fst nk, snd nk]"
  proof -
    have "split_at is_space (fst nk @ CHR '' '' # snd nk) = [fst nk, snd nk]"
      using k sp split_at_sep [of "fst nk" is_space "CHR '' ''" "snd nk"] split_at_none [of "snd nk" is_space] by simp
    then show ?thesis by (simp add: type_line_def is_space_def)
  qed
  then have "Go_Prelude.fields (type_line nk) = [''#'', ''TYPE'', fst nk, snd nk]"
    using k by (simp add: Go_Prelude.fields_def)
  then show ?thesis using trim by (simp add: prom_line_def Let_def) (simp add: type_line_def)
qed

text \<open>A sample is its name, labels, the text of its value and the number it stands for.\<close>

type_synonym 'f sample = "string \<times> (string \<times> string) list \<times> string \<times> 'f"

definition sample_text :: "'f sample \<Rightarrow> string" where
  "sample_text s = (case s of (n, ls, v, _) \<Rightarrow> sample_line n ls v)"

definition exposition :: "(string \<times> string) list \<Rightarrow> 'f sample list \<Rightarrow> string" where
  "exposition types samples = concat (map (\<lambda>l. l @ [CHR 0x0A]) (map type_line types @ map sample_text samples))"

definition exposition_ok :: "'f floats \<Rightarrow> (string \<times> string) list \<Rightarrow> 'f sample list \<Rightarrow> bool" where
  "exposition_ok fl types samples \<longleftrightarrow>
     (\<forall>nk\<in>set types. word_ok (fst nk) \<and> word_ok (snd nk))
     \<and> (\<forall>(n, ls, v, x)\<in>set samples. sample_ok n ls v \<and> fl_parse fl v = Some x)
     \<and> (\<forall>l\<in>set (map type_line types @ map sample_text samples). length l < prom_cap)"

text \<open>The reference: the values of a name, added or the last one, by the kind its types give it.\<close>

definition type_map :: "(string \<times> string) list \<Rightarrow> (string, string) gomap" where
  "type_map types = foldl (\<lambda>m nk. mput (fst nk) (snd nk) m) [] types"

definition prom_spec :: "'f floats \<Rightarrow> (string, string) gomap \<Rightarrow> 'f sample list \<Rightarrow> string \<Rightarrow> 'f option" where
  "prom_spec fl types samples name =
     (let vs = map (\<lambda>(n, ls, v, x). x) (filter (\<lambda>(n, ls, v, x). n = name) samples) in
      if vs = [] then None
      else if summed_kind (kind_of types name) then Some (foldl (fl_add fl) (fl_zero fl) vs) else Some (last vs))"

lemma scan_printed:
  assumes "\<forall>l\<in>set ls. l \<noteq> [] \<and> CHR 0x0A \<notin> set l \<and> last l \<noteq> CHR 0x0D \<and> length l < cap"
  shows "scan_lines cap (concat (map (\<lambda>l. l @ [CHR 0x0A]) ls)) = ls"
proof -
  have "split (concat (map (\<lambda>l. l @ [CHR 0x0A]) ls)) CHR 0x0A = ls @ [[]]"
    using assms
  proof (induction ls)
    case (Cons l ls)
    then show ?case using split_append [of "CHR 0x0A" l] by simp
  qed (simp add: split_def)
  moreover have t: "takeWhile (\<lambda>l. length l < cap) ls = ls" using assms by (simp add: takeWhile_eq_all_conv)
  moreover have "map drop_cr ls = ls" using assms by (simp add: drop_cr_def map_idI)
  ultimately show ?thesis by (simp add: scan_lines_def t del: takeWhile_eq_all_conv)
qed

lemma newline_escape: "CHR 0x0A \<notin> set (concat (map escape_char v))"
  by (induction v) (auto simp: escape_char_def)

lemma newline_join: "\<forall>x\<in>set xs. CHR 0x0A \<notin> set x \<Longrightarrow> CHR 0x0A \<notin> set (join '','' xs)"
  by (induction "'',''" xs rule: join.induct) auto

lemma sample_one_line:
  assumes "sample_ok n ls v"
  shows "sample_line n ls v \<noteq> [] \<and> CHR 0x0A \<notin> set (sample_line n ls v) \<and> last (sample_line n ls v) \<noteq> CHR 0x0D"
proof -
  have sp: "is_space CHR 0x0A" "is_space CHR 0x0D" by (simp_all add: is_space_def)
  have "CHR 0x0A \<notin> set (join '','' (map label_text ls))"
    using assms newline_escape by (intro newline_join) (auto simp: sample_ok_def label_text_def label_key_ok_def)
  moreover have "CHR 0x0A \<notin> set n" "CHR 0x0A \<notin> set v" "v \<noteq> []" "last v \<noteq> CHR 0x0D"
    using assms sp last_in_set [of v] unfolding sample_ok_def by metis+
  ultimately show ?thesis by (simp add: sample_line_def)
qed

lemma type_one_line:
  assumes "word_ok (fst nk)" "word_ok (snd nk)"
  shows "type_line nk \<noteq> [] \<and> CHR 0x0A \<notin> set (type_line nk) \<and> last (type_line nk) \<noteq> CHR 0x0D"
proof -
  have "is_space CHR 0x0A" "is_space CHR 0x0D" by (simp_all add: is_space_def)
  then have "CHR 0x0A \<notin> set (fst nk)" "CHR 0x0A \<notin> set (snd nk)" "snd nk \<noteq> []" "last (snd nk) \<noteq> CHR 0x0D"
    using assms last_in_set [of "snd nk"] unfolding word_ok_def by metis+
  then show ?thesis by (simp add: type_line_def)
qed

lemma fold_types:
  "\<forall>nk\<in>set types. word_ok (fst nk) \<and> word_ok (snd nk) \<Longrightarrow>
   foldl (prom_line fl) (m, out) (map type_line types) = (foldl (\<lambda>m nk. mput (fst nk) (snd nk) m) m types, out)"
  by (induction types arbitrary: m) (simp_all add: prom_type)

lemma fold_samples:
  "\<forall>(n, ls, v, x)\<in>set samples. sample_ok n ls v \<and> fl_parse fl v = Some x \<Longrightarrow>
   foldl (prom_line fl) (types, out) (map sample_text samples)
     = (types, foldl (\<lambda>out (n, ls, v, x). add_sample fl types n x out) out samples)"
proof (induction samples arbitrary: out)
  case (Cons s samples)
  obtain n ls v x where s: "s = (n, ls, v, x)" by (cases s)
  with Cons show ?case by (simp add: sample_text_def prom_sample)
qed simp

lemma samples_spec:
  "mget (foldl (\<lambda>out (n, ls, v, x). add_sample fl types n x out) [] samples) name = prom_spec fl types samples name"
proof (induction samples rule: rev_induct)
  case (snoc s samples)
  obtain n ls v x where s: "s = (n, ls, v, x)" by (cases s)
  show ?case using snoc
    by (auto simp: s add_sample_def mget_put prom_spec_def Let_def split: option.splits if_splits)
qed (simp add: prom_spec_def)


section \<open>Properties\<close>


definition int_floats :: "int floats" where
  "int_floats = \<lparr>fl_parse = parse_int, fl_add = (+), fl_zero = 0\<rparr>"


end
