(* ===== verification/Tunnel_Mux.thy ===== *)
theory Tunnel_Mux
  imports RV_Data "HOL-Library.Sublist"
begin

text \<open>
  The packet demultiplexer of \<^verbatim>\<open>pkg/tunnel/mux.go\<close>: one UDP socket carries rendezvous signalling,
  hole-punch pings and QUIC, told apart by the first byte. A channel is its buffered packets; a
  packet that finds its channel full is dropped. Also the guard of the read-only WebDAV handler
  (\<^verbatim>\<open>webdav.go\<close>), whose serving is the library's.
\<close>

section \<open>Dispatch\<close>

record udp_packet =
  up_data :: string
  up_addr :: net_addr

record mux =
  mx_sig :: "udp_packet list"
  mx_punch :: "udp_packet list"
  mx_quic :: "udp_packet list"
  mx_done :: bool
  mx_closed :: bool

definition PrefixSignal :: char where "PrefixSignal = CHR 0x00"
definition PrefixPunch :: char where "PrefixPunch = CHR 0x01"

definition NewMuxPacketConn :: mux where
  "NewMuxPacketConn = \<lparr>mx_sig = [], mx_punch = [], mx_quic = [], mx_done = False, mx_closed = False\<rparr>"

definition offer :: "nat \<Rightarrow> udp_packet \<Rightarrow> udp_packet list \<Rightarrow> udp_packet list" where
  "offer cap p q = (if length q < cap then q @ [p] else q)"

text \<open>One turn of the dispatch loop; \<^const>\<open>None\<close> is an error of the socket, which ends the loop.\<close>

definition mux_dispatch :: "udp_packet option \<Rightarrow> mux \<Rightarrow> mux" where
  "mux_dispatch r m =
     (if mx_done m then m
      else case r of None \<Rightarrow> m\<lparr>mx_done := True\<rparr>
      | Some p \<Rightarrow>
          (case up_data p of
             c # rest \<Rightarrow>
               if c = PrefixSignal then m\<lparr>mx_sig := offer 64 (p\<lparr>up_data := rest\<rparr>) (mx_sig m)\<rparr>
               else if c = PrefixPunch then m\<lparr>mx_punch := offer 64 (p\<lparr>up_data := rest\<rparr>) (mx_punch m)\<rparr>
               else m\<lparr>mx_quic := offer 512 p (mx_quic m)\<rparr>
           | [] \<Rightarrow> m\<lparr>mx_quic := offer 512 p (mx_quic m)\<rparr>))"

text \<open>
  \<^verbatim>\<open>ReadFrom\<close> into a buffer of \<open>n\<close> bytes: a packet longer than the buffer is cut. When a packet is
  waiting and the loop has ended, the select statement may take either branch; \<open>prefer_done\<close> is its
  choice. \<^const>\<open>Inl\<close> with \<^const>\<open>True\<close> is the closed error, with \<^const>\<open>False\<close> the call blocks.
\<close>

definition mux_read :: "bool \<Rightarrow> nat \<Rightarrow> mux \<Rightarrow> (bool + string \<times> net_addr) \<times> mux" where
  "mux_read prefer_done n m =
     (if mx_done m \<and> (prefer_done \<or> mx_quic m = []) then (Inl True, m)
      else case mx_quic m of [] \<Rightarrow> (Inl False, m)
           | p # q \<Rightarrow> (Inr (take n (up_data p), up_addr p), m\<lparr>mx_quic := q\<rparr>))"

text \<open>\<^verbatim>\<open>Close\<close>: the socket is closed once, with the error \<open>err\<close> of its \<^verbatim>\<open>Close\<close>; later calls do nothing and report no error.\<close>

definition mux_Close :: "'e option \<Rightarrow> mux \<Rightarrow> 'e option \<times> mux" where
  "mux_Close err m = (if mx_closed m then (None, m) else (err, m\<lparr>mx_closed := True\<rparr>))"


section \<open>Read-only WebDAV\<close>

definition webdav_forbidden :: "bool \<Rightarrow> string \<Rightarrow> bool" where
  "webdav_forbidden readOnly method \<longleftrightarrow>
     readOnly \<and> method \<in> set [''PUT'', ''DELETE'', ''MKCOL'', ''COPY'', ''MOVE'', ''PROPPATCH'']"


section \<open>Properties\<close>

definition is_quic :: "udp_packet \<Rightarrow> bool" where
  "is_quic p \<longleftrightarrow> (case up_data p of [] \<Rightarrow> True | c # _ \<Rightarrow> c \<noteq> PrefixSignal \<and> c \<noteq> PrefixPunch)"

datatype mux_event = Arrive udp_packet | Read nat | SocketError

definition mux_step :: "mux \<times> (string \<times> net_addr) list \<Rightarrow> mux_event \<Rightarrow> mux \<times> (string \<times> net_addr) list" where
  "mux_step st e =
     (case st of (m, out) \<Rightarrow>
        (case e of
           Arrive p \<Rightarrow> (mux_dispatch (Some p) m, out)
         | SocketError \<Rightarrow> (mux_dispatch None m, out)
         | Read n \<Rightarrow> (case mux_read False n m of (Inl _, m') \<Rightarrow> (m', out) | (Inr r, m') \<Rightarrow> (m', out @ [r]))))"

definition arrivals :: "mux_event list \<Rightarrow> udp_packet list" where
  "arrivals es = concat (map (\<lambda>e. case e of Arrive p \<Rightarrow> [p] | _ \<Rightarrow> []) es)"

abbreviation delivered :: "udp_packet \<Rightarrow> string \<times> net_addr" where
  "delivered p \<equiv> (up_data p, up_addr p)"

lemma mux_step_quic:
  assumes "subseq (out @ map delivered (mx_quic m)) (map delivered (filter is_quic ps))"
    "mux_step (m, out) e = (m', out')" "\<forall>n. e = Read n \<longrightarrow> (\<forall>p\<in>set (mx_quic m). length (up_data p) \<le> n)"
  shows "subseq (out' @ map delivered (mx_quic m')) (map delivered (filter is_quic (ps @ arrivals [e])))"
proof (cases e)
  case (Arrive p)
  have one: "subseq (xs @ [y]) (ys @ [y])" if "subseq xs ys" for xs ys and y :: "string \<times> net_addr"
    using that by (simp add: list_emb_append_mono)
  have more_ok: "subseq xs (ys @ zs)" if "subseq xs ys" for xs ys and zs :: "(string \<times> net_addr) list"
    using that by (rule subseq_rev_drop_many)
  have m': "m' = mux_dispatch (Some p) m" "out' = out" "arrivals [e] = [p]"
    using assms(2) Arrive by (auto simp: mux_step_def arrivals_def)
  have q: "mx_quic m' = mx_quic m \<or> is_quic p \<and> mx_quic m' = mx_quic m @ [p]"
    by (auto simp: m' mux_dispatch_def offer_def is_quic_def split: list.split)
  then show ?thesis
    using assms(1) one [OF assms(1), of "delivered p"] more_ok [OF assms(1)] by (auto simp: m'(2,3))
next
  case (Read n)
  then show ?thesis using assms
    by (cases "mx_quic m") (auto simp: mux_step_def mux_read_def arrivals_def split: if_splits)
next
  case SocketError
  then show ?thesis using assms by (auto simp: mux_step_def mux_dispatch_def arrivals_def split: if_splits)
qed

lemma mux_run_quic:
  assumes "\<forall>e n. e \<in> set es \<and> e = Read n \<longrightarrow> 65536 \<le> n" "\<forall>p\<in>set (arrivals es). length (up_data p) \<le> 65536"
    "foldl mux_step (NewMuxPacketConn, []) es = (m, out)"
  shows "subseq (out @ map delivered (mx_quic m)) (map delivered (filter is_quic (arrivals es)))"
  using assms
proof (induction es arbitrary: m out rule: rev_induct)
  case Nil
  then show ?case by (auto simp: NewMuxPacketConn_def arrivals_def)
next
  case (snoc e es)
  obtain m1 out1 where 1: "foldl mux_step (NewMuxPacketConn, []) es = (m1, out1)" by fastforce
  have sub: "subseq (out1 @ map delivered (mx_quic m1)) (map delivered (filter is_quic (arrivals es)))"
    using snoc.prems 1 by (intro snoc.IH) (auto simp: arrivals_def)
  have small: "length (up_data p) \<le> n" if "e = Read n" "p \<in> set (mx_quic m1)" for n p
  proof -
    have "delivered p \<in> set (out1 @ map delivered (mx_quic m1))" using that(2) by simp
    then have "delivered p \<in> set (map delivered (filter is_quic (arrivals es)))" using list_emb_set [OF sub] by blast
    then obtain p' where "p' \<in> set (arrivals es)" "up_data p' = up_data p" by auto
    moreover have "length (up_data p') \<le> 65536" if "p' \<in> set (arrivals es)" for p'
      using snoc.prems(2) that by (simp add: arrivals_def)
    ultimately have "length (up_data p) \<le> 65536" by metis
    moreover have "65536 \<le> n" using snoc.prems(1) that(1) by simp
    ultimately show ?thesis by simp
  qed
  have "arrivals (es @ [e]) = arrivals es @ arrivals [e]" by (simp add: arrivals_def)
  with mux_step_quic [OF sub _, of e m out] 1 snoc.prems(3) small show ?case by simp
qed

text \<open>With read buffers of the size of the socket's, QUIC reads only QUIC packets, whole, each at most once
  and in the order of their arrival; signalling and punch packets never reach it.\<close>

theorem quic_sees_only_quic:
  assumes "\<forall>e n. e \<in> set es \<and> e = Read n \<longrightarrow> 65536 \<le> n" "\<forall>p\<in>set (arrivals es). length (up_data p) \<le> 65536"
  shows "subseq (snd (foldl mux_step (NewMuxPacketConn, []) es)) (map delivered (filter is_quic (arrivals es)))"
proof -
  obtain m out where "foldl mux_step (NewMuxPacketConn, []) es = (m, out)" by fastforce
  moreover from mux_run_quic [OF assms this]
  have "subseq out (map delivered (filter is_quic (arrivals es)))"
    by (rule subseq_order.order_trans [rotated]) (simp add: prefix_imp_subseq)
  ultimately show ?thesis by simp
qed


text \<open>Closing ends the reads: once the dispatch loop has seen the error of the closed socket, a read returns a packet that was waiting or the closed
  error, it never blocks; and a second \<^verbatim>\<open>Close\<close> succeeds and changes nothing.\<close>

theorem close_unblocks:
  "fst (mux_read prefer n (mux_dispatch None (snd (mux_Close err m)))) \<noteq> Inl False \<and>
   mux_Close err' (snd (mux_Close err m)) = (None, snd (mux_Close err m))"
  by (auto simp: mux_Close_def mux_dispatch_def mux_read_def split: list.splits)

end
