(* ===== verification/Setup_Node.thy ===== *)
theory Setup_Node
  imports Go_FS RV_Data "HOL-Library.Multiset"
begin

text \<open>
  What a node finds out about its machine, \<^verbatim>\<open>pkg/setup/detect.go\<close> with the probes of
  \<^verbatim>\<open>detect_linux.go\<close>, and the identity it derives from it, \<^verbatim>\<open>nodeid.go\<close>. The output of a program is a
  parameter, \<^const>\<open>None\<close> when it fails or runs out of time; so are the CPU library, the TPM, the key
  derivation and the arithmetic of floats.
\<close>

section \<open>Substrings and numbers\<close>

text \<open>The text around the first occurrence of a separator; \<^verbatim>\<open>strings.Index\<close> is the length of the first part.\<close>

fun cut_str :: "string \<Rightarrow> string \<Rightarrow> (string \<times> string) option" where
  "cut_str [] sep = (if sep = [] then Some ([], []) else None)"
| "cut_str (c # s) sep =
     (if has_prefix (c # s) sep then Some ([], drop (length sep) (c # s))
      else map_option (\<lambda>(a, b). (c # a, b)) (cut_str s sep))"

text \<open>\<^verbatim>\<open>strings.SplitN\<close> with at most \<open>n + 1\<close> pieces.\<close>

fun split_n :: "nat \<Rightarrow> string \<Rightarrow> string \<Rightarrow> string list" where
  "split_n 0 s sep = [s]"
| "split_n (Suc n) s sep = (case cut_str s sep of None \<Rightarrow> [s] | Some (a, b) \<Rightarrow> a # split_n n b sep)"

text \<open>
  The number that \<^verbatim>\<open>strconv\<close> returns next to an ignored error: zero for a malformed text, the nearest
  bound for one out of range.
\<close>

fun uint_digits :: "nat \<Rightarrow> string \<Rightarrow> nat" where
  "uint_digits n [] = n"
| "uint_digits n (c # cs) =
     (case digit_of c of None \<Rightarrow> 0
      | Some d \<Rightarrow> if 10 * n + d \<ge> 2 ^ 64 then 2 ^ 64 - 1 else uint_digits (10 * n + d) cs)"

definition parse_uint_value :: "string \<Rightarrow> 64 word" where
  "parse_uint_value s = of_nat (uint_digits 0 s)"

definition atoi_value :: "string \<Rightarrow> int" where
  "atoi_value s =
     (let (neg, ds) = (case s of [] \<Rightarrow> (False, [])
                        | c # cs \<Rightarrow> if c = CHR ''-'' then (True, cs)
                                    else if c = CHR ''+'' then (False, cs) else (False, s));
          n = int (uint_digits 0 ds)
      in if neg then max (- n) (- (2 ^ 63)) else min n (2 ^ 63 - 1))"

definition quot :: "int \<Rightarrow> int \<Rightarrow> int" where
  "quot a b = (if a < 0 then - ((- a) div b) else a div b)"

text \<open>The float computations: megabytes and bytes to gigabytes with one decimal, and rounding.\<close>

record float_ops =
  fo_mb_gb :: "string \<Rightarrow> rat"
  fo_bytes_gb :: "64 word \<Rightarrow> rat"
  fo_round :: "string \<Rightarrow> rat"

type_synonym command = "string list \<Rightarrow> string option"


section \<open>Hardware\<close>

record gpu_info =
  gi_available :: bool
  gi_name :: string
  gi_vram_gb :: rat
  gi_cuda_support :: bool
  gi_driver :: string
  gi_cuda :: string

definition nvidia_smi :: "string \<Rightarrow> string list" where
  "nvidia_smi query = [''nvidia-smi'', ''--query-gpu='' @ query, ''--format=csv,noheader,nounits'']"

definition part :: "nat \<Rightarrow> string list \<Rightarrow> string" where
  "part i ps = (if i < length ps then trim_space (ps ! i) else [])"

definition cuda_word :: "string \<Rightarrow> string" where
  "cuda_word ver = (let w = takeWhile (\<lambda>c. c \<noteq> CHR '' '' \<and> c \<noteq> CHR ''|'') ver in if w = [] then ver else w)"

fun cuda_version :: "string list \<Rightarrow> string" where
  "cuda_version [] = []"
| "cuda_version (l # ls) =
     (case cut_str l ''CUDA Version:'' of
        Some (_, r) \<Rightarrow> trim_space (cuda_word (trim_space r))
      | None \<Rightarrow> cuda_version ls)"

definition detectGPU :: "float_ops \<Rightarrow> command \<Rightarrow> gpu_info" where
  "detectGPU fo cmd =
     (case cmd (nvidia_smi ''name,memory.total,driver_version'') of
        None \<Rightarrow> \<lparr>gi_available = False, gi_name = [], gi_vram_gb = 0, gi_cuda_support = False, gi_driver = [], gi_cuda = []\<rparr>
      | Some out \<Rightarrow>
          let text = trim_space out;
              line = (case index_byte text CHR 0x0A of None \<Rightarrow> text | Some i \<Rightarrow> if i > 0 then take i text else text);
              ps = split_n 2 line '', ''
          in \<lparr>gi_available = True, gi_name = part 0 ps,
              gi_vram_gb = (if 2 \<le> length ps then fo_mb_gb fo (part 1 ps) else 0), gi_cuda_support = True,
              gi_driver = part 2 ps,
              gi_cuda = (case cmd [''nvidia-smi''] of None \<Rightarrow> [] | Some smi \<Rightarrow> cuda_version (split smi CHR 0x0A))\<rparr>)"

text \<open>The lines of a report, without surrounding space and empty lines.\<close>

definition report_lines :: "string \<Rightarrow> string list" where
  "report_lines out = filter (\<lambda>l. l \<noteq> []) (map trim_space (split (trim_space out) CHR 0x0A))"

definition nil_if_empty :: "'a list \<Rightarrow> 'a list option" where
  "nil_if_empty xs = (if xs = [] then None else Some xs)"

definition gpu_static :: "float_ops \<Rightarrow> string \<Rightarrow> gpu_spec" where
  "gpu_static fo line =
     (let ps = split_n 2 line '', '' in
      \<lparr>gpu_name = part 0 ps, gpu_driver = part 2 ps,
       vram_total_gb = (if 2 \<le> length ps then fo_mb_gb fo (part 1 ps) else 0),
       gpu_temp_c = 0, gpu_util_pct = 0, vram_free_gb = 0\<rparr>)"

definition detectGPUsStatic :: "float_ops \<Rightarrow> command \<Rightarrow> gpu_spec list option" where
  "detectGPUsStatic fo cmd =
     (case cmd (nvidia_smi ''name,memory.total,driver_version'') of None \<Rightarrow> None
      | Some out \<Rightarrow> nil_if_empty (map (gpu_static fo) (report_lines out)))"

definition gpu_dynamic :: "float_ops \<Rightarrow> string \<Rightarrow> gpu_spec" where
  "gpu_dynamic fo line =
     (let ps = split_n 3 line '', '' in
      \<lparr>gpu_name = part 0 ps, gpu_driver = [], vram_total_gb = 0,
       gpu_temp_c = (if 2 \<le> length ps then atoi_value (part 1 ps) else 0),
       gpu_util_pct = (if 3 \<le> length ps then atoi_value (part 2 ps) else 0),
       vram_free_gb = (if 4 \<le> length ps then fo_mb_gb fo (part 3 ps) else 0)\<rparr>)"

definition detectGPUsDynamic :: "float_ops \<Rightarrow> command \<Rightarrow> gpu_spec list option" where
  "detectGPUsDynamic fo cmd =
     (case cmd (nvidia_smi ''name,temperature.gpu,utilization.gpu,memory.free'') of None \<Rightarrow> None
      | Some out \<Rightarrow> nil_if_empty (map (gpu_dynamic fo) (report_lines out)))"

text \<open>The first line of a file under \<^verbatim>\<open>/proc\<close> with the given key and a value; a scanner takes 64 KB lines.\<close>

definition proc_lines :: "fs \<Rightarrow> string \<Rightarrow> string list" where
  "proc_lines F p = (case os_ReadFile F p of Inl _ \<Rightarrow> [] | Inr d \<Rightarrow> scan_lines 65536 d)"

fun meminfo_bytes :: "string \<Rightarrow> string list \<Rightarrow> 64 word option" where
  "meminfo_bytes key [] = None"
| "meminfo_bytes key (l # ls) =
     (if has_prefix l key \<and> 2 \<le> length (Go_Prelude.fields l)
      then Some (parse_uint_value (Go_Prelude.fields l ! 1) * 1024) else meminfo_bytes key ls)"

definition detectMemoryLinux :: "float_ops \<Rightarrow> fs \<Rightarrow> rat" where
  "detectMemoryLinux fo F =
     (case meminfo_bytes ''MemTotal:'' (proc_lines F ''/proc/meminfo'') of None \<Rightarrow> 0 | Some b \<Rightarrow> fo_bytes_gb fo b)"

definition detectRAMFreeGB :: "float_ops \<Rightarrow> fs \<Rightarrow> rat" where
  "detectRAMFreeGB fo F =
     (case meminfo_bytes ''MemAvailable:'' (proc_lines F ''/proc/meminfo'') of None \<Rightarrow> 0 | Some b \<Rightarrow> fo_bytes_gb fo b)"

fun cpuinfo_value :: "string \<Rightarrow> string list \<Rightarrow> string option" where
  "cpuinfo_value key [] = None"
| "cpuinfo_value key (l # ls) =
     (case split_n 1 l '':'' of
        [_, v] \<Rightarrow> if has_prefix l key then Some (trim_space v) else cpuinfo_value key ls
      | _ \<Rightarrow> cpuinfo_value key ls)"

definition detectCPUClockLinux :: "float_ops \<Rightarrow> fs \<Rightarrow> rat" where
  "detectCPUClockLinux fo F =
     (case cpuinfo_value ''cpu MHz'' (proc_lines F ''/proc/cpuinfo'') of None \<Rightarrow> 0 | Some v \<Rightarrow> fo_round fo v)"

definition detectDiskLinux :: "float_ops \<Rightarrow> command \<Rightarrow> string \<Rightarrow> rat" where
  "detectDiskLinux fo cmd dir =
     (if dir = [] then 0
      else case cmd [''df'', ''-B1'', ''--output=avail'', dir] of None \<Rightarrow> 0
      | Some out \<Rightarrow>
          let ls = split (trim_space out) CHR 0x0A in
          if 2 \<le> length ls then fo_bytes_gb fo (parse_uint_value (trim_space (ls ! 1))) else 0)"

fun hwmon_temp :: "fs \<Rightarrow> string list \<Rightarrow> int" where
  "hwmon_temp F [] = - 1"
| "hwmon_temp F (e # es) =
     (case os_ReadFile F (''/sys/class/hwmon/'' @ e @ ''/name'') of Inl _ \<Rightarrow> hwmon_temp F es
      | Inr n \<Rightarrow>
          if trim_space n \<noteq> ''coretemp'' \<and> trim_space n \<noteq> ''k10temp'' then hwmon_temp F es
          else case os_ReadFile F (''/sys/class/hwmon/'' @ e @ ''/temp1_input'') of Inl _ \<Rightarrow> hwmon_temp F es
          | Inr t \<Rightarrow> (case parse_int (trim_space t) of None \<Rightarrow> hwmon_temp F es | Some v \<Rightarrow> quot v 1000))"

definition detectCPUsDynamic :: "fs \<Rightarrow> cpu_spec list" where
  "detectCPUsDynamic F =
     [\<lparr>cpu_name = (case cpuinfo_value ''model name'' (proc_lines F ''/proc/cpuinfo'') of None \<Rightarrow> [] | Some v \<Rightarrow> v),
       cpu_cores = 0, cpu_clock_mhz = 0,
       cpu_temp_c = (case os_ReadDir F ''/sys/class/hwmon'' of Inl _ \<Rightarrow> - 1 | Inr es \<Rightarrow> hwmon_temp F (map fst es))\<rparr>]"

text \<open>The CPU as the library reports it.\<close>

record cpu_probe =
  cp_brand :: string
  cp_cores :: int
  cp_avx :: bool
  cp_avx2 :: bool
  cp_avx512 :: bool

record system_info =
  si_os :: string
  si_arch :: string
  si_cuda :: bool
  si_avx :: bool
  si_avx2 :: bool
  si_avx512 :: bool

definition hasCUDA12Runtime :: bool where "hasCUDA12Runtime = True"

definition DetectSystem :: "string \<Rightarrow> string \<Rightarrow> cpu_probe \<Rightarrow> command \<Rightarrow> system_info" where
  "DetectSystem goos goarch cpu cmd =
     \<lparr>si_os = goos, si_arch = goarch, si_cuda = (cmd [''nvidia-smi''] \<noteq> None \<and> hasCUDA12Runtime),
      si_avx = cp_avx cpu, si_avx2 = cp_avx2 cpu, si_avx512 = cp_avx512 cpu\<rparr>"

record full_system_info =
  fi_os :: string
  fi_arch :: string
  fi_cpu :: cpu_probe
  fi_threads :: int
  fi_clock_mhz :: rat
  fi_mem_gb :: rat
  fi_gpu :: gpu_info
  fi_model_dir :: string
  fi_free_gb :: rat

definition DetectSystemFull ::
  "string \<Rightarrow> string \<Rightarrow> float_ops \<Rightarrow> cpu_probe \<Rightarrow> int \<Rightarrow> command \<Rightarrow> fs \<Rightarrow> string \<Rightarrow> full_system_info" where
  "DetectSystemFull goos goarch fo cpu threads cmd F modelDir =
     \<lparr>fi_os = goos, fi_arch = goarch, fi_cpu = cpu, fi_threads = threads, fi_clock_mhz = detectCPUClockLinux fo F,
      fi_mem_gb = detectMemoryLinux fo F, fi_gpu = detectGPU fo cmd, fi_model_dir = modelDir,
      fi_free_gb = detectDiskLinux fo cmd modelDir\<rparr>"

definition DetectHardwareStatic ::
  "string \<Rightarrow> string \<Rightarrow> float_ops \<Rightarrow> cpu_probe \<Rightarrow> int \<Rightarrow> command \<Rightarrow> fs \<Rightarrow> string \<Rightarrow> hardware" where
  "DetectHardwareStatic goos goarch fo cpu threads cmd F modelDir =
     (let full = DetectSystemFull goos goarch fo cpu threads cmd F modelDir in
      \<lparr>hw_cpus = Some [\<lparr>cpu_name = cp_brand (fi_cpu full), cpu_cores = cp_cores (fi_cpu full),
                         cpu_clock_mhz = fi_clock_mhz full, cpu_temp_c = 0\<rparr>],
       hw_gpus = (if gi_available (fi_gpu full) then detectGPUsStatic fo cmd else None),
       hw_ram = Some \<lparr>ram_total_gb = fi_mem_gb full, ram_free_gb = 0\<rparr>\<rparr>)"

definition DetectHardwareDynamic :: "float_ops \<Rightarrow> command \<Rightarrow> fs \<Rightarrow> hardware" where
  "DetectHardwareDynamic fo cmd F =
     \<lparr>hw_cpus = Some (detectCPUsDynamic F), hw_gpus = detectGPUsDynamic fo cmd,
      hw_ram = Some \<lparr>ram_total_gb = 0, ram_free_gb = detectRAMFreeGB fo F\<rparr>\<rparr>"


section \<open>Services of the configuration\<close>

record service_entry =
  se_name :: string
  se_addr :: string
  se_type :: string
  se_engine :: string
  se_enable :: "bool option"

definition IsManagedLocally :: "service_entry \<Rightarrow> bool" where
  "IsManagedLocally s \<longleftrightarrow> se_type s = [] \<or> se_type s = ''local''"

definition IsEnabled :: "service_entry \<Rightarrow> bool" where
  "IsEnabled s \<longleftrightarrow> (case se_enable s of None \<Rightarrow> True | Some b \<Rightarrow> b)"


section \<open>Identity\<close>

definition joined_ids :: "string \<Rightarrow> string list \<Rightarrow> string" where
  "joined_ids none ids = (if ids = [] then none else join '':'' (sort ids))"

definition fetchCPUProcessorID :: "command \<Rightarrow> string" where
  "fetchCPUProcessorID cmd =
     (case cmd [''dmidecode'', ''-t'', ''processor'', ''-q''] of None \<Rightarrow> ''unknown-cpu''
      | Some out \<Rightarrow>
          joined_ids ''unknown-cpu''
            (filter (\<lambda>i. i \<noteq> []) (map (\<lambda>l. trim_space (trim_prefix l ''ID:''))
               (filter (\<lambda>l. has_prefix l ''ID:'') (map trim_space (split out CHR 0x0A))))))"

definition fetchMainboardUUID :: "command \<Rightarrow> string" where
  "fetchMainboardUUID cmd =
     (case cmd [''dmidecode'', ''-s'', ''system-uuid''] of None \<Rightarrow> []
      | Some out \<Rightarrow>
          let uuid = trim_space out in
          if uuid = [] \<or> uuid = ''Not Settable'' \<or> has_prefix uuid ''Not'' then [] else uuid)"

definition gpu_uuid_query :: "string list" where
  "gpu_uuid_query = [''nvidia-smi'', ''--query-gpu=gpu_uuid'', ''--format=csv,noheader'']"

definition fetchGPUUUID :: "command \<Rightarrow> string" where
  "fetchGPUUUID cmd =
     (case cmd gpu_uuid_query of None \<Rightarrow> ''no-gpu''
      | Some out \<Rightarrow> joined_ids ''no-gpu'' (filter (\<lambda>l. l \<noteq> []) (map trim_space (split out CHR 0x0A))))"

record tpm_info =
  ti_fingerprint :: string
  ti_cert :: string
  ti_issuer :: string

record 'k node_identity =
  ni_address :: string
  ni_mainboard :: string
  ni_tpm :: string
  ni_gpu :: string
  ni_cert :: string
  ni_issuer :: string
  ni_key :: 'k

text \<open>HKDF of a secret and a salt, the conversion of 32 bytes to a key, and the address of a key.\<close>

record 'k key_ops =
  ko_hkdf :: "string \<Rightarrow> string \<Rightarrow> string"
  ko_to_ecdsa :: "string \<Rightarrow> 'k option"
  ko_address :: "'k \<Rightarrow> string"

definition derivePrivateKey :: "'k key_ops \<Rightarrow> string \<Rightarrow> string \<Rightarrow> 'k option" where
  "derivePrivateKey ko part1 part2 = ko_to_ecdsa ko (ko_hkdf ko (part1 @ ''|'' @ part2) ''iann-node-v1'')"

text \<open>\<^verbatim>\<open>DeriveNodeIdentity\<close> for every platform: the probes of the mainboard and of the GPUs are arguments.\<close>

definition identity_from :: "'k key_ops \<Rightarrow> tpm_info option \<Rightarrow> string \<Rightarrow> string \<Rightarrow> 'k node_identity option" where
  "identity_from ko tpm mb g =
     (let fallback =
             map_option (\<lambda>k. \<lparr>ni_address = ko_address ko k, ni_mainboard = mb, ni_tpm = [], ni_gpu = g, ni_cert = [],
                              ni_issuer = [], ni_key = k\<rparr>) (derivePrivateKey ko mb g)
      in case tpm of
           None \<Rightarrow> fallback
         | Some t \<Rightarrow>
             if ti_fingerprint t = [] then fallback
             else map_option (\<lambda>k. \<lparr>ni_address = ko_address ko k, ni_mainboard = mb, ni_tpm = ti_fingerprint t, ni_gpu = [],
                                   ni_cert = ti_cert t, ni_issuer = ti_issuer t, ni_key = k\<rparr>)
                    (derivePrivateKey ko mb (ti_fingerprint t)))"

definition DeriveNodeIdentity :: "'k key_ops \<Rightarrow> tpm_info option \<Rightarrow> command \<Rightarrow> 'k node_identity option" where
  "DeriveNodeIdentity ko tpm cmd = identity_from ko tpm (fetchMainboardUUID cmd) (fetchGPUUUID cmd)"

definition HasTPM :: "'k node_identity \<Rightarrow> bool" where
  "HasTPM n \<longleftrightarrow> ni_tpm n \<noteq> []"


section \<open>Properties\<close>

lemma sort_cong_mset: "mset xs = mset ys \<Longrightarrow> sort xs = sort ys" for xs ys :: "'a :: linorder list"
  by (rule properties_for_sort) simp_all

lemma joined_ids_mset: "mset xs = mset ys \<Longrightarrow> joined_ids none xs = joined_ids none ys"
  using sort_cong_mset [of xs ys] mset_eq_length [of xs ys] by (auto simp: joined_ids_def)

lemma uuids_mset:
  "mset (split a CHR 0x0A) = mset (split b CHR 0x0A) \<Longrightarrow>
     mset (filter (\<lambda>l. l \<noteq> []) (map trim_space (split a CHR 0x0A)))
     = mset (filter (\<lambda>l. l \<noteq> []) (map trim_space (split b CHR 0x0A)))"
  by (simp add: mset_filter)

text \<open>The identity of a node without TPM does not depend on the order in which the driver lists its GPUs.\<close>

theorem identity_ignores_gpu_order:
  assumes "cmd gpu_uuid_query = Some a" "cmd' gpu_uuid_query = Some b"
    "mset (split a CHR 0x0A) = mset (split b CHR 0x0A)" "fetchMainboardUUID cmd = fetchMainboardUUID cmd'"
  shows "DeriveNodeIdentity ko tpm cmd = DeriveNodeIdentity ko tpm cmd'"
proof -
  have "fetchGPUUUID cmd = fetchGPUUUID cmd'"
    using joined_ids_mset [OF uuids_mset [OF assms(3)]] assms(1,2) by (simp add: fetchGPUUUID_def)
  then show ?thesis using assms(4) by (simp add: DeriveNodeIdentity_def identity_from_def)
qed

definition toy_keys :: "string key_ops" where
  "toy_keys = \<lparr>ko_hkdf = (\<lambda>s salt. s @ salt), ko_to_ecdsa = Some, ko_address = (\<lambda>k. ''0x'' @ k)\<rparr>"

definition toy_cmd :: "string \<Rightarrow> command" where
  "toy_cmd uuids argv = (if argv = gpu_uuid_query then Some uuids else None)"

theorem identity_ignores_gpu_order_witness:
  "DeriveNodeIdentity toy_keys None (toy_cmd (''b'' @ [CHR 0x0A] @ ''a'')) = DeriveNodeIdentity toy_keys None (toy_cmd (''a'' @ [CHR 0x0A] @ ''b''))"
  by (rule identity_ignores_gpu_order [of _ "''b'' @ [CHR 0x0A] @ ''a''" _ "''a'' @ [CHR 0x0A] @ ''b''"])
    (simp_all add: toy_cmd_def split_def fetchMainboardUUID_def gpu_uuid_query_def)

text \<open>Machines without a TPM, a readable mainboard UUID and a GPU all derive the same private key and
  address: the secret is then a constant.
\<close>

theorem bare_hosts_share_identity:
  assumes "cmd [''dmidecode'', ''-s'', ''system-uuid''] = None" "cmd gpu_uuid_query = None"
    "tpm = None \<or> (\<exists>t. tpm = Some t \<and> ti_fingerprint t = [])"
  shows "map_option ni_key (DeriveNodeIdentity ko tpm cmd) = ko_to_ecdsa ko (ko_hkdf ko ''|no-gpu'' ''iann-node-v1'')"
  using assms
  by (auto simp: DeriveNodeIdentity_def identity_from_def fetchMainboardUUID_def fetchGPUUUID_def derivePrivateKey_def option.map_comp o_def
      option.map_ident Let_def)

theorem bare_hosts_share_identity_witness:
  "map_option ni_key (DeriveNodeIdentity toy_keys None (\<lambda>_. None)) = Some ''|no-gpuiann-node-v1''"
  using bare_hosts_share_identity [of "\<lambda>_. None" None toy_keys] by (simp add: toy_keys_def)


section \<open>Reading the driver's report\<close>

definition trimmed :: "string \<Rightarrow> bool" where
  "trimmed s \<longleftrightarrow> s \<noteq> [] \<and> \<not> is_space (hd s) \<and> \<not> is_space (last s)"

lemma trimmed_trim: "trimmed s \<Longrightarrow> trim_space s = s"
  by (simp add: trimmed_def trim_space_def trim_left_id trim_right_id)

lemma trimmed_around: "trimmed a \<Longrightarrow> trimmed b \<Longrightarrow> trimmed (a @ m @ b)"
  by (auto simp: trimmed_def)

lemma trimmed_newline:
  assumes "trimmed s"
  shows "trim_space (s @ [CHR 0x0A]) = s"
proof -
  have "trim_left is_space (s @ [CHR 0x0A]) = s @ [CHR 0x0A]" using assms by (intro trim_left_id) (simp add: trimmed_def)
  moreover have "trim_right is_space (s @ [CHR 0x0A]) = trim_right is_space s" by (simp add: trim_right_def is_space_def)
  ultimately show ?thesis using assms by (simp add: trim_space_def trim_right_id trimmed_def)
qed

lemma trimmed_join: "ls \<noteq> [] \<Longrightarrow> \<forall>l\<in>set ls. trimmed l \<Longrightarrow> trimmed (join sep ls)"
  by (induction sep ls rule: join.induct) (auto intro: trimmed_around)

lemma cut_str_first: "c \<notin> set a \<Longrightarrow> cut_str (a @ (c # r) @ b) (c # r) = Some (a, b)"
  by (induction a) (auto simp: has_prefix_def)

lemma cut_str_none: "c \<notin> set a \<Longrightarrow> cut_str a (c # r) = None"
  by (induction a) (auto simp: has_prefix_def)

definition gpu_field :: "string \<Rightarrow> bool" where
  "gpu_field s \<longleftrightarrow> trimmed s \<and> CHR 0x0A \<notin> set s \<and> CHR '','' \<notin> set s"

definition gpu_line :: "string \<times> string \<times> string \<Rightarrow> string" where
  "gpu_line g = (case g of (n, m, d) \<Rightarrow> n @ '', '' @ m @ '', '' @ d)"

definition gpu_csv :: "(string \<times> string \<times> string) list \<Rightarrow> string" where
  "gpu_csv gs = join [CHR 0x0A] (map gpu_line gs) @ [CHR 0x0A]"

abbreviation gpu_fields :: "string \<times> string \<times> string \<Rightarrow> bool" where
  "gpu_fields g \<equiv> (case g of (n, m, d) \<Rightarrow> gpu_field n \<and> gpu_field m \<and> gpu_field d)"

lemma gpu_line_parts: "gpu_fields (n, m, d) \<Longrightarrow> split_n 2 (gpu_line (n, m, d)) '', '' = [n, m, d]"
  using cut_str_first [of "CHR '',''" n "'' ''" "m @ '', '' @ d"] cut_str_first [of "CHR '',''" m "'' ''" d]
  by (simp add: gpu_line_def gpu_field_def numeral_2_eq_2)

lemma gpu_line_trimmed: "gpu_fields g \<Longrightarrow> trimmed (gpu_line g)"
  using trimmed_around [of "fst g" "snd (snd g)" "'', '' @ fst (snd g) @ '', ''"]
  by (auto simp: gpu_line_def gpu_field_def split: prod.splits)

lemma gpu_csv_lines:
  assumes "gs \<noteq> []" "\<forall>g\<in>set gs. gpu_fields g"
  shows "trim_space (gpu_csv gs) = join [CHR 0x0A] (map gpu_line gs)"
    and "split (join [CHR 0x0A] (map gpu_line gs)) CHR 0x0A = map gpu_line gs"
    and "report_lines (gpu_csv gs) = map gpu_line gs"
proof -
  have t: "\<forall>l\<in>set (map gpu_line gs). trimmed l" using assms(2) gpu_line_trimmed by fastforce
  show 1: "trim_space (gpu_csv gs) = join [CHR 0x0A] (map gpu_line gs)"
    unfolding gpu_csv_def by (rule trimmed_newline [OF trimmed_join]) (use assms(1) t in simp_all)
  have "\<forall>l\<in>set (map gpu_line gs). CHR 0x0A \<notin> set l"
    using assms(2) by (fastforce simp: gpu_line_def gpu_field_def)
  then show 2: "split (join [CHR 0x0A] (map gpu_line gs)) CHR 0x0A = map gpu_line gs"
    using assms(1) by (intro split_join) simp_all
  have "map trim_space (map gpu_line gs) = map gpu_line gs" using t by (simp add: trimmed_trim)
  moreover have "filter (\<lambda>l. l \<noteq> []) (map gpu_line gs) = map gpu_line gs"
    using t by (auto simp: filter_id_conv trimmed_def)
  ultimately show "report_lines (gpu_csv gs) = map gpu_line gs" by (simp only: report_lines_def 1 2)
qed

lemma gpu_static_line:
  "gpu_fields (n, m, d) \<Longrightarrow> gpu_static fo (gpu_line (n, m, d)) =
     \<lparr>gpu_name = n, gpu_driver = d, vram_total_gb = fo_mb_gb fo m, gpu_temp_c = 0, gpu_util_pct = 0, vram_free_gb = 0\<rparr>"
  using gpu_line_parts [of n m d] by (simp add: gpu_static_def part_def gpu_field_def trimmed_trim)

lemma gpus_detected:
  assumes "gs \<noteq> []" "\<forall>g\<in>set gs. gpu_fields g" "cmd (nvidia_smi ''name,memory.total,driver_version'') = Some (gpu_csv gs)"
  shows "hw_gpus (DetectHardwareStatic goos goarch fo cpu threads cmd F dir) =
    Some (map (\<lambda>(n, m, d). \<lparr>gpu_name = n, gpu_driver = d, vram_total_gb = fo_mb_gb fo m,
                            gpu_temp_c = 0, gpu_util_pct = 0, vram_free_gb = 0\<rparr>) gs)"
proof -
  have "map (gpu_static fo) (map gpu_line gs) = map (\<lambda>(n, m, d). \<lparr>gpu_name = n, gpu_driver = d, vram_total_gb = fo_mb_gb fo m,
                            gpu_temp_c = 0, gpu_util_pct = 0, vram_free_gb = 0\<rparr>) gs"
    using assms(2) by (auto intro!: gpu_static_line)
  then show ?thesis using assms(1,3) gpu_csv_lines(3) [OF assms(1,2)]
    by (simp add: DetectHardwareStatic_def DetectSystemFull_def detectGPU_def detectGPUsStatic_def nil_if_empty_def Let_def)
qed

text \<open>A report of the driver with any number of GPUs is read back entry by entry: the static inventory has
  one entry for every GPU, in order and with its name, memory and driver.
\<close>

theorem gpu_inventory_roundtrip:
  assumes "gs \<noteq> []" "\<forall>g\<in>set gs. gpu_fields g" "cmd (nvidia_smi ''name,memory.total,driver_version'') = Some (gpu_csv gs)"
  shows "hw_gpus (DetectHardwareStatic goos goarch fo cpu threads cmd F dir) =
    Some (map (\<lambda>(n, m, d). \<lparr>gpu_name = n, gpu_driver = d, vram_total_gb = fo_mb_gb fo m,
                            gpu_temp_c = 0, gpu_util_pct = 0, vram_free_gb = 0\<rparr>) gs)"
  using assms by (rule gpus_detected)

definition toy_floats :: float_ops where
  "toy_floats = \<lparr>fo_mb_gb = (\<lambda>s. of_nat (length s)), fo_bytes_gb = (\<lambda>_. 0), fo_round = (\<lambda>_. 0)\<rparr>"

theorem gpu_inventory_roundtrip_witness:
  "hw_gpus (DetectHardwareStatic ''linux'' ''amd64'' toy_floats \<lparr>cp_brand = [], cp_cores = 1, cp_avx = True, cp_avx2 = False, cp_avx512 = False\<rparr>
      2 (\<lambda>_. Some (gpu_csv [(''RTX 1'', ''24'', ''5.1''), (''RTX 2'', ''8'', ''5.1'')])) \<lparr>fs_cwd = ''/'', fs_dirs = [], fs_files = [], fs_denied = []\<rparr> [])
    = Some [\<lparr>gpu_name = ''RTX 1'', gpu_driver = ''5.1'', vram_total_gb = 2, gpu_temp_c = 0, gpu_util_pct = 0, vram_free_gb = 0\<rparr>,
            \<lparr>gpu_name = ''RTX 2'', gpu_driver = ''5.1'', vram_total_gb = 1, gpu_temp_c = 0, gpu_util_pct = 0, vram_free_gb = 0\<rparr>]"
  by (subst gpu_inventory_roundtrip [of "[(''RTX 1'', ''24'', ''5.1''), (''RTX 2'', ''8'', ''5.1'')]"])
    (simp_all add: gpu_field_def trimmed_def is_space_def toy_floats_def)

end
