(* ===== verification/Setup_Archive.thy ===== *)
theory Setup_Archive
  imports Go_FS Eth_Auth
begin

text \<open>
  Installing engine binaries, \<^verbatim>\<open>pkg/setup/setup.go\<close>, \<^verbatim>\<open>github.go\<close> and \<^verbatim>\<open>filehash.go\<close>: the extraction
  of zip and tar archives with the stripping of a wrapper directory, file hashes, the choice of a
  release asset and the check-download-extract-verify sequence of \<^verbatim>\<open>Ensure\<close>. An archive is the
  list of its entries, as Go's archive readers deliver them, read before the first one is written;
  modification times are kept beside the file system. The progress display and its byte formatting
  only write to the terminal and are left out.
\<close>

section \<open>Files and hashes\<close>

record disk =
  dk_fs :: fs
  dk_mtimes :: "(string, time) gomap"

definition file_mtime :: "disk \<Rightarrow> string \<Rightarrow> time" where
  "file_mtime D p = (case mget (dk_mtimes D) (fs_key (dk_fs D) p) of None \<Rightarrow> 0 | Some t \<Rightarrow> t)"

definition FileMtime :: "time \<Rightarrow> time" where
  "FileMtime t = truncate_second t"

definition FileHash :: "(string \<Rightarrow> string) \<Rightarrow> fs \<Rightarrow> string \<Rightarrow> string" where
  "FileHash sha F p = (case os_ReadFile F p of Inl _ \<Rightarrow> [] | Inr d \<Rightarrow> hex_encode (sha d))"

fun le_bytes :: "nat \<Rightarrow> nat \<Rightarrow> string" where
  "le_bytes 0 n = []"
| "le_bytes (Suc k) n = char_of (n mod 256) # le_bytes k (n div 256)"

definition FileHashShort :: "(string \<Rightarrow> string) \<Rightarrow> fs \<Rightarrow> string \<Rightarrow> string" where
  "FileHashShort sha F p =
     (case os_ReadFile F p of Inl _ \<Rightarrow> []
      | Inr d \<Rightarrow> take 12 (hex_encode (sha (le_bytes 8 (length d) @ take 65536 d))))"

definition hash_char :: "char \<Rightarrow> bool" where
  "hash_char c \<longleftrightarrow> (CHR ''0'' \<le> c \<and> c \<le> CHR ''9'') \<or> (CHR ''a'' \<le> c \<and> c \<le> CHR ''f'')"

definition NormalizeSHA256 :: "string \<Rightarrow> string" where
  "NormalizeSHA256 h =
     (let h1 = trim_prefix (trim_prefix (to_lower (trim_space h)) ''sha256:'') ''0x'' in
      if length h1 \<noteq> 64 then [] else if \<not> list_all hash_char h1 then [] else h1)"


section \<open>Wrapper directories\<close>

datatype strip_mode = StripAuto | StripNone | StripForce

text \<open>The first name up to its first slash, if every name starts with it.\<close>

definition detectZipPrefixRaw :: "string list \<Rightarrow> string" where
  "detectZipPrefixRaw names =
     (case names of [] \<Rightarrow> []
      | n # _ \<Rightarrow> (case index_byte n CHR ''/'' of None \<Rightarrow> []
                  | Some i \<Rightarrow> let pre = take (Suc i) n in
                              if list_all (\<lambda>m. has_prefix m pre) names then pre else []))"

definition structural_dirs :: "string list" where
  "structural_dirs = [''packages'', ''bin'', ''conf'', ''lib'', ''ai'', ''models'', ''manifests'', ''keystores'',
     ''logs'', ''certs'', ''src'', ''docs'']"

definition detectZipPrefix :: "string list \<Rightarrow> string" where
  "detectZipPrefix names =
     (let pre = detectZipPrefixRaw names in
      if pre = [] then [] else if trim_suffix pre ''/'' \<in> set structural_dirs then [] else pre)"

definition detectTarPrefix :: "string list \<Rightarrow> string" where
  "detectTarPrefix names = detectZipPrefixRaw names"

definition to_slash :: "string \<Rightarrow> string" where
  "to_slash s = map (\<lambda>c. if c = CHR 0x5C then CHR ''/'' else c) s"


section \<open>Zip archives\<close>

text \<open>What opening and copying an entry gives: an error, an error after some bytes, or its bytes.\<close>

datatype entry_data = OpenError | CopyError string | Data string

record zip_entry =
  ze_name :: string
  ze_is_dir :: bool
  ze_data :: entry_data
  ze_size :: int
  ze_modified :: time

record extracted_file =
  ef_path :: string
  ef_size :: int
  ef_hash :: string
  ef_modified :: time

datatype extract_error = ArchiveUnreadable | EntryOpenFailed | EntryCopyFailed | CreateFailed fs_error | DirFailed fs_error

definition write_entry :: "time \<Rightarrow> string \<Rightarrow> string \<Rightarrow> time \<Rightarrow> disk \<Rightarrow> disk" where
  "write_entry now k d modified D =
     D\<lparr>dk_fs := file_append k d (dk_fs D),
       dk_mtimes := mput k (if is_zero_time modified then now else modified) (dk_mtimes D)\<rparr>"

definition extractZipFile :: "time \<Rightarrow> zip_entry \<Rightarrow> string \<Rightarrow> disk \<Rightarrow> extract_error option \<times> disk" where
  "extractZipFile now e destPath D =
     (case ze_data e of OpenError \<Rightarrow> (Some EntryOpenFailed, D)
      | _ \<Rightarrow>
          (case os_Create True (dk_fs D) destPath of
             Inl x \<Rightarrow> (Some (CreateFailed x), D)
           | Inr (k, F) \<Rightarrow>
               (case ze_data e of
                  Data d \<Rightarrow> (None, write_entry now k d (ze_modified e) (D\<lparr>dk_fs := F\<rparr>))
                | CopyError d \<Rightarrow> (Some EntryCopyFailed, write_entry now k d 0 (D\<lparr>dk_fs := F\<rparr>))
                | OpenError \<Rightarrow> (Some EntryOpenFailed, D))))"

definition make_dirs :: "string \<Rightarrow> disk \<Rightarrow> fs_error option \<times> disk" where
  "make_dirs p D = (case os_MkdirAll (dk_fs D) p of (r, F) \<Rightarrow> (r, D\<lparr>dk_fs := F\<rparr>))"

text \<open>The name of an entry on disk: slashes, and the wrapper removed; \<^const>\<open>None\<close> is the wrapper itself.\<close>

definition entry_name :: "string \<Rightarrow> string \<Rightarrow> string option" where
  "entry_name pre raw =
     (let name = to_slash raw in
      if pre = [] then Some name else if trim_prefix name pre = [] then None else Some (trim_prefix name pre))"

definition zip_entry_step ::
  "(string \<Rightarrow> string) \<Rightarrow> time \<Rightarrow> string \<Rightarrow> (string \<Rightarrow> bool) option \<Rightarrow> string \<Rightarrow> zip_entry \<Rightarrow> disk
    \<Rightarrow> (extract_error + extracted_file option) \<times> disk" where
  "zip_entry_step sha now destDir skip pre e D =
     (case entry_name pre (ze_name e) of None \<Rightarrow> (Inr None, D)
      | Some name \<Rightarrow>
          let destPath = join_path destDir name in
          if ze_is_dir e \<or> has_suffix name ''/'' then (Inr None, snd (make_dirs destPath D))
          else if (case skip of None \<Rightarrow> False | Some f \<Rightarrow> f name) \<and> mget (fs_files (dk_fs D)) (fs_key (dk_fs D) destPath) \<noteq> None
          then (Inr (Some \<lparr>ef_path = name,
                       ef_size = (case os_ReadFile (dk_fs D) destPath of Inl _ \<Rightarrow> 0 | Inr d \<Rightarrow> int (length d)),
                       ef_hash = FileHash sha (dk_fs D) destPath, ef_modified = FileMtime (file_mtime D destPath)\<rparr>), D)
          else
            (case make_dirs (dir_path destPath) D of
               (Some x, D1) \<Rightarrow> (Inl (DirFailed x), D1)
             | (None, D1) \<Rightarrow>
                 (case extractZipFile now e destPath D1 of
                    (Some x, D2) \<Rightarrow> (Inl x, D2)
                  | (None, D2) \<Rightarrow>
                      (Inr (Some \<lparr>ef_path = join_path [] name, ef_size = ze_size e, ef_hash = FileHash sha (dk_fs D2) destPath,
                                  ef_modified = FileMtime (file_mtime D2 destPath)\<rparr>), D2))))"

fun extract_entries ::
  "('e \<Rightarrow> disk \<Rightarrow> (extract_error + extracted_file option) \<times> disk) \<Rightarrow> 'e list \<Rightarrow> disk
    \<Rightarrow> (extract_error + extracted_file list) \<times> disk" where
  "extract_entries step [] D = (Inr [], D)"
| "extract_entries step (e # es) D =
     (case step e D of
        (Inl x, D1) \<Rightarrow> (Inl x, D1)
      | (Inr r, D1) \<Rightarrow>
          (case extract_entries step es D1 of
             (Inl x, D2) \<Rightarrow> (Inl x, D2)
           | (Inr rs, D2) \<Rightarrow> (Inr (case r of None \<Rightarrow> rs | Some f \<Rightarrow> f # rs), D2)))"

definition zip_prefix :: "strip_mode \<Rightarrow> string list \<Rightarrow> string" where
  "zip_prefix strip names =
     to_slash (case strip of StripNone \<Rightarrow> [] | StripForce \<Rightarrow> detectZipPrefixRaw names | StripAuto \<Rightarrow> detectZipPrefix names)"

definition ExtractZipWithOptions ::
  "(string \<Rightarrow> string) \<Rightarrow> time \<Rightarrow> zip_entry list option \<Rightarrow> string \<Rightarrow> (string \<Rightarrow> bool) option \<Rightarrow> strip_mode \<Rightarrow> disk
    \<Rightarrow> (extract_error + extracted_file list) \<times> disk" where
  "ExtractZipWithOptions sha now archive destDir skip strip D =
     (case archive of None \<Rightarrow> (Inl ArchiveUnreadable, D)
      | Some es \<Rightarrow> extract_entries (zip_entry_step sha now destDir skip (zip_prefix strip (map ze_name es))) es D)"

definition ExtractZip where
  "ExtractZip sha now archive destDir D = ExtractZipWithOptions sha now archive destDir None StripAuto D"

definition ExtractZipFiltered where
  "ExtractZipFiltered sha now archive destDir skip D = ExtractZipWithOptions sha now archive destDir skip StripAuto D"


section \<open>Tar archives\<close>

datatype tar_type = TypeDir | TypeReg | TypeOther

record tar_entry =
  te_name :: string
  te_type :: tar_type
  te_data :: string
  te_size :: int
  te_modified :: time

definition tar_entry_step ::
  "(string \<Rightarrow> string) \<Rightarrow> time \<Rightarrow> string \<Rightarrow> string \<Rightarrow> tar_entry \<Rightarrow> disk \<Rightarrow> (extract_error + extracted_file option) \<times> disk" where
  "tar_entry_step sha now destDir pre e D =
     (let name = (if pre = [] then te_name e else trim_prefix (te_name e) pre) in
      if pre \<noteq> [] \<and> name = [] then (Inr None, D)
      else
        let destPath = join_path destDir name in
        (case te_type e of
           TypeDir \<Rightarrow> (Inr None, snd (make_dirs destPath D))
         | TypeReg \<Rightarrow>
             (case make_dirs (dir_path destPath) D of
                (Some x, D1) \<Rightarrow> (Inl (DirFailed x), D1)
              | (None, D1) \<Rightarrow>
                  (case os_Create True (dk_fs D1) destPath of
                     Inl x \<Rightarrow> (Inl (CreateFailed x), D1)
                   | Inr (k, F) \<Rightarrow>
                       let D2 = write_entry now k (te_data e) (te_modified e) (D1\<lparr>dk_fs := F\<rparr>) in
                       (Inr (Some \<lparr>ef_path = name, ef_size = te_size e, ef_hash = FileHash sha (dk_fs D2) destPath,
                                   ef_modified = FileMtime (file_mtime D2 destPath)\<rparr>), D2)))
         | TypeOther \<Rightarrow> (Inr None, D)))"

text \<open>The first pass fails on a stream it cannot read to its end, before anything is written.\<close>

definition ExtractTarGz ::
  "(string \<Rightarrow> string) \<Rightarrow> time \<Rightarrow> tar_entry list option \<Rightarrow> string \<Rightarrow> disk \<Rightarrow> (extract_error + extracted_file list) \<times> disk" where
  "ExtractTarGz sha now archive destDir D =
     (case archive of None \<Rightarrow> (Inl ArchiveUnreadable, D)
      | Some es \<Rightarrow> extract_entries (tar_entry_step sha now destDir (detectTarPrefix (map te_name es))) es D)"


section \<open>Releases and \<^verbatim>\<open>Ensure\<close>\<close>

record asset =
  a_name :: string
  a_url :: string
  a_size :: int

record release =
  r_tag :: string
  r_assets :: "asset list"

definition AssetNames :: "release \<Rightarrow> string list" where
  "AssetNames r = map a_name (r_assets r)"

definition FindAsset :: "release \<Rightarrow> string \<Rightarrow> asset option" where
  "FindAsset r name = find (\<lambda>a. a_name a = name) (r_assets r)"

text \<open>\<^verbatim>\<open>LatestRelease\<close> on the answer of the API: status and body.\<close>

datatype release_error = RequestFailed | RateLimited | BadStatus int | DecodeFailed

definition LatestRelease ::
  "(string \<Rightarrow> release option) \<Rightarrow> (string \<Rightarrow> (string \<times> string) list \<Rightarrow> (int \<times> string) option) \<Rightarrow> string
    \<Rightarrow> string \<Rightarrow> string \<Rightarrow> release_error + release" where
  "LatestRelease decode http token owner repo =
     (case http (''https://api.github.com/repos/'' @ owner @ ''/'' @ repo @ ''/releases/latest'')
             ((''Accept'', ''application/vnd.github.v3+json'')
              # (if token = [] then [] else [(''Authorization'', ''Bearer '' @ token)])) of
        None \<Rightarrow> Inl RequestFailed
      | Some (status, body) \<Rightarrow>
          if status = 403 then Inl RateLimited
          else if status \<noteq> 200 then Inl (BadStatus status)
          else (case decode body of None \<Rightarrow> Inl DecodeFailed | Some r \<Rightarrow> Inr r))"

record 'sys project =
  pj_name :: string
  pj_owner :: string
  pj_repo :: string
  pj_dest :: string
  pj_required :: "string list"
  pj_select :: "string list \<Rightarrow> 'sys \<Rightarrow> string option"

datatype ensure_error =
    FetchFailed release_error | NoAsset | AssetMissing string | DestFailed fs_error | DownloadFailed
  | ExtractFailed extract_error | StillMissing "string list"

definition missing_files :: "'sys project \<Rightarrow> fs \<Rightarrow> string list" where
  "missing_files p F = filter (\<lambda>f. \<not> os_Exists F (join_path (pj_dest p) f)) (pj_required p)"

text \<open>
  The download stores the bytes under \<^verbatim>\<open>.download-tmp\<close>; \<open>get\<close> answers a URL with a failure, or with a
  status, the bytes that arrived and whether they arrived to the end; \<open>unzip\<close> and \<open>untar\<close> are the
  archive readers.
\<close>

definition tmp_remove :: "string \<Rightarrow> disk \<Rightarrow> disk" where
  "tmp_remove p D = D\<lparr>dk_fs := (case os_Remove (dk_fs D) p of Inl _ \<Rightarrow> dk_fs D | Inr F \<Rightarrow> F)\<rparr>"

definition download :: "(string \<Rightarrow> (int \<times> string \<times> bool) option) \<Rightarrow> string \<Rightarrow> string \<Rightarrow> disk \<Rightarrow> bool \<times> disk" where
  "download get url destPath D =
     (case get url of None \<Rightarrow> (False, D)
      | Some (status, body, complete) \<Rightarrow>
          if status \<noteq> 200 then (False, D)
          else (case os_WriteFile (dk_fs D) destPath body of
                  Inl _ \<Rightarrow> (False, D) | Inr F \<Rightarrow> (complete, D\<lparr>dk_fs := F\<rparr>)))"

text \<open>The part of \<^verbatim>\<open>Ensure\<close> after the asset is found: download, extract, remove the archive, verify.\<close>

definition install_asset ::
  "(string \<Rightarrow> string) \<Rightarrow> time \<Rightarrow> (string \<Rightarrow> (int \<times> string \<times> bool) option) \<Rightarrow> (string \<Rightarrow> zip_entry list option) \<Rightarrow> (string \<Rightarrow> tar_entry list option)
    \<Rightarrow> 'sys project \<Rightarrow> asset \<Rightarrow> disk \<Rightarrow> ensure_error option \<times> disk" where
  "install_asset sha now get unzip untar p a D =
     (case make_dirs (pj_dest p) D of (Some e, D1) \<Rightarrow> (Some (DestFailed e), D1)
      | (None, D1) \<Rightarrow>
          let tmp = join_path (pj_dest p) ''.download-tmp'' in
          (case download get (a_url a) tmp D1 of (False, D2) \<Rightarrow> (Some DownloadFailed, tmp_remove tmp D2)
           | (True, D2) \<Rightarrow>
               let bytes = (case os_ReadFile (dk_fs D2) tmp of Inl _ \<Rightarrow> [] | Inr d \<Rightarrow> d);
                   (r, D3) = (if has_suffix (a_name a) ''.tar.gz'' \<or> has_suffix (a_name a) ''.tgz''
                              then ExtractTarGz sha now (untar bytes) (pj_dest p) D2
                              else ExtractZip sha now (unzip bytes) (pj_dest p) D2);
                   D4 = tmp_remove tmp D3
               in case r of Inl e \<Rightarrow> (Some (ExtractFailed e), D4)
                  | Inr _ \<Rightarrow> if missing_files p (dk_fs D4) = [] then (None, D4)
                             else (Some (StillMissing (missing_files p (dk_fs D4))), D4)))"

definition Ensure ::
  "(string \<Rightarrow> string) \<Rightarrow> time \<Rightarrow> (string \<Rightarrow> (int \<times> string \<times> bool) option) \<Rightarrow> (string \<Rightarrow> zip_entry list option) \<Rightarrow> (string \<Rightarrow> tar_entry list option)
    \<Rightarrow> 'sys \<Rightarrow> (release_error + release) \<Rightarrow> 'sys project \<Rightarrow> disk \<Rightarrow> ensure_error option \<times> disk" where
  "Ensure sha now get unzip untar sys latest p D =
     (if missing_files p (dk_fs D) = [] then (None, D)
      else case latest of Inl e \<Rightarrow> (Some (FetchFailed e), D)
      | Inr rel \<Rightarrow>
          (case pj_select p (AssetNames rel) sys of None \<Rightarrow> (Some NoAsset, D)
           | Some name \<Rightarrow>
               (case FindAsset rel name of None \<Rightarrow> (Some (AssetMissing name), D)
                | Some a \<Rightarrow> install_asset sha now get unzip untar p a D)))"

lemma install_error: "fst (install_asset sha now get unzip untar p a D) \<noteq> Some (AssetMissing n)"
  by (simp add: install_asset_def Let_def split: option.split prod.split bool.split sum.split)


section \<open>What one entry changes\<close>

lemma mkdirs_sel:
  "mkdirs ks F = (r, F') \<Longrightarrow> fs_files F' = fs_files F \<and> fs_cwd F' = fs_cwd F \<and> fs_denied F' = fs_denied F
     \<and> set (fs_dirs F) \<subseteq> set (fs_dirs F')"
proof (induction ks arbitrary: F)
  case (Cons k ks)
  then show ?case by (fastforce split: if_splits)
qed simp

lemma make_dirs_sel:
  "fs_files (dk_fs (snd (make_dirs p D))) = fs_files (dk_fs D) \<and> fs_cwd (dk_fs (snd (make_dirs p D))) = fs_cwd (dk_fs D)
     \<and> fs_denied (dk_fs (snd (make_dirs p D))) = fs_denied (dk_fs D)"
  using mkdirs_sel by (auto simp: make_dirs_def os_MkdirAll_def split: prod.split)

lemma create_sel:
  "os_Create tr F p = Inr (k, F') \<Longrightarrow> k = fs_key F p \<and> fs_cwd F' = fs_cwd F \<and> fs_dirs F' = fs_dirs F \<and> fs_denied F' = fs_denied F
     \<and> (\<forall>j. j \<noteq> k \<longrightarrow> mget (fs_files F') j = mget (fs_files F) j) \<and> \<not> is_dir_key F k
     \<and> (tr \<longrightarrow> mget (fs_files F') k = Some [])"
  by (auto simp: os_Create_def Let_def mget_put split: if_splits option.splits)

definition dest_key :: "string \<Rightarrow> disk \<Rightarrow> string \<Rightarrow> string" where
  "dest_key destDir D name = fs_key (dk_fs D) (join_path destDir name)"

text \<open>Files other than the one at \<open>k\<close> stay as they are.\<close>

definition only_file :: "string option \<Rightarrow> disk \<Rightarrow> disk \<Rightarrow> bool" where
  "only_file k D D' \<longleftrightarrow> fs_cwd (dk_fs D') = fs_cwd (dk_fs D) \<and> fs_denied (dk_fs D') = fs_denied (dk_fs D)
     \<and> (\<forall>j. Some j \<noteq> k \<longrightarrow> mget (fs_files (dk_fs D')) j = mget (fs_files (dk_fs D)) j)"

lemma only_file_refl [simp]: "only_file k D D"
  by (simp add: only_file_def)

lemma only_file_dirs: "only_file k D (snd (make_dirs p D))"
  using make_dirs_sel by (simp add: only_file_def)

lemma only_file_trans: "only_file k D D1 \<Longrightarrow> only_file k D1 D2 \<Longrightarrow> only_file k D D2"
  by (simp add: only_file_def)

lemma only_file_write:
  assumes "os_Create True (dk_fs D) p = Inr (k, F)"
  shows "only_file (Some (fs_key (dk_fs D) p)) D (write_entry now k d t (D\<lparr>dk_fs := F\<rparr>))
       \<and> os_ReadFile (dk_fs (write_entry now k d t (D\<lparr>dk_fs := F\<rparr>))) p = Inr d"
  using create_sel [OF assms]
  by (auto simp: only_file_def write_entry_def file_append_def mget_put os_ReadFile_def fs_key_def is_dir_key_def Let_def)

lemma extract_file_effect:
  "extractZipFile now e p D = (r, D') \<Longrightarrow> only_file (Some (fs_key (dk_fs D) p)) D D'
     \<and> (\<forall>d. ze_data e = Data d \<and> r = None \<longrightarrow> os_ReadFile (dk_fs D') p = Inr d)"
  using only_file_write
  by (auto simp: extractZipFile_def split: entry_data.splits sum.splits)

lemma zip_step_effect:
  assumes "zip_entry_step sha now destDir skip pre e D = (r, D')"
  shows "only_file (map_option (dest_key destDir D) (entry_name pre (ze_name e))) D D'"
proof (cases "entry_name pre (ze_name e)")
  case None
  then show ?thesis using assms by (simp add: zip_entry_step_def)
next
  case (Some name)
  define p where "p = join_path destDir name"
  obtain x D1 where 1: "make_dirs (dir_path p) D = (x, D1)" by fastforce
  have d1: "only_file k D D1" "fs_key (dk_fs D1) p = fs_key (dk_fs D) p" for k
    using only_file_dirs [of k D "dir_path p"] 1 by (auto simp: only_file_def fs_key_def)
  obtain y D2 where 2: "extractZipFile now e p D1 = (y, D2)" by fastforce
  have d2: "only_file (Some (fs_key (dk_fs D) p)) D D2"
    using only_file_trans [OF d1(1)] extract_file_effect [OF 2] d1(2) by simp
  show ?thesis
    using assms d1(1) d2 only_file_dirs
    by (auto simp: zip_entry_step_def Some Let_def p_def [symmetric] 1 2 dest_key_def
        split: if_splits option.splits)
qed

lemma zip_step_data:
  assumes "zip_entry_step sha now destDir None pre e D = (Inr r, D')" "entry_name pre (ze_name e) = Some name"
    "\<not> ze_is_dir e" "\<not> has_suffix name ''/''" "ze_data e = Data d"
  shows "os_ReadFile (dk_fs D') (join_path destDir name) = Inr d \<and> (\<exists>f. r = Some f \<and> ef_hash f = hex_encode (sha d))"
proof -
  define p where "p = join_path destDir name"
  obtain x D1 where 1: "make_dirs (dir_path p) D = (x, D1)" by fastforce
  obtain y D2 where 2: "extractZipFile now e p D1 = (y, D2)" by fastforce
  have "y = None" "D' = D2" and r: "\<exists>f. r = Some f \<and> ef_hash f = FileHash sha (dk_fs D2) p"
    using assms by (auto simp: zip_entry_step_def Let_def p_def [symmetric] 1 2 split: option.splits)
  then show ?thesis using extract_file_effect [OF 2] assms(5) r by (auto simp: FileHash_def p_def)
qed

lemma tar_step_effect:
  assumes "tar_entry_step sha now destDir pre e D = (r, D')"
  shows "only_file (Some (dest_key destDir D (if pre = [] then te_name e else trim_prefix (te_name e) pre))) D D'"
proof -
  define name where "name = (if pre = [] then te_name e else trim_prefix (te_name e) pre)"
  define p where "p = join_path destDir name"
  obtain x D1 where 1: "make_dirs (dir_path p) D = (x, D1)" by fastforce
  have d1: "only_file k D D1" "fs_key (dk_fs D1) p = fs_key (dk_fs D) p" for k
    using only_file_dirs [of k D "dir_path p"] 1 by (auto simp: only_file_def fs_key_def)
  have d2: "only_file (Some (fs_key (dk_fs D) p)) D (write_entry now k t m (D1\<lparr>dk_fs := F\<rparr>))"
    if "os_Create True (dk_fs D1) p = Inr (k, F)" for k F t m
    using only_file_trans [OF d1(1)] only_file_write [OF that] d1(2) by simp
  show ?thesis
    using assms d1(1) d2 only_file_dirs unfolding tar_entry_step_def
    by (auto simp: Let_def name_def [symmetric] p_def [symmetric] 1 dest_key_def
        split: if_splits option.splits tar_type.splits sum.splits)
qed


section \<open>Where an entry lands\<close>

definition under :: "string list \<Rightarrow> string \<Rightarrow> bool" where
  "under cs k \<longleftrightarrow> (\<exists>ps. list_all plain_part ps \<and> k = dir_of (cs @ ps))"

lemma fold_clean_safe:
  "''..'' \<notin> set xs \<Longrightarrow> foldl (clean_step True) acc xs = rev (filter (\<lambda>c. c \<noteq> [] \<and> c \<noteq> ''.'') xs) @ acc"
  by (induction xs arbitrary: acc) (auto simp: clean_step_def)

lemma safe_name_under:
  assumes "is_abs cwd" "destDir \<noteq> []" "abs_path cwd destDir = dir_of cs" "list_all plain_part cs"
    "''..'' \<notin> set (split name CHR ''/'')"
  shows "under cs (abs_path cwd (join_path destDir name))"
proof -
  let ?ps = "filter (\<lambda>c. c \<noteq> [] \<and> c \<noteq> ''.'') (split name CHR ''/'')"
  have "abs_path cwd (join_path destDir name) = dir_of (cs @ ?ps)"
    using key_join [OF assms(1-4), of name] assms(5) by (simp add: fold_clean_safe)
  moreover have "list_all plain_part ?ps"
    using split_pieces assms(5) by (auto simp: list_all_iff plain_part_def)
  ultimately show ?thesis by (auto simp: under_def)
qed

text \<open>A prefix that is cut off ends with a slash, so the rest has only components of the name.\<close>

lemma detect_prefix_slash: "detectZipPrefixRaw names = [] \<or> (\<exists>q. detectZipPrefixRaw names = q @ ''/'')"
proof -
  have "\<exists>q. take (Suc i) n = q @ ''/''" if "index_byte n CHR ''/'' = Some i" for n i
    using index_byte_SomeD [OF that] by (metis append_eq_conv_conj append_take_drop_id length_take less_imp_le min.absorb2
        take_Suc_conv_app_nth nth_append_length)
  then show ?thesis by (auto simp: detectZipPrefixRaw_def Let_def split: list.splits option.splits)
qed

lemma zip_prefix_slash: "zip_prefix strip names = [] \<or> (\<exists>q. zip_prefix strip names = q @ ''/'')"
  using detect_prefix_slash [of names]
  by (auto simp: zip_prefix_def detectZipPrefix_def to_slash_def Let_def split: strip_mode.splits)

lemma cut_prefix_pieces:
  assumes "pre = [] \<or> (\<exists>q. pre = q @ ''/'')"
  shows "set (split (trim_prefix name pre) CHR ''/'') \<subseteq> set (split name CHR ''/'')"
proof (cases "has_prefix name pre")
  case True
  then obtain t where t: "name = pre @ t" by (auto simp: has_prefix_iff)
  from assms show ?thesis
  proof
    assume "\<exists>q. pre = q @ ''/''"
    then obtain q where "name = q @ CHR ''/'' # t" using t by auto
    moreover have "trim_prefix name pre = t" using t by simp
    ultimately show ?thesis by (simp add: split_slash_append)
  qed (simp add: trim_prefix_def)
qed (simp add: trim_prefix_def)

lemma entries_confined:
  assumes step: "\<And>e D r D'. e \<in> set es \<Longrightarrow> fs_cwd (dk_fs D) = cwd \<Longrightarrow> step e D = (r, D') \<Longrightarrow>
      fs_cwd (dk_fs D') = cwd \<and> (\<forall>k. \<not> under cs k \<longrightarrow> mget (fs_files (dk_fs D')) k = mget (fs_files (dk_fs D)) k)"
    and "fs_cwd (dk_fs D) = cwd" "extract_entries step es D = (r, D')" "\<not> under cs k"
  shows "mget (fs_files (dk_fs D')) k = mget (fs_files (dk_fs D)) k"
  using assms
proof (induction es arbitrary: D r D')
  case (Cons e es)
  obtain x D1 where 1: "step e D = (x, D1)" by fastforce
  obtain y D2 where 2: "extract_entries step es D1 = (y, D2)" by fastforce
  have e: "fs_cwd (dk_fs D1) = cwd" "mget (fs_files (dk_fs D1)) k = mget (fs_files (dk_fs D)) k"
    using Cons.prems(1) [OF _ Cons.prems(2) 1] Cons.prems(4) by auto
  have "mget (fs_files (dk_fs D2)) k = mget (fs_files (dk_fs D1)) k"
    by (rule Cons.IH [OF _ e(1) 2 Cons.prems(4)]) (rule Cons.prems(1), simp_all)
  then show ?case using Cons.prems(3) e 1 2 by (auto split: sum.splits)
qed simp



section \<open>Properties\<close>

definition safe_entry :: "string \<Rightarrow> bool" where
  "safe_entry raw \<longleftrightarrow> ''..'' \<notin> set (split (to_slash raw) CHR ''/'')"

lemma entry_name_safe:
  assumes "safe_entry raw" "pre = [] \<or> (\<exists>q. pre = q @ ''/'')" "entry_name pre raw = Some name"
  shows "''..'' \<notin> set (split name CHR ''/'')"
  using assms cut_prefix_pieces [OF assms(2), of "to_slash raw"]
  by (auto simp: entry_name_def safe_entry_def Let_def split: if_splits)

text \<open>C30. Extracting a zip archive without \<^verbatim>\<open>..\<close> components in its names changes no file outside the
  destination directory, in every strip mode, with every skip filter and whatever fails.\<close>

theorem extract_zip_confined:
  assumes "is_abs (fs_cwd (dk_fs D))" "destDir \<noteq> []" "abs_path (fs_cwd (dk_fs D)) destDir = dir_of cs"
    "list_all plain_part cs" "\<forall>e\<in>set es. safe_entry (ze_name e)"
    "ExtractZipWithOptions sha now (Some es) destDir skip strip D = (r, D')" "\<not> under cs k"
  shows "mget (fs_files (dk_fs D')) k = mget (fs_files (dk_fs D)) k"
proof -
  define pre where "pre = zip_prefix strip (map ze_name es)"
  let ?step = "zip_entry_step sha now destDir skip pre"
  have "fs_cwd (dk_fs D2) = fs_cwd (dk_fs D)
      \<and> (\<forall>k. \<not> under cs k \<longrightarrow> mget (fs_files (dk_fs D2)) k = mget (fs_files (dk_fs D1)) k)"
    if "e \<in> set es" "fs_cwd (dk_fs D1) = fs_cwd (dk_fs D)" "?step e D1 = (x, D2)" for e D1 x D2
  proof -
    have "under cs (dest_key destDir D1 name)" if "entry_name pre (ze_name e) = Some name" for name
      using entry_name_safe [OF _ zip_prefix_slash that [unfolded pre_def]] assms(5) \<open>e \<in> set es\<close>
        safe_name_under [OF assms(1-4)] \<open>fs_cwd (dk_fs D1) = _\<close> by (simp add: dest_key_def fs_key_def)
    then have "Some j \<noteq> map_option (dest_key destDir D1) (entry_name pre (ze_name e))" if "\<not> under cs j" for j
      using that by (cases "entry_name pre (ze_name e)") auto
    then show ?thesis using zip_step_effect [OF that(3)] that(2) by (simp add: only_file_def)
  qed
  from entries_confined [OF this refl _ assms(7)] show ?thesis
    using assms(6) by (simp add: ExtractZipWithOptions_def pre_def)
qed

definition toy_disk :: disk where
  "toy_disk = \<lparr>dk_fs = \<lparr>fs_cwd = ''/'', fs_dirs = [''/opt''], fs_files = [(''/etc'', ''old'')], fs_denied = []\<rparr>, dk_mtimes = []\<rparr>"

definition toy_entry :: "string \<Rightarrow> string \<Rightarrow> zip_entry" where
  "toy_entry n d = \<lparr>ze_name = n, ze_is_dir = False, ze_data = Data d, ze_size = int (length d), ze_modified = 0\<rparr>"

theorem extract_zip_confined_witness:
  "mget (fs_files (dk_fs (snd (ExtractZipWithOptions id 7 (Some [toy_entry ''w/a'' ''1'', toy_entry ''w/etc'' ''2'']) ''/opt''
     None StripAuto toy_disk)))) ''/etc'' = Some ''old''"
proof -
  have 1: "is_abs (fs_cwd (dk_fs toy_disk))" "''/opt'' \<noteq> ([] :: string)"
    "abs_path (fs_cwd (dk_fs toy_disk)) ''/opt'' = dir_of [''opt'']" by code_simp+
  have 2: "list_all plain_part [''opt'']" by (simp add: plain_part_def)
  have 3: "\<forall>e\<in>set [toy_entry ''w/a'' ''1'', toy_entry ''w/etc'' ''2'']. safe_entry (ze_name e)"
    by (simp add: toy_entry_def safe_entry_def to_slash_def split_def)
  have "dir_of (''opt'' # ps) \<noteq> ''/etc''" for ps by (cases ps) (simp_all add: dir_of_def)
  then have 4: "\<not> under [''opt''] ''/etc''" by (auto simp: under_def dest: sym)
  obtain r D' where 5: "ExtractZipWithOptions id 7 (Some [toy_entry ''w/a'' ''1'', toy_entry ''w/etc'' ''2'']) ''/opt''
     None StripAuto toy_disk = (r, D')" by fastforce
  from extract_zip_confined [OF 1 2 3 5 4] show ?thesis by (simp add: 5) (simp add: toy_disk_def)
qed

text \<open>An archive with \<^verbatim>\<open>..\<close> in a name writes outside the destination: nothing checks the joined path.\<close>

theorem zip_slip:
  "\<exists>rs D'. ExtractZip id 7 (Some [toy_entry ''a'' ''1'', toy_entry ''../evil'' ''2'']) ''/opt'' toy_disk = (Inr rs, D')
     \<and> mget (fs_files (dk_fs D')) ''/evil'' = Some ''2'' \<and> mget (fs_files (dk_fs toy_disk)) ''/evil'' = None
     \<and> \<not> under [''opt''] ''/evil''"
proof -
  have 1: "case ExtractZip id 7 (Some [toy_entry ''a'' ''1'', toy_entry ''../evil'' ''2'']) ''/opt'' toy_disk of (r, D') \<Rightarrow>
      (case r of Inl _ \<Rightarrow> False | Inr _ \<Rightarrow> mget (fs_files (dk_fs D')) ''/evil'' = Some ''2'')" by code_simp
  have 2: "mget (fs_files (dk_fs toy_disk)) ''/evil'' = None" by code_simp
  have "dir_of (''opt'' # ps) \<noteq> ''/evil''" for ps by (cases ps) (simp_all add: dir_of_def)
  then have "\<not> under [''opt''] ''/evil''" by (auto simp: under_def dest: sym)
  with 1 2 show ?thesis by (auto split: prod.splits sum.splits)
qed

lemma entries_split:
  "extract_entries step (xs @ e # ys) D = (Inr rs, D') \<Longrightarrow>
     \<exists>D1 r D2 rs1 rs2. extract_entries step xs D = (Inr rs1, D1) \<and> step e D1 = (Inr r, D2)
        \<and> extract_entries step ys D2 = (Inr rs2, D') \<and> (\<forall>f. r = Some f \<longrightarrow> f \<in> set rs)"
proof (induction xs arbitrary: D rs)
  case Nil
  then show ?case by (auto split: sum.splits prod.splits option.splits)
next
  case (Cons x xs)
  obtain r0 D0 rs0 where 1: "step x D = (Inr r0, D0)" "extract_entries step (xs @ e # ys) D0 = (Inr rs0, D')"
    and 2: "set rs0 \<subseteq> set rs"
    using Cons.prems by (auto split: sum.splits prod.splits option.splits) blast
  from Cons.IH [OF 1(2)] 1 2 show ?case by fastforce
qed

lemma entries_cwd: "extract_entries (zip_entry_step sha now destDir skip pre) es D = (r, D') \<Longrightarrow> fs_cwd (dk_fs D') = fs_cwd (dk_fs D)"
proof (induction es arbitrary: D r D')
  case (Cons e es)
  obtain x D1 where 1: "zip_entry_step sha now destDir skip pre e D = (x, D1)" by fastforce
  obtain y D2 where 2: "extract_entries (zip_entry_step sha now destDir skip pre) es D1 = (y, D2)" by fastforce
  from zip_step_effect [OF 1] Cons.IH [OF 2] Cons.prems 1 2 show ?case
    by (auto simp: only_file_def split: sum.splits)
qed simp

lemma entries_keep_file:
  assumes "extract_entries (zip_entry_step sha now destDir skip pre) es D = (r, D')"
    "\<forall>e\<in>set es. \<forall>n. entry_name pre (ze_name e) = Some n \<longrightarrow> dest_key destDir D n \<noteq> k"
  shows "mget (fs_files (dk_fs D')) k = mget (fs_files (dk_fs D)) k \<and> fs_cwd (dk_fs D') = fs_cwd (dk_fs D)"
  using assms
proof (induction es arbitrary: D r D')
  case (Cons e es)
  obtain x D1 where 1: "zip_entry_step sha now destDir skip pre e D = (x, D1)" by fastforce
  obtain y D2 where 2: "extract_entries (zip_entry_step sha now destDir skip pre) es D1 = (y, D2)" by fastforce
  have e: "mget (fs_files (dk_fs D1)) k = mget (fs_files (dk_fs D)) k" "fs_cwd (dk_fs D1) = fs_cwd (dk_fs D)"
    using zip_step_effect [OF 1] Cons.prems(2)
    by (cases "entry_name pre (ze_name e)"; auto simp: only_file_def)+
  then have "mget (fs_files (dk_fs D2)) k = mget (fs_files (dk_fs D1)) k \<and> fs_cwd (dk_fs D2) = fs_cwd (dk_fs D1)"
    using Cons.prems(2) by (intro Cons.IH [OF 2]) (auto simp: dest_key_def fs_key_def)
  then show ?case using Cons.prems(1) e 1 2 by (auto split: sum.splits)
qed simp

text \<open>When an extraction succeeds, the file of every entry has the entry's bytes unless a later entry has
  the same destination, and its recorded hash is that of these bytes.\<close>

theorem extract_content:
  assumes "ExtractZipWithOptions sha now (Some es) destDir None strip D = (Inr rs, D')" "es = xs @ e # ys"
    "entry_name (zip_prefix strip (map ze_name es)) (ze_name e) = Some name"
    "\<not> ze_is_dir e" "\<not> has_suffix name ''/''" "ze_data e = Data d"
    "\<forall>e'\<in>set ys. \<forall>n. entry_name (zip_prefix strip (map ze_name es)) (ze_name e') = Some n \<longrightarrow>
       dest_key destDir D n \<noteq> dest_key destDir D name"
  shows "mget (fs_files (dk_fs D')) (dest_key destDir D name) = Some d \<and> (\<exists>f\<in>set rs. ef_hash f = hex_encode (sha d))"
proof -
  let ?step = "zip_entry_step sha now destDir None (zip_prefix strip (map ze_name es))"
  from assms(1,2) have "extract_entries ?step (xs @ e # ys) D = (Inr rs, D')" by (simp add: ExtractZipWithOptions_def)
  from entries_split [OF this] obtain D1 r D2 rs1 rs2 where
    s: "extract_entries ?step xs D = (Inr rs1, D1)" "?step e D1 = (Inr r, D2)" "extract_entries ?step ys D2 = (Inr rs2, D')"
    "\<forall>f. r = Some f \<longrightarrow> f \<in> set rs" by blast
  have key: "dest_key destDir D2 n = dest_key destDir D n" for n
    using entries_cwd [OF s(1)] zip_step_effect [OF s(2)] by (simp add: dest_key_def fs_key_def only_file_def)
  from zip_step_data [OF s(2) assms(3-6)]
  have d: "mget (fs_files (dk_fs D2)) (dest_key destDir D name) = Some d" "\<exists>f. r = Some f \<and> ef_hash f = hex_encode (sha d)"
    using key [of name] by (auto simp: dest_key_def os_ReadFile_def Let_def split: if_splits option.splits)
  moreover have "mget (fs_files (dk_fs D')) (dest_key destDir D name) = mget (fs_files (dk_fs D2)) (dest_key destDir D name)"
    using entries_keep_file [OF s(3), of "dest_key destDir D name"] assms(7) by (simp add: key)
  ultimately show ?thesis using s(4) by auto
qed

theorem extract_content_witness:
  "mget (fs_files (dk_fs (snd (ExtractZipWithOptions id 7 (Some [toy_entry ''w/a'' ''1'', toy_entry ''w/b'' ''2'']) ''/opt''
     None StripAuto toy_disk)))) ''/opt/a'' = Some ''1''"
proof -
  let ?es = "[toy_entry ''w/a'' ''1'', toy_entry ''w/b'' ''2'']"
  have ok: "case ExtractZipWithOptions id 7 (Some ?es) ''/opt'' None StripAuto toy_disk of (r, _) \<Rightarrow>
      (case r of Inl _ \<Rightarrow> False | Inr _ \<Rightarrow> True)" by code_simp
  then obtain rs D' where 1: "ExtractZipWithOptions id 7 (Some ?es) ''/opt'' None StripAuto toy_disk = (Inr rs, D')"
    by (auto split: prod.splits sum.splits)
  have 2: "?es = [] @ toy_entry ''w/a'' ''1'' # [toy_entry ''w/b'' ''2'']" by simp
  have 3: "entry_name (zip_prefix StripAuto (map ze_name ?es)) (ze_name (toy_entry ''w/a'' ''1'')) = Some ''a''" by code_simp
  have 4: "\<not> ze_is_dir (toy_entry ''w/a'' ''1'')" "\<not> has_suffix ''a'' ''/''" by code_simp+
  have 5: "ze_data (toy_entry ''w/a'' ''1'') = Data ''1''" by (simp add: toy_entry_def)
  have e: "entry_name (zip_prefix StripAuto (map ze_name ?es)) (ze_name (toy_entry ''w/b'' ''2'')) = Some ''b''" by code_simp
  have k: "dest_key ''/opt'' toy_disk ''a'' = ''/opt/a''" "dest_key ''/opt'' toy_disk ''b'' = ''/opt/b''" by code_simp+
  have 6: "\<forall>e'\<in>set [toy_entry ''w/b'' ''2'']. \<forall>n. entry_name (zip_prefix StripAuto (map ze_name ?es)) (ze_name e') = Some n \<longrightarrow>
       dest_key ''/opt'' toy_disk n \<noteq> dest_key ''/opt'' toy_disk ''a''"
    using e k by simp
  from extract_content [OF 1 2 3 4 5 6] show ?thesis by (simp add: 1 k)
qed

end
