(* ===== verification/Setup_Assets.thy ===== *)
theory Setup_Assets
  imports Setup_Node Setup_Archive
begin

text \<open>
  The choice of a release asset for the machine, \<^verbatim>\<open>pkg/setup/project_sd.go\<close> and
  \<^verbatim>\<open>project_llama.go\<close>. The override of the environment is an argument; no asset is \<^const>\<open>None\<close>.
\<close>

section \<open>stable-diffusion.cpp\<close>

definition matchesPlatform :: "string \<Rightarrow> system_info \<Rightarrow> bool" where
  "matchesPlatform asset sys =
     (let a = to_lower asset;
          os_ok = (if si_os sys = ''windows'' then contains a ''win''
                   else if si_os sys = ''linux'' then contains a ''linux''
                   else if si_os sys = ''darwin'' then contains a ''darwin'' else False)
      in os_ok \<and> (if si_arch sys = ''amd64'' then contains a ''x64'' \<or> contains a ''x86_64''
                  else if si_arch sys = ''arm64'' then contains a ''arm64'' else False))"

definition word_char :: "char \<Rightarrow> bool" where
  "word_char c \<longleftrightarrow> (CHR ''a'' \<le> c \<and> c \<le> CHR ''z'') \<or> (CHR ''0'' \<le> c \<and> c \<le> CHR ''9'')"

text \<open>Only the first occurrence of the keyword is looked at.\<close>

definition matchesVariant :: "string \<Rightarrow> string \<Rightarrow> bool" where
  "matchesVariant asset variant =
     (case cut_str (to_lower asset) variant of None \<Rightarrow> False
      | Some (before, after) \<Rightarrow>
          (before = [] \<or> \<not> word_char (last before)) \<and> (after = [] \<or> \<not> word_char (hd after)))"

definition sd_variants :: "system_info \<Rightarrow> (string \<times> bool) list" where
  "sd_variants sys =
     [(''cuda12'', si_cuda sys), (''avx512'', si_avx512 sys), (''avx2'', si_avx2 sys), (''avx'', si_avx sys), (''noavx'', True)]"

fun pick_variant :: "(string \<times> bool) list \<Rightarrow> string list \<Rightarrow> string option" where
  "pick_variant [] cs = None"
| "pick_variant ((k, ok) # vs) cs =
     (if \<not> ok then pick_variant vs cs
      else case find (\<lambda>a. matchesVariant a k) cs of Some a \<Rightarrow> Some a | None \<Rightarrow> pick_variant vs cs)"

definition selectSDAsset :: "string \<Rightarrow> string list \<Rightarrow> system_info \<Rightarrow> string option" where
  "selectSDAsset variant assets sys =
     (if variant \<noteq> [] then find (\<lambda>a. contains a variant \<and> matchesPlatform a sys) assets
      else
        let cs = filter (\<lambda>a. matchesPlatform a sys) assets in
        case cs of [] \<Rightarrow> None
        | c # _ \<Rightarrow>
            if si_os sys = ''windows'' \<and> si_arch sys = ''amd64''
            then (case pick_variant (sd_variants sys) cs of Some a \<Rightarrow> Some a | None \<Rightarrow> Some c)
            else Some c)"

definition NewSDProject :: "string \<Rightarrow> string \<Rightarrow> string \<Rightarrow> system_info project" where
  "NewSDProject goos variant destDir =
     \<lparr>pj_name = ''stable-diffusion.cpp'', pj_owner = ''leejet'', pj_repo = ''stable-diffusion.cpp'', pj_dest = destDir,
      pj_required = (if goos = ''windows'' then [''sd-server.exe'', ''sd-cli.exe'', ''stable-diffusion.dll'']
                     else [''sd-server'', ''sd-cli'']),
      pj_select = selectSDAsset variant\<rparr>"


section \<open>llama.cpp\<close>

definition matchesLlamaPlatform :: "string \<Rightarrow> system_info \<Rightarrow> bool" where
  "matchesLlamaPlatform asset sys =
     (let a = to_lower asset in
      if contains a ''src'' \<or> contains a ''source'' then False
      else
        let os_ok = (if si_os sys = ''windows'' then contains a ''win''
                     else if si_os sys = ''linux'' then contains a ''ubuntu'' \<or> contains a ''linux''
                     else if si_os sys = ''darwin'' then contains a ''macos'' \<or> contains a ''darwin'' else False)
        in os_ok \<and> (if si_arch sys = ''amd64''
                    then contains a ''x64'' \<or> contains a ''x86_64'' \<or> \<not> contains a ''arm64''
                    else if si_arch sys = ''arm64'' then contains a ''arm64'' else False))"

definition selectLlamaAsset :: "string \<Rightarrow> string list \<Rightarrow> system_info \<Rightarrow> string option" where
  "selectLlamaAsset variant assets sys =
     (if variant \<noteq> [] then find (\<lambda>a. contains a variant \<and> matchesLlamaPlatform a sys) assets
      else
        let cs = filter (\<lambda>a. matchesLlamaPlatform a sys) assets;
            cuda = (if si_cuda sys then find (\<lambda>a. contains (to_lower a) ''cuda'') cs else None);
            cpu = find (\<lambda>a. contains (to_lower a) ''cpu'') cs
        in case cs of [] \<Rightarrow> None
           | c # _ \<Rightarrow>
               if si_os sys = ''windows''
               then (case cuda of Some a \<Rightarrow> Some a | None \<Rightarrow> (case cpu of Some a \<Rightarrow> Some a | None \<Rightarrow> Some c))
               else Some c)"

definition NewLlamaProject :: "string \<Rightarrow> string \<Rightarrow> string \<Rightarrow> system_info project" where
  "NewLlamaProject goos variant destDir =
     \<lparr>pj_name = ''llama.cpp'', pj_owner = ''ggerganov'', pj_repo = ''llama.cpp'', pj_dest = destDir,
      pj_required = (if goos = ''windows'' then [''llama-server.exe'', ''llama-cli.exe'']
                     else [''llama-server'', ''llama-cli'']),
      pj_select = selectLlamaAsset variant\<rparr>"


section \<open>The contract of a selection\<close>

text \<open>A selection returns one of the assets that fit, and finds one exactly if there is one.\<close>

locale asset_selection =
  fixes select :: "string \<Rightarrow> string list \<Rightarrow> system_info \<Rightarrow> string option"
    and fits :: "string \<Rightarrow> system_info \<Rightarrow> bool"
  assumes select_fits: "select v assets sys = Some a \<Longrightarrow> a \<in> set assets \<and> fits a sys \<and> contains a v"
    and select_none: "select v assets sys = None \<Longrightarrow> \<forall>a\<in>set assets. fits a sys \<longrightarrow> \<not> contains a v"
begin

lemma select_succeeds: "(\<exists>a. select v assets sys = Some a) \<longleftrightarrow> (\<exists>a\<in>set assets. fits a sys \<and> contains a v)"
  using select_fits select_none by (cases "select v assets sys") blast+

text \<open>So the asset of a selection is an asset of the release.\<close>

lemma select_in_release:
  assumes "select v (AssetNames rel) sys = Some a"
  shows "\<exists>x. FindAsset rel a = Some x \<and> a_name x = a"
proof -
  have "a \<in> set (AssetNames rel)" using select_fits [OF assms] by simp
  then obtain y where "y \<in> set (r_assets rel)" "a_name y = a" by (auto simp: AssetNames_def)
  then have "FindAsset rel a \<noteq> None" by (auto simp: FindAsset_def find_None_iff)
  then obtain x where "FindAsset rel a = Some x" by auto
  then show ?thesis by (auto simp: FindAsset_def find_Some_iff)
qed

lemma ensure_asset_found:
  assumes "pj_select p = select v"
  shows "fst (Ensure sha now get unzip untar sys latest p D) \<noteq> Some (AssetMissing n)"
proof
  assume e: "fst (Ensure sha now get unzip untar sys latest p D) = Some (AssetMissing n)"
  then obtain rel where r: "latest = Inr rel" "select v (AssetNames rel) sys = Some n" "FindAsset rel n = None"
    using assms by (auto simp: Ensure_def install_error split: if_splits sum.splits option.splits)
  with select_in_release [OF r(2)] show False by simp
qed

end

lemma contains_Nil [simp]: "contains s []"
  by (cases s) (simp_all add: has_prefix_def)

lemma pick_variant_mem: "pick_variant vs cs = Some a \<Longrightarrow> a \<in> set cs"
  by (induction vs cs rule: pick_variant.induct) (auto simp: find_Some_iff split: if_splits option.splits)

lemma find_mem: "find P xs = Some a \<Longrightarrow> a \<in> set xs \<and> P a"
  by (auto simp: find_Some_iff)

interpretation sd: asset_selection selectSDAsset matchesPlatform
proof
  show "a \<in> set assets \<and> matchesPlatform a sys \<and> contains a v" if s: "selectSDAsset v assets sys = Some a" for v assets sys a
  proof (cases "v = []")
    case True
    define cs where "cs = filter (\<lambda>a. matchesPlatform a sys) assets"
    then obtain c ds where cs: "cs = c # ds" using s True by (auto simp: selectSDAsset_def Let_def split: list.splits)
    then have "a = c \<or> pick_variant (sd_variants sys) cs = Some a"
      using s True by (auto simp: selectSDAsset_def cs_def [symmetric] split: if_splits option.splits)
    then have "a \<in> set cs" using pick_variant_mem [of "sd_variants sys" cs a] cs by auto
    with True show ?thesis by (simp add: cs_def)
  qed (use s find_mem in \<open>fastforce simp: selectSDAsset_def\<close>)
  show "\<forall>a\<in>set assets. matchesPlatform a sys \<longrightarrow> \<not> contains a v" if "selectSDAsset v assets sys = None" for v assets sys
    using that by (auto simp: selectSDAsset_def Let_def find_None_iff filter_empty_conv split: list.splits if_splits option.splits)
qed

interpretation llama: asset_selection selectLlamaAsset matchesLlamaPlatform
proof
  show "a \<in> set assets \<and> matchesLlamaPlatform a sys \<and> contains a v" if s: "selectLlamaAsset v assets sys = Some a" for v assets sys a
  proof (cases "v = []")
    case True
    define cs where "cs = filter (\<lambda>a. matchesLlamaPlatform a sys) assets"
    then obtain c ds where cs: "cs = c # ds" using s True by (auto simp: selectLlamaAsset_def Let_def split: list.splits)
    then have "a = c \<or> find (\<lambda>a. contains (to_lower a) ''cuda'') cs = Some a \<or> find (\<lambda>a. contains (to_lower a) ''cpu'') cs = Some a"
      using s True by (auto simp: selectLlamaAsset_def cs_def [symmetric] Let_def split: if_splits option.splits)
    then have "a \<in> set cs" using find_mem cs by fastforce
    with True show ?thesis by (simp add: cs_def)
  qed (use s find_mem in \<open>fastforce simp: selectLlamaAsset_def\<close>)
  show "\<forall>a\<in>set assets. matchesLlamaPlatform a sys \<longrightarrow> \<not> contains a v" if "selectLlamaAsset v assets sys = None" for v assets sys
    using that by (auto simp: selectLlamaAsset_def Let_def find_None_iff filter_empty_conv split: list.splits if_splits option.splits)
qed


section \<open>Properties\<close>

lemma pick_variant_first:
  assumes "\<forall>(k', ok)\<in>set xs. ok \<longrightarrow> (\<forall>a\<in>set cs. \<not> matchesVariant a k')" "find (\<lambda>a. matchesVariant a k) cs = Some a"
  shows "pick_variant (xs @ (k, True) # ys) cs = Some a"
  using assms
proof (induction xs)
  case (Cons x xs)
  obtain k' ok where x: "x = (k', ok)" by fastforce
  have "ok \<Longrightarrow> find (\<lambda>a. matchesVariant a k') cs = None" using Cons.prems(1) x by (auto simp: find_None_iff)
  then show ?case using Cons x by auto
qed simp

lemma find_filter: "find P (filter Q xs) = find (\<lambda>x. Q x \<and> P x) xs"
  by (induction xs) auto

text \<open>On Windows the first asset of the best variant that the machine supports is chosen: a supported
  variant comes before another when it stands before it in the list of the code.
\<close>

theorem best_variant_selected:
  assumes "si_os sys = ''windows''" "si_arch sys = ''amd64''" "sd_variants sys = xs @ (k, True) # ys"
    "\<forall>(k', ok)\<in>set xs. ok \<longrightarrow> (\<forall>a\<in>set assets. matchesPlatform a sys \<longrightarrow> \<not> matchesVariant a k')"
    "find (\<lambda>a. matchesPlatform a sys \<and> matchesVariant a k) assets = Some a"
  shows "selectSDAsset [] assets sys = Some a"
proof -
  let ?cs = "filter (\<lambda>a. matchesPlatform a sys) assets"
  have "find (\<lambda>a. matchesVariant a k) ?cs = Some a" using assms(5) by (simp add: find_filter)
  moreover from this have "?cs \<noteq> []" by (auto simp: find_Some_iff)
  moreover have "\<forall>(k', ok)\<in>set xs. ok \<longrightarrow> (\<forall>a\<in>set ?cs. \<not> matchesVariant a k')" using assms(4) by fastforce
  ultimately show ?thesis
    using pick_variant_first [of xs ?cs k a ys] assms(1-3)
    by (auto simp: selectSDAsset_def Let_def split: list.split)
qed

definition toy_windows :: system_info where
  "toy_windows = \<lparr>si_os = ''windows'', si_arch = ''amd64'', si_cuda = False, si_avx = True, si_avx2 = True, si_avx512 = False\<rparr>"

theorem best_variant_selected_witness:
  "selectSDAsset [] [''sd-win-avx-x64.zip'', ''sd-win-avx2-x64.zip''] toy_windows = Some ''sd-win-avx2-x64.zip''"
proof -
  have 1: "si_os toy_windows = ''windows''" "si_arch toy_windows = ''amd64''" by (simp_all add: toy_windows_def)
  have 2: "sd_variants toy_windows = [(''cuda12'', False), (''avx512'', False)] @ (''avx2'', True) # [(''avx'', True), (''noavx'', True)]"
    by (simp add: toy_windows_def sd_variants_def)
  have 3: "find (\<lambda>a. matchesPlatform a toy_windows \<and> matchesVariant a ''avx2'') [''sd-win-avx-x64.zip'', ''sd-win-avx2-x64.zip'']
    = Some ''sd-win-avx2-x64.zip''" by code_simp
  show ?thesis by (rule best_variant_selected [OF 1 2 _ 3]) simp
qed

text \<open>An installation of either project never stops because the chosen asset is not in the release: the
  selection only returns assets that are.
\<close>

theorem ensure_finds_its_asset:
  "fst (Ensure sha now get unzip untar sys latest (NewSDProject goos variant dest) D) \<noteq> Some (AssetMissing n)
   \<and> fst (Ensure sha now get unzip untar sys latest (NewLlamaProject goos variant dest) D) \<noteq> Some (AssetMissing n)"
  using sd.ensure_asset_found [of "NewSDProject goos variant dest" variant]
    llama.ensure_asset_found [of "NewLlamaProject goos variant dest" variant]
  by (simp add: NewSDProject_def NewLlamaProject_def)

text \<open>The keyword \<^verbatim>\<open>win\<close> is part of \<^verbatim>\<open>darwin\<close>: on Windows an asset for macOS is taken although the release
  has one for Windows.
\<close>

theorem darwin_asset_on_windows:
  "selectSDAsset [] [''sd-master-bin-Darwin-macOS-x86_64.zip'', ''sd-master-bin-win-cuda12-x64.zip''] toy_windows
    = Some ''sd-master-bin-Darwin-macOS-x86_64.zip''"
  by code_simp

end
