(* ===== verification/Recipe_Runtime.thy ===== *)
theory Recipe_Runtime
  imports Recipe_Parser RV_Data "HOL-Library.List_Lexorder" "HOL-Library.Char_ord"
begin

text \<open>
  The recipe runtime: \<^verbatim>\<open>pkg/recipe/runtime.go\<close>, the expansion of \<^verbatim>\<open>${path}\<close> references of
  \<^verbatim>\<open>expand.go\<close> and the hardware precondition of \<^verbatim>\<open>requires.go\<close>.

  Captured values are JSON values; an array length, an \<^verbatim>\<open>int64\<close> in the code, is a number, which prints
  the same. What lies outside the process (the in-process dispatcher, forked
  commands, the terminal, environment variables, and the JSON, float and duration formats) is a record of
  functions; those that can change over time get the list of events so far. The events are the
  effects in order. The trace and failure lines on standard error are not events.
\<close>

section \<open>The world and the errors\<close>

datatype event =
    EvEcho string | EvPrompt string | EvRead bool | EvSleep duration
  | EvDispatch "string list" | EvFork "string list" | EvPlan "string list"

type_synonym outcome = "string option \<times> string"

record world =
  w_dispatcher :: "(event list \<Rightarrow> string list \<Rightarrow> bool \<times> outcome) option"
  w_fork :: "event list \<Rightarrow> string list \<Rightarrow> outcome"
  w_is_tty :: bool
  w_read_password :: "event list \<Rightarrow> string + string"
  w_read_line :: "event list \<Rightarrow> string + string"
  w_parse_duration :: "string \<Rightarrow> duration option"
  w_unmarshal :: "string \<Rightarrow> json option"
  w_getenv :: "string \<Rightarrow> string"
  w_format_g :: "rat \<Rightarrow> string"
  w_format_v :: "rat \<Rightarrow> string"

record runtime =
  rt_KeepGoing :: bool
  rt_DryRun :: bool
  rt_Force :: bool
  rt_ForkOnly :: bool

datatype run_fault =
    Unterminated | EmptyPath | ExpectedIdent | EnvNeedsName | EnvContinuation string string
  | UnknownVar string | NullLength | NoLength | NotObject string | FieldMissing string
  | UnmatchedBracket | InvalidIndex string | NotArray | IndexRange int nat | UnexpectedChar char
  | EmptyStatement | RecipeBlocked string | MarketInstallBlocked
  | FuncMissing | FuncUnknown string | CannotCapture string | ReadIsFunction | SetRenamed
  | CommandFailed string | CaptureNotJSON string | ReadFailed string
  | VarArity nat | VarName string | VarEquals string | SleepArity nat | SleepInvalid string
  | MissingExpression | UnknownOperator string | ExprTokens nat | RequireFailed string
  | MarkerWithoutIf control

type_synonym memory = "(string, json) gomap"


section \<open>Expansion of references\<close>

definition splitFirstIdent :: "string \<Rightarrow> run_fault + string \<times> string" where
  "splitFirstIdent s =
     (case s of [] \<Rightarrow> Inl ExpectedIdent
      | c # cs \<Rightarrow> if ident_char True c
                  then Inr (c # takeWhile (ident_char False) cs, dropWhile (ident_char False) cs)
                  else Inl ExpectedIdent)"

definition json_length :: "json \<Rightarrow> run_fault + json" where
  "json_length v =
     (case v of JArr xs \<Rightarrow> Inr (JNum (of_nat (length xs))) | JStr s \<Rightarrow> Inr (JNum (of_nat (length s)))
      | JNull \<Rightarrow> Inl NullLength | _ \<Rightarrow> Inl NoLength)"

definition json_field :: "string \<Rightarrow> json \<Rightarrow> run_fault + json" where
  "json_field name v =
     (case v of
        JObj obj \<Rightarrow> (case mget obj name of None \<Rightarrow> Inl (FieldMissing name) | Some u \<Rightarrow> Inr u)
      | _ \<Rightarrow> Inl (NotObject name))"

definition json_index :: "int \<Rightarrow> json \<Rightarrow> run_fault + json" where
  "json_index i v =
     (case v of
        JArr xs \<Rightarrow> if i < 0 \<or> i \<ge> int (length xs) then Inl (IndexRange i (length xs)) else Inr (xs ! nat i)
      | _ \<Rightarrow> Inl NotArray)"

lemma splitFirstIdent_shorter: "splitFirstIdent s = Inr (name, rest) \<Longrightarrow> length rest < length s"
  using length_dropWhile_le [of "ident_char False"]
  by (auto simp: splitFirstIdent_def less_Suc_eq_le split: list.splits if_splits)

text \<open>The loop over the \<^verbatim>\<open>.field\<close> and \<^verbatim>\<open>[index]\<close> segments.\<close>

function walkPath :: "json \<Rightarrow> string \<Rightarrow> run_fault + json" where
  "walkPath v [] = Inr v"
| "walkPath v (c # cs) =
     (if c = CHR ''.'' then
        and_then (splitFirstIdent cs) (\<lambda>seg.
          and_then (if fst seg = ''length'' then json_length v else json_field (fst seg) v) (\<lambda>u. walkPath u (snd seg)))
      else if c = CHR ''['' then
        (case index_byte cs CHR '']'' of
           None \<Rightarrow> Inl UnmatchedBracket
         | Some k \<Rightarrow>
           let idxStr = trim_space (take k cs) in
           (case parse_int idxStr of
              None \<Rightarrow> Inl (InvalidIndex idxStr)
            | Some i \<Rightarrow> and_then (json_index i v) (\<lambda>u. walkPath u (drop (Suc k) cs))))
      else Inl (UnexpectedChar c))"
  by pat_completeness auto

termination
proof (relation "measure (\<lambda>(v, s). length s)", goal_cases)
  case (2 v c cs seg u)
  then show ?case using splitFirstIdent_shorter [of cs "fst seg" "snd seg"] by simp
qed auto

definition evalPath :: "world \<Rightarrow> memory \<Rightarrow> string \<Rightarrow> run_fault + json" where
  "evalPath w mem path0 =
     (let path = trim_space path0 in
      if path = [] then Inl EmptyPath
      else and_then (splitFirstIdent path) (\<lambda>(root, rest).
        if root = ''env'' then
          (if \<not> has_prefix rest ''.'' then Inl EnvNeedsName
           else and_then (splitFirstIdent (drop 1 rest)) (\<lambda>(name, next).
             if next \<noteq> [] then Inl (EnvContinuation name next) else Inr (JStr (w_getenv w name))))
        else
          (case mget mem root of None \<Rightarrow> Inl (UnknownVar root) | Some v \<Rightarrow> walkPath v rest)))"

text \<open>\<^verbatim>\<open>fmt.Sprintf("%v")\<close> of the values that \<^verbatim>\<open>json.Unmarshal\<close> gives; map keys are sorted.\<close>

primrec sprint_v :: "world \<Rightarrow> json \<Rightarrow> string" where
  "sprint_v w JNull = ''<nil>''"
| "sprint_v w (JBool b) = (if b then ''true'' else ''false'')"
| "sprint_v w (JNum r) = w_format_v w r"
| "sprint_v w (JStr s) = s"
| "sprint_v w (JArr xs) = ''['' @ join '' '' (map (sprint_v w) xs) @ '']''"
| "sprint_v w (JObj kvs) = ''map['' @ join '' '' (map (\<lambda>(k, s). k @ '':'' @ s)
     (sort_key fst (map (map_prod id (sprint_v w)) kvs))) @ '']''"

definition stringify :: "world \<Rightarrow> json \<Rightarrow> string" where
  "stringify w v =
     (case v of
        JNull \<Rightarrow> []
      | JStr s \<Rightarrow> s
      | JBool b \<Rightarrow> if b then ''true'' else ''false''
      | JNum r \<Rightarrow> if r = of_int (floor r) \<and> int64_ok (floor r) then format_int (floor r) else w_format_g w r
      | _ \<Rightarrow> sprint_v w v)"

function expandToken :: "world \<Rightarrow> memory \<Rightarrow> string \<Rightarrow> run_fault + string" where
  "expandToken w mem [] = Inr []"
| "expandToken w mem (c # cs) =
     (if c = CHR ''$'' \<and> has_prefix cs ''{'' then
        (case index_byte (drop 1 cs) CHR ''}'' of
           None \<Rightarrow> Inl Unterminated
         | Some e \<Rightarrow>
           and_then (evalPath w mem (take e (drop 1 cs))) (\<lambda>v.
           and_then (expandToken w mem (drop (e + 2) cs)) (\<lambda>s. Inr (stringify w v @ s))))
      else and_then (expandToken w mem cs) (\<lambda>s. Inr (c # s)))"
  by pat_completeness auto

termination by (relation "measure (\<lambda>(_, _, s). length s)") auto

fun expandArgv :: "world \<Rightarrow> memory \<Rightarrow> string list \<Rightarrow> run_fault + string list" where
  "expandArgv w mem [] = Inr []"
| "expandArgv w mem (t # ts) =
     and_then (expandToken w mem t) (\<lambda>v. and_then (expandArgv w mem ts) (\<lambda>vs. Inr (v # vs)))"


section \<open>Conditions and assertions\<close>

definition isTruthy :: "string \<Rightarrow> bool" where
  "isTruthy s \<longleftrightarrow> to_lower (trim_space s) \<notin> {[], ''false'', ''0'', ''no'', ''off'', ''null'', ''nil''}"

definition evalAssertExpr :: "string list \<Rightarrow> run_fault + bool" where
  "evalAssertExpr expr =
     (case expr of
        [] \<Rightarrow> Inl MissingExpression
      | [a] \<Rightarrow> Inr (isTruthy a)
      | [a, op, b] \<Rightarrow> if op = ''=='' then Inr (a = b) else if op = ''!='' then Inr (a \<noteq> b)
                      else Inl (UnknownOperator op)
      | _ \<Rightarrow> Inl (ExprTokens (length expr)))"

text \<open>The loop over the tokens; \<open>before\<close> are those already passed.\<close>

fun split_message :: "string list \<Rightarrow> string list \<Rightarrow> string list \<times> string" where
  "split_message before [] = (before, [])"
| "split_message before (t # ts) =
     (if t = '','' then ((if before = [] then [[]] else before), join '' '' ts)
      else if has_suffix t '','' then (before @ [trim_suffix t '',''], join '' '' ts)
      else split_message (before @ [t]) ts)"

definition splitRequireMessage :: "string list \<Rightarrow> string list \<times> string" where
  "splitRequireMessage tokens = split_message [] tokens"

definition execRequire :: "string list \<Rightarrow> run_fault option" where
  "execRequire argv =
     (let kw = hd argv; (expr, msg) = splitRequireMessage (tl argv) in
      case evalAssertExpr expr of
        Inl e \<Rightarrow> Some e
      | Inr True \<Rightarrow> None
      | Inr False \<Rightarrow> Some (RequireFailed (if msg = [] then kw @ '' failed: '' @ join '' '' expr else msg)))"

definition evalCond :: "world \<Rightarrow> memory \<Rightarrow> statement \<Rightarrow> run_fault + bool" where
  "evalCond w mem st = and_then (expandArgv w mem (stm_cond st)) evalAssertExpr"


section \<open>The branch stack\<close>

record condFrame =
  enclosingActive :: bool
  anyMatched :: bool
  branchActive :: bool

text \<open>The innermost frame is the head of the list.\<close>

definition condActive :: "condFrame list \<Rightarrow> bool" where
  "condActive stack = (case stack of [] \<Rightarrow> True | f # _ \<Rightarrow> branchActive f)"

definition applyControl ::
  "world \<Rightarrow> memory \<Rightarrow> statement \<Rightarrow> condFrame list \<Rightarrow> condFrame list \<times> run_fault option" where
  "applyControl w mem st stack =
     (case stm_control st of
        CIf \<Rightarrow>
          let enclosing = condActive stack in
          (case (if enclosing then evalCond w mem st else Inr False) of
             Inl e \<Rightarrow> (stack, Some e)
           | Inr matched \<Rightarrow>
               (\<lparr>enclosingActive = enclosing, anyMatched = matched, branchActive = matched\<rparr> # stack, None))
      | CElseIf \<Rightarrow>
          (case stack of
             [] \<Rightarrow> (stack, Some (MarkerWithoutIf CElseIf))
           | f # fs \<Rightarrow>
             let f = f\<lparr>branchActive := False\<rparr> in
             if enclosingActive f \<and> \<not> anyMatched f then
               (case evalCond w mem st of
                  Inl e \<Rightarrow> (f # fs, Some e)
                | Inr ok \<Rightarrow> ((if ok then f\<lparr>branchActive := True, anyMatched := True\<rparr> else f) # fs, None))
             else (f # fs, None))
      | CElse \<Rightarrow>
          (case stack of
             [] \<Rightarrow> (stack, Some (MarkerWithoutIf CElse))
           | f # fs \<Rightarrow>
             let f = f\<lparr>branchActive := enclosingActive f \<and> \<not> anyMatched f\<rparr> in
             ((if branchActive f then f\<lparr>anyMatched := True\<rparr> else f) # fs, None))
      | CEnd \<Rightarrow> (case stack of [] \<Rightarrow> (stack, Some (MarkerWithoutIf CEnd)) | _ # fs \<Rightarrow> (fs, None))
      | Normal \<Rightarrow> (stack, None))"


section \<open>Statements\<close>

record rt_state =
  rs_memory :: memory
  rs_events :: "event list"

definition emits :: "event \<Rightarrow> rt_state \<Rightarrow> rt_state" where
  "emits ev s = s\<lparr>rs_events := rs_events s @ [ev]\<rparr>"

definition setVar :: "string \<Rightarrow> json \<Rightarrow> rt_state \<Rightarrow> rt_state" where
  "setVar k v s = s\<lparr>rs_memory := mput k v (rs_memory s)\<rparr>"

definition readStdinLine :: "world \<Rightarrow> bool \<Rightarrow> rt_state \<Rightarrow> string + string" where
  "readStdinLine w secret s =
     (if secret \<and> w_is_tty w then w_read_password w (rs_events s)
      else and_then (w_read_line w (rs_events s)) (\<lambda>line. Inr (trim_right (\<lambda>c. c = CHR 0x0D \<or> c = CHR 0x0A) line)))"

definition execRead :: "world \<Rightarrow> statement \<Rightarrow> string list \<Rightarrow> rt_state \<Rightarrow> rt_state \<times> run_fault option" where
  "execRead w st argv s =
     (let secret = (length argv > 1 \<and> argv ! 1 = ''-secret'');
          prompt = join '' '' (drop (if secret then 2 else 1) argv);
          s = (if prompt \<noteq> [] then emits (EvPrompt prompt) s else s);
          s' = emits (EvRead secret) s
      in case readStdinLine w secret s of
           Inl e \<Rightarrow> (s', Some (ReadFailed e))
         | Inr line \<Rightarrow> ((if stm_capture st \<noteq> [] then setVar (stm_capture st) (JStr line) s' else s'), None))"

definition execVar :: "string list \<Rightarrow> rt_state \<Rightarrow> rt_state \<times> run_fault option" where
  "execVar argv s =
     (if length argv < 4 then (s, Some (VarArity (length argv - 1)))
      else if \<not> isVarName (argv ! 1) then (s, Some (VarName (argv ! 1)))
      else if argv ! 2 \<noteq> ''='' then (s, Some (VarEquals (argv ! 2)))
      else (setVar (argv ! 1) (JStr (join '' '' (drop 3 argv))) s, None))"

definition execEcho :: "string list \<Rightarrow> rt_state \<Rightarrow> rt_state \<times> run_fault option" where
  "execEcho argv s = (emits (EvEcho (join '' '' (drop 1 argv) @ [CHR 0x0A])) s, None)"

definition execSleep :: "world \<Rightarrow> string list \<Rightarrow> rt_state \<Rightarrow> rt_state \<times> run_fault option" where
  "execSleep w argv s =
     (if length argv \<noteq> 2 then (s, Some (SleepArity (length argv - 1)))
      else (case w_parse_duration w (argv ! 1) of
              None \<Rightarrow> (s, Some (SleepInvalid (argv ! 1)))
            | Some d \<Rightarrow> (emits (EvSleep d) s, None)))"

text \<open>
  Running a command: in the process when the dispatcher is set, not disabled and handles the
  command, else as a forked process.
\<close>

definition useInProcess :: "world \<Rightarrow> runtime \<Rightarrow> bool" where
  "useInProcess w rt \<longleftrightarrow> w_dispatcher w \<noteq> None \<and> \<not> rt_ForkOnly rt"

definition run_command :: "world \<Rightarrow> runtime \<Rightarrow> string list \<Rightarrow> rt_state \<Rightarrow> rt_state \<times> outcome" where
  "run_command w rt argv s =
     (case w_dispatcher w of
        Some d \<Rightarrow>
          (let (handled, out) = d (rs_events s) argv in
           if useInProcess w rt \<and> handled then (emits (EvDispatch argv) s, out)
           else (emits (EvFork argv) s, w_fork w (rs_events s) argv))
      | None \<Rightarrow> (emits (EvFork argv) s, w_fork w (rs_events s) argv))"

definition storeCapture :: "world \<Rightarrow> statement \<Rightarrow> string \<Rightarrow> rt_state \<Rightarrow> rt_state \<times> run_fault option" where
  "storeCapture w st raw s =
     (let trimmed = trim_space raw in
      if trimmed = [] then (setVar (stm_capture st) JNull s, None)
      else (case w_unmarshal w trimmed of
              None \<Rightarrow> (s, Some (CaptureNotJSON (stm_capture st)))
            | Some v \<Rightarrow> (setVar (stm_capture st) v s, None)))"

definition execCapture ::
  "world \<Rightarrow> runtime \<Rightarrow> statement \<Rightarrow> string list \<Rightarrow> rt_state \<Rightarrow> rt_state \<times> run_fault option" where
  "execCapture w rt st argv s =
     (let (s', err, stdout) = run_command w rt argv s in
      case err of Some e \<Rightarrow> (s', Some (CommandFailed e)) | None \<Rightarrow> storeCapture w st stdout s')"

definition execStatement ::
  "world \<Rightarrow> runtime \<Rightarrow> statement \<Rightarrow> string list \<Rightarrow> rt_state \<Rightarrow> rt_state \<times> run_fault option" where
  "execStatement w rt st argv s =
     (case argv of
        [] \<Rightarrow> (s, Some EmptyStatement)
      | a # args \<Rightarrow>
        if a = ''recipe'' then (s, Some (RecipeBlocked (case args of [] \<Rightarrow> [] | v # _ \<Rightarrow> v)))
        else if a = ''market'' \<and> args \<noteq> [] \<and> hd args = ''install'' then (s, Some MarketInstallBlocked)
        else if a = ''func'' then
          (case args of
             [] \<Rightarrow> (s, Some FuncMissing)
           | f # _ \<Rightarrow> if f = ''read'' then execRead w st args s else (s, Some (FuncUnknown f)))
        else if a \<in> {''echo'', ''sleep'', ''var'', ''require'', ''assert''} then
          (if stm_capture st \<noteq> [] then (s, Some (CannotCapture a))
           else if a = ''echo'' then execEcho argv s
           else if a = ''sleep'' then execSleep w argv s
           else if a = ''var'' then execVar argv s
           else (s, execRequire argv))
        else if a = ''read'' then (s, Some ReadIsFunction)
        else if a = ''set'' then (s, Some SetRenamed)
        else if stm_capture st \<noteq> [] then execCapture w rt st argv s
        else
          let (s', err, _) = run_command w rt argv s in (s', map_option CommandFailed err))"


section \<open>The run\<close>

definition argvHasForce :: "string list \<Rightarrow> bool" where
  "argvHasForce argv \<longleftrightarrow> ''-force'' \<in> set argv \<or> ''--force'' \<in> set argv"

definition forcePullSafe :: "string \<Rightarrow> bool" where
  "forcePullSafe ns \<longleftrightarrow> ns \<in> {''app'', ''skill'', ''model''}"

definition add_force :: "runtime \<Rightarrow> string list \<Rightarrow> string list" where
  "add_force rt argv =
     (if rt_Force rt \<and> length argv \<ge> 2 \<and> argv ! 1 = ''pull'' \<and> forcePullSafe (argv ! 0) \<and> \<not> argvHasForce argv
      then argv @ [''-force''] else argv)"

type_synonym failure = "string \<times> nat \<times> run_fault"

definition stmtSrc :: "statement \<Rightarrow> recipe \<Rightarrow> string" where
  "stmtSrc st rc = (if stm_src st \<noteq> [] then stm_src st else rc_path rc)"

text \<open>One active command: expansion, the force flag, execution.\<close>

definition run_normal ::
  "world \<Rightarrow> runtime \<Rightarrow> statement \<Rightarrow> rt_state \<Rightarrow> rt_state \<times> run_fault option" where
  "run_normal w rt st s =
     (case expandArgv w (rs_memory s) (stm_argv st) of
        Inl e \<Rightarrow> (s, Some e)
      | Inr argv \<Rightarrow> execStatement w rt st (add_force rt argv) s)"

text \<open>
  The loop over the statements. The result is the final state with the failures that were kept going
  over, and the failure that stopped the run, if any.
\<close>

fun run_loop ::
  "world \<Rightarrow> runtime \<Rightarrow> recipe \<Rightarrow> statement list \<Rightarrow> rt_state \<times> condFrame list \<times> failure list \<Rightarrow>
     rt_state \<times> failure list \<times> failure option" where
  "run_loop w rt rc [] (s, stack, fs) = (s, fs, None)"
| "run_loop w rt rc (st # sts) (s, stack, fs) =
     (if stm_control st \<noteq> Normal then
        (case applyControl w (rs_memory s) st stack of
           (stack', None) \<Rightarrow> run_loop w rt rc sts (s, stack', fs)
         | (stack', Some e) \<Rightarrow>
           let fl = (stm_src st, stm_line st, e) in
           if \<not> rt_KeepGoing rt then (s, fs, Some fl) else run_loop w rt rc sts (s, stack', fs @ [fl]))
      else if \<not> condActive stack then run_loop w rt rc sts (s, stack, fs)
      else
        (case run_normal w rt st s of
           (s', None) \<Rightarrow> run_loop w rt rc sts (s', stack, fs)
         | (s', Some e) \<Rightarrow>
           let fl = (stmtSrc st rc, stm_line st, e) in
           if \<not> rt_KeepGoing rt then (s', fs, Some fl) else run_loop w rt rc sts (s', stack, fs @ [fl])))"

definition controlRepr :: "statement \<Rightarrow> string" where
  "controlRepr st =
     (case stm_control st of
        CIf \<Rightarrow> ''IF '' @ join '' '' (stm_cond st) @ '' BEGIN''
      | CElseIf \<Rightarrow> ''ELSE IF '' @ join '' '' (stm_cond st) @ '' BEGIN''
      | CElse \<Rightarrow> ''ELSE BEGIN'' | CEnd \<Rightarrow> ''END'' | Normal \<Rightarrow> [])"

definition plan_line :: "statement \<Rightarrow> string" where
  "plan_line st =
     (if stm_control st \<noteq> Normal then controlRepr st
      else (if stm_capture st \<noteq> [] then stm_capture st @ '' := '' else []) @ join '' '' (stm_argv st))"

datatype run_error = StoppedAt failure | SomeFailed "failure list"

definition Run :: "world \<Rightarrow> runtime \<Rightarrow> recipe \<Rightarrow> rt_state \<Rightarrow> rt_state \<times> run_error option" where
  "Run w rt rc s =
     (if rt_DryRun rt then (emits (EvPlan (map plan_line (rc_statements rc))) s, None)
      else (case run_loop w rt rc (rc_statements rc) (s, [], []) of
              (s', _, Some fl) \<Rightarrow> (s', Some (StoppedAt fl))
            | (s', fs, None) \<Rightarrow> (s', if fs = [] then None else Some (SomeFailed fs))))"


section \<open>The hardware precondition\<close>

datatype unmet = VramUnmet float64 rat | GpuUnmet "string list" string

definition gpuNames :: "hardware \<Rightarrow> string" where
  "gpuNames hw = (if gpu_list hw = [] then ''none'' else join '', '' (map gpu_name (gpu_list hw)))"

text \<open>Comparisons of a requirement with a finite amount; every comparison with NaN is false.\<close>

definition float_pos :: "float64 \<Rightarrow> bool" where
  "float_pos x = (case x of Finite r \<Rightarrow> r > 0 | PosInf \<Rightarrow> True | _ \<Rightarrow> False)"

definition below_float :: "rat \<Rightarrow> float64 \<Rightarrow> bool" where
  "below_float r x = (case x of Finite q \<Rightarrow> r < q | PosInf \<Rightarrow> True | _ \<Rightarrow> False)"

definition best_vram :: "gpu_spec list \<Rightarrow> rat" where
  "best_vram gs = foldl (\<lambda>have g. if vram_total_gb g > have then vram_total_gb g else have) 0 gs"

definition CheckAgainst :: "requires option \<Rightarrow> hardware \<Rightarrow> unmet list" where
  "CheckAgainst r hw =
     (case r of None \<Rightarrow> []
      | Some r \<Rightarrow>
        (if float_pos (req_vram r) \<and> below_float (best_vram (gpu_list hw)) (req_vram r)
         then [VramUnmet (req_vram r) (best_vram (gpu_list hw))] else [])
        @ (if req_gpu r \<noteq> []
              \<and> \<not> list_ex (\<lambda>g. list_ex (\<lambda>p. contains (to_lower (gpu_name g)) (to_lower p)) (req_gpu r)) (gpu_list hw)
           then [GpuUnmet (req_gpu r) (gpuNames hw)] else []))"

end
