(* ===== verification/Recipe_Semantics.thy ===== *)
theory Recipe_Semantics
  imports Recipe_Runtime
begin

text \<open>
  What the recipe runtime promises: on every parsed recipe the branch stack implements nested
  conditionals, the commands that recipes must not run are never run, expansion is one pass that
  keeps the words of a command apart, and the hardware precondition is checked exactly. Two theorems
  show where the code departs from its intent.
\<close>

section \<open>Nested conditionals\<close>

text \<open>A program is a sequence of commands and conditionals; the clauses of a conditional end with its END.\<close>

datatype prog = Skip | Cmd statement prog | Cond statement prog clauses prog
  and clauses = Fi statement | Else statement prog statement | ElseIf statement prog clauses

primrec flatten :: "prog \<Rightarrow> statement list" and flat_clauses :: "clauses \<Rightarrow> statement list" where
  "flatten Skip = []"
| "flatten (Cmd st p) = st # flatten p"
| "flatten (Cond h p c q) = h # flatten p @ flat_clauses c @ flatten q"
| "flat_clauses (Fi e) = [e]"
| "flat_clauses (Else h p e) = h # flatten p @ [e]"
| "flat_clauses (ElseIf h p c) = h # flatten p @ flat_clauses c"

primrec wf_prog :: "prog \<Rightarrow> bool" and wf_clauses :: "clauses \<Rightarrow> bool" where
  "wf_prog Skip = True"
| "wf_prog (Cmd st p) = (stm_control st = Normal \<and> wf_prog p)"
| "wf_prog (Cond h p c q) = (stm_control h = CIf \<and> wf_prog p \<and> wf_clauses c \<and> wf_prog q)"
| "wf_clauses (Fi e) = (stm_control e = CEnd)"
| "wf_clauses (Else h p e) = (stm_control h = CElse \<and> wf_prog p \<and> stm_control e = CEnd)"
| "wf_clauses (ElseIf h p c) = (stm_control h = CElseIf \<and> wf_prog p \<and> wf_clauses c)"

text \<open>The meaning of a program: the first clause whose condition holds is run; an error stops the run.\<close>

definition exec_cmd :: "world \<Rightarrow> runtime \<Rightarrow> recipe \<Rightarrow> statement \<Rightarrow> rt_state \<Rightarrow> rt_state \<times> failure + rt_state" where
  "exec_cmd w rt rc st s =
     (case run_normal w rt st s of (s', None) \<Rightarrow> Inr s' | (s', Some e) \<Rightarrow> Inl (s', stmtSrc st rc, stm_line st, e))"

definition branch ::
  "world \<Rightarrow> statement \<Rightarrow> rt_state \<Rightarrow> rt_state \<times> failure + rt_state \<Rightarrow> rt_state \<times> failure + rt_state \<Rightarrow> rt_state \<times> failure + rt_state" where
  "branch w h s yes no =
     (case evalCond w (rs_memory s) h of
        Inl e \<Rightarrow> Inl (s, stm_src h, stm_line h, e) | Inr b \<Rightarrow> if b then yes else no)"

primrec exec_prog :: "world \<Rightarrow> runtime \<Rightarrow> recipe \<Rightarrow> prog \<Rightarrow> rt_state \<Rightarrow> rt_state \<times> failure + rt_state"
  and exec_clauses :: "world \<Rightarrow> runtime \<Rightarrow> recipe \<Rightarrow> clauses \<Rightarrow> rt_state \<Rightarrow> rt_state \<times> failure + rt_state" where
  "exec_prog w rt rc Skip = (\<lambda>s. Inr s)"
| "exec_prog w rt rc (Cmd st p) = (\<lambda>s. and_then (exec_cmd w rt rc st s) (exec_prog w rt rc p))"
| "exec_prog w rt rc (Cond h p c q) = (\<lambda>s.
     and_then (branch w h s (exec_prog w rt rc p s) (exec_clauses w rt rc c s)) (exec_prog w rt rc q))"
| "exec_clauses w rt rc (Fi e) = (\<lambda>s. Inr s)"
| "exec_clauses w rt rc (Else h p e) = (\<lambda>s. exec_prog w rt rc p s)"
| "exec_clauses w rt rc (ElseIf h p c) = (\<lambda>s. branch w h s (exec_prog w rt rc p s) (exec_clauses w rt rc c s))"

text \<open>Balanced marker lists are exactly the flattened programs.\<close>

text \<open>What follows an open block: its body, the rest of its clauses and what comes after \<^verbatim>\<open>END\<close>; after an \<^verbatim>\<open>ELSE\<close> only the end can follow.\<close>

definition block_split :: "string \<Rightarrow> (nat \<times> bool) list \<Rightarrow> (nat \<times> bool) list \<Rightarrow> bool \<Rightarrow> statement list \<Rightarrow> bool" where
  "block_split path stk s' sawElse xs \<longleftrightarrow>
     (\<exists>p c rest. xs = flatten p @ flat_clauses c @ rest \<and> wf_prog p \<and> wf_clauses c
        \<and> (sawElse \<longrightarrow> (\<exists>e. c = Fi e)) \<and> check_markers path rest stk = Inr s')"

lemma block_splitI:
  "xs = flatten p @ flat_clauses c @ rest \<Longrightarrow> wf_prog p \<Longrightarrow> wf_clauses c \<Longrightarrow> (sawElse \<longrightarrow> (\<exists>e. c = Fi e)) \<Longrightarrow>
   check_markers path rest stk = Inr s' \<Longrightarrow> block_split path stk s' sawElse xs"
  unfolding block_split_def by blast

lemma block_splitE:
  assumes "block_split path stk s' sawElse xs"
  obtains p c rest where "xs = flatten p @ flat_clauses c @ rest" "wf_prog p" "wf_clauses c" "sawElse \<longrightarrow> (\<exists>e. c = Fi e)"
    "check_markers path rest stk = Inr s'"
  using assms unfolding block_split_def by blast

lemma block_split_cmd: "stm_control st = Normal \<Longrightarrow> block_split path stk s' e ys \<Longrightarrow> block_split path stk s' e (st # ys)"
  by (elim block_splitE, rule block_splitI [where p = "Cmd st p" for p]) auto

lemma block_split_cond:
  "stm_control st = CIf \<Longrightarrow> ys = flatten p @ flat_clauses c @ r \<Longrightarrow> wf_prog p \<Longrightarrow> wf_clauses c \<Longrightarrow> block_split path stk s' e r \<Longrightarrow>
   block_split path stk s' e (st # ys)"
proof (elim block_splitE)
  fix q d rest
  assume "stm_control st = CIf" "ys = flatten p @ flat_clauses c @ r" "wf_prog p" "wf_clauses c" "r = flatten q @ flat_clauses d @ rest"
    "wf_prog q" "wf_clauses d" "e \<longrightarrow> (\<exists>x. d = Fi x)" "check_markers path rest stk = Inr s'"
  then show "block_split path stk s' e (st # ys)" by (intro block_splitI [where p = "Cond st p c q" and c = d]) auto
qed

lemma block_split_elseif: "stm_control st = CElseIf \<Longrightarrow> block_split path stk s' False ys \<Longrightarrow> block_split path stk s' False (st # ys)"
  by (elim block_splitE, rule block_splitI [where p = Skip and c = "ElseIf st p c" for p c]) auto

lemma block_split_else: "stm_control st = CElse \<Longrightarrow> block_split path stk s' True ys \<Longrightarrow> block_split path stk s' False (st # ys)"
  by (elim block_splitE, elim impE exE, simp, rule block_splitI [where p = Skip and c = "Else st p e" for p e]) auto

lemma balanced_split:
  "check_markers path xs (fr # stk) = Inr s' \<Longrightarrow> length s' \<le> length stk \<Longrightarrow> block_split path stk s' (snd fr) xs"
proof (induction "length xs" arbitrary: xs fr stk rule: less_induct)
  case less
  obtain l e where fr: "fr = (l, e)" by (cases fr)
  show ?case
  proof (cases xs)
    case (Cons st ys)
    then have short: "length ys < length xs" by simp
    note ih = less.hyps [OF short _ less.prems(2)]
    show ?thesis
    proof (cases "stm_control st")
      case Normal
      with less.prems(1) ih [of fr] show ?thesis by (simp add: Cons block_split_cmd)
    next
      case CIf
      with less.prems Cons have "block_split path (fr # stk) s' False ys"
        using less.hyps [OF short, of "(stm_line st, False)" "fr # stk"] by simp
      then obtain p c r where 1: "ys = flatten p @ flat_clauses c @ r" "wf_prog p" "wf_clauses c" "check_markers path r (fr # stk) = Inr s'"
        by (rule block_splitE)
      with less.hyps [OF _ 1(4) less.prems(2)] CIf show ?thesis unfolding Cons by (intro block_split_cond [OF CIf 1(1-3)]) (simp add: Cons)
    next
      case CEnd
      with less.prems(1) fr show ?thesis by (intro block_splitI [where p = Skip and c = "Fi st"]) (simp_all add: Cons)
    next
      case CElseIf
      with less.prems(1) fr ih [of "(l, False)"] show ?thesis by (auto simp: Cons block_split_elseif split: if_splits)
    next
      case CElse
      with less.prems(1) fr ih [of "(l, True)"] show ?thesis by (auto simp: Cons block_split_else split: if_splits)
    qed
  qed (use less.prems in auto)
qed

lemma balanced_prog:
  "check_markers path xs [] = Inr [] \<Longrightarrow> \<exists>p. xs = flatten p \<and> wf_prog p"
proof (induction "length xs" arbitrary: xs rule: less_induct)
  case less
  show ?case
  proof (cases xs)
    case Nil
    then show ?thesis by (intro exI [of _ Skip]) simp
  next
    case (Cons st ys)
    show ?thesis
    proof (cases "stm_control st")
      case Normal
      with less.prems Cons have "check_markers path ys [] = Inr []" by simp
      from less.hyps [OF _ this] Cons obtain p where "ys = flatten p" "wf_prog p" by auto
      with Cons Normal show ?thesis by (intro exI [of _ "Cmd st p"]) simp
    next
      case CIf
      with less.prems Cons have "check_markers path ys ((stm_line st, False) # []) = Inr []" by simp
      from balanced_split [OF this] have "block_split path [] [] False ys" by simp
      then obtain p c rest where 1: "ys = flatten p @ flat_clauses c @ rest" "wf_prog p" "wf_clauses c" "check_markers path rest [] = Inr []"
        by (rule block_splitE)
      with less.hyps [OF _ 1(4)] Cons obtain q where "rest = flatten q" "wf_prog q" by auto
      with Cons CIf 1 show ?thesis by (intro exI [of _ "Cond st p c q"]) simp
    qed (use less.prems Cons in simp_all)
  qed
qed


section \<open>The branch stack implements nested conditionals\<close>

abbreviation stopped :: "rt_state \<times> failure + rt_state \<Rightarrow> failure list \<Rightarrow> (rt_state \<Rightarrow> rt_state \<times> failure list \<times> failure option) \<Rightarrow> rt_state \<times> failure list \<times> failure option" where
  "stopped r fs k \<equiv> (case r of Inl (s', fl) \<Rightarrow> (s', fs, Some fl) | Inr s' \<Rightarrow> k s')"

text \<open>Inside a branch that is not taken nothing happens.\<close>

lemma skip_inactive:
  shows "wf_prog p \<Longrightarrow> \<not> condActive stack \<Longrightarrow>
      run_loop w rt rc (flatten p @ rest) (s, stack, fs) = run_loop w rt rc rest (s, stack, fs)"
    and "wf_clauses c \<Longrightarrow> \<not> (enclosingActive f \<and> \<not> anyMatched f) \<Longrightarrow>
      run_loop w rt rc (flat_clauses c @ rest) (s, f # stack, fs) = run_loop w rt rc rest (s, stack, fs)"
proof (induction p and c arbitrary: stack rest and f stack rest)
  case (Cmd st p)
  then show ?case by simp
next
  case (Cond h p c q)
  let ?f = "\<lparr>enclosingActive = False, anyMatched = False, branchActive = False\<rparr>"
  have "run_loop w rt rc (flatten (Cond h p c q) @ rest) (s, stack, fs)
      = run_loop w rt rc (flatten p @ flat_clauses c @ flatten q @ rest) (s, ?f # stack, fs)"
    using Cond.prems by (simp add: applyControl_def)
  also have "\<dots> = run_loop w rt rc rest (s, stack, fs)"
    using Cond.prems Cond.IH(1) [of "?f # stack"] Cond.IH(2) [of ?f] Cond.IH(3) by (simp add: condActive_def)
  finally show ?case .
next
  case (Fi e)
  then show ?case by (simp add: applyControl_def)
next
  case (Else h p e)
  have "run_loop w rt rc (flat_clauses (Else h p e) @ rest) (s, f # stack, fs)
      = run_loop w rt rc (flatten p @ e # rest) (s, f\<lparr>branchActive := False\<rparr> # stack, fs)"
    using Else.prems by (auto simp: applyControl_def Let_def)
  also have "\<dots> = run_loop w rt rc rest (s, stack, fs)"
    using Else.prems Else.IH [of "f\<lparr>branchActive := False\<rparr> # stack"] by (simp add: condActive_def applyControl_def)
  finally show ?case .
next
  case (ElseIf h p c)
  have "run_loop w rt rc (flat_clauses (ElseIf h p c) @ rest) (s, f # stack, fs)
      = run_loop w rt rc (flatten p @ flat_clauses c @ rest) (s, f\<lparr>branchActive := False\<rparr> # stack, fs)"
    using ElseIf.prems by (auto simp: applyControl_def Let_def)
  also have "\<dots> = run_loop w rt rc rest (s, stack, fs)"
    using ElseIf.prems ElseIf.IH(1) [of "f\<lparr>branchActive := False\<rparr> # stack"]
      ElseIf.IH(2) [of "f\<lparr>branchActive := False\<rparr>"] by (simp add: condActive_def)
  finally show ?case .
qed simp

text \<open>A header in a taken context: its condition decides the branch, or stops the run.\<close>

lemma header_fails:
  assumes "\<not> rt_KeepGoing rt" "evalCond w (rs_memory s) h = Inl e"
  shows "stm_control h = CIf \<Longrightarrow> condActive stack \<Longrightarrow> run_loop w rt rc (h # rest) (s, stack, fs) = (s, fs, Some (stm_src h, stm_line h, e))"
    "stm_control h = CElseIf \<Longrightarrow> enclosingActive f \<Longrightarrow> \<not> anyMatched f \<Longrightarrow>
       run_loop w rt rc (h # rest) (s, f # stack, fs) = (s, fs, Some (stm_src h, stm_line h, e))"
  using assms by (simp_all add: applyControl_def)

lemma header_decides:
  assumes "evalCond w (rs_memory s) h = Inr b"
  shows "stm_control h = CIf \<Longrightarrow> condActive stack \<Longrightarrow> run_loop w rt rc (h # rest) (s, stack, fs) =
      run_loop w rt rc rest (s, \<lparr>enclosingActive = True, anyMatched = b, branchActive = b\<rparr> # stack, fs)"
    "stm_control h = CElseIf \<Longrightarrow> enclosingActive f \<Longrightarrow> \<not> anyMatched f \<Longrightarrow> run_loop w rt rc (h # rest) (s, f # stack, fs) =
      run_loop w rt rc rest (s, (if b then f\<lparr>branchActive := True, anyMatched := True\<rparr> else f\<lparr>branchActive := False\<rparr>) # stack, fs)"
  using assms by (simp_all add: applyControl_def Let_def)

text \<open>In a taken context the loop runs the program and goes on with what follows.\<close>

lemma run_active:
  assumes kg: "\<not> rt_KeepGoing rt"
  shows "wf_prog p \<Longrightarrow> condActive stack \<Longrightarrow>
      run_loop w rt rc (flatten p @ rest) (s, stack, fs) =
        stopped (exec_prog w rt rc p s) fs (\<lambda>s'. run_loop w rt rc rest (s', stack, fs))"
    and "wf_clauses c \<Longrightarrow> enclosingActive f \<Longrightarrow> \<not> anyMatched f \<Longrightarrow>
      run_loop w rt rc (flat_clauses c @ rest) (s, f # stack, fs) =
        stopped (exec_clauses w rt rc c s) fs (\<lambda>s'. run_loop w rt rc rest (s', stack, fs))"
proof (induction p and c arbitrary: stack rest s and f stack rest s)
  case (Cmd st p)
  then show ?case
    using kg by (cases "run_normal w rt st s"; cases "snd (run_normal w rt st s)") (auto simp: exec_cmd_def)
next
  case (Cond h p c q)
  show ?case
  proof (cases "evalCond w (rs_memory s) h")
    case (Inl e)
    with Cond.prems header_fails(1) [OF kg Inl] show ?thesis by (simp add: branch_def)
  next
    case (Inr b)
    let ?f = "\<lparr>enclosingActive = True, anyMatched = b, branchActive = b\<rparr>"
    show ?thesis using Cond.prems header_decides(1) [OF Inr] Cond.IH(1) [of "?f # stack"] Cond.IH(2) [of ?f] Cond.IH(3) Inr
      by (cases b) (simp_all add: condActive_def branch_def skip_inactive split: sum.split)
  qed
next
  case (Fi e)
  then show ?case by (simp add: applyControl_def)
next
  case (Else h p e)
  let ?f = "f\<lparr>branchActive := True, anyMatched := True\<rparr>"
  have "run_loop w rt rc (flat_clauses (Else h p e) @ rest) (s, f # stack, fs)
      = run_loop w rt rc (flatten p @ e # rest) (s, ?f # stack, fs)"
    using Else.prems by (simp add: applyControl_def Let_def)
  with Else.prems Else.IH [of "?f # stack"] show ?case
    by (simp add: condActive_def applyControl_def split: sum.split)
next
  case (ElseIf h p c)
  show ?case
  proof (cases "evalCond w (rs_memory s) h")
    case (Inl e)
    with ElseIf.prems header_fails(2) [OF kg Inl] show ?thesis by (simp add: branch_def)
  next
    case (Inr b)
    let ?g = "if b then f\<lparr>branchActive := True, anyMatched := True\<rparr> else f\<lparr>branchActive := False\<rparr>"
    show ?thesis using ElseIf.prems header_decides(2) [OF Inr] ElseIf.IH(1) [of "?g # stack"] ElseIf.IH(2) [of ?g] Inr
      by (cases b) (simp_all add: condActive_def branch_def skip_inactive split: sum.split)
  qed
qed simp

text \<open>C2. The statements of a recipe whose markers are balanced, as the parser ensures, are a
  program of nested conditionals, and running them (without keep-going) does exactly what the
  program says: the commands before it, then of every conditional in a taken context the first branch whose
  condition holds, or ELSE, or nothing; conditions of branches that are not considered are never
  evaluated, and the first error stops the run.\<close>

theorem run_implements_conditionals:
  assumes "validateControlFlow path (rc_statements rc) = None"
  shows "\<exists>p. wf_prog p \<and> rc_statements rc = flatten p
    \<and> (\<forall>w rt s. \<not> rt_KeepGoing rt \<and> \<not> rt_DryRun rt \<longrightarrow>
         Run w rt rc s = (case exec_prog w rt rc p s of
            Inr s' \<Rightarrow> (s', None) | Inl (s', fl) \<Rightarrow> (s', Some (StoppedAt fl))))"
proof -
  from assms balanced_prog obtain p where p: "rc_statements rc = flatten p" "wf_prog p"
    unfolding validate_iff by blast
  have "Run w rt rc s = (case exec_prog w rt rc p s of
      Inr s' \<Rightarrow> (s', None) | Inl (s', fl) \<Rightarrow> (s', Some (StoppedAt fl)))"
    if "\<not> rt_KeepGoing rt" "\<not> rt_DryRun rt" for w rt s
    using that run_active(1) [OF that(1) p(2), of "[]" w rc "[]" s "[]"]
    by (simp add: Run_def p(1) condActive_def split: sum.split)
  with p show ?thesis by blast
qed


definition toy_world :: world where
  "toy_world = \<lparr>w_dispatcher = Some (\<lambda>ev argv. (hd argv = ''app'', (None, []))), w_fork = (\<lambda>ev argv. (Some ''exit status 1'', [])),
     w_is_tty = False, w_read_password = (\<lambda>ev. Inr []), w_read_line = (\<lambda>ev. Inr ''yes''),
     w_parse_duration = (\<lambda>s. None), w_unmarshal = (\<lambda>s. None), w_getenv = (\<lambda>n. []),
     w_format_g = (\<lambda>r. []), w_format_v = (\<lambda>r. [])\<rparr>"

definition toy_cmd :: "string list \<Rightarrow> string \<Rightarrow> statement" where
  "toy_cmd argv capture = \<lparr>stm_line = 1, stm_argv = argv, stm_capture = capture, stm_src = ''t'', stm_control = Normal, stm_cond = []\<rparr>"

definition toy_recipe :: recipe where
  "toy_recipe = \<lparr>rc_path = ''t'', rc_min_version = ''0.1'', rc_meta = [], rc_requires = None,
     rc_statements = [toy_cmd [''func'', ''read''] ''ok'', marker ''t'' 2 CIf [''${ok}'', ''=='', ''yes''],
       toy_cmd [''app'', ''pull'', ''${ok}''] [], marker ''t'' 4 CElse [], toy_cmd [''echo'', ''${nope}''] [], marker ''t'' 5 CEnd []]\<rparr>"

definition toy_runtime :: "bool \<Rightarrow> runtime" where
  "toy_runtime kg = \<lparr>rt_KeepGoing = kg, rt_DryRun = False, rt_Force = True, rt_ForkOnly = False\<rparr>"

lemma toy_run:
  "Run toy_world (toy_runtime False) toy_recipe \<lparr>rs_memory = [], rs_events = []\<rparr> =
    (\<lparr>rs_memory = [(''ok'', JStr ''yes'')], rs_events = [EvRead False, EvDispatch [''app'', ''pull'', ''yes'', ''-force'']]\<rparr>, None)"
  by code_simp

theorem run_implements_conditionals_witness:
  "\<exists>p. wf_prog p \<and> rc_statements toy_recipe = flatten p
     \<and> exec_prog toy_world (toy_runtime False) toy_recipe p \<lparr>rs_memory = [], rs_events = []\<rparr>
       = Inr \<lparr>rs_memory = [(''ok'', JStr ''yes'')], rs_events = [EvRead False, EvDispatch [''app'', ''pull'', ''yes'', ''-force'']]\<rparr>"
proof -
  let ?s = "\<lparr>rs_memory = [], rs_events = []\<rparr> :: rt_state"
  have "validateControlFlow ''t'' (rc_statements toy_recipe) = None" by code_simp
  from run_implements_conditionals [OF this] obtain p where p: "wf_prog p" "rc_statements toy_recipe = flatten p"
    and r: "Run toy_world (toy_runtime False) toy_recipe ?s = (case exec_prog toy_world (toy_runtime False) toy_recipe p ?s of
            Inr s' \<Rightarrow> (s', None) | Inl (s', fl) \<Rightarrow> (s', Some (StoppedAt fl)))"
    by (auto simp: toy_runtime_def)
  from r have "exec_prog toy_world (toy_runtime False) toy_recipe p ?s
      = Inr \<lparr>rs_memory = [(''ok'', JStr ''yes'')], rs_events = [EvRead False, EvDispatch [''app'', ''pull'', ''yes'', ''-force'']]\<rparr>"
    unfolding toy_run by (auto split: sum.splits prod.splits)
  with p show ?thesis by blast
qed


section \<open>Commands that recipes must not run\<close>

definition builtin_names :: "string list" where
  "builtin_names = [''func'', ''echo'', ''sleep'', ''var'', ''require'', ''assert'', ''read'', ''set'']"

text \<open>A command line that may be handed to the dispatcher or to a new process.\<close>

definition permitted :: "string list \<Rightarrow> bool" where
  "permitted argv = (case argv of [] \<Rightarrow> False
     | a # args \<Rightarrow> a \<noteq> ''recipe'' \<and> a \<notin> set builtin_names \<and> \<not> (a = ''market'' \<and> args \<noteq> [] \<and> hd args = ''install''))"

definition safe_event :: "event \<Rightarrow> bool" where
  "safe_event ev = (case ev of EvDispatch argv \<Rightarrow> permitted argv | EvFork argv \<Rightarrow> permitted argv | _ \<Rightarrow> True)"

text \<open>One step adds only safe events.\<close>

definition extends :: "rt_state \<Rightarrow> rt_state \<Rightarrow> bool" where
  "extends s s' \<longleftrightarrow> (\<exists>evs. rs_events s' = rs_events s @ evs \<and> list_all safe_event evs)"

lemma extends_refl [simp]: "extends s s"
  by (simp add: extends_def)

lemma extends_trans: "extends s t \<Longrightarrow> extends t u \<Longrightarrow> extends s u"
  by (auto simp: extends_def)

lemma extends_emits [simp]: "safe_event ev \<Longrightarrow> extends s (emits ev s)"
  by (simp add: extends_def emits_def)

lemma extends_setVar [simp]: "extends s (setVar k v t) \<longleftrightarrow> extends s t"
  by (simp add: extends_def setVar_def)

lemma extends_run_command:
  "permitted argv \<Longrightarrow> extends s (fst (run_command w rt argv s))"
  by (auto simp: run_command_def safe_event_def split: option.splits prod.splits if_splits)

lemma extends_storeCapture: "extends s t \<Longrightarrow> extends s (fst (storeCapture w st raw t))"
  by (auto simp: storeCapture_def Let_def split: option.splits)

lemma extends_read_result:
  "extends s t \<Longrightarrow> extends s (fst (case r of Inl e \<Rightarrow> (t, f e) | Inr l \<Rightarrow> (if c then setVar k (g l) t else t, None)))"
  by (simp split: sum.split)

lemma extends_execRead: "extends s (fst (execRead w st argv s))"
proof -
  have "extends s (emits (EvRead b) (if c then emits (EvPrompt p) s else s))" for b c p
    using extends_trans [of s "emits (EvPrompt p) s"] by (simp add: safe_event_def)
  then show ?thesis unfolding execRead_def Let_def by (rule extends_read_result)
qed

lemma extends_builtin:
  assumes "a \<in> set builtin_names"
  shows "extends s (fst (execStatement w rt st (a # args) s))"
proof -
  from assms consider "a = ''func''" | "a = ''echo''" | "a = ''sleep''" | "a = ''var''" | "a = ''require''"
    | "a = ''assert''" | "a = ''read''" | "a = ''set''" unfolding builtin_names_def by force
  then show ?thesis
    by cases (simp_all add: execStatement_def execEcho_def execSleep_def execVar_def safe_event_def
        extends_execRead split: list.split option.split)
qed

lemma extends_execStatement: "extends s (fst (execStatement w rt st argv s))"
proof (cases argv)
  case Nil
  then show ?thesis by (simp add: execStatement_def)
next
  case (Cons a args)
  show ?thesis
  proof (cases "permitted argv")
    case True
    then have "execStatement w rt st argv s = (if stm_capture st \<noteq> [] then execCapture w rt st argv s
        else let (s', err, _) = run_command w rt argv s in (s', map_option CommandFailed err))"
      using Cons by (auto simp: execStatement_def permitted_def builtin_names_def)
    with extends_run_command [OF True, of s w rt] show ?thesis
      by (auto simp: execCapture_def Let_def split: prod.splits option.splits intro: extends_storeCapture)
  next
    case False
    with Cons consider "a = ''recipe''" | "a = ''market''" "args \<noteq> []" "hd args = ''install''" | "a \<in> set builtin_names"
      by (auto simp: permitted_def)
    then show ?thesis
    proof cases
      case 3
      then show ?thesis by (simp add: Cons extends_builtin)
    qed (simp_all add: Cons execStatement_def)
  qed
qed

lemma extends_run_normal: "extends s (fst (run_normal w rt st s))"
  by (auto simp: run_normal_def extends_execStatement split: sum.splits)

lemma extends_run_loop: "extends s (fst (run_loop w rt rc sts (s, stack, fs)))"
proof (induction sts arbitrary: s stack fs)
  case (Cons st sts)
  have "extends s s'" if "run_normal w rt st s = (s', r)" for s' r
    using extends_run_normal [of s w rt st] that by simp
  then show ?case
    using Cons.IH extends_trans
    by (auto simp: Let_def split: prod.splits option.splits)
qed simp

text \<open>C15. Whatever a recipe contains and whatever its variables expand to, a run hands no command to the
  dispatcher or to a new process whose first word is \<^verbatim>\<open>recipe\<close> or a builtin, and no \<^verbatim>\<open>market install\<close>:
  the check is made on the expanded words. Events that happened before stay as they were.\<close>

theorem run_never_nests_installs:
  "\<exists>evs. rs_events (fst (Run w rt rc s)) = rs_events s @ evs \<and> list_all safe_event evs"
  using extends_run_loop [of s w rt rc "rc_statements rc" "[]" "[]"]
  by (auto simp: Run_def emits_def safe_event_def extends_def split: prod.splits option.splits)


section \<open>Expansion\<close>

lemma expandArgv_length: "expandArgv w mem ts = Inr vs \<Longrightarrow> length vs = length ts"
  by (induction ts arbitrary: vs) (auto simp: and_then_Inr)

lemma expand_literal:
  "\<not> contains a ''${'' \<Longrightarrow> \<not> (has_suffix a ''$'' \<and> has_prefix b ''{'') \<Longrightarrow>
     expandToken w mem (a @ b) = and_then (expandToken w mem b) (\<lambda>s. Inr (a @ s))"
proof (induction a)
  case Nil
  then show ?case by (cases "expandToken w mem b") simp_all
next
  case (Cons c a)
  have nc: "\<not> contains a ''${''" using Cons.prems(1) by simp
  have suf: "\<not> (has_suffix a ''$'' \<and> has_prefix b ''{'')"
    using Cons.prems(2) by (cases a rule: rev_cases) (auto simp: has_suffix_def has_prefix_def)
  have "(c = CHR ''$'' \<and> has_prefix (a @ b) ''{'') = False"
    using Cons.prems by (cases a; cases b) (auto simp: has_prefix_def has_suffix_def)
  then have "expandToken w mem (c # (a @ b)) = and_then (expandToken w mem (a @ b)) (\<lambda>s. Inr (c # s))"
    by (simp only: expandToken.simps if_False)
  then show ?case using Cons.IH [OF nc suf] by (cases "expandToken w mem b") (simp_all del: expandToken.simps)
qed

text \<open>Expansion is one pass: literal text is kept, a closed reference is replaced by the text of
  the value it names, which is never expanded again, and the rest of the token follows. A command keeps
  its number of words, so a value cannot add arguments.\<close>

theorem expansion_one_pass:
  assumes "\<not> contains a ''${''"
  shows "expandToken w mem a = Inr a
    \<and> (\<forall>path b. \<not> has_suffix a ''$'' \<and> CHR ''}'' \<notin> set path \<longrightarrow>
        expandToken w mem (a @ ''${'' @ path @ ''}'' @ b) =
          and_then (evalPath w mem path) (\<lambda>v. and_then (expandToken w mem b) (\<lambda>s. Inr (a @ stringify w v @ s))))
    \<and> (\<forall>ts vs. expandArgv w mem ts = Inr vs \<longrightarrow> length vs = length ts)"
proof (intro conjI allI impI)
  show "expandToken w mem a = Inr a"
    using expand_literal [OF assms, of "[]" w mem] by (simp add: has_prefix_def)
next
  fix path b
  assume p: "\<not> has_suffix a ''$'' \<and> CHR ''}'' \<notin> set path"
  have "expandToken w mem (''${'' @ path @ ''}'' @ b) =
      and_then (evalPath w mem path) (\<lambda>v. and_then (expandToken w mem b) (\<lambda>s. Inr (stringify w v @ s)))"
    using p index_byte_append [of "CHR ''}''" path b] by (simp add: has_prefix_def)
  with expand_literal [OF assms, of "''${'' @ path @ ''}'' @ b"] p
  show "expandToken w mem (a @ ''${'' @ path @ ''}'' @ b) =
      and_then (evalPath w mem path) (\<lambda>v. and_then (expandToken w mem b) (\<lambda>s. Inr (a @ stringify w v @ s)))"
    by (cases "evalPath w mem path"; cases "expandToken w mem b") simp_all
qed (rule expandArgv_length)

theorem expansion_one_pass_witness:
  "expandToken toy_world [(''x'', JStr ''${y}'')] ''a-${x}-b'' = Inr ''a-${y}-b''
   \<and> (\<exists>vs. expandArgv toy_world [(''x'', JStr ''b c'')] [''a'', ''${x}''] = Inr vs \<and> length vs = 2)"
proof -
  let ?m = "[(''x'', JStr ''${y}'')]"
  have v: "evalPath toy_world ?m ''x'' = Inr (JStr ''${y}'')" by code_simp
  have c: "\<not> contains ''a-'' ''${''" "\<not> contains ''-b'' ''${''" "\<not> has_suffix ''a-'' ''$''" "CHR ''}'' \<notin> set ''x''" by code_simp+
  have "expandToken toy_world ?m (''a-'' @ ''${'' @ ''x'' @ ''}'' @ ''-b'') = Inr (''a-'' @ ''${y}'' @ ''-b'')"
    using expansion_one_pass [OF c(1), of toy_world ?m, THEN conjunct2, THEN conjunct1, rule_format, of "''x''" "''-b''"]
      expansion_one_pass [OF c(2), of toy_world ?m, THEN conjunct1] c(3,4)
    unfolding v by (simp add: stringify_def del: expandToken.simps)
  moreover have e: "expandArgv toy_world [(''x'', JStr ''b c'')] [''a'', ''${x}''] = Inr [''a'', ''b c'']" by code_simp
  moreover have "length [''a'', ''b c''] = 2" by simp
  ultimately show ?thesis by (simp del: expandToken.simps expandArgv.simps)
qed


section \<open>The hardware precondition\<close>

lemma best_vram_iff: "0 < q \<Longrightarrow> best_vram gs < q \<longleftrightarrow> list_all (\<lambda>g. vram_total_gb g < q) gs"
proof -
  have "foldl (\<lambda>have g. if vram_total_gb g > have then vram_total_gb g else have) b gs < q
      \<longleftrightarrow> b < q \<and> list_all (\<lambda>g. vram_total_gb g < q) gs" for b
  proof (induction gs arbitrary: b)
    case (Cons g gs)
    have "(if vram_total_gb g > b then vram_total_gb g else b) < q \<longleftrightarrow> b < q \<and> vram_total_gb g < q" by auto
    with Cons show ?case by simp
  qed simp
  then show "0 < q \<Longrightarrow> ?thesis" by (simp add: best_vram_def)
qed

lemma precheck_met:
  "CheckAgainst (Some r) hw = [] \<longleftrightarrow>
     (case req_vram r of Finite q \<Rightarrow> q \<le> 0 \<or> (\<exists>g\<in>set (gpu_list hw). q \<le> vram_total_gb g) | PosInf \<Rightarrow> False | _ \<Rightarrow> True)
     \<and> (req_gpu r = [] \<or> (\<exists>g\<in>set (gpu_list hw). \<exists>p\<in>set (req_gpu r). contains (to_lower (gpu_name g)) (to_lower p)))"
proof -
  define gs where "gs = gpu_list hw"
  have vram: "\<not> (float_pos x \<and> below_float (best_vram gs) x) \<longleftrightarrow>
      (case x of Finite q \<Rightarrow> q \<le> 0 \<or> (\<exists>g\<in>set gs. q \<le> vram_total_gb g) | PosInf \<Rightarrow> False | _ \<Rightarrow> True)" for x
  proof (cases x)
    case (Finite q)
    then show ?thesis
      using best_vram_iff [of q gs]
      by (cases "0 < q") (auto simp: float_pos_def below_float_def list_all_iff simp flip: not_less)
  qed (simp_all add: float_pos_def below_float_def)
  show ?thesis unfolding CheckAgainst_def gs_def [symmetric] vram [symmetric] by (simp add: list_ex_iff)
qed


section \<open>Departures from the intent\<close>

text \<open>With keep-going, an IF whose condition cannot be evaluated opens no frame: the run goes on
  with the statements of its body as if they stood before the IF, on the same stack, so the body
  is run although its condition never held.\<close>

theorem keep_going_runs_failed_if:
  assumes "rt_KeepGoing rt" and "stm_control h = CIf" and "condActive stack" and "evalCond w (rs_memory s) h = Inl e"
  shows "run_loop w rt rc (h # body) (s, stack, fs) =
           run_loop w rt rc body (s, stack, fs @ [(stm_src h, stm_line h, e)])"
  using assms by (simp add: applyControl_def)

theorem keep_going_runs_failed_if_witness:
  "run_loop toy_world (toy_runtime True) toy_recipe
     [marker ''t'' 1 CIf [''${nope}''], toy_cmd [''app'', ''rm'', ''all''] [], marker ''t'' 2 CEnd []]
     (\<lparr>rs_memory = [], rs_events = []\<rparr>, [], []) =
   (\<lparr>rs_memory = [], rs_events = [EvDispatch [''app'', ''rm'', ''all'']]\<rparr>,
    [(''t'', 1, UnknownVar ''nope''), (''t'', 2, MarkerWithoutIf CEnd)], None)"
proof -
  have "evalCond toy_world [] (marker ''t'' 1 CIf [''${nope}'']) = Inl (UnknownVar ''nope'')" by code_simp
  from keep_going_runs_failed_if [of "toy_runtime True" "marker ''t'' 1 CIf [''${nope}'']" "[]" toy_world
      "\<lparr>rs_memory = [], rs_events = []\<rparr>" "UnknownVar ''nope''" toy_recipe
      "[toy_cmd [''app'', ''rm'', ''all''] [], marker ''t'' 2 CEnd []]" "[]"] this
  have "run_loop toy_world (toy_runtime True) toy_recipe
     [marker ''t'' 1 CIf [''${nope}''], toy_cmd [''app'', ''rm'', ''all''] [], marker ''t'' 2 CEnd []]
     (\<lparr>rs_memory = [], rs_events = []\<rparr>, [], []) =
    run_loop toy_world (toy_runtime True) toy_recipe [toy_cmd [''app'', ''rm'', ''all''] [], marker ''t'' 2 CEnd []]
      (\<lparr>rs_memory = [], rs_events = []\<rparr>, [], [(''t'', 1, UnknownVar ''nope'')])"
    by (simp add: toy_runtime_def marker_def condActive_def del: run_loop.simps)
  also have "\<dots> = (\<lparr>rs_memory = [], rs_events = [EvDispatch [''app'', ''rm'', ''all'']]\<rparr>,
    [(''t'', 1, UnknownVar ''nope''), (''t'', 2, MarkerWithoutIf CEnd)], None)" by code_simp
  finally show ?thesis .
qed

text \<open>An assertion \<^verbatim>\<open>require a == b\<close> whose left operand expands to a text that ends with a comma passes
  whatever \<open>b\<close> is, unless what stands before the comma is one of the false words: the comma is
  taken for the one that separates the message.\<close>

theorem require_comma_bypass:
  assumes "isTruthy a" and "a \<noteq> []"
  shows "execRequire [kw, a @ '','', ''=='', b] = None"
proof -
  have "has_suffix (a @ '','') '',''" "trim_suffix (a @ '','') '','' = a"
    by (simp_all add: has_suffix_def has_prefix_def trim_suffix_def)
  with assms show ?thesis
    by (simp add: execRequire_def splitRequireMessage_def evalAssertExpr_def)
qed

theorem require_comma_bypass_witness:
  "execRequire [''require'', ''other,'', ''=='', ''ready''] = None \<and> execRequire [''require'', ''other'', ''=='', ''ready''] \<noteq> None"
proof -
  have "isTruthy ''other''" by code_simp
  with require_comma_bypass [of "''other''" "''require''" "''ready''"]
  show ?thesis by (simp add: execRequire_def splitRequireMessage_def evalAssertExpr_def has_suffix_def has_prefix_def)
qed

end
