(* ===== verification/Setup_Gate.thy ===== *)
theory Setup_Gate
  imports Setup_Assets Recipe_Semantics
begin

text \<open>
  Setup from end to end: that \<^verbatim>\<open>Ensure\<close> of \<^verbatim>\<open>pkg/setup/setup.go\<close> leaves a settled directory behind, the progress display of its
  download, and \<^verbatim>\<open>Requires.Check\<close> of \<^verbatim>\<open>pkg/recipe/requires.go\<close>, which puts the hardware a node detects before the requirements of a
  recipe.
\<close>

section \<open>Installation\<close>

definition tmp_key :: "'sys project \<Rightarrow> disk \<Rightarrow> string" where
  "tmp_key p D = fs_key (dk_fs D) (join_path (pj_dest p) ''.download-tmp'')"

text \<open>\<open>same_env D D'\<close>: paths resolve as before and the same paths are denied.\<close>

definition same_env :: "disk \<Rightarrow> disk \<Rightarrow> bool" where
  "same_env D D' \<longleftrightarrow> fs_cwd (dk_fs D') = fs_cwd (dk_fs D) \<and> fs_denied (dk_fs D') = fs_denied (dk_fs D)"

lemma same_env_refl [simp]: "same_env D D"
  by (simp add: same_env_def)

lemma same_env_trans: "same_env D D1 \<Longrightarrow> same_env D1 D2 \<Longrightarrow> same_env D D2"
  by (simp add: same_env_def)

lemma only_file_env: "only_file k D D' \<Longrightarrow> same_env D D'"
  by (simp add: only_file_def same_env_def)

lemma entries_env:
  assumes "\<And>e D r D'. step e D = (r, D') \<Longrightarrow> same_env D D'"
  shows "extract_entries step es D = (r, D') \<Longrightarrow> same_env D D'"
proof (induction es arbitrary: D r D')
  case (Cons e es)
  obtain x D1 where 1: "step e D = (x, D1)" by fastforce
  obtain y D2 where 2: "extract_entries step es D1 = (y, D2)" by fastforce
  show ?case using Cons.prems 1 2 same_env_trans [OF assms [OF 1] Cons.IH [OF 2]] assms [OF 1]
    by (auto split: sum.splits)
qed simp

lemma zip_env: "ExtractZip sha now archive destDir D = (r, D') \<Longrightarrow> same_env D D'"
proof -
  have "same_env D D'" if "zip_entry_step sha now destDir None pre e D = (r, D')" for pre e D r D'
    using zip_step_effect [OF that] by (rule only_file_env)
  from entries_env [OF this] show "ExtractZip sha now archive destDir D = (r, D') \<Longrightarrow> ?thesis"
    by (auto simp: ExtractZip_def ExtractZipWithOptions_def split: option.splits)
qed

lemma tar_env: "ExtractTarGz sha now archive destDir D = (r, D') \<Longrightarrow> same_env D D'"
proof -
  have "same_env D D'" if "tar_entry_step sha now destDir pre e D = (r, D')" for pre e D r D'
    using tar_step_effect [OF that] by (rule only_file_env)
  from entries_env [OF this] show "ExtractTarGz sha now archive destDir D = (r, D') \<Longrightarrow> ?thesis"
    by (auto simp: ExtractTarGz_def split: option.splits)
qed

lemma download_env: "download get url tmp D = (ok, D') \<Longrightarrow> same_env D D'"
  using create_sel
  by (fastforce simp: download_def os_WriteFile_def file_append_def same_env_def split: option.splits prod.splits sum.splits if_splits)

lemma tmp_removed:
  assumes "same_env D D1" "tmp_key p D \<notin> set (fs_denied (dk_fs D))"
  shows "mget (fs_files (dk_fs (tmp_remove (join_path (pj_dest p) ''.download-tmp'') D1))) (tmp_key p D) = None"
  using assms
  by (auto simp: tmp_remove_def os_Remove_def tmp_key_def fs_key_def same_env_def Let_def mget_del)

lemma dirs_env:
  assumes "make_dirs d D = (r, D1)"
  shows "same_env D D1" "fs_files (dk_fs D1) = fs_files (dk_fs D)"
  using make_dirs_sel [of d D] assms by (simp_all add: same_env_def)

text \<open>Where an installation ends: after the destination was made, or after the download was removed.\<close>

lemma install_ends:
  assumes "install_asset sha now get unzip untar p a D = (r, D')"
  shows "(\<exists>e. make_dirs (pj_dest p) D = (e, D')) \<or>
     (\<exists>D1. same_env D D1 \<and> D' = tmp_remove (join_path (pj_dest p) ''.download-tmp'') D1)"
proof -
  let ?tmp = "join_path (pj_dest p) ''.download-tmp''"
  obtain e D1 where 1: "make_dirs (pj_dest p) D = (e, D1)" by fastforce
  obtain ok D2 where 2: "download get (a_url a) ?tmp D1 = (ok, D2)" by fastforce
  define x where "x = (case os_ReadFile (dk_fs D2) ?tmp of Inl _ \<Rightarrow> [] | Inr d \<Rightarrow> d)"
  obtain q D3 where 3: "(if has_suffix (a_name a) ''.tar.gz'' \<or> has_suffix (a_name a) ''.tgz''
      then ExtractTarGz sha now (untar x) (pj_dest p) D2 else ExtractZip sha now (unzip x) (pj_dest p) D2) = (q, D3)" by fastforce
  have e2: "same_env D D2" using same_env_trans [OF dirs_env(1) [OF 1] download_env [OF 2]] .
  moreover have "same_env D2 D3" using 3 zip_env tar_env by (auto split: if_splits)
  ultimately have e3: "same_env D D3" by (rule same_env_trans)
  have "D' = D1 \<and> e \<noteq> None \<or> D' = tmp_remove ?tmp D2 \<or> D' = tmp_remove ?tmp D3"
    using assms by (auto simp: install_asset_def 1 2 3 Let_def x_def [symmetric] split: option.splits bool.splits sum.splits if_splits)
  then show ?thesis using 1 e2 e3 by blast
qed

lemma ensure_ends:
  assumes "Ensure sha now get unzip untar sys latest p D = (r, D')"
  shows "D' = D \<or> (\<exists>a. install_asset sha now get unzip untar p a D = (r, D'))"
  using assms by (auto simp: Ensure_def split: if_splits sum.splits option.splits)

lemma ensure_tmp:
  assumes "Ensure sha now get unzip untar sys latest p D = (r, D')"
    "tmp_key p D \<notin> set (fs_denied (dk_fs D))" "mget (fs_files (dk_fs D)) (tmp_key p D) = None"
  shows "mget (fs_files (dk_fs D')) (tmp_key p D) = None"
  using ensure_ends [OF assms(1)]
proof
  assume "\<exists>a. install_asset sha now get unzip untar p a D = (r, D')"
  then obtain a where "install_asset sha now get unzip untar p a D = (r, D')" ..
  from install_ends [OF this] show ?thesis using dirs_env(2) tmp_removed [OF _ assms(2)] assms(3) by metis
qed (use assms(3) in simp)

lemma ensure_done: "missing_files p (dk_fs D) = [] \<Longrightarrow> Ensure sha now get unzip untar sys latest p D = (None, D)"
  by (simp add: Ensure_def)

lemma ensure_success:
  assumes "Ensure sha now get unzip untar sys latest p D = (None, D')"
  shows "missing_files p (dk_fs D') = []"
proof -
  have "missing_files p (dk_fs D1) = []" if "install_asset sha now get unzip untar p a D = (None, D1)" for a D1
    using that unfolding install_asset_def Let_def
    by (auto split: option.splits prod.splits bool.splits sum.splits if_splits)
  then show ?thesis using assms by (auto simp: Ensure_def split: if_splits sum.splits option.splits)
qed


section \<open>Progress\<close>

text \<open>\<open>fmt1 b u\<close> is \<open>b / u\<close> printed with one decimal.\<close>

definition formatBytes :: "(int \<Rightarrow> int \<Rightarrow> string) \<Rightarrow> int \<Rightarrow> string" where
  "formatBytes fmt1 b =
     (if b \<ge> 1024 * 1024 * 1024 then fmt1 b (1024 * 1024 * 1024) @ '' GB''
      else if b \<ge> 1024 * 1024 then fmt1 b (1024 * 1024) @ '' MB''
      else if b \<ge> 1024 then fmt1 b 1024 @ '' KB''
      else format_int b @ '' B'')"

record progress_display =
  pd_written :: int
  pd_total :: int
  pd_last :: time

text \<open>A write of the display: what it prints, if it does, and the new state; the sums and products are 64-bit.\<close>

definition progress_Write ::
  "(int \<Rightarrow> int \<Rightarrow> string) \<Rightarrow> time \<Rightarrow> string \<Rightarrow> progress_display \<Rightarrow> string option \<times> progress_display" where
  "progress_Write fmt1 now data p =
     (let w = wrap64 (pd_written p + int (length data)); p1 = p\<lparr>pd_written := w\<rparr> in
      if time_sub now (pd_last p) \<ge> 200000000 \<or> w = pd_total p
      then (let pct = (if pd_total p > 0 then quot (wrap64 (w * 100)) (pd_total p) else 0) in
            (Some ([CHR 0x0D] @ ''[setup] '' @ formatBytes fmt1 w @ '' / '' @ formatBytes fmt1 (pd_total p) @ '' ('' @ format_int pct @ ''%)''),
             p1\<lparr>pd_last := now\<rparr>))
      else (None, p1))"

fun progress_run :: "(int \<Rightarrow> int \<Rightarrow> string) \<Rightarrow> (time \<times> string) list \<Rightarrow> progress_display \<Rightarrow> string option list \<times> progress_display" where
  "progress_run fmt1 [] p = ([], p)"
| "progress_run fmt1 ((now, d) # ds) p =
     (case progress_Write fmt1 now d p of (o1, p1) \<Rightarrow> (case progress_run fmt1 ds p1 of (os, p2) \<Rightarrow> (o1 # os, p2)))"

definition SelfHash :: "(string \<Rightarrow> string) \<Rightarrow> string option \<Rightarrow> fs \<Rightarrow> string" where
  "SelfHash sha exe F = (case exe of None \<Rightarrow> [] | Some p \<Rightarrow> FileHash sha F p)"


section \<open>The hardware gate\<close>

definition Check ::
  "string \<Rightarrow> string \<Rightarrow> float_ops \<Rightarrow> cpu_probe \<Rightarrow> int \<Rightarrow> command \<Rightarrow> fs \<Rightarrow> requires option \<Rightarrow> unmet list" where
  "Check goos goarch fo cpu threads cmd F r =
     (case r of None \<Rightarrow> [] | Some q \<Rightarrow> CheckAgainst (Some q) (DetectHardwareStatic goos goarch fo cpu threads cmd F []))"

text \<open>The line of the report for an unmet requirement; \<open>fmt1\<close> prints with one decimal, \<open>quote\<close> is \<^verbatim>\<open>%q\<close>.\<close>

definition trimFloat :: "('f \<Rightarrow> string) \<Rightarrow> 'f \<Rightarrow> string" where
  "trimFloat fmt1 f = trim_suffix (fmt1 f) ''.0''"

definition arrow :: string where
  "arrow = '' '' @ [CHR 0xE2, CHR 0x86, CHR 0x92] @ '' have ''"

definition unmet_text :: "(float64 \<Rightarrow> string) \<Rightarrow> (string \<Rightarrow> string) \<Rightarrow> unmet \<Rightarrow> string" where
  "unmet_text fmt1 quote u =
     (case u of
        VramUnmet need have \<Rightarrow> ''vram: '' @ trimFloat fmt1 need @ ''G+'' @ arrow @ trimFloat fmt1 (Finite have) @ ''G''
      | GpuUnmet ps names \<Rightarrow> ''gpu: '' @ join '' | '' ps @ arrow @ quote names)"


section \<open>Properties\<close>

text \<open>C31. An installation settles. Whatever the network, the archive and the file system do, no partial download is left in the
  destination; and when \<^verbatim>\<open>Ensure\<close> succeeds, no required file is missing and every later run, with any network and any release,
  succeeds at once and changes nothing.\<close>

theorem ensure_settles:
  assumes "Ensure sha now get unzip untar sys latest p D = (r, D')"
    "tmp_key p D \<notin> set (fs_denied (dk_fs D))" "mget (fs_files (dk_fs D)) (tmp_key p D) = None"
  shows "mget (fs_files (dk_fs D')) (tmp_key p D) = None \<and>
     (r = None \<longrightarrow> missing_files p (dk_fs D') = [] \<and>
        (\<forall>now get unzip untar sys latest. Ensure sha now get unzip untar sys latest p D' = (None, D')))"
  using ensure_tmp [OF assms] ensure_success [of sha now get unzip untar sys latest p D D'] ensure_done [of p D'] assms(1) by auto

definition toy_project :: "unit project" where
  "toy_project = \<lparr>pj_name = ''n'', pj_owner = ''o'', pj_repo = ''r'', pj_dest = ''/opt'', pj_required = [''a''], pj_select = (\<lambda>names _. if names = [] then None else Some (hd names))\<rparr>"

definition toy_release :: release where
  "toy_release = \<lparr>r_tag = ''v1'', r_assets = [\<lparr>a_name = ''x.zip'', a_url = ''u'', a_size = 1\<rparr>]\<rparr>"


definition toy_ensure :: "disk \<Rightarrow> ensure_error option \<times> disk" where
  "toy_ensure = Ensure id 7 (\<lambda>_. Some (200, ''zip'', True)) (\<lambda>_. Some [toy_entry ''w/a'' ''1'', toy_entry ''w/b'' ''2'']) (\<lambda>_. None) ()
     (Inr toy_release) toy_project"

theorem ensure_settles_witness:
  "fst (toy_ensure toy_disk) = None \<and> missing_files toy_project (dk_fs toy_disk) \<noteq> [] \<and>
   mget (fs_files (dk_fs (snd (toy_ensure toy_disk)))) ''/opt/.download-tmp'' = None \<and>
   Ensure id 0 (\<lambda>_. None) (\<lambda>_. None) (\<lambda>_. None) () (Inl (BadStatus 500)) toy_project (snd (toy_ensure toy_disk)) = (None, snd (toy_ensure toy_disk))"
proof -
  have 1: "fst (toy_ensure toy_disk) = None" "missing_files toy_project (dk_fs toy_disk) \<noteq> []" by code_simp+
  then have 2: "toy_ensure toy_disk = (None, snd (toy_ensure toy_disk))" by (metis prod.collapse)
  have 3: "tmp_key toy_project toy_disk \<notin> set (fs_denied (dk_fs toy_disk))"
    "mget (fs_files (dk_fs toy_disk)) (tmp_key toy_project toy_disk) = None" by code_simp+
  have 4: "tmp_key toy_project toy_disk = ''/opt/.download-tmp''" by code_simp
  from ensure_settles [OF 2 [unfolded toy_ensure_def] 3] 1 4 show ?thesis by (simp add: toy_ensure_def)
qed

text \<open>C37. The hardware gate of a recipe, from the driver's report to the verdict. On a node whose driver lists the GPUs \<open>gs\<close>, the requirements are met
  exactly when some single GPU has the required memory, if a positive amount is required, and the name of some GPU contains one
  of the patterns up to case, if there are patterns; with no requirements nothing is probed and everything passes.\<close>

theorem hardware_gate_exact:
  assumes "gs \<noteq> []" "\<forall>g\<in>set gs. gpu_fields g" "cmd (nvidia_smi ''name,memory.total,driver_version'') = Some (gpu_csv gs)"
  shows "Check goos goarch fo cpu threads cmd F None = [] \<and>
    (Check goos goarch fo cpu threads cmd F (Some r) = [] \<longleftrightarrow>
       (case req_vram r of Finite q \<Rightarrow> q \<le> 0 \<or> (\<exists>(n, m, d)\<in>set gs. q \<le> fo_mb_gb fo m) | PosInf \<Rightarrow> False | _ \<Rightarrow> True)
       \<and> (req_gpu r = [] \<or> (\<exists>(n, m, d)\<in>set gs. \<exists>p\<in>set (req_gpu r). contains (to_lower n) (to_lower p))))"
proof -
  let ?hw = "DetectHardwareStatic goos goarch fo cpu threads cmd F []"
  have "gpu_list ?hw = map (\<lambda>(n, m, d). \<lparr>gpu_name = n, gpu_driver = d, vram_total_gb = fo_mb_gb fo m,
                            gpu_temp_c = 0, gpu_util_pct = 0, vram_free_gb = 0\<rparr>) gs"
    using gpus_detected [of gs cmd, OF assms, of goos goarch fo cpu threads F "[]"] by simp
  then show ?thesis unfolding Check_def option.case precheck_met
    by (auto simp: case_prod_beta split: float64.split)
qed

definition toy_probe :: cpu_probe where
  "toy_probe = \<lparr>cp_brand = [], cp_cores = 1, cp_avx = True, cp_avx2 = False, cp_avx512 = False\<rparr>"

definition toy_gpus :: "(string \<times> string \<times> string) list" where
  "toy_gpus = [(''RTX 4090'', ''24'', ''5.1''), (''GTX'', ''8'', ''5.1'')]"

definition empty_disk :: fs where
  "empty_disk = \<lparr>fs_cwd = ''/'', fs_dirs = [], fs_files = [], fs_denied = []\<rparr>"

theorem hardware_gate_exact_witness:
  "Check ''linux'' ''amd64'' toy_floats toy_probe 2 (\<lambda>_. Some (gpu_csv toy_gpus)) empty_disk (Some \<lparr>req_vram = Finite 2, req_gpu = [''rtx'']\<rparr>) = [] \<and>
   Check ''linux'' ''amd64'' toy_floats toy_probe 2 (\<lambda>_. Some (gpu_csv toy_gpus)) empty_disk (Some \<lparr>req_vram = Finite 3, req_gpu = []\<rparr>) \<noteq> []"
proof -
  have g: "toy_gpus \<noteq> []" "\<forall>g\<in>set toy_gpus. gpu_fields g" by (simp_all add: toy_gpus_def gpu_field_def trimmed_def is_space_def)
  have c: "contains (to_lower ''RTX 4090'') (to_lower ''rtx'')" by code_simp
  show ?thesis
    using hardware_gate_exact [OF g, of "\<lambda>_. Some (gpu_csv toy_gpus)" "''linux''" "''amd64''" toy_floats toy_probe 2 empty_disk] c
    by (simp add: toy_gpus_def toy_floats_def)
qed

text \<open>The last thing the download display prints is \<^verbatim>\<open>100%\<close>, when the bytes that arrive are those announced, in whatever chunks and at whatever times.\<close>

lemma progress_written:
  assumes "0 \<le> pd_written p" "pd_written p + int (length (concat (map snd ds))) < 2 ^ 63"
  shows "pd_written (snd (progress_run fmt1 ds p)) = pd_written p + int (length (concat (map snd ds)))
    \<and> pd_total (snd (progress_run fmt1 ds p)) = pd_total p"
  using assms
proof (induction fmt1 ds p rule: progress_run.induct)
  case (2 fmt1 now d ds p)
  obtain o1 p1 where 1: "progress_Write fmt1 now d p = (o1, p1)" by fastforce
  have "int64_ok (pd_written p + int (length d))" using 2(2,3) by (simp add: int64_ok_def)
  then have p1: "pd_written p1 = pd_written p + int (length d)" "pd_total p1 = pd_total p"
    using 1 by (auto simp: progress_Write_def Let_def split: if_splits)
  then show ?case using 2(1) [OF 1 [symmetric]] 2(2,3) by (simp add: 1 case_prod_beta)
qed simp

theorem progress_ends_full:
  assumes "pd_written p = 0" "pd_total p = int (length (concat (map snd (ds @ [(now, d)]))))" "0 < pd_total p" "pd_total p * 100 < 2 ^ 63"
  shows "last (fst (progress_run fmt1 (ds @ [(now, d)]) p)) =
     Some ([CHR 0x0D] @ ''[setup] '' @ formatBytes fmt1 (pd_total p) @ '' / '' @ formatBytes fmt1 (pd_total p) @ '' (100%)'')"
proof -
  have app: "progress_run fmt1 (xs @ [(now, d)]) q = (fst (progress_run fmt1 xs q) @ [fst (progress_Write fmt1 now d (snd (progress_run fmt1 xs q)))],
      snd (progress_Write fmt1 now d (snd (progress_run fmt1 xs q))))" for xs q
    by (induction xs arbitrary: q) (auto simp: case_prod_beta)
  let ?q = "snd (progress_run fmt1 ds p)"
  have q: "pd_written ?q = int (length (concat (map snd ds)))" "pd_total ?q = pd_total p"
    using progress_written [of p ds fmt1] assms by auto
  have "pd_written ?q + int (length d) = pd_total p" using q(1) assms(2) by simp
  moreover have "int64_ok (pd_total p)" "int64_ok (pd_total p * 100)" using assms(3,4) by (auto simp: int64_ok_def)
  moreover have "quot (pd_total p * 100) (pd_total p) = 100" using assms(3) by (simp add: quot_def)
  moreover have "format_int 100 = ''100''" by code_simp
  ultimately show ?thesis using assms(3) by (simp add: app progress_Write_def Let_def q(2))
qed

theorem progress_ends_full_witness:
  "last (fst (progress_run (\<lambda>_ _. []) [(0, ''ab''), (1, ''c'')] \<lparr>pd_written = 0, pd_total = 3, pd_last = 0\<rparr>))
   = Some ([CHR 0x0D] @ ''[setup] 3 B / 3 B (100%)'')"
proof -
  have "format_int 3 = ''3''" by code_simp
  then show ?thesis
    using progress_ends_full [of "\<lparr>pd_written = 0, pd_total = 3, pd_last = 0\<rparr>" "[(0, ''ab'')]" 1 "''c''" "\<lambda>_ _. []"]
    by (simp add: formatBytes_def)
qed

end
