(* ===== verification/Setup_Prereq.thy ===== *)
theory Setup_Prereq
  imports Setup_Node
begin

text \<open>
  The check of the prerequisites of a node, \<^verbatim>\<open>pkg/setup/prereq.go\<close>, with the probes of Windows,
  \<^verbatim>\<open>prereq_windows.go\<close>, and of the other systems, \<^verbatim>\<open>prereq_other.go\<close>. The answers of \<^verbatim>\<open>wsl\<close> are a
  function of its arguments, output and whether it succeeded; the commands that are run are logged in
  their order. Within one check the answers do not change.
\<close>

section \<open>Components\<close>

datatype prereq_state = PrereqOK | PrereqMissing | PrereqNA | PrereqUnknown

abbreviation "PrereqWSL2 \<equiv> ''WSL2''"
abbreviation "PrereqDistro \<equiv> ''Linux distro''"
abbreviation "PrereqDocker \<equiv> ''Docker Engine''"
abbreviation "PrereqToolkit \<equiv> ''nvidia-container-toolkit''"
abbreviation "PrereqDriver \<equiv> ''NVIDIA driver''"

record prereq_component =
  pc_name :: string
  pc_status :: prereq_state
  pc_detail :: string
  pc_auto_fix :: bool

record desktop_info =
  di_installed :: bool
  di_running :: bool
  di_socket_conflict :: bool

record prereq_status =
  ps_os :: string
  ps_components :: "prereq_component list"
  ps_docker_ready :: bool
  ps_desktop :: "desktop_info option"

definition comp :: "string \<Rightarrow> prereq_state \<Rightarrow> bool \<Rightarrow> string \<Rightarrow> prereq_component" where
  "comp n s f d = \<lparr>pc_name = n, pc_status = s, pc_detail = d, pc_auto_fix = f\<rparr>"

definition newPrereqStatus :: "string \<Rightarrow> prereq_component list \<Rightarrow> prereq_status" where
  "newPrereqStatus osName comps =
     \<lparr>ps_os = osName, ps_components = comps,
      ps_docker_ready = list_ex (\<lambda>c. pc_name c = PrereqDocker \<and> pc_status c = PrereqOK) comps, ps_desktop = None\<rparr>"

definition WSLDistro :: "prereq_status \<Rightarrow> string" where
  "WSLDistro s =
     (case find (\<lambda>c. pc_name c = PrereqDistro \<and> pc_status c = PrereqOK) (ps_components s) of
        None \<Rightarrow> []
      | Some c \<Rightarrow> trim_space (case index_byte (pc_detail c) CHR '','' of None \<Rightarrow> pc_detail c | Some i \<Rightarrow> take i (pc_detail c)))"

definition MissingAutoFix :: "prereq_status \<Rightarrow> string list" where
  "MissingAutoFix s = map pc_name (filter (\<lambda>c. pc_auto_fix c \<and> pc_status c = PrereqMissing) (ps_components s))"

definition driverComponent :: "gpu_info \<Rightarrow> prereq_component" where
  "driverComponent gpu =
     (if \<not> gi_available gpu
      then comp PrereqDriver PrereqMissing False
             ''nvidia-smi not found - install driver manually for GPU nodes (ignore on CPU-only nodes)''
      else comp PrereqDriver PrereqOK False
             (gi_name gpu @ (if gi_driver gpu = [] then []
                else '' (driver '' @ gi_driver gpu @ (if gi_cuda gpu = [] then [] else '', CUDA '' @ gi_cuda gpu) @ '')'')))"


section \<open>Linux and macOS\<close>

definition dockerServerVersion :: "command \<Rightarrow> string" where
  "dockerServerVersion cmd =
     (case cmd [''docker'', ''version'', ''--format'', ''{{.Server.Version}}''] of None \<Rightarrow> [] | Some out \<Rightarrow> trim_space out)"

definition nvidiaContainerToolkitPresent :: "(string \<Rightarrow> bool) \<Rightarrow> fs \<Rightarrow> bool" where
  "nvidiaContainerToolkitPresent look F \<longleftrightarrow>
     look ''nvidia-container-runtime''
     \<or> list_ex (os_Exists F) [''/usr/bin/nvidia-container-runtime'', ''/usr/local/bin/nvidia-container-runtime'']"

definition detectPrereqs_other :: "(string \<Rightarrow> bool) \<Rightarrow> command \<Rightarrow> fs \<Rightarrow> gpu_info \<Rightarrow> prereq_component list" where
  "detectPrereqs_other look cmd F gpu =
     [comp PrereqWSL2 PrereqNA False ''Windows only'',
      comp PrereqDistro PrereqNA False ''Windows only'',
      (if \<not> look ''docker'' then comp PrereqDocker PrereqMissing True ''docker not installed''
       else if dockerServerVersion cmd \<noteq> [] then comp PrereqDocker PrereqOK True (''engine '' @ dockerServerVersion cmd)
       else comp PrereqDocker PrereqMissing True ''docker installed, daemon not running (systemctl start docker)''),
      (if nvidiaContainerToolkitPresent look F then comp PrereqToolkit PrereqOK True ''nvidia-container-runtime present''
       else comp PrereqToolkit PrereqMissing True ''for GPU containers (optional on CPU-only nodes)''),
      driverComponent gpu]"


section \<open>Windows\<close>

type_synonym wsl = "string list \<Rightarrow> string \<times> bool"
type_synonym commands = "string list list"

definition wslOutput :: "wsl \<Rightarrow> string list \<Rightarrow> commands \<Rightarrow> (string \<times> bool) \<times> commands" where
  "wslOutput wsl args tr = (wsl args, tr @ [args])"

text \<open>The byte order mark in UTF-8.\<close>

definition stripBOM :: "string \<Rightarrow> string" where
  "stripBOM s = trim_prefix s [CHR 0xEF, CHR 0xBB, CHR 0xBF]"

definition wslFeaturePresent :: "bool \<Rightarrow> wsl \<Rightarrow> commands \<Rightarrow> bool \<times> commands" where
  "wslFeaturePresent look wsl tr =
     (if \<not> look then (False, tr)
      else case wslOutput wsl [''--status''] tr of ((out, ok), tr1) \<Rightarrow> (ok \<or> trim_space (stripBOM out) \<noteq> [], tr1))"

record wsl_distro =
  wd_name :: string
  wd_running :: bool

definition distro_row :: "string \<Rightarrow> wsl_distro option" where
  "distro_row line =
     (let fs = Go_Prelude.fields (trim_space line);
          fs1 = (case fs of w # ws \<Rightarrow> if w = ''*'' then ws else fs | [] \<Rightarrow> [])
      in case fs1 of [] \<Rightarrow> None
         | n # ws \<Rightarrow> if equal_fold n ''NAME'' then None
                     else Some \<lparr>wd_name = n, wd_running = list_ex (\<lambda>w. equal_fold w ''Running'') ws\<rparr>)"

definition distro_rows :: "string \<times> bool \<Rightarrow> wsl_distro list" where
  "distro_rows r = (case r of (out, ok) \<Rightarrow> if ok then List.map_filter distro_row (split (stripBOM out) CHR 0x0A) else [])"

definition wslDistros :: "wsl \<Rightarrow> commands \<Rightarrow> wsl_distro list \<times> commands" where
  "wslDistros wsl tr = (case wslOutput wsl [''-l'', ''-v''] tr of (r, tr1) \<Rightarrow> (distro_rows r, tr1))"

definition isDockerDesktopDistro :: "string \<Rightarrow> bool" where
  "isDockerDesktopDistro name \<longleftrightarrow> to_lower (trim_space name) \<in> {''docker-desktop'', ''docker-desktop-data''}"

definition DockerDesktopRunning :: "wsl \<Rightarrow> commands \<Rightarrow> bool \<times> commands" where
  "DockerDesktopRunning wsl tr =
     (case wslDistros wsl tr of (ds, tr1) \<Rightarrow> (list_ex (\<lambda>d. isDockerDesktopDistro (wd_name d) \<and> wd_running d) ds, tr1))"

definition in_distro :: "string \<Rightarrow> string list" where
  "in_distro distro = (if distro = [] then [] else [''-d'', distro])"

definition wslNativeDockerArgs :: "string \<Rightarrow> string list \<Rightarrow> string list" where
  "wslNativeDockerArgs distro args = in_distro distro @ [''-e'', ''/usr/bin/docker'', ''-H'', ''unix:///var/run/docker.sock''] @ args"

definition daemon_id :: "string \<Rightarrow> string \<times> bool" where
  "daemon_id line =
     (let ps = split_n 2 line ''|'';
          ident = to_lower ((if 2 \<le> length ps then ps ! 1 else []) @ (if 3 \<le> length ps then '' '' @ ps ! 2 else []))
      in (part 0 ps, contains ident ''docker desktop'' \<or> contains ident ''docker-desktop''))"

definition dockerDaemonInWSL :: "wsl \<Rightarrow> string \<Rightarrow> commands \<Rightarrow> (string \<times> bool) \<times> commands" where
  "dockerDaemonInWSL wsl distro tr =
     (case wslOutput wsl (wslNativeDockerArgs distro [''info'', ''--format'', ''{{.ServerVersion}}|{{.OperatingSystem}}|{{.Name}}'']) tr of
        ((out, ok), tr1) \<Rightarrow>
          (if \<not> ok \<or> trim_space (stripBOM out) = [] then ([], False) else daemon_id (trim_space (stripBOM out)), tr1))"

definition toolkitInWSL :: "wsl \<Rightarrow> string \<Rightarrow> commands \<Rightarrow> bool \<times> commands" where
  "toolkitInWSL wsl distro tr =
     (case wslOutput wsl (in_distro distro @ [''-e'', ''sh'', ''-c'', ''command -v nvidia-container-runtime || true'']) tr of
        ((out, ok), tr1) \<Rightarrow> (ok \<and> trim_space (stripBOM out) \<noteq> [], tr1))"

definition dockerDesktopInstalledExe :: "(string \<Rightarrow> string) \<Rightarrow> (string \<Rightarrow> bool) \<Rightarrow> bool" where
  "dockerDesktopInstalledExe getenv exists \<longleftrightarrow>
     list_ex (\<lambda>e. getenv e \<noteq> [] \<and> exists (getenv e @ [CHR 0x5C] @ ''Docker'' @ [CHR 0x5C] @ ''Docker'' @ [CHR 0x5C] @ ''Docker Desktop.exe''))
       [''ProgramFiles'', ''ProgramW6432'', ''ProgramFiles(x86)'']"

text \<open>The components that depend on the target distribution, the first that is not Docker Desktop's.\<close>

definition docker_component ::
  "wsl \<Rightarrow> bool \<Rightarrow> wsl_distro option \<Rightarrow> commands \<Rightarrow> prereq_component \<times> bool \<times> commands" where
  "docker_component wsl present target tr =
     (case target of
        Some d \<Rightarrow>
          if \<not> present then (comp PrereqDocker PrereqUnknown True ''needs WSL/distro first'', False, tr)
          else if \<not> wd_running d
          then (comp PrereqDocker PrereqUnknown True ''WSL stopped - run 'isann docker warmup' then re-check'', False, tr)
          else (case dockerDaemonInWSL wsl (wd_name d) tr of ((ver, isDesktop), tr1) \<Rightarrow>
            if isDesktop
            then (comp PrereqDocker PrereqMissing True
                    ''native docker-ce not ready - /var/run/docker.sock served by Docker Desktop'', True, tr1)
            else if ver \<noteq> [] then (comp PrereqDocker PrereqOK True (''engine '' @ ver @ '' (WSL)''), False, tr1)
            else (comp PrereqDocker PrereqMissing True ''docker not installed/running in WSL'', False, tr1))
      | None \<Rightarrow> (comp PrereqDocker PrereqUnknown True ''needs WSL/distro first'', False, tr))"

definition toolkit_component :: "wsl \<Rightarrow> bool \<Rightarrow> wsl_distro option \<Rightarrow> commands \<Rightarrow> prereq_component \<times> commands" where
  "toolkit_component wsl present target tr =
     (case target of
        Some d \<Rightarrow>
          if \<not> present then (comp PrereqToolkit PrereqUnknown True ''needs WSL/distro first'', tr)
          else if \<not> wd_running d then (comp PrereqToolkit PrereqUnknown True ''WSL stopped - warmup then re-check'', tr)
          else (case toolkitInWSL wsl (wd_name d) tr of (found, tr1) \<Rightarrow>
            (if found then comp PrereqToolkit PrereqOK True ''nvidia-container-runtime present (WSL)''
             else comp PrereqToolkit PrereqMissing True ''for GPU containers (optional on CPU-only nodes)'', tr1))
      | None \<Rightarrow> (comp PrereqToolkit PrereqUnknown True ''needs WSL/distro first'', tr))"

definition real_distros :: "wsl_distro list \<Rightarrow> wsl_distro list" where
  "real_distros ds = filter (\<lambda>d. \<not> isDockerDesktopDistro (wd_name d)) ds"

definition distro_component :: "bool \<Rightarrow> wsl_distro list \<Rightarrow> prereq_component" where
  "distro_component present rds =
     (if rds \<noteq> [] then comp PrereqDistro PrereqOK True (join '', '' (map wd_name rds))
      else if \<not> present then comp PrereqDistro PrereqUnknown True ''WSL required first''
      else comp PrereqDistro PrereqMissing True ''Ubuntu-22.04 not installed (wsl --install -d Ubuntu-22.04)'')"

definition detectPrereqs_windows ::
  "bool \<Rightarrow> wsl \<Rightarrow> bool \<Rightarrow> gpu_info \<Rightarrow> (prereq_component list \<times> desktop_info) \<times> commands" where
  "detectPrereqs_windows look wsl exe gpu =
     (let (present, tr1) = wslFeaturePresent look wsl [];
          (ds, tr2) = wslDistros wsl tr1;
          rds = real_distros ds;
          desktop = filter (\<lambda>d. isDockerDesktopDistro (wd_name d)) ds;
          target = (case rds of [] \<Rightarrow> None | d # _ \<Rightarrow> Some d);
          (docker, conflict, tr3) = docker_component wsl present target tr2;
          (toolkit, tr4) = toolkit_component wsl present target tr3
      in (([if present then comp PrereqWSL2 PrereqOK True ''available''
            else comp PrereqWSL2 PrereqMissing True ''run 'wsl --install' (reboot required on first enable)'',
            distro_component present rds, docker, toolkit, driverComponent gpu],
           \<lparr>di_installed = (exe \<or> desktop \<noteq> []), di_running = list_ex wd_running desktop, di_socket_conflict = conflict\<rparr>), tr4))"

definition DetectPrereqs :: "string \<Rightarrow> prereq_component list \<times> desktop_info option \<Rightarrow> prereq_status" where
  "DetectPrereqs goos r = (case r of (comps, desktop) \<Rightarrow> (newPrereqStatus goos comps)\<lparr>ps_desktop := desktop\<rparr>)"


section \<open>Properties\<close>

text \<open>
  A command that runs inside a distribution, \<^verbatim>\<open>wsl -e\<close>, starts it when it is stopped. It is harmless for a
  distribution that runs already.
\<close>

definition no_boot :: "wsl_distro list \<Rightarrow> string list \<Rightarrow> bool" where
  "no_boot ds args \<longleftrightarrow> (''-e'' \<in> set args \<longrightarrow>
     (\<exists>d\<in>set ds. wd_running d \<and> \<not> isDockerDesktopDistro (wd_name d) \<and> take 3 args = [''-d'', wd_name d, ''-e'']))"

lemma distro_row_name: "distro_row l = Some d \<Longrightarrow> wd_name d \<noteq> [] \<and> (\<forall>c\<in>set (wd_name d). \<not> is_space c)"
proof -
  assume "distro_row l = Some d"
  then have "wd_name d \<in> set (Go_Prelude.fields (trim_space l))"
    by (auto simp: distro_row_def Let_def split: list.splits if_splits)
  then show ?thesis using split_at_pieces unfolding Go_Prelude.fields_def by fastforce
qed

lemma distro_names: "d \<in> set (distro_rows r) \<Longrightarrow> wd_name d \<noteq> [] \<and> (\<forall>c\<in>set (wd_name d). \<not> is_space c)"
  using distro_row_name by (auto simp: distro_rows_def List.map_filter_def split: prod.splits if_splits)

lemma docker_component_log:
  assumes "docker_component wsl present target tr = (c, b, tr')"
  shows "tr' = tr \<or> (\<exists>d args. target = Some d \<and> wd_running d \<and> present
           \<and> tr' = tr @ [wslNativeDockerArgs (wd_name d) args])"
  using assms
  by (auto simp: docker_component_def dockerDaemonInWSL_def wslOutput_def split: option.splits if_splits prod.splits)

lemma toolkit_component_log:
  assumes "toolkit_component wsl present target tr = (c, tr')"
  shows "tr' = tr \<or> (\<exists>d args. target = Some d \<and> wd_running d \<and> present \<and> tr' = tr @ [in_distro (wd_name d) @ ''-e'' # args])"
  using assms
  by (auto simp: toolkit_component_def toolkitInWSL_def wslOutput_def split: option.splits if_splits prod.splits)

lemma target_real:
  "(case real_distros ds of [] \<Rightarrow> None | d # _ \<Rightarrow> Some d) = Some d \<Longrightarrow> d \<in> set ds \<and> \<not> isDockerDesktopDistro (wd_name d)"
  by (auto simp: real_distros_def filter_eq_Cons_iff split: list.splits)

text \<open>C32. The check never starts a stopped distribution and never looks into one of Docker Desktop: every
  command that it runs inside WSL names a distribution that the listing reports as running.
\<close>

theorem check_never_boots_wsl:
  assumes "detectPrereqs_windows look wsl exe gpu = (r, cmds)" "args \<in> set cmds"
  shows "no_boot (fst (wslDistros wsl [])) args"
proof -
  define ds where "ds = distro_rows (wsl [''-l'', ''-v''])"
  define target where "target = (case real_distros ds of [] \<Rightarrow> None | d # _ \<Rightarrow> Some d)"
  obtain present tr1 where 1: "wslFeaturePresent look wsl [] = (present, tr1)" by fastforce
  obtain docker conflict tr3 where 3: "docker_component wsl present target (tr1 @ [[''-l'', ''-v'']]) = (docker, conflict, tr3)"
    by (metis prod.exhaust)
  obtain toolkit tr4 where 4: "toolkit_component wsl present target tr3 = (toolkit, tr4)" by fastforce
  have 2: "wslDistros wsl tr1 = (ds, tr1 @ [[''-l'', ''-v'']])" by (simp add: wslDistros_def wslOutput_def ds_def)
  have cmds: "cmds = tr4"
    using assms(1) 1 2 3 4 by (simp add: detectPrereqs_windows_def Let_def target_def [symmetric])
  have plain: "no_boot ds a" if "a \<in> set (tr1 @ [[''-l'', ''-v'']])" for a
    using that 1 by (auto simp: wslFeaturePresent_def wslOutput_def no_boot_def split: if_splits prod.splits)
  have inside: "no_boot ds (in_distro (wd_name d) @ ''-e'' # a)" if "target = Some d" "wd_running d" for d a
    using target_real [of ds d] distro_names [of d "wsl [''-l'', ''-v'']"] that
    by (auto simp: no_boot_def in_distro_def target_def ds_def [symmetric] numeral_3_eq_3)
  have "no_boot ds args"
    using docker_component_log [OF 3] toolkit_component_log [OF 4] plain inside assms(2)
    by (auto simp: cmds wslNativeDockerArgs_def)
  then show ?thesis by (simp add: wslDistros_def wslOutput_def ds_def)
qed

definition toy_wsl :: wsl where
  "toy_wsl args =
     (if args = [''-l'', ''-v''] then (''docker-desktop Running 2'' @ [CHR 0x0A] @ ''Ubuntu Running 2'', True)
      else if ''info'' \<in> set args then (''24.0|Ubuntu|host'', True) else ([], True))"

definition no_gpu :: gpu_info where
  "no_gpu = \<lparr>gi_available = False, gi_name = [], gi_vram_gb = 0, gi_cuda_support = False, gi_driver = [], gi_cuda = []\<rparr>"

theorem check_never_boots_wsl_witness:
  "list_all (no_boot (fst (wslDistros toy_wsl []))) (snd (detectPrereqs_windows True toy_wsl False no_gpu))
   \<and> length (snd (detectPrereqs_windows True toy_wsl False no_gpu)) = 4"
proof
  show "list_all (no_boot (fst (wslDistros toy_wsl []))) (snd (detectPrereqs_windows True toy_wsl False no_gpu))"
    using check_never_boots_wsl [of True toy_wsl False no_gpu "fst (detectPrereqs_windows True toy_wsl False no_gpu)"
        "snd (detectPrereqs_windows True toy_wsl False no_gpu)"] by (simp add: list_all_iff)
  show "length (snd (detectPrereqs_windows True toy_wsl False no_gpu)) = 4" by code_simp
qed

abbreviation target_of :: "wsl_distro list \<Rightarrow> wsl_distro option" where
  "target_of ds \<equiv> (case real_distros ds of [] \<Rightarrow> None | d # _ \<Rightarrow> Some d)"

lemma wslDistros_any: "fst (wslDistros wsl l) = fst (wslDistros wsl [])"
  by (simp add: wslDistros_def wslOutput_def)

text \<open>The components in the order in which they are reported.\<close>

lemma windows_components:
  assumes "detectPrereqs_windows look wsl exe gpu = ((comps, desktop), cmds)"
  defines "present \<equiv> fst (wslFeaturePresent look wsl [])" and "ds \<equiv> fst (wslDistros wsl [])"
  obtains c1 l l' where
    "comps = [c1, distro_component present (real_distros ds), fst (docker_component wsl present (target_of ds) l),
       fst (toolkit_component wsl present (target_of ds) l'), driverComponent gpu]" "pc_name c1 = PrereqWSL2"
proof -
  obtain p tr1 where 1: "wslFeaturePresent look wsl [] = (p, tr1)" by fastforce
  obtain ds' tr2 where 2: "wslDistros wsl tr1 = (ds', tr2)" by fastforce
  have [simp]: "ds' = ds" "p = present" using 1 2 wslDistros_any [of wsl tr1] by (simp_all add: ds_def present_def)
  obtain docker conflict tr3 where 3: "docker_component wsl present (target_of ds) tr2 = (docker, conflict, tr3)"
    by (metis prod.exhaust)
  obtain toolkit tr4 where 4: "toolkit_component wsl present (target_of ds) tr3 = (toolkit, tr4)" by fastforce
  show ?thesis
  proof
    show "pc_name (hd comps) = PrereqWSL2" using assms(1) 1 2 3 4 by (auto simp: detectPrereqs_windows_def Let_def comp_def)
    show "comps = [hd comps, distro_component present (real_distros ds), fst (docker_component wsl present (target_of ds) tr2),
       fst (toolkit_component wsl present (target_of ds) tr3), driverComponent gpu]"
      using assms(1) 1 2 3 4 by (auto simp: detectPrereqs_windows_def Let_def)
  qed
qed

lemma component_names [simp]:
  "pc_name (fst (docker_component wsl p t l)) = PrereqDocker" "pc_name (fst (toolkit_component wsl p t l)) = PrereqToolkit"
  "pc_name (driverComponent gpu) = PrereqDriver" "pc_name (distro_component p rds) = PrereqDistro"
  by (auto simp: docker_component_def toolkit_component_def driverComponent_def distro_component_def comp_def
      split: option.split prod.split)

lemma docker_component_ok:
  "pc_status (fst (docker_component wsl p t l)) = PrereqOK \<longleftrightarrow>
     p \<and> (\<exists>d ver. t = Some d \<and> wd_running d \<and> ver \<noteq> [] \<and> fst (dockerDaemonInWSL wsl (wd_name d) []) = (ver, False))"
proof (cases t)
  case (Some d)
  obtain ver isDesktop tr1 where d: "dockerDaemonInWSL wsl (wd_name d) l = ((ver, isDesktop), tr1)" by (metis prod.exhaust)
  moreover have "fst (dockerDaemonInWSL wsl (wd_name d) []) = fst (dockerDaemonInWSL wsl (wd_name d) l)"
    by (simp add: dockerDaemonInWSL_def wslOutput_def split: prod.split)
  ultimately show ?thesis by (simp add: Some docker_component_def comp_def)
qed (simp add: docker_component_def comp_def)

lemma join_before_comma:
  assumes "CHR '','' \<notin> set n"
  shows "(case index_byte (join '', '' (n # ns)) CHR '','' of None \<Rightarrow> join '', '' (n # ns) | Some i \<Rightarrow> take i (join '', '' (n # ns))) = n"
proof (cases ns)
  case Nil
  then show ?thesis using assms by (auto split: option.splits simp flip: index_byte_None)
next
  case (Cons m ms)
  then show ?thesis using index_byte_append [OF assms, of "'' '' @ join '', '' (m # ms)"] by simp
qed

text \<open>The distribution that the setup is told to use is empty or one of the listed ones and never one of
  Docker Desktop, as long as the names have no comma.
\<close>

theorem setup_avoids_docker_desktop:
  assumes "detectPrereqs_windows look wsl exe gpu = ((comps, desktop), cmds)"
    "\<forall>d\<in>set (fst (wslDistros wsl [])). CHR '','' \<notin> set (wd_name d)"
  shows "let n = WSLDistro (DetectPrereqs ''windows'' (comps, Some desktop)) in
     n = [] \<and> real_distros (fst (wslDistros wsl [])) = []
     \<or> (\<exists>d\<in>set (fst (wslDistros wsl [])). n = wd_name d \<and> n \<noteq> [] \<and> \<not> isDockerDesktopDistro n)"
proof -
  define ds where "ds = fst (wslDistros wsl [])"
  obtain c1 cs present where c: "comps = c1 # distro_component present (real_distros ds) # cs" "pc_name c1 = PrereqWSL2"
    and cs: "\<forall>c\<in>set cs. pc_name c \<noteq> PrereqDistro"
    by (rule windows_components [OF assms(1)]) (auto simp: ds_def)
  have none: "find (\<lambda>c. pc_name c = PrereqDistro \<and> pc_status c = PrereqOK) cs = None" using cs by (auto simp: find_None_iff)
  show ?thesis
  proof (cases "real_distros ds")
    case Nil
    then have "WSLDistro (DetectPrereqs ''windows'' (comps, Some desktop)) = []"
      using c none by (simp add: WSLDistro_def DetectPrereqs_def newPrereqStatus_def distro_component_def comp_def)
    with Nil show ?thesis by (simp add: ds_def)
  next
    case (Cons d rest)
    then have d: "d \<in> set ds" "\<not> isDockerDesktopDistro (wd_name d)" by (auto simp: real_distros_def filter_eq_Cons_iff)
    then have "CHR '','' \<notin> set (wd_name d)" using assms(2) by (simp add: ds_def)
    from join_before_comma [OF this, of "map wd_name rest"]
    have "WSLDistro (DetectPrereqs ''windows'' (comps, Some desktop)) = trim_space (wd_name d)"
      using c Cons by (simp add: WSLDistro_def DetectPrereqs_def newPrereqStatus_def distro_component_def comp_def
          cong: option.case_cong)
    moreover have "trim_space (wd_name d) = wd_name d" "wd_name d \<noteq> []"
      using distro_names [of d "wsl [''-l'', ''-v'']"] d(1) by (simp_all add: trim_space_id ds_def wslDistros_def wslOutput_def)
    ultimately show ?thesis using d by (auto simp: ds_def Let_def)
  qed
qed

theorem setup_avoids_docker_desktop_witness:
  "WSLDistro (DetectPrereqs ''windows'' (case detectPrereqs_windows True toy_wsl False no_gpu of ((comps, d), _) \<Rightarrow> (comps, Some d))) = ''Ubuntu''"
proof -
  obtain comps d cmds where r: "detectPrereqs_windows True toy_wsl False no_gpu = ((comps, d), cmds)" by (metis prod.exhaust)
  have "fst (wslDistros toy_wsl []) = [\<lparr>wd_name = ''docker-desktop'', wd_running = True\<rparr>, \<lparr>wd_name = ''Ubuntu'', wd_running = True\<rparr>]"
    by code_simp
  moreover have "isDockerDesktopDistro ''docker-desktop''" "real_distros [\<lparr>wd_name = ''docker-desktop'', wd_running = True\<rparr>,
      \<lparr>wd_name = ''Ubuntu'', wd_running = True\<rparr>] \<noteq> []" by code_simp+
  ultimately show ?thesis using setup_avoids_docker_desktop [OF r] by (auto simp: r Let_def)
qed

text \<open>On Windows the check reports a usable Docker exactly if WSL is there, the first distribution that is
  not Docker Desktop's runs, and the daemon on its socket answers with a version and is not Docker Desktop.
\<close>

theorem docker_ready_exact:
  assumes "detectPrereqs_windows look wsl exe gpu = ((comps, desktop), cmds)"
  shows "ps_docker_ready (DetectPrereqs ''windows'' (comps, Some desktop)) \<longleftrightarrow>
    fst (wslFeaturePresent look wsl [])
    \<and> (\<exists>d rest ver. real_distros (fst (wslDistros wsl [])) = d # rest \<and> wd_running d \<and> ver \<noteq> []
         \<and> fst (dockerDaemonInWSL wsl (wd_name d) []) = (ver, False))"
proof -
  obtain c1 l l' where c: "pc_name c1 = PrereqWSL2"
    "comps = [c1, distro_component (fst (wslFeaturePresent look wsl [])) (real_distros (fst (wslDistros wsl []))),
       fst (docker_component wsl (fst (wslFeaturePresent look wsl [])) (target_of (fst (wslDistros wsl []))) l),
       fst (toolkit_component wsl (fst (wslFeaturePresent look wsl [])) (target_of (fst (wslDistros wsl []))) l'), driverComponent gpu]"
    by (rule windows_components [OF assms])
  then have "ps_docker_ready (DetectPrereqs ''windows'' (comps, Some desktop)) \<longleftrightarrow>
     pc_status (fst (docker_component wsl (fst (wslFeaturePresent look wsl [])) (target_of (fst (wslDistros wsl []))) l)) = PrereqOK"
    by (simp add: DetectPrereqs_def newPrereqStatus_def)
  then show ?thesis unfolding docker_component_ok by (auto split: list.splits)
qed

theorem docker_ready_exact_witness:
  "ps_docker_ready (DetectPrereqs ''windows'' (case detectPrereqs_windows True toy_wsl False no_gpu of ((comps, d), _) \<Rightarrow> (comps, Some d)))"
proof -
  obtain comps d cmds where r: "detectPrereqs_windows True toy_wsl False no_gpu = ((comps, d), cmds)" by (metis prod.exhaust)
  have 1: "fst (wslFeaturePresent True toy_wsl [])" by code_simp
  have 2: "real_distros (fst (wslDistros toy_wsl [])) = \<lparr>wd_name = ''Ubuntu'', wd_running = True\<rparr> # []"
    "fst (dockerDaemonInWSL toy_wsl ''Ubuntu'' []) = (''24.0'', False)" by code_simp+
  from docker_ready_exact [OF r] 1 2 show ?thesis by (simp add: r)
qed

end
