(* ===== verification/Setup_Windows.thy ===== *)
theory Setup_Windows
  imports Setup_Node
begin

text \<open>
  The probes of a Windows node, \<^verbatim>\<open>pkg/setup/detect_windows.go\<close>, and the TPM behind the node identity,
  \<^verbatim>\<open>tpm.go\<close> with \<^verbatim>\<open>tpm_windows.go\<close> and \<^verbatim>\<open>tpm_linux.go\<close>. The output of \<^verbatim>\<open>wmic\<close> and \<^verbatim>\<open>nvidia-smi\<close>, the Windows
  calls, \<^verbatim>\<open>statfs\<close> and the TPM library are parameters; what is acquired from the TPM and released is logged.
\<close>

section \<open>The values of a report\<close>

text \<open>\<^verbatim>\<open>wmic ... /value\<close> prints lines \<^verbatim>\<open>Key=Value\<close>.\<close>

definition wmic_values :: "string \<Rightarrow> string \<Rightarrow> string list" where
  "wmic_values key out =
     map (\<lambda>l. trim_space (trim_prefix l key)) (filter (\<lambda>l. has_prefix l key) (map trim_space (split out CHR 0x0A)))"

definition fetchCPUProcessorID_windows :: "command \<Rightarrow> string" where
  "fetchCPUProcessorID_windows cmd =
     (case cmd [''wmic'', ''cpu'', ''get'', ''ProcessorId'', ''/value''] of None \<Rightarrow> ''unknown-cpu''
      | Some out \<Rightarrow> joined_ids ''unknown-cpu'' (filter (\<lambda>i. i \<noteq> []) (wmic_values ''ProcessorId='' out)))"

definition fetchGPUUUID_windows :: "command \<Rightarrow> string" where
  "fetchGPUUUID_windows cmd =
     (case cmd [''nvidia-smi'', ''--query-gpu=gpu_uuid'', ''--format=csv,noheader''] of None \<Rightarrow> ''no-gpu''
      | Some out \<Rightarrow> joined_ids ''no-gpu'' (filter (\<lambda>l. l \<noteq> []) (map trim_space (split out CHR 0x0A))))"

definition usable_uuid :: "string \<Rightarrow> bool" where
  "usable_uuid u \<longleftrightarrow> u \<noteq> [] \<and> u \<noteq> ''FFFFFFFF-FFFF-FFFF-FFFF-FFFFFFFFFFFF''"

definition fetchMainboardUUID_windows :: "command \<Rightarrow> string" where
  "fetchMainboardUUID_windows cmd =
     (case cmd [''wmic'', ''csproduct'', ''get'', ''UUID'', ''/value''] of None \<Rightarrow> []
      | Some out \<Rightarrow> (case find usable_uuid (wmic_values ''UUID='' out) of None \<Rightarrow> [] | Some u \<Rightarrow> u))"

text \<open>The first reading that is a positive number, in tenths of a kelvin.\<close>

fun thermal_zone :: "string list \<Rightarrow> int" where
  "thermal_zone [] = - 1"
| "thermal_zone (v # vs) =
     (case parse_int v of Some t \<Rightarrow> if t > 0 then quot (t - 2731) 10 else thermal_zone vs | None \<Rightarrow> thermal_zone vs)"

definition detectCPUsDynamic_windows :: "command \<Rightarrow> cpu_spec list" where
  "detectCPUsDynamic_windows cmd =
     [\<lparr>cpu_name = (case cmd [''wmic'', ''cpu'', ''get'', ''Name'', ''/value''] of None \<Rightarrow> []
                   | Some out \<Rightarrow> (case wmic_values ''Name='' out of [] \<Rightarrow> [] | n # _ \<Rightarrow> n)),
       cpu_cores = 0, cpu_clock_mhz = 0,
       cpu_temp_c = (case cmd [''wmic'', ''/namespace:'' @ replicate 2 CHR 0x5C @ ''root'' @ [CHR 0x5C] @ ''wmi'', ''PATH'',
                               ''MSAcpi_ThermalZoneTemperature'', ''get'', ''CurrentTemperature'', ''/value''] of None \<Rightarrow> - 1
                     | Some out \<Rightarrow> thermal_zone (wmic_values ''CurrentTemperature='' out))\<rparr>]"

text \<open>\<open>parse_float\<close> gives the number \<^verbatim>\<open>strconv.ParseFloat\<close> returns next to the ignored error.\<close>

definition detectCPUClock_windows :: "(string \<Rightarrow> rat) \<Rightarrow> command \<Rightarrow> rat" where
  "detectCPUClock_windows parse_float cmd =
     (case cmd [''wmic'', ''cpu'', ''get'', ''MaxClockSpeed'', ''/value''] of None \<Rightarrow> 0
      | Some out \<Rightarrow> (case wmic_values ''MaxClockSpeed='' out of [] \<Rightarrow> 0 | v # _ \<Rightarrow> parse_float v))"


section \<open>Memory and disk\<close>

text \<open>\<^verbatim>\<open>GlobalMemoryStatusEx\<close> fills in the structure or, when it fails, leaves it zero.\<close>

record memory_status =
  ms_total_phys :: "64 word"
  ms_avail_phys :: "64 word"

definition memoryStatusEx :: "memory_status option \<Rightarrow> memory_status" where
  "memoryStatusEx api = (case api of None \<Rightarrow> \<lparr>ms_total_phys = 0, ms_avail_phys = 0\<rparr> | Some m \<Rightarrow> m)"

definition detectMemoryWindows :: "float_ops \<Rightarrow> memory_status option \<Rightarrow> rat" where
  "detectMemoryWindows fo api = fo_bytes_gb fo (ms_total_phys (memoryStatusEx api))"

definition detectRAMFreeGB_windows :: "float_ops \<Rightarrow> memory_status option \<Rightarrow> rat" where
  "detectRAMFreeGB_windows fo api = fo_bytes_gb fo (ms_avail_phys (memoryStatusEx api))"

text \<open>A path with a NUL byte has no UTF-16 form; \<^const>\<open>None\<close> is the nil pointer, which stands for the current directory.\<close>

definition utf16_ptr :: "string \<Rightarrow> string option" where
  "utf16_ptr dir = (if CHR 0x00 \<in> set dir then None else Some dir)"

definition detectDisk_windows :: "float_ops \<Rightarrow> (string option \<Rightarrow> 64 word option) \<Rightarrow> string \<Rightarrow> rat" where
  "detectDisk_windows fo space dir =
     (if dir = [] then 0 else fo_bytes_gb fo (case space (utf16_ptr dir) of None \<Rightarrow> 0 | Some b \<Rightarrow> b))"

datatype disk_error = EmptyPath | BadUTF16 | SpaceFailed string

definition FreeDiskBytes_windows :: "(string option \<Rightarrow> 64 word option) \<Rightarrow> string \<Rightarrow> disk_error + 64 word" where
  "FreeDiskBytes_windows space dir =
     (if dir = [] then Inl EmptyPath
      else case utf16_ptr dir of None \<Rightarrow> Inl BadUTF16
      | Some p \<Rightarrow> (case space (Some p) of None \<Rightarrow> Inl (SpaceFailed dir) | Some b \<Rightarrow> Inr b))"

text \<open>On other systems: \<^verbatim>\<open>statfs\<close> gives the available blocks and their size.\<close>

definition FreeDiskBytes_linux :: "(string \<Rightarrow> (64 word \<times> 64 word) option) \<Rightarrow> string \<Rightarrow> disk_error + 64 word" where
  "FreeDiskBytes_linux statfs dir =
     (if dir = [] then Inl EmptyPath
      else case statfs dir of None \<Rightarrow> Inl (SpaceFailed dir) | Some (bavail, bsize) \<Rightarrow> Inr (bavail * bsize))"

definition hasCUDA12Runtime_windows :: "(string \<Rightarrow> bool) \<Rightarrow> bool" where
  "hasCUDA12Runtime_windows loads = loads ''cudart64_12.dll''"

definition DetectSystem_windows :: "string \<Rightarrow> (string \<Rightarrow> bool) \<Rightarrow> cpu_probe \<Rightarrow> command \<Rightarrow> system_info" where
  "DetectSystem_windows goarch loads cpu cmd =
     \<lparr>si_os = ''windows'', si_arch = goarch, si_cuda = (cmd [''nvidia-smi''] \<noteq> None \<and> hasCUDA12Runtime_windows loads),
      si_avx = cp_avx cpu, si_avx2 = cp_avx2 cpu, si_avx512 = cp_avx512 cpu\<rparr>"


section \<open>The TPM\<close>

datatype tpm_resource = Device | EK | SigningKey
datatype tpm_call = Acquire tpm_resource | Release tpm_resource
datatype tpm_error = OpenFailed | ReadEKFailed | MarshalFailed | CreateFailed | SignFailed | Untested

text \<open>An endorsement key: its public part and the certificate with the name of its issuer.\<close>

record 'pub ek_handle =
  ek_public :: 'pub
  ek_cert :: "(string \<times> string) option"

text \<open>What \<^verbatim>\<open>openTPM\<close>, \<^verbatim>\<open>readEK\<close> and \<^verbatim>\<open>decryptWithEK\<close> do on a platform.\<close>

record 'pub tpm_platform =
  tp_open :: bool
  tp_readEK :: "tpm_error + 'pub ek_handle"
  tp_decrypt :: "string \<Rightarrow> (tpm_error + string) \<times> tpm_call list"

text \<open>The TPM library of Windows.\<close>

record 'pub tpm_library =
  tl_open :: bool
  tl_ek :: "'pub ek_handle option"
  tl_create :: bool
  tl_sign :: "string \<Rightarrow> string option"

definition decryptWithEK_windows :: "(string \<Rightarrow> string) \<Rightarrow> 'pub tpm_library \<Rightarrow> string \<Rightarrow> (tpm_error + string) \<times> tpm_call list" where
  "decryptWithEK_windows sha256 L nonce =
     (if \<not> tl_create L then (Inl CreateFailed, [])
      else ((case tl_sign L (sha256 nonce) of None \<Rightarrow> Inl SignFailed | Some sig \<Rightarrow> Inr sig),
            [Acquire SigningKey, Release SigningKey]))"

definition tpm_windows :: "(string \<Rightarrow> string) \<Rightarrow> 'pub tpm_library \<Rightarrow> 'pub tpm_platform" where
  "tpm_windows sha256 L =
     \<lparr>tp_open = tl_open L, tp_readEK = (case tl_ek L of None \<Rightarrow> Inl ReadEKFailed | Some ek \<Rightarrow> Inr ek),
      tp_decrypt = decryptWithEK_windows sha256 L\<rparr>"

text \<open>On Linux the device is opened (\<open>opens\<close> tells which devices can be), and then nothing is implemented.\<close>

definition openTPM_linux :: "(string \<Rightarrow> bool) \<Rightarrow> bool" where
  "openTPM_linux opens = list_ex opens [''/dev/tpmrm0'', ''/dev/tpm0'']"

definition readEK_linux :: "tpm_error + 'pub ek_handle" where
  "readEK_linux = Inl Untested"

definition decryptWithEK_linux :: "string \<Rightarrow> (tpm_error + string) \<times> tpm_call list" where
  "decryptWithEK_linux blob = (Inl Untested, [])"

definition tpm_linux :: "(string \<Rightarrow> bool) \<Rightarrow> 'pub tpm_platform" where
  "tpm_linux opens = \<lparr>tp_open = openTPM_linux opens, tp_readEK = readEK_linux, tp_decrypt = decryptWithEK_linux\<rparr>"

definition ReadTPMInfo ::
  "(string \<Rightarrow> string) \<Rightarrow> ('pub \<Rightarrow> string option) \<Rightarrow> 'pub tpm_platform \<Rightarrow> (tpm_error + tpm_info) \<times> tpm_call list" where
  "ReadTPMInfo sha256 marshal P =
     (if \<not> tp_open P then (Inl OpenFailed, [])
      else case tp_readEK P of
        Inl e \<Rightarrow> (Inl e, [Acquire Device, Release Device])
      | Inr ek \<Rightarrow>
          ((case marshal (ek_public ek) of
              None \<Rightarrow> Inl MarshalFailed
            | Some der \<Rightarrow>
                let cert = (case ek_cert ek of None \<Rightarrow> ([], []) | Some c \<Rightarrow> c) in
                Inr \<lparr>ti_fingerprint = hex_encode (sha256 der), ti_cert = fst cert, ti_issuer = snd cert\<rparr>),
           [Acquire Device, Acquire EK, Release EK, Release Device]))"

definition SignWithTPM :: "'pub tpm_platform \<Rightarrow> string \<Rightarrow> (tpm_error + string) \<times> tpm_call list" where
  "SignWithTPM P nonce =
     (if \<not> tp_open P then (Inl OpenFailed, [])
      else case tp_decrypt P nonce of (r, calls) \<Rightarrow> (r, Acquire Device # calls @ [Release Device]))"

definition ReadAKPublicHash_windows ::
  "(string \<Rightarrow> string) \<Rightarrow> ('pub \<Rightarrow> string option) \<Rightarrow> 'pub tpm_library \<Rightarrow> (tpm_error + string) \<times> tpm_call list" where
  "ReadAKPublicHash_windows sha256 marshal L =
     (if \<not> tl_open L then (Inl OpenFailed, [])
      else case tl_ek L of None \<Rightarrow> (Inl ReadEKFailed, [Acquire Device, Release Device])
      | Some ek \<Rightarrow> ((case marshal (ek_public ek) of None \<Rightarrow> Inl MarshalFailed | Some der \<Rightarrow> Inr (sha256 der)),
                     [Acquire Device, Acquire EK, Release EK, Release Device]))"

definition ReadAKPublicHash_linux :: "tpm_error + string" where
  "ReadAKPublicHash_linux = Inl Untested"

text \<open>The identity with the TPM of the platform: an error of the TPM is the fallback to the GPUs.\<close>

definition tpm_option :: "(tpm_error + tpm_info) \<times> tpm_call list \<Rightarrow> tpm_info option" where
  "tpm_option r = (case fst r of Inl _ \<Rightarrow> None | Inr t \<Rightarrow> Some t)"

definition node_identity_windows ::
  "(string \<Rightarrow> string) \<Rightarrow> ('pub \<Rightarrow> string option) \<Rightarrow> 'k key_ops \<Rightarrow> 'pub tpm_library \<Rightarrow> command \<Rightarrow> 'k node_identity option" where
  "node_identity_windows sha256 marshal ko L cmd =
     identity_from ko (tpm_option (ReadTPMInfo sha256 marshal (tpm_windows sha256 L)))
       (fetchMainboardUUID_windows cmd) (fetchGPUUUID_windows cmd)"

definition node_identity_linux ::
  "(string \<Rightarrow> string) \<Rightarrow> ('pub \<Rightarrow> string option) \<Rightarrow> 'k key_ops \<Rightarrow> (string \<Rightarrow> bool) \<Rightarrow> command \<Rightarrow> 'k node_identity option" where
  "node_identity_linux sha256 marshal ko opens cmd =
     DeriveNodeIdentity ko (tpm_option (ReadTPMInfo sha256 marshal (tpm_linux opens))) cmd"

text \<open>Signing with the key of an identity, by the crypto library.\<close>

definition Sign :: "('k, 'pub) eth \<Rightarrow> 'k node_identity \<Rightarrow> string \<Rightarrow> string option" where
  "Sign E n msgHash = crypto_sign E msgHash (ni_key n)"

definition PrivateKeyHex :: "('k \<Rightarrow> string) \<Rightarrow> 'k node_identity \<Rightarrow> string" where
  "PrivateKeyHex from_ecdsa n = hex_encode (from_ecdsa (ni_key n))"


section \<open>Reading a report\<close>

text \<open>The report as \<^verbatim>\<open>wmic\<close> prints it into a pipe: each line ends with two carriage returns and a newline, a value comes after two
  empty lines.\<close>

definition wmic_eol :: string where
  "wmic_eol = [CHR 0x0D, CHR 0x0D, CHR 0x0A]"

definition wmic_text :: "string \<Rightarrow> string list \<Rightarrow> string" where
  "wmic_text key vs = concat (map (\<lambda>v. wmic_eol @ wmic_eol @ key @ v @ wmic_eol) vs)"

definition wmic_value :: "string \<Rightarrow> bool" where
  "wmic_value v \<longleftrightarrow> trimmed v \<and> CHR 0x0A \<notin> set v"

lemma trim_right_spaces: "\<forall>c\<in>set ws. is_space c \<Longrightarrow> trim_right is_space (s @ ws) = trim_right is_space s"
  unfolding trim_right_def rev_append by (subst dropWhile_append2) auto

lemma trim_trimmed_spaces:
  assumes "trimmed s" "\<forall>c\<in>set ws. is_space c"
  shows "trim_space (s @ ws) = s"
proof -
  have "trim_left is_space (s @ ws) = s @ ws" using assms(1) by (intro trim_left_id) (simp add: trimmed_def)
  then show ?thesis using assms by (simp add: trim_space_def trim_right_spaces trim_right_id trimmed_def)
qed

lemma trim_spaces_only: "\<forall>c\<in>set ws. is_space c \<Longrightarrow> trim_space ws = []"
proof -
  assume "\<forall>c\<in>set ws. is_space c"
  then have "dropWhile is_space ws = []" by simp
  then show ?thesis by (simp only: trim_space_def trim_left_def trim_right_Nil)
qed

lemma cr_space [simp]: "is_space CHR 0x0D" "is_space CHR 0x0A"
  by (simp_all add: is_space_def)

lemma wmic_values_text:
  assumes "\<forall>v\<in>set vs. wmic_value v" "trimmed key" "CHR 0x0A \<notin> set key"
  shows "wmic_values key (wmic_text key vs) = vs"
  using assms(1)
proof (induction vs)
  case Nil
  have "\<not> has_prefix [] key" using assms(2) by (auto simp: has_prefix_def trimmed_def)
  then show ?case by (simp add: wmic_values_def wmic_text_def split_none trim_space_def trim_left_def)
next
  case (Cons v vs)
  have v: "trimmed v" "CHR 0x0A \<notin> set v" using Cons.prems by (auto simp: wmic_value_def)
  have e: "\<not> has_prefix [] key" using assms(2) by (auto simp: has_prefix_def trimmed_def)
  have t: "trim_space (key @ v @ [CHR 0x0D, CHR 0x0D]) = key @ v"
    using trim_trimmed_spaces [of "key @ v" "[CHR 0x0D, CHR 0x0D]"] assms(2) v(1) by (simp add: trimmed_def)
  let ?cr = "[CHR 0x0D, CHR 0x0D]"
  have c: "trim_space ?cr = []" by (rule trim_spaces_only) simp
  have "wmic_text key (v # vs) = ?cr @ CHR 0x0A # (?cr @ CHR 0x0A # ((key @ v @ ?cr) @ CHR 0x0A # wmic_text key vs))"
    by (simp add: wmic_text_def wmic_eol_def)
  moreover have "CHR 0x0A \<notin> set ?cr" "CHR 0x0A \<notin> set (key @ v @ ?cr)" using assms(3) v(2) by simp_all
  ultimately have "split (wmic_text key (v # vs)) CHR 0x0A = ?cr # ?cr # (key @ v @ ?cr) # split (wmic_text key vs) CHR 0x0A"
    by (simp add: Go_Prelude.split_append del: append.simps append_assoc)
  then have "wmic_values key (wmic_text key (v # vs)) = trim_space v # wmic_values key (wmic_text key vs)"
    using e by (simp add: wmic_values_def t c)
  then show ?case using Cons v(1) by (simp add: trimmed_trim)
qed

text \<open>Acquired and released in the order of a stack.\<close>

fun bracketed :: "tpm_resource list \<Rightarrow> tpm_call list \<Rightarrow> bool" where
  "bracketed st [] \<longleftrightarrow> st = []"
| "bracketed st (Acquire r # cs) \<longleftrightarrow> bracketed (r # st) cs"
| "bracketed st (Release r # cs) \<longleftrightarrow> (case st of [] \<Rightarrow> False | r' # st' \<Rightarrow> r = r' \<and> bracketed st' cs)"


section \<open>Properties\<close>

text \<open>Whatever fails, the TPM is left as it was found: every call that reads the endorsement key or signs releases exactly what it
  acquired, the last first, on Windows and on Linux.\<close>

theorem tpm_released:
  "bracketed [] (snd (ReadTPMInfo sha256 marshal (tpm_windows sha256 L)))
   \<and> bracketed [] (snd (SignWithTPM (tpm_windows sha256 L) nonce))
   \<and> bracketed [] (snd (ReadAKPublicHash_windows sha256 marshal L))
   \<and> bracketed [] (snd (ReadTPMInfo sha256 marshal (tpm_linux opens)))
   \<and> bracketed [] (snd (SignWithTPM (tpm_linux opens) nonce))"
  by (simp add: ReadTPMInfo_def SignWithTPM_def ReadAKPublicHash_windows_def tpm_windows_def tpm_linux_def
      decryptWithEK_windows_def decryptWithEK_linux_def readEK_linux_def split: sum.split option.split)

lemma linux_tpm_none: "tpm_option (ReadTPMInfo sha256 marshal (tpm_linux opens)) = None"
  by (simp add: tpm_option_def ReadTPMInfo_def tpm_linux_def readEK_linux_def)

lemma fetchGPUUUID_same: "fetchGPUUUID_windows cmd = fetchGPUUUID cmd"
  by (simp add: fetchGPUUUID_windows_def fetchGPUUUID_def gpu_uuid_query_def)

text \<open>A machine has one identity under both systems. When \<^verbatim>\<open>wmic\<close> and \<^verbatim>\<open>dmidecode\<close> report the same usable system UUID and
  \<^verbatim>\<open>nvidia-smi\<close> the same GPUs in any order, a Windows node without a TPM and a Linux node, with or without one,
  derive the same key and address.\<close>

theorem identity_across_systems:
  assumes "cmdW [''wmic'', ''csproduct'', ''get'', ''UUID'', ''/value''] = Some (wmic_text ''UUID='' [u])"
    "cmdL [''dmidecode'', ''-s'', ''system-uuid''] = Some (u @ [CHR 0x0A])"
    "wmic_value u" "usable_uuid u" "\<not> has_prefix u ''Not''"
    "cmdW gpu_uuid_query = Some (join [CHR 0x0A] gs)" "cmdL gpu_uuid_query = Some (join [CHR 0x0A] gs')" "mset gs = mset gs'"
    "\<forall>g\<in>set gs. CHR 0x0A \<notin> set g" "gs \<noteq> []" "\<not> tl_open L"
  shows "node_identity_windows sha256 marshal ko L cmdW = node_identity_linux sha256 marshal ko opens cmdL"
proof -
  have "wmic_values ''UUID='' (wmic_text ''UUID='' [u]) = [u]"
    using assms(3) by (intro wmic_values_text) (auto simp: trimmed_def is_space_def)
  then have w: "fetchMainboardUUID_windows cmdW = u" using assms(1,4) by (simp add: fetchMainboardUUID_windows_def)
  have "u \<noteq> ''Not Settable''" using assms(5) by (auto simp: has_prefix_def)
  then have l: "fetchMainboardUUID cmdL = u"
    using assms(2-5) by (simp add: fetchMainboardUUID_def trimmed_newline wmic_value_def usable_uuid_def Let_def)
  have "gs' \<noteq> []" "\<forall>g\<in>set gs'. CHR 0x0A \<notin> set g" using assms(8-10) by (auto dest: mset_eq_setD)
  then have "split (join [CHR 0x0A] gs) CHR 0x0A = gs" "split (join [CHR 0x0A] gs') CHR 0x0A = gs'"
    using assms(9,10) by (simp_all add: split_join)
  then have "fetchGPUUUID cmdW = fetchGPUUUID cmdL"
    using joined_ids_mset [OF uuids_mset [of "join [CHR 0x0A] gs" "join [CHR 0x0A] gs'"]] assms(6-8) by (simp add: fetchGPUUUID_def)
  moreover have "tpm_option (ReadTPMInfo sha256 marshal (tpm_windows sha256 L)) = None"
    using assms(11) by (simp add: tpm_option_def ReadTPMInfo_def tpm_windows_def)
  ultimately show ?thesis
    by (simp add: node_identity_windows_def node_identity_linux_def DeriveNodeIdentity_def linux_tpm_none w l fetchGPUUUID_same)
qed


definition toy_uuid :: string where "toy_uuid = ''4c4c4544''"

definition toy_windows_cmd :: command where
  "toy_windows_cmd argv =
     (if argv = [''wmic'', ''csproduct'', ''get'', ''UUID'', ''/value''] then Some (wmic_text ''UUID='' [toy_uuid])
      else if argv = gpu_uuid_query then Some (join [CHR 0x0A] [''GPU-b'', ''GPU-a'']) else None)"

definition toy_linux_cmd :: command where
  "toy_linux_cmd argv =
     (if argv = [''dmidecode'', ''-s'', ''system-uuid''] then Some (toy_uuid @ [CHR 0x0A])
      else if argv = gpu_uuid_query then Some (join [CHR 0x0A] [''GPU-a'', ''GPU-b'']) else None)"

definition toy_no_tpm :: "string tpm_library" where
  "toy_no_tpm = \<lparr>tl_open = False, tl_ek = None, tl_create = False, tl_sign = (\<lambda>_. None)\<rparr>"

theorem identity_across_systems_witness:
  "node_identity_windows id Some toy_keys toy_no_tpm toy_windows_cmd = node_identity_linux id Some toy_keys (\<lambda>_. True) toy_linux_cmd"
proof (rule identity_across_systems [where u = toy_uuid and gs = "[''GPU-b'', ''GPU-a'']" and gs' = "[''GPU-a'', ''GPU-b'']"])
  show "wmic_value toy_uuid" "usable_uuid toy_uuid" "\<not> has_prefix toy_uuid ''Not''" by code_simp+
qed (simp_all add: toy_windows_cmd_def toy_linux_cmd_def gpu_uuid_query_def toy_no_tpm_def)

text \<open>The processor id of a Windows node is its processors' ids, sorted, however many line ends \<^verbatim>\<open>wmic\<close> prints and in
  whichever order.\<close>

theorem processor_ids_sorted:
  assumes "cmd [''wmic'', ''cpu'', ''get'', ''ProcessorId'', ''/value''] = Some (wmic_text ''ProcessorId='' ids)"
    "\<forall>i\<in>set ids. wmic_value i" "ids \<noteq> []"
  shows "fetchCPUProcessorID_windows cmd = join '':'' (sort ids)"
proof -
  have "wmic_values ''ProcessorId='' (wmic_text ''ProcessorId='' ids) = ids"
    using assms(2) by (intro wmic_values_text) (auto simp: trimmed_def is_space_def)
  moreover have "filter (\<lambda>i. i \<noteq> []) ids = ids" using assms(2) by (auto simp: filter_id_conv wmic_value_def trimmed_def)
  ultimately show ?thesis using assms(1,3) by (simp add: fetchCPUProcessorID_windows_def joined_ids_def)
qed

theorem processor_ids_sorted_witness:
  "fetchCPUProcessorID_windows (\<lambda>argv. if argv = [''wmic'', ''cpu'', ''get'', ''ProcessorId'', ''/value'']
      then Some (wmic_text ''ProcessorId='' [''B2'', ''A1'']) else None) = join '':'' (sort [''B2'', ''A1''])"
  by (rule processor_ids_sorted) (simp_all add: wmic_value_def trimmed_def is_space_def)

text \<open>The thermal zone: a reading in the range of the sensor gives the temperature in whole degrees, rounded towards zero, and
  a failing probe gives \<open>- 1\<close>, which a reading of a machine just below freezing gives too.\<close>

theorem thermal_zone_degrees:
  assumes "int64_ok t" "0 < t"
  shows "thermal_zone [format_int t] = (if t \<ge> 2731 then (t - 2731) div 10 else - ((2731 - t) div 10))
    \<and> (thermal_zone [format_int t] = - 1 \<longleftrightarrow> 2711 < t \<and> t \<le> 2721)"
proof -
  have "thermal_zone [format_int t] = quot (t - 2731) 10" using assms by simp
  moreover have "quot (t - 2731) 10 = (if t \<ge> 2731 then (t - 2731) div 10 else - ((2731 - t) div 10))"
    by (simp add: quot_def)
  moreover have "(if t \<ge> 2731 then (t - 2731) div 10 else - ((2731 - t) div 10)) = - 1 \<longleftrightarrow> 2711 < t \<and> t \<le> 2721"
    by (cases "t \<ge> 2731"; simp; presburger)
  ultimately show ?thesis by presburger
qed

theorem thermal_zone_degrees_witness: "thermal_zone [format_int 3032] = 30 \<and> thermal_zone [format_int 2720] = - 1"
  using thermal_zone_degrees [of 3032] thermal_zone_degrees [of 2720] by (simp add: int64_ok_def)

end
