(* ===== verification/Spec2Isabelle.thy ===== *)
theory Spec2Isabelle
  imports Grants RV_Directory Control_Link Recipe_Syntax Market_Access Server_Boot Log_Console
    Tunnel_Session Tunnel_Admin Tunnel_Metrics Tunnel_Mux Setup_Gate Setup_Prereq Setup_Windows
begin

text \<open>
  A verification development of the isann servers.

  \<^bold>\<open>The program.\<close> Nodes register with a \<^emph>\<open>rendezvous\<close> server (\<^verbatim>\<open>pkg/rendezvous\<close>, \<^verbatim>\<open>cmd/rendezvous\<close>) over a
  framed TCP control connection, send it heartbeats and metrics, and ask it to connect them to each
  other; clients read its node directory over HTTP. A \<^emph>\<open>market\<close> (\<^verbatim>\<open>pkg/market\<close>) stores recipes that authors
  publish with Ethereum signatures. A \<^emph>\<open>recipe\<close> (\<^verbatim>\<open>pkg/recipe\<close>) is a script that installs and configures
  engines. The packages \<^verbatim>\<open>tunnel\<close>, \<^verbatim>\<open>glog\<close>, \<^verbatim>\<open>setup\<close>, \<^verbatim>\<open>auth\<close>, \<^verbatim>\<open>signal\<close> and \<^verbatim>\<open>certgen\<close> are shared by the binaries of a
  node: the client of the control connection, configuration, administration, logging, the
  installation of engine binaries, the detection of the machine and its identity.

  \<^bold>\<open>Foundations.\<close>
  \<^item> \<open>Go_Prelude\<close>: strings, numbers, maps and time of Go; the fact collections; the locale \<open>stepped\<close> of a
    state with steps that keep an invariant, interpreted by the components that have such a state.
  \<^item> \<open>Go_Path\<close> and \<open>Go_FS\<close>: \<^verbatim>\<open>path/filepath\<close> and the part of \<^verbatim>\<open>os\<close> that the code uses, on a file system of
    directories and regular files.

  \<^bold>\<open>Wire formats and signatures.\<close>
  \<^item> \<open>Wire_Codec\<close>: the frames of \<^verbatim>\<open>signal/proto.go\<close> and \<^verbatim>\<open>tunnel/isannd_client.go\<close>, the signed digests of
    \<^verbatim>\<open>tunnel/session.go\<close>. A stream of frames is read back, over any way the bytes are delivered; a reader
    returns exactly what is complete; a digest binds its fields.
  \<^item> \<open>Eth_Auth\<close>: \<^verbatim>\<open>auth/ethereum.go\<close>, \<^verbatim>\<open>auth/routes.go\<close>: canonical requests, recovery of the signer, route levels.
  \<^item> \<open>Grants\<close>: \<^verbatim>\<open>tunnel/rendezvous.go\<close>, \<^verbatim>\<open>tunnel/access.go\<close>: credentials and access tokens, round trips and the
    separation of the two kinds of message.

  \<^bold>\<open>Rendezvous.\<close>
  \<^item> \<open>RV_Data\<close>: messages, hardware and registry entries; hash, split and merge of hardware reports.
  \<^item> \<open>RV_Verify\<close>: \<^verbatim>\<open>session.go\<close>, \<^verbatim>\<open>rv_auth.go\<close>: what a register and a ping signature prove, admission by issuers.
  \<^item> \<open>RV_Policy\<close>: cadence, status, purge times, counters and the request limiter of \<^verbatim>\<open>server.go\<close>, the
    configuration of \<^verbatim>\<open>cmd/rendezvous/main.go\<close>.
  \<^item> \<open>RV_Registry\<close>: \<^verbatim>\<open>control_tcp.go\<close>, \<^verbatim>\<open>heartbeat.go\<close>, \<^verbatim>\<open>lifecycle.go\<close>, \<^verbatim>\<open>punch_udp.go\<close>: every handler as a step of the server
    state. The counters agree with the registry, a connection only changes its own node, a full
    register is checked, a node that pings survives, a reconnect wins over the old connection, a
    punch packet cannot redirect another node.
  \<^item> \<open>Control_Link\<close>: the accept loop and \<^verbatim>\<open>handleControlConn\<close> on bytes, one goroutine per connection. Every interleaving (an
    \<^verbatim>\<open>inductive\<close> step relation) refines the steps of \<open>RV_Registry\<close>; with the client of \<open>Tunnel_Client\<close> at the other end, what it sends
    touches its own node only, a register reaches the registry, and a node learns that the server was restarted.
  \<^item> \<open>Server_Boot\<close>: \<^verbatim>\<open>cmd/rendezvous/main.go\<close>, \<^verbatim>\<open>cmd/market/main.go\<close> and the \<^verbatim>\<open>Run\<close> methods: what a server that starts is guaranteed to have.
  \<^item> \<open>RV_Directory\<close>: the read endpoints; the directory lists exactly the entries that match.

  \<^bold>\<open>Recipes.\<close>
  \<^item> \<open>Recipe_Parser\<close>, \<open>Recipe_Syntax\<close>: \<^verbatim>\<open>parser.go\<close>: tokenizer, blocks, includes. What is parsed is well-formed,
    printing is inverted, and the parse ends and succeeds exactly on sound, acyclic includes. The recursion over includes
    is bounded by the set of files that are not open yet, so it is total without fuel.
  \<^item> \<open>Recipe_Runtime\<close>, \<open>Recipe_Semantics\<close>: \<^verbatim>\<open>runtime.go\<close>, \<^verbatim>\<open>expand.go\<close>, \<^verbatim>\<open>requires.go\<close>: the run over a branch stack implements
    nested conditionals, and never starts a nested installation.

  \<^bold>\<open>Market.\<close>
  \<^item> \<open>Market_Store\<close>: \<^verbatim>\<open>sqlstore.go\<close> on tables as lists: consistency, immutability of versions, listings.
  \<^item> \<open>Market_Schema\<close>: the tables that \<^verbatim>\<open>migrate\<close> declares for SQLite and MySQL. The dialects agree, the rows of \<open>Market_Store\<close> obey the
    declared constraints, and a migration can be interrupted and repeated.
  \<^item> \<open>Market_Server\<close>, \<open>Market_Safety\<close>, \<open>Market_Access\<close>: \<^verbatim>\<open>server.go\<close>, \<^verbatim>\<open>auth_write.go\<close>, \<^verbatim>\<open>recipe_meta.go\<close> and the rest: every write is
    signed by the author, no signed request is accepted twice, private assets are served to their
    author only, a served recipe has its announced hash.

  \<^bold>\<open>Node.\<close>
  \<^item> \<open>Log_Ring\<close>, \<open>Log_Files\<close>: \<^verbatim>\<open>glog\<close>: the ring buffer under every interleaving (an \<^verbatim>\<open>inductive\<close> step relation)
    refines the list of recent lines; the rotating file refines a log by day; event lines.
  \<^item> \<open>Log_Console\<close>: \<^verbatim>\<open>console_windows.go\<close>, \<^verbatim>\<open>console_other.go\<close>: line ends on the console.
  \<^item> \<open>Tunnel_Client\<close>: \<^verbatim>\<open>tunnel/isannd_client.go\<close>: what the server reads is what was sent, by one node; a request to
    register again is reported once.
  \<^item> \<open>Tunnel_Session\<close>, \<open>Tunnel_Config\<close>, \<open>Tunnel_Admin\<close>: \<^verbatim>\<open>session.go\<close>, \<^verbatim>\<open>config.go\<close>, \<^verbatim>\<open>runtime.go\<close>, \<^verbatim>\<open>base.go\<close>, \<^verbatim>\<open>admin.go\<close>: sessions and
    their cache, the search of the root (at most twelve directories), configuration files, the
    endpoints for configuration and logs.
  \<^item> \<open>Tunnel_Metrics\<close>, \<open>Tunnel_Mux\<close>: \<^verbatim>\<open>prometheus.go\<close>, \<^verbatim>\<open>mux.go\<close>, \<^verbatim>\<open>webdav.go\<close>: aggregation of engine metrics, dispatch of packets.
  \<^item> \<open>Setup_Archive\<close>, \<open>Setup_Assets\<close>: \<^verbatim>\<open>setup.go\<close>, \<^verbatim>\<open>github.go\<close>, \<^verbatim>\<open>filehash.go\<close>, \<^verbatim>\<open>project_sd.go\<close>, \<^verbatim>\<open>project_llama.go\<close>: extraction stays in
    its directory if the names have no parent components and stores the bytes of every entry; the
    contract of an asset selection is a locale, interpreted on both projects.
  \<^item> \<open>Setup_Node\<close>, \<open>Setup_Prereq\<close>: \<^verbatim>\<open>detect.go\<close>, \<^verbatim>\<open>detect_linux.go\<close>, \<^verbatim>\<open>nodeid.go\<close>, \<^verbatim>\<open>prereq*.go\<close>: reading the reports of the system, the
    node identity, and a check of prerequisites that never starts a stopped distribution.
  \<^item> \<open>Setup_Windows\<close>: \<^verbatim>\<open>detect_windows.go\<close>, \<^verbatim>\<open>tpm*.go\<close>: the probes of a Windows node and the TPM: what is acquired is released, and a
    machine has one identity under both systems.
  \<^item> \<open>Setup_Gate\<close>: what an installation leaves (\<^verbatim>\<open>setup.go\<close>), its progress display, and the hardware check of a recipe
    (\<^verbatim>\<open>recipe/requires.go\<close>) from the report of the driver to the verdict.
  \<^item> \<open>Cert_Gen\<close>: \<^verbatim>\<open>certgen.go\<close>.

  This theory ends with the property that joins the identity of a machine with the registry of the server.

  \<^bold>\<open>Interfaces.\<close> The contracts are locales, each interpreted on the definitions of the model: \<open>guarded_steps\<close> (an
  invariant kept by every operation that passes a guard), which \<open>stepped\<close> (no guard, from a start) specialises and \<open>recipe_store\<close> (versions that stay
  as published) extends; \<open>delimited\<close> (encodings that can be cut off the front of a text), \<open>grant_message\<close> (a message and its
  parser), \<open>asset_selection\<close>, \<open>byte_sink\<close> (an \<^verbatim>\<open>io.Writer\<close> that takes a write whole or not at all).

  \<^bold>\<open>Conventions.\<close> A struct is a record, a Go map an association list with distinct keys, a pointer that may
  be nil an option, an error a constructor of a datatype; handlers take and return the state. 64-bit
  arithmetic wraps where it can overflow (\<open>wrap64\<close>, words for hashes and sizes). Time is a number of
  nanoseconds given to each operation. Locked sections are atomic; where the order of sections of
  several goroutines matters they are separate steps. Loops are structural recursions or have a
  termination proof. Fuel is used twice: the length of a text when its runes are decoded (\<open>RV_Verify\<close>), enough since every
  rune takes a byte, and the number of frames to read from a stream (\<open>read_stream\<close> of \<open>Wire_Codec\<close>), where \<open>Control_Link\<close> shows that
  more than the length of the stream gives the frames of the reader without fuel. Code outside the repository is an argument: Ethereum
  cryptography, SHA-256, JSON and YAML, archive readers, HTTP, the outputs of programs, the TPM, the
  arithmetic of floats. What a theorem needs of it is a hypothesis of that theorem.

  \<^bold>\<open>Not modelled.\<close> The sockets below a listener (binding and accepting, keep-alive, signals), the queries of the MySQL
  dialect, JSON encoding and HTTP headers of responses, the WebDAV handler of the library, log texts, version and job
  constants.
\<close>

section \<open>From the machine to the registry\<close>

lemma identity_key_address:
  assumes "node_identity_windows sha256 marshal ko L cmd = Some n \<or> node_identity_linux sha256 marshal ko opens cmd = Some n"
  shows "ni_address n = ko_address ko (ni_key n)"
  using assms
  by (auto simp: node_identity_windows_def node_identity_linux_def DeriveNodeIdentity_def identity_from_def Let_def
      split: option.splits if_splits)

text \<open>C39. The identity that a machine derives is one the rendezvous server accepts. Whatever system it runs and wherever its key comes from
  (TPM or GPUs), a full register under a role prefix and the derived address, signed by \<^verbatim>\<open>NodeIdentity.Sign\<close> over the register digest
  with a clock within 60 s of the server's, is stored in the registry and acknowledged, given an admitted credential in
  protected mode. The hypotheses on the crypto library are those of its documentation: a signature recovers to its
  signer, and the printed address of a key is a valid address that reads back.\<close>

theorem identity_registers:
  assumes "node_identity_windows sha256 marshal ko L cmd = Some n \<or> node_identity_linux sha256 marshal ko opens cmd = Some n"
    "eth_signs (ev_eth V)"
    "\<forall>k. is_hex_address (ev_eth V) (ko_address ko k) \<and>
       hex_to_address (ev_eth V) (ko_address ko k) = pubkey_to_address (ev_eth V) (public_key (ev_eth V) k)"
    "m_type m = TypeRegister" "m_full_sync m" "m_id m = r @ '':'' @ ni_address n" "CHR '':'' \<notin> set r"
    "Sign (ev_eth V) n (node_digest V m) = Some (m_signature m)"
    "m_timestamp_ms m \<noteq> 0" "int64_ok (m_timestamp_ms m)" "0 \<le> unix_milli now" "unix_milli now < 2 ^ 62"
    "\<bar>unix_milli now - m_timestamp_ms m\<bar> \<le> 60000"
    "modeProtected (s_mode S) \<longrightarrow> admitRegister (ev_eth V) (s_issuers S) now m = None" "cc_node_id cc = m_id m"
  shows "\<exists>p. mget (st_proxies (handleFrame V S now cc m st)) (nodeKey (m_id m)) = Some p \<and> p_last_seen p = now \<and>
     p_role p = m_role m \<and> st_out (handleFrame V S now cc m st) = st_out st @ [(cc_conn cc, register_ack S cc)]"
proof -
  have "ni_address n = ko_address ko (ni_key n)" by (rule identity_key_address [OF assms(1)])
  then have "addrFromNodeID (ev_eth V) (m_id m) = Some (pubkey_to_address (ev_eth V) (public_key (ev_eth V) (ni_key n)))"
    using assms(3,6) addrFromNodeID_role [OF assms(7), of "ev_eth V" "ni_address n"] by simp
  then have "register_reject V S now cc m = None"
    using honest_register_verifies [OF assms(2) _ _ assms(9-13)] assms(5,8,14,15) by (simp add: register_reject_def Sign_def)
  then show ?thesis using assms(4,15)
    by (simp add: handleFrame_def applyRegister_def sendFrame_def Let_def mget_put register_entry_def)
qed

definition toy_machine_keys :: "char key_ops" where
  "toy_machine_keys = \<lparr>ko_hkdf = (\<lambda>s salt. s @ salt), ko_to_ecdsa = (\<lambda>s. Some CHR ''k''),
     ko_address = (\<lambda>k. address_hex toy_eth (replicate 20 k))\<rparr>"

theorem identity_registers_witness:
  "\<exists>n p. node_identity_linux id (\<lambda>_ :: unit. None) toy_machine_keys (\<lambda>_. False) (Setup_Node.toy_cmd ''GPU-1'') = Some n \<and>
     ni_address n = drop 2 toy_node \<and>
     mget (st_proxies (handleFrame toy_env (toy_settings\<lparr>s_mode := ''public''\<rparr>) toy_now
        (hello_conn toy_now 1 toy_remote toy_first) toy_register RV_Registry.NewServer)) (nodeKey toy_node) = Some p \<and> p_last_seen p = toy_now"
proof -
  let ?S = "toy_settings\<lparr>s_mode := ''public''\<rparr>" and ?cc = "hello_conn toy_now 1 toy_remote toy_first"
  let ?I = "node_identity_linux id (\<lambda>_ :: unit. None) toy_machine_keys (\<lambda>_. False) (Setup_Node.toy_cmd ''GPU-1'')"
  obtain n where n: "?I = Some n" "ni_key n = CHR ''k''"
    by (simp add: node_identity_linux_def linux_tpm_none DeriveNodeIdentity_def identity_from_def derivePrivateKey_def toy_machine_keys_def)
  have k: "address_hex toy_eth (replicate 20 CHR ''k'') = drop 2 toy_node" by code_simp
  have a: "ni_address n = drop 2 toy_node"
    using n(1) k by (auto simp: node_identity_linux_def linux_tpm_none DeriveNodeIdentity_def identity_from_def derivePrivateKey_def toy_machine_keys_def)
  have h: "\<forall>k. is_hex_address (ev_eth toy_env) (ko_address toy_machine_keys k) \<and>
      hex_to_address (ev_eth toy_env) (ko_address toy_machine_keys k) = pubkey_to_address (ev_eth toy_env) (public_key (ev_eth toy_env) k)"
    by (simp add: toy_machine_keys_def toy_env_def toy_eth_def has_prefix_def trim_prefix_def)
  have t: "m_type toy_register = TypeRegister" "m_full_sync toy_register" "m_timestamp_ms toy_register = 1700000001000"
    by (simp_all add: toy_register_def)
  have c: "m_id toy_first = toy_node" by (simp add: toy_first_def)
  have g: "Sign (ev_eth toy_env) n (node_digest toy_env toy_register) = Some (m_signature toy_register)"
    using n(2) by (simp add: Sign_def toy_env_def toy_eth_def toy_register_def)
  have p: "\<not> modeProtected (s_mode ?S)" by (simp add: modeProtected_def) code_simp
  have r: "m_id toy_register = ''P'' @ '':'' @ ni_address n" unfolding a by code_simp
  have "\<exists>p. mget (st_proxies (handleFrame toy_env ?S toy_now ?cc toy_register RV_Registry.NewServer)) (nodeKey (m_id toy_register)) = Some p \<and>
      p_last_seen p = toy_now"
    using identity_registers [of id "\<lambda>_ :: unit. None" toy_machine_keys undefined "Setup_Node.toy_cmd ''GPU-1''" n "\<lambda>_. False" toy_env toy_register "''P''" toy_now ?S ?cc RV_Registry.NewServer,
        OF disjI2 [OF n(1)] toy_eth_signs h t(1,2) r _ g] p t(3) by (auto simp: int64_ok_def c)
  then show ?thesis using n(1) a by simp
qed

end
